(* ===== verification/Trove_Prelude.thy ===== *)
theory Trove_Prelude
  imports Complex_Main "HOL-Library.List_Lexorder" "HOL-Library.Char_ord" "HOL-Library.Word"
begin

section \<open>Shared vocabulary of the csaf-trove model\<close>

text \<open>
  This theory holds what the components share: the string operations of the Rust standard
  library that the server uses (on UTF-8 byte strings, so that the order of strings is the byte
  order used by Rust and by SQLite's BINARY collation), the \<open>as i64\<close> / \<open>as u64\<close> casts,
  \<open>slice::chunks\<close>, loops that stop at the first error, and the cursor loop
  (\<open>loop { batch = ...; if batch.is_empty() { break } ...; cursor = last }\<close>) together with
  the interface \<open>keyset_pages\<close> that makes such a loop terminate.
\<close>

named_theorems trove_str \<open>evaluation of the string operations\<close>
named_theorems trove_loop \<open>equations of the error loops\<close>

subsection \<open>Strings\<close>

text \<open>\<open>str::starts_with\<close>, \<open>str::strip_prefix\<close>, \<open>str::ends_with\<close>,
  \<open>str::strip_suffix\<close>.\<close>

definition starts_with :: "'a list \<Rightarrow> 'a list \<Rightarrow> bool" where
  "starts_with s p \<longleftrightarrow> take (length p) s = p"

definition strip_prefix :: "'a list \<Rightarrow> 'a list \<Rightarrow> 'a list option" where
  "strip_prefix p s = (if starts_with s p then Some (drop (length p) s) else None)"

definition ends_with :: "'a list \<Rightarrow> 'a list \<Rightarrow> bool" where
  "ends_with s p \<longleftrightarrow> starts_with (rev s) (rev p)"

definition strip_suffix :: "'a list \<Rightarrow> 'a list \<Rightarrow> 'a list option" where
  "strip_suffix p s = (if ends_with s p then Some (take (length s - length p) s) else None)"

lemma starts_with_iff: "starts_with s p \<longleftrightarrow> (\<exists>r. s = p @ r)"
  unfolding starts_with_def by (metis append_eq_conv_conj append_take_drop_id)

lemma starts_with_append [simp]: "starts_with (p @ r) p"
  by (simp add: starts_with_def)

lemma ends_with_iff: "ends_with s p \<longleftrightarrow> (\<exists>r. s = r @ p)"
  unfolding ends_with_def starts_with_iff
  by (metis rev_append rev_rev_ident)

lemma ends_with_append [simp]: "ends_with (r @ p) p"
  by (auto simp: ends_with_iff)

lemma strip_prefix_Some [simp]: "strip_prefix p s = Some r \<longleftrightarrow> s = p @ r"
  by (auto simp: strip_prefix_def starts_with_iff)

lemma strip_suffix_Some [simp]: "strip_suffix p s = Some r \<longleftrightarrow> s = r @ p"
  by (auto simp: strip_suffix_def ends_with_iff)

lemma strip_suffix_None: "strip_suffix p s = None \<longleftrightarrow> \<not> ends_with s p"
  by (simp add: strip_suffix_def)

lemma strip_prefix_None: "strip_prefix p s = None \<longleftrightarrow> \<not> starts_with s p"
  by (simp add: strip_prefix_def)

text \<open>\<open>trim_start_matches(c)\<close>, \<open>trim_end_matches(c)\<close> for a character, and
  \<open>trim_end_matches(p)\<close> for a string pattern, which is removed as often as it occurs.\<close>

definition trim_start_char :: "'a \<Rightarrow> 'a list \<Rightarrow> 'a list" where
  "trim_start_char c s = dropWhile (\<lambda>x. x = c) s"

definition trim_end_char :: "'a \<Rightarrow> 'a list \<Rightarrow> 'a list" where
  "trim_end_char c s = rev (dropWhile (\<lambda>x. x = c) (rev s))"

function trim_end_str :: "'a list \<Rightarrow> 'a list \<Rightarrow> 'a list" where
  "trim_end_str p s =
     (if p \<noteq> [] \<and> ends_with s p then trim_end_str p (take (length s - length p) s) else s)"
  by pat_completeness auto
termination
  by (relation "measure (\<lambda>(p, s). length s)") (auto simp: ends_with_iff)

declare trim_end_str.simps [simp del]

lemma trim_end_str_idle [simp]: "\<not> ends_with s p \<Longrightarrow> trim_end_str p s = s"
  by (simp add: trim_end_str.simps)

lemma trim_end_str_append [simp]: "p \<noteq> [] \<Longrightarrow> trim_end_str p (r @ p) = trim_end_str p r"
  by (subst trim_end_str.simps) simp

lemma trim_end_char_append_other [simp]: "x \<noteq> c \<Longrightarrow> trim_end_char c (s @ [x]) = s @ [x]"
  by (simp add: trim_end_char_def)

lemma trim_end_char_append_same [simp]: "trim_end_char c (s @ [c]) = trim_end_char c s"
  by (simp add: trim_end_char_def)

lemma trim_end_char_Nil [simp]: "trim_end_char c [] = []"
  by (simp add: trim_end_char_def)

lemma trim_end_char_last: "trim_end_char c s \<noteq> [] \<Longrightarrow> last (trim_end_char c s) \<noteq> c"
  by (induction s rule: rev_induct) (auto simp: trim_end_char_def)

lemma trim_end_char_id: "s = [] \<or> last s \<noteq> c \<Longrightarrow> trim_end_char c s = s"
  by (induction s rule: rev_induct) (auto simp: trim_end_char_def)

lemma set_trim_end_char: "set (trim_end_char c s) \<subseteq> set s"
  unfolding trim_end_char_def using set_dropWhileD by fastforce

text \<open>\<open>s.rsplit(c).next()\<close>: the part after the last \<open>c\<close>, or the whole string.\<close>

definition after_last :: "'a \<Rightarrow> 'a list \<Rightarrow> 'a list" where
  "after_last c s = rev (takeWhile (\<lambda>x. x \<noteq> c) (rev s))"

lemma after_last_no_sep: "c \<notin> set (after_last c s)"
  unfolding after_last_def by (metis (mono_tags, lifting) set_rev set_takeWhileD)

lemma after_last_append: "c \<notin> set t \<Longrightarrow> after_last c (s @ c # t) = t"
proof -
  assume "c \<notin> set t"
  then have "takeWhile (\<lambda>x. x \<noteq> c) (rev t @ c # rev s) = rev t"
    by (subst takeWhile_append2) auto
  then show ?thesis by (simp add: after_last_def)
qed

text \<open>\<open>s.split_once(c)\<close>.\<close>

definition split_once :: "'a \<Rightarrow> 'a list \<Rightarrow> ('a list \<times> 'a list) option" where
  "split_once c s = (let a = takeWhile (\<lambda>x. x \<noteq> c) s in
     if length a < length s then Some (a, drop (Suc (length a)) s) else None)"

lemma split_once_Some: "split_once c s = Some (a, b) \<Longrightarrow> s = a @ c # b \<and> c \<notin> set a"
proof -
  assume h: "split_once c s = Some (a, b)"
  then have a: "a = takeWhile (\<lambda>x. x \<noteq> c) s" and l: "length a < length s"
    and b: "b = drop (Suc (length a)) s"
    by (auto simp: split_once_def Let_def split: if_splits)
  have "s ! length a = c" using nth_length_takeWhile [of "\<lambda>x. x \<noteq> c" s] a l by simp
  then have "s = a @ c # b"
    using a b l by (metis Cons_nth_drop_Suc append_take_drop_id takeWhile_eq_take)
  moreover have "c \<notin> set a" using a by (auto dest: set_takeWhileD)
  ultimately show ?thesis by simp
qed

text \<open>\<open>str::split\<close> on one character: the segments between its occurrences.\<close>

fun split_on :: "'a \<Rightarrow> 'a list \<Rightarrow> 'a list list" where
  "split_on c [] = [[]]"
| "split_on c (x # xs) =
     (if x = c then [] # split_on c xs
      else (case split_on c xs of [] \<Rightarrow> [[x]] | y # ys \<Rightarrow> (x # y) # ys))"

definition join_on :: "'a \<Rightarrow> 'a list list \<Rightarrow> 'a list" where
  "join_on c xss = concat (case xss of [] \<Rightarrow> [] | y # ys \<Rightarrow> y # map (\<lambda>z. c # z) ys)"

lemma split_on_nonempty [simp]: "split_on c xs \<noteq> []"
  by (induction xs) (auto split: list.splits)

lemma split_on_append: "split_on c (a @ c # b) = split_on c a @ split_on c b"
  by (induction a) (auto split: list.splits)

lemma join_split_on: "join_on c (split_on c xs) = xs"
  by (induction xs) (auto simp: join_on_def split: list.splits)

subsection \<open>Casts between \<open>u64\<close> and \<open>i64\<close>\<close>

text \<open>
  Counters are \<open>u64\<close> in Rust and INTEGER (\<open>i64\<close>) columns in SQLite; \<open>as\<close> reinterprets
  the 64 bits. They are \<open>nat\<close> and \<open>int\<close> here with the reinterpretation written out.
\<close>

definition as_i64 :: "nat \<Rightarrow> int" where
  "as_i64 n = signed_take_bit 63 (int n)"

definition as_u64 :: "int \<Rightarrow> nat" where
  "as_u64 i = nat (take_bit 64 i)"

definition as_i32 :: "nat \<Rightarrow> int" where
  "as_i32 n = signed_take_bit 31 (int n)"

definition as_u32 :: "int \<Rightarrow> nat" where
  "as_u32 i = nat (take_bit 32 i)"

lemma as_u32_as_i32 [simp]: "n < 2 ^ 32 \<Longrightarrow> as_u32 (as_i32 n) = n"
proof -
  assume n: "n < 2 ^ 32"
  have "take_bit 32 (signed_take_bit 31 (int n)) = take_bit 32 (int n)"
    by (simp add: take_bit_signed_take_bit)
  also have "\<dots> = int n" using n by (simp add: take_bit_int_eq_self)
  finally show ?thesis by (simp add: as_u32_def as_i32_def)
qed

lemma as_u64_as_i64 [simp]: "n < 2 ^ 64 \<Longrightarrow> as_u64 (as_i64 n) = n"
proof -
  assume n: "n < 2 ^ 64"
  have "take_bit 64 (signed_take_bit 63 (int n)) = take_bit 64 (int n)"
    by (simp add: take_bit_signed_take_bit)
  also have "\<dots> = int n" using n by (simp add: take_bit_int_eq_self)
  finally show ?thesis by (simp add: as_u64_def as_i64_def)
qed

lemma as_i64_small: "n < 2 ^ 63 \<Longrightarrow> as_i64 n = int n"
  by (simp add: as_i64_def signed_take_bit_int_eq_self)

lemma as_i64_large: "2 ^ 63 \<le> n \<Longrightarrow> n < 2 ^ 64 \<Longrightarrow> as_i64 n < 0"
proof -
  assume n: "2 ^ 63 \<le> n" "n < 2 ^ 64"
  have "bit (int n) 63"
  proof -
    have "n div 2 ^ 63 = 1" using n by (simp add: div_nat_eqI)
    then have "bit n 63" by (simp add: bit_iff_odd)
    then show ?thesis by (simp add: bit_of_nat_iff)
  qed
  then show ?thesis by (simp add: as_i64_def)
qed

subsection \<open>Loops that stop at the first error\<close>

fun fold_res :: "('a \<Rightarrow> 's \<Rightarrow> 'e + 's) \<Rightarrow> 'a list \<Rightarrow> 's \<Rightarrow> 'e + 's" where
  "fold_res f [] s = Inr s"
| "fold_res f (x # xs) s = (case f x s of Inl e \<Rightarrow> Inl e | Inr s' \<Rightarrow> fold_res f xs s')"

lemma fold_res_append [trove_loop]:
  "fold_res f (xs @ ys) s = (case fold_res f xs s of Inl e \<Rightarrow> Inl e | Inr s' \<Rightarrow> fold_res f ys s')"
  by (induction xs arbitrary: s) (auto split: sum.splits)

lemma fold_res_total [trove_loop]: "fold_res (\<lambda>x s. Inr (g x s)) xs s = Inr (fold g xs s)"
  by (induction xs arbitrary: s) auto

text \<open>A property of the elements done so far and the state holds at the end of a loop that succeeds.\<close>

lemma fold_res_prefix:
  assumes "fold_res f xs s = Inr s'" and "P [] s"
    and "\<And>ys x zs s s'. xs = ys @ x # zs \<Longrightarrow> P ys s \<Longrightarrow> f x s = Inr s' \<Longrightarrow> P (ys @ [x]) s'"
  shows "P xs s'"
proof -
  have "fold_res f zs s = Inr s' \<Longrightarrow> P ys s \<Longrightarrow> xs = ys @ zs \<Longrightarrow> P xs s'" for ys zs s
  proof (induction zs arbitrary: ys s)
    case (Cons z zs)
    obtain s1 where s1: "f z s = Inr s1" "fold_res f zs s1 = Inr s'"
      using Cons.prems(1) by (auto split: sum.splits)
    show ?case
      by (rule Cons.IH [OF s1(2), of "ys @ [z]"])
        (use assms(3) [OF Cons.prems(3,2) s1(1)] Cons.prems(3) in simp_all)
  qed simp
  from this [of xs s "[]"] show ?thesis using assms(1,2) by simp
qed

fun map_res :: "('a \<Rightarrow> 'e + 'b) \<Rightarrow> 'a list \<Rightarrow> 'e + 'b list" where
  "map_res f [] = Inr []"
| "map_res f (x # xs) = (case f x of Inl e \<Rightarrow> Inl e
     | Inr y \<Rightarrow> (case map_res f xs of Inl e \<Rightarrow> Inl e | Inr ys \<Rightarrow> Inr (y # ys)))"

lemma map_res_total [trove_loop]: "map_res (\<lambda>x. Inr (g x)) xs = Inr (map g xs)"
  by (induction xs) auto

text \<open>The same loop where the state reached before an error matters.\<close>

fun fold_try :: "('a \<Rightarrow> 's \<Rightarrow> 's \<times> 'e option) \<Rightarrow> 'a list \<Rightarrow> 's \<Rightarrow> 's \<times> 'e option" where
  "fold_try f [] s = (s, None)"
| "fold_try f (x # xs) s = (case f x s of (s', Some e) \<Rightarrow> (s', Some e) | (s', None) \<Rightarrow> fold_try f xs s')"

lemma fold_try_inv:
  assumes "\<And>x s. P s \<Longrightarrow> P (fst (f x s))" and "P s"
  shows "P (fst (fold_try f xs s))"
  using assms(2)
proof (induction xs arbitrary: s)
  case (Cons x xs)
  then show ?case using assms(1) [OF Cons.prems, of x] by (auto split: prod.split option.split)
qed simp

lemma fold_try_prefix:
  assumes "fold_try f xs s = (s', None)" and "P [] s"
    and "\<And>ys x zs s s'. xs = ys @ x # zs \<Longrightarrow> P ys s \<Longrightarrow> f x s = (s', None) \<Longrightarrow> P (ys @ [x]) s'"
  shows "P xs s'"
proof -
  have "fold_try f zs s = (s', None) \<Longrightarrow> P ys s \<Longrightarrow> xs = ys @ zs \<Longrightarrow> P xs s'" for ys zs s
  proof (induction zs arbitrary: ys s)
    case (Cons z zs)
    obtain s1 where s1: "f z s = (s1, None)" "fold_try f zs s1 = (s', None)"
      using Cons.prems(1) by (auto split: prod.splits option.splits)
    show ?case
      by (rule Cons.IH [OF s1(2), of "ys @ [z]"])
        (use assms(3) [OF Cons.prems(3,2) s1(1)] Cons.prems(3) in simp_all)
  qed simp
  from this [of xs s "[]"] show ?thesis using assms(1,2) by simp
qed

subsection \<open>Searching lists\<close>

lemma find_distinct:
  "distinct (map k xs) \<Longrightarrow> x \<in> set xs \<Longrightarrow> find (\<lambda>y. k y = k x) xs = Some x"
  by (induction xs) force+

lemma find_None: "find P xs = None \<longleftrightarrow> (\<forall>x \<in> set xs. \<not> P x)"
  by (induction xs) auto

lemma find_SomeD: "find P xs = Some x \<Longrightarrow> x \<in> set xs \<and> P x"
  by (induction xs) (auto split: if_splits)

lemma find_append: "find P (xs @ ys) = (case find P xs of Some x \<Rightarrow> Some x | None \<Rightarrow> find P ys)"
  by (induction xs) auto

text \<open>\<open>slice::chunks\<close>.\<close>

function chunks :: "nat \<Rightarrow> 'a list \<Rightarrow> 'a list list" where
  "chunks n xs = (if xs = [] \<or> n = 0 then [] else take n xs # chunks n (drop n xs))"
  by pat_completeness auto
termination
  by (relation "measure (\<lambda>(n, xs). length xs)") auto

declare chunks.simps [simp del]

lemma chunks_Nil [simp]: "chunks n [] = []"
  by (simp add: chunks.simps)

lemma chunks_step: "xs \<noteq> [] \<Longrightarrow> 0 < n \<Longrightarrow> chunks n xs = take n xs # chunks n (drop n xs)"
  by (subst chunks.simps) simp

lemma concat_chunks [simp]: "0 < n \<Longrightarrow> concat (chunks n xs) = xs"
proof (induction n xs rule: chunks.induct)
  case (1 n xs)
  then show ?case by (cases "xs = []") (simp_all add: chunks_step)
qed

lemma chunks_bound: "c \<in> set (chunks n xs) \<Longrightarrow> c \<noteq> [] \<and> length c \<le> n"
proof (induction n xs rule: chunks.induct)
  case (1 n xs)
  show ?case
  proof (cases "xs = [] \<or> n = 0")
    case True
    with "1.prems" show ?thesis by (simp add: chunks.simps)
  next
    case False
    with "1" show ?thesis by (auto simp: chunks_step)
  qed
qed

lemma fold_chunks [trove_loop]:
  assumes hom: "\<And>xs ys s. g (xs @ ys) s = g ys (g xs s)" and nil: "\<And>s. g [] s = s" and n: "0 < n"
  shows "fold g (chunks n xs) s = g xs s"
proof -
  have "fold g yss s = g (concat yss) s" for yss
    by (induction yss arbitrary: s) (simp_all add: hom nil)
  then show ?thesis using n by simp
qed

lemma fold_res_chunks [trove_loop]:
  assumes hom: "\<And>xs ys s. f (xs @ ys) s = (case f xs s of Inl e \<Rightarrow> Inl e | Inr s' \<Rightarrow> f ys s')"
    and nil: "\<And>s. f [] s = Inr s" and n: "0 < n"
  shows "fold_res f (chunks n xs) s = f xs s"
proof -
  have "fold_res f yss s = f (concat yss) s" for yss
    by (induction yss arbitrary: s) (simp_all add: hom nil split: sum.split)
  then show ?thesis using n by simp
qed

subsection \<open>Cursor loops\<close>

text \<open>
  The server reads large ordered sets in pages after an exclusive cursor, in three places
  (changed paths, deleted URLs, URLs with retrieval errors). The loop is the same each time;
  \<open>None\<close> stands for a loop that does not end, \<open>Inl\<close> for one whose body fails.
\<close>

partial_function (option) page_loop ::
  "('k \<Rightarrow> 'k list) \<Rightarrow> ('k list \<Rightarrow> 's \<Rightarrow> 'e + 's) \<Rightarrow> 'k \<Rightarrow> 's \<Rightarrow> ('e + 's) option" where
  "page_loop batch body c s =
     (case batch c of
        [] \<Rightarrow> Some (Inr s)
      | p # ps \<Rightarrow> (case body (p # ps) s of
            Inl e \<Rightarrow> Some (Inl e)
          | Inr s' \<Rightarrow> page_loop batch body (last (p # ps)) s'))"

lemma filter_after_page:
  fixes ks :: "'k::linorder list"
  assumes sorted: "sorted_wrt (<) ks" and ne: "take n ks \<noteq> []"
  shows "filter (\<lambda>k. last (take n ks) < k) ks = drop n ks"
proof -
  have split: "ks = take n ks @ drop n ks" by simp
  have le: "k \<le> last (take n ks)" if "k \<in> set (take n ks)" for k
  proof -
    have "sorted_wrt (<) (butlast (take n ks) @ [last (take n ks)])"
      using sorted ne by (simp add: sorted_wrt_take)
    then have "\<forall>x \<in> set (butlast (take n ks)). x < last (take n ks)"
      by (simp add: sorted_wrt_append)
    moreover have "k \<in> set (butlast (take n ks)) \<or> k = last (take n ks)"
      using that ne by (metis append_butlast_last_id in_set_conv_decomp rotate1.simps(2) set_ConsD set_rotate1)
    ultimately show ?thesis by auto
  qed
  have gt: "last (take n ks) < k" if "k \<in> set (drop n ks)" for k
  proof -
    have "sorted_wrt (<) (take n ks @ drop n ks)" using sorted by simp
    then have "\<forall>x \<in> set (take n ks). \<forall>y \<in> set (drop n ks). x < y"
      unfolding sorted_wrt_append by blast
    then show ?thesis using that last_in_set [OF ne] by blast
  qed
  have "filter (\<lambda>k. last (take n ks) < k) (take n ks) = []"
    using le by (auto simp: filter_empty_conv not_less)
  moreover have "filter (\<lambda>k. last (take n ks) < k) (drop n ks) = drop n ks"
    using gt by (simp add: filter_id_conv)
  ultimately show ?thesis by (metis append.left_neutral filter_append split)
qed

text \<open>
  What a provider of such pages promises: pages of at most \<open>page\<close> keys, in order, after the
  cursor, out of the keys of its state.
\<close>

locale keyset_pages =
  fixes batch :: "'st \<Rightarrow> 'k::linorder \<Rightarrow> 'k list"
    and keys :: "'st \<Rightarrow> 'k list"
    and invar :: "'st \<Rightarrow> bool"
    and page :: nat
  assumes page_pos: "0 < page"
    and keys_sorted: "invar st \<Longrightarrow> sorted_wrt (<) (keys st)"
    and batch_eq: "invar st \<Longrightarrow> batch st c = take page (filter (\<lambda>k. c < k) (keys st))"
begin

lemma loop_suffix:
  assumes inv: "invar st"
  shows "filter (\<lambda>k. c < k) (keys st) = ks \<Longrightarrow>
    page_loop (batch st) body c s = Some (fold_res body (chunks page ks) s)"
proof (induction "length ks" arbitrary: c s ks rule: less_induct)
  case less
  show ?case
  proof (cases "ks = []")
    case True
    then show ?thesis using less.prems inv by (subst page_loop.simps) (simp add: batch_eq)
  next
    case False
    then have b: "batch st c = take page ks" and ne: "take page ks \<noteq> []"
      using less.prems inv page_pos by (simp_all add: batch_eq)
    have sorted_ks: "sorted_wrt (<) ks"
      using less.prems keys_sorted [OF inv] sorted_wrt_filter by blast
    have above: "c < last (take page ks)"
      using less.prems ne last_in_set [OF ne] in_set_takeD by fastforce
    have "filter (\<lambda>k. last (take page ks) < k) (keys st)
        = filter (\<lambda>k. last (take page ks) < k) ks"
      using above unfolding less.prems [symmetric] filter_filter
      by (intro filter_cong) auto
    also have "\<dots> = drop page ks" by (rule filter_after_page [OF sorted_ks ne])
    finally have rest: "filter (\<lambda>k. last (take page ks) < k) (keys st) = drop page ks" .
    have shorter: "length (drop page ks) < length ks" using False page_pos by simp
    obtain p ps where pp: "take page ks = p # ps" using ne by (cases "take page ks") auto
    have IH: "page_loop (batch st) body (last (p # ps)) s'
        = Some (fold_res body (chunks page (drop page ks)) s')" for s'
      using less.hyps [OF shorter rest] pp by simp
    show ?thesis
      using b pp IH False page_pos
      by (subst page_loop.simps) (simp add: chunks_step split: sum.splits del: last.simps)
  qed
qed

text \<open>The loop ends and feeds every key after the start cursor to the body, in order.\<close>

lemma page_loop_returns:
  "invar st \<Longrightarrow> page_loop (batch st) body c s
     = Some (fold_res body (chunks page (filter (\<lambda>k. c < k) (keys st))) s)"
  by (rule loop_suffix) simp_all

text \<open>A body that works page by page as it works on the whole makes the paging invisible.\<close>

lemma page_loop_whole:
  assumes "invar st"
    and "\<And>xs ys s. body (xs @ ys) s = (case body xs s of Inl e \<Rightarrow> Inl e | Inr s' \<Rightarrow> body ys s')"
    and "\<And>s. body [] s = Inr s"
  shows "page_loop (batch st) body c s = Some (body (filter (\<lambda>k. c < k) (keys st)) s)"
  unfolding page_loop_returns [OF assms(1)]
  by (simp only: fold_res_chunks [of body, OF assms(2,3) page_pos])

end

lemma Nil_less_string [simp]: "([] < (s :: string)) \<longleftrightarrow> s \<noteq> []"
  by (cases s) auto

lemma filter_after_empty [simp]:
  "[] \<notin> set ks \<Longrightarrow> filter (\<lambda>k. k \<noteq> []) ks = ks"
  "[] \<notin> set ss \<Longrightarrow> filter ((<) ([] :: string)) ss = ss"
  by (induction ks, auto) (induction ss, auto)

lemmas trove_cases = option.splits sum.splits list.splits prod.splits

end
