(* ===== verification/Check_Outcomes.thy ===== *)
theory Check_Outcomes
  imports Trove_Prelude
begin

section \<open>Essential document checks\<close>

text \<open>
  \<open>common/src/document_checks.rs\<close>: the outcome of the four essential stages of a document
  (retrieval, parsing, OpenPGP signature, digest), the counters kept for summaries, and the
  additions on them. The counters are \<open>u64\<close> in Rust; they count documents and stay far below
  \<open>2 ^ 64\<close>, so they are natural numbers here.
\<close>

datatype check_status = Passed | Failed | Warning | Missing | NotEvaluated

text \<open>\<open>#[serde(rename_all = "snake_case")]\<close>: the text stored in the database.\<close>

fun status_text :: "check_status \<Rightarrow> string" where
  "status_text Passed = ''passed''"
| "status_text Failed = ''failed''"
| "status_text Warning = ''warning''"
| "status_text Missing = ''missing''"
| "status_text NotEvaluated = ''not_evaluated''"

lemma status_text_inj [simp]: "status_text a = status_text b \<longleftrightarrow> a = b"
  by (cases a; cases b) simp_all

record check_detail =
  cd_label :: string
  cd_value :: string

record check_outcome =
  co_status :: check_status
  co_message :: "string option"
  co_details :: "check_detail list"

definition outcome_new :: "check_status \<Rightarrow> check_outcome" where
  "outcome_new st = \<lparr>co_status = st, co_message = None, co_details = []\<rparr>"

definition outcome_failed :: "string \<Rightarrow> check_outcome" where
  "outcome_failed m = \<lparr>co_status = Failed, co_message = Some m, co_details = []\<rparr>"

definition outcome_default :: check_outcome where
  "outcome_default = outcome_new NotEvaluated"

record 'a document_checks =
  dc_retrieval :: 'a
  dc_parsing :: 'a
  dc_signature :: 'a
  dc_digest :: 'a

type_synonym doc_checks = "check_outcome document_checks"

definition checks_default :: doc_checks where
  "checks_default = \<lparr>dc_retrieval = outcome_default, dc_parsing = outcome_default,
     dc_signature = outcome_default, dc_digest = outcome_default\<rparr>"

record check_counts =
  cc_passed :: nat
  cc_failed :: nat
  cc_warning :: nat
  cc_missing :: nat
  cc_not_evaluated :: nat

type_synonym check_summary = "check_counts document_checks"

definition counts_default :: check_counts where
  "counts_default = \<lparr>cc_passed = 0, cc_failed = 0, cc_warning = 0, cc_missing = 0,
     cc_not_evaluated = 0\<rparr>"

definition issues :: "check_counts \<Rightarrow> nat" where
  "issues c = cc_failed c + cc_warning c + cc_missing c"

fun counts_add :: "check_counts \<Rightarrow> check_status \<Rightarrow> nat \<Rightarrow> check_counts" where
  "counts_add c Passed n = c\<lparr>cc_passed := cc_passed c + n\<rparr>"
| "counts_add c Failed n = c\<lparr>cc_failed := cc_failed c + n\<rparr>"
| "counts_add c Warning n = c\<lparr>cc_warning := cc_warning c + n\<rparr>"
| "counts_add c Missing n = c\<lparr>cc_missing := cc_missing c + n\<rparr>"
| "counts_add c NotEvaluated n = c\<lparr>cc_not_evaluated := cc_not_evaluated c + n\<rparr>"

definition counts_merge :: "check_counts \<Rightarrow> check_counts \<Rightarrow> check_counts" where
  "counts_merge a b = \<lparr>cc_passed = cc_passed a + cc_passed b,
     cc_failed = cc_failed a + cc_failed b, cc_warning = cc_warning a + cc_warning b,
     cc_missing = cc_missing a + cc_missing b,
     cc_not_evaluated = cc_not_evaluated a + cc_not_evaluated b\<rparr>"

definition summary_default :: check_summary where
  "summary_default = \<lparr>dc_retrieval = counts_default, dc_parsing = counts_default,
     dc_signature = counts_default, dc_digest = counts_default\<rparr>"

definition total_issues :: "check_summary \<Rightarrow> nat" where
  "total_issues s = issues (dc_retrieval s) + issues (dc_parsing s)
     + issues (dc_signature s) + issues (dc_digest s)"

definition summary_merge :: "check_summary \<Rightarrow> check_summary \<Rightarrow> check_summary" where
  "summary_merge a b = \<lparr>dc_retrieval = counts_merge (dc_retrieval a) (dc_retrieval b),
     dc_parsing = counts_merge (dc_parsing a) (dc_parsing b),
     dc_signature = counts_merge (dc_signature a) (dc_signature b),
     dc_digest = counts_merge (dc_digest a) (dc_digest b)\<rparr>"

subsection \<open>Counting\<close>

text \<open>One counter read by status, and the number of documents counted in all.\<close>

fun count_of :: "check_counts \<Rightarrow> check_status \<Rightarrow> nat" where
  "count_of c Passed = cc_passed c"
| "count_of c Failed = cc_failed c"
| "count_of c Warning = cc_warning c"
| "count_of c Missing = cc_missing c"
| "count_of c NotEvaluated = cc_not_evaluated c"

definition count_total :: "check_counts \<Rightarrow> nat" where
  "count_total c = cc_passed c + cc_failed c + cc_warning c + cc_missing c + cc_not_evaluated c"

lemma counts_eqI: "(\<And>st. count_of a st = count_of b st) \<Longrightarrow> a = (b :: check_counts)"
  by (rule check_counts.equality)
    (metis count_of.simps unit.exhaust)+

lemma count_of_default [simp]: "count_of counts_default st = 0"
  by (cases st) (simp_all add: counts_default_def)

lemma count_of_add [simp]:
  "count_of (counts_add c st n) t = count_of c t + (if st = t then n else 0)"
  by (cases st; cases t) simp_all

lemma count_of_merge [simp]: "count_of (counts_merge a b) st = count_of a st + count_of b st"
  by (cases st) (simp_all add: counts_merge_def)

lemma counts_add_commute: "counts_add (counts_add c s m) t n = counts_add (counts_add c t n) s m"
  by (rule counts_eqI) simp

lemma counts_merge_commute: "counts_merge a b = counts_merge b a"
  by (rule counts_eqI) simp

lemma counts_merge_assoc: "counts_merge (counts_merge a b) c = counts_merge a (counts_merge b c)"
  by (rule counts_eqI) simp

lemma counts_merge_default [simp]:
  "counts_merge a counts_default = a" "counts_merge counts_default a = a"
  by (rule counts_eqI; simp)+

lemma count_total_add [simp]: "count_total (counts_add c st n) = count_total c + n"
  by (cases st) (simp_all add: count_total_def)

lemma count_total_merge [simp]: "count_total (counts_merge a b) = count_total a + count_total b"
  by (simp add: count_total_def counts_merge_def)

lemma issues_merge [simp]: "issues (counts_merge a b) = issues a + issues b"
  by (simp add: issues_def counts_merge_def)

lemma issues_default [simp]: "issues counts_default = 0"
  by (simp add: issues_def counts_default_def)

lemma total_issues_merge [simp]: "total_issues (summary_merge a b) = total_issues a + total_issues b"
  by (simp add: total_issues_def summary_merge_def)

lemma total_issues_default [simp]: "total_issues summary_default = 0"
  by (simp add: total_issues_def summary_default_def)

text \<open>Adding documents with their outcomes one by one, all four stages at once.\<close>

definition summary_add :: "check_status document_checks \<Rightarrow> nat \<Rightarrow> check_summary \<Rightarrow> check_summary" where
  "summary_add d n s = \<lparr>dc_retrieval = counts_add (dc_retrieval s) (dc_retrieval d) n,
     dc_parsing = counts_add (dc_parsing s) (dc_parsing d) n,
     dc_signature = counts_add (dc_signature s) (dc_signature d) n,
     dc_digest = counts_add (dc_digest s) (dc_digest d) n\<rparr>"

definition statuses :: "doc_checks \<Rightarrow> check_status document_checks" where
  "statuses d = \<lparr>dc_retrieval = co_status (dc_retrieval d), dc_parsing = co_status (dc_parsing d),
     dc_signature = co_status (dc_signature d), dc_digest = co_status (dc_digest d)\<rparr>"

lemma summary_add_commute: "summary_add d m (summary_add e n s) = summary_add e n (summary_add d m s)"
  by (simp add: summary_add_def counts_add_commute)

lemma counts_add_twice: "counts_add (counts_add c st m) st n = counts_add c st (m + n)"
  by (rule counts_eqI) simp

lemma summary_add_twice: "summary_add d m (summary_add d n s) = summary_add d (m + n) s"
  by (simp add: summary_add_def counts_add_twice add.commute)

lemma counts_add_zero [simp]: "counts_add c st 0 = c"
  by (rule counts_eqI) simp

lemma summary_add_zero [simp]: "summary_add d 0 s = s"
  by (simp add: summary_add_def)

end
