(* ===== verification/Provider_Sources.thy ===== *)
theory Provider_Sources
  imports Trove_Prelude
begin

section \<open>Provider sources, storage keys and the aggregator listing\<close>

text \<open>
  \<open>server/src/models/source.rs\<close> (the configured sources and the filesystem key derived from a
  provider's domain), \<open>ProviderKey\<close> of \<open>server/src/storage/provider.rs\<close>, and
  \<open>server/src/pipeline/aggregator.rs\<close> with \<open>models/aggregator.rs\<close> (which providers
  appear in \<open>aggregator.json\<close>). Strings are byte strings; \<open>'/'\<close>, \<open>':'\<close> and
  \<open>'-'\<close> are single bytes in UTF-8, so the character loop of \<open>sanitize_domain\<close> may run
  over bytes.
\<close>

record source =
  src_domain :: string
  src_enabled :: bool
  src_accept_v3_signatures :: bool
  src_retries :: "nat option"
  src_aggregator_include :: "bool option"
  src_skip_directories :: "string list"
  src_note :: "string option"
  src_user_agent :: "string option"

subsection \<open>Storage keys\<close>

fun sanitize_loop :: "string \<Rightarrow> string \<Rightarrow> bool \<Rightarrow> string" where
  "sanitize_loop [] result prev_dash = result"
| "sanitize_loop (c # cs) result prev_dash =
     (if c = CHR ''/'' \<or> c = CHR '':'' then
        (if \<not> prev_dash \<and> result \<noteq> [] then sanitize_loop cs (result @ ''-'') True
         else sanitize_loop cs result prev_dash)
      else sanitize_loop cs (result @ [c]) False)"

definition strip_scheme :: "string \<Rightarrow> string" where
  "strip_scheme domain =
     (case strip_prefix ''https://'' domain of Some r \<Rightarrow> r
      | None \<Rightarrow> (case strip_prefix ''http://'' domain of Some r \<Rightarrow> r | None \<Rightarrow> domain))"

definition sanitize_domain :: "string \<Rightarrow> string" where
  "sanitize_domain domain = trim_end_char (CHR ''-'') (sanitize_loop (strip_scheme domain) [] False)"

text \<open>\<open>ProviderKey::from\<close> and the paths built from it.\<close>

definition provider_key :: "string \<Rightarrow> string" where
  "provider_key domain = sanitize_domain domain"

definition repo_file :: "string \<Rightarrow> string" where
  "repo_file domain = provider_key domain @ ''.git''"

definition metrics_file :: "string \<Rightarrow> string" where
  "metrics_file domain = provider_key domain @ ''.json''"

abbreviation separator_free :: "string \<Rightarrow> bool" where
  "separator_free s \<equiv> CHR ''/'' \<notin> set s \<and> CHR '':'' \<notin> set s"

lemma sanitize_loop_separators:
  "separator_free result \<Longrightarrow> separator_free (sanitize_loop cs result d)"
  by (induction cs result d rule: sanitize_loop.induct) auto

lemma sanitize_loop_plain: "separator_free cs \<Longrightarrow> sanitize_loop cs result d = result @ cs"
  by (induction cs result d rule: sanitize_loop.induct) auto

lemma sanitize_separator_free: "separator_free (sanitize_domain domain)"
proof -
  have "separator_free (sanitize_loop (strip_scheme domain) [] False)"
    by (rule sanitize_loop_separators) simp
  then show ?thesis
    using set_trim_end_char [of "CHR ''-''" "sanitize_loop (strip_scheme domain) [] False"]
    unfolding sanitize_domain_def by blast
qed

lemma strip_scheme_plain: "separator_free s \<Longrightarrow> strip_scheme s = s"
  by (auto simp: strip_scheme_def strip_prefix_def starts_with_iff split: option.splits)

lemma sanitize_plain: "separator_free s \<Longrightarrow> sanitize_domain s = trim_end_char (CHR ''-'') s"
  by (simp add: sanitize_domain_def strip_scheme_plain sanitize_loop_plain)

lemma sanitize_last: "sanitize_domain d \<noteq> [] \<Longrightarrow> last (sanitize_domain d) \<noteq> CHR ''-''"
  unfolding sanitize_domain_def by (rule trim_end_char_last)

lemma sanitize_idem: "sanitize_domain (sanitize_domain d) = sanitize_domain d"
proof -
  have "sanitize_domain (sanitize_domain d) = trim_end_char (CHR ''-'') (sanitize_domain d)"
    by (rule sanitize_plain [OF sanitize_separator_free])
  also have "\<dots> = sanitize_domain d"
    by (rule trim_end_char_id) (use sanitize_last [of d] in blast)
  finally show ?thesis .
qed

text \<open>
  A provider's storage key (\<open>ProviderKey\<close>) contains neither \<open>'/'\<close> nor \<open>':'\<close>, does
  not end in a dash, and is a fixed point: deriving the key of a key gives the same key, which is
  what lets \<open>ProviderDir::new\<close> accept raw domains and existing keys alike.
\<close>

theorem provider_key_stable:
  "separator_free (provider_key domain)
   \<and> \<not> ends_with (provider_key domain) ''-''
   \<and> provider_key (provider_key domain) = provider_key domain"
  unfolding provider_key_def
  using sanitize_separator_free [of domain] sanitize_last [of domain] sanitize_idem [of domain]
  by (auto simp: ends_with_iff)

text \<open>
  Keys are not injective and not always safe file names: a metadata URL and a plain domain
  can share one key (so two configured sources share repository, database and state), consecutive
  dashes survive when one is in the input, and the domain \<open>..\<close> is its own key.
\<close>

theorem provider_key_collisions:
  "provider_key ''https://example.com/a'' = provider_key ''example.com-a''
   \<and> provider_key ''a-/b'' = ''a--b''
   \<and> provider_key ''..'' = ''..''"
  by (simp add: provider_key_def sanitize_domain_def strip_scheme_def strip_prefix_def
      starts_with_def trim_end_char_def)

subsection \<open>The aggregator document\<close>

datatype aggregator_category = Lister | Aggregator

record aggregator_config =
  ac_category :: aggregator_category
  ac_name :: string
  ac_namespace :: string
  ac_canonical_url :: string
  ac_contact_details :: "string option"
  ac_issuing_authority :: "string option"

record provider_info =
  pi_canonical_url :: string
  pi_publisher_name :: string
  pi_publisher_category :: string
  pi_publisher_namespace :: string
  pi_role :: "string option"
  pi_list_on_aggregators :: bool
  pi_mirror_on_aggregators :: bool
  pi_last_updated :: string

record publisher_ref =
  pr_category :: string
  pr_name :: string
  pr_namespace :: string

record provider_metadata_ref =
  pm_last_updated :: int
  pm_publisher :: publisher_ref
  pm_url :: string
  pm_role :: "string option"

record csaf_provider_entry =
  pe_metadata :: provider_metadata_ref
  pe_mirrors :: "string list option"

record aggregator_info =
  ai_category :: string
  ai_name :: string
  ai_namespace :: string
  ai_contact_details :: "string option"
  ai_issuing_authority :: "string option"

record aggregator_document =
  ad_aggregator :: aggregator_info
  ad_version :: string
  ad_canonical_url :: string
  ad_providers :: "csaf_provider_entry list"
  ad_last_updated :: int

definition should_include ::
  "(string \<rightharpoonup> source) \<Rightarrow> string \<Rightarrow> provider_info \<Rightarrow> aggregator_category \<Rightarrow> bool" where
  "should_include sources domain info category =
     (case Option.bind (sources domain) src_aggregator_include of
        Some incl \<Rightarrow> incl
      | None \<Rightarrow> (case category of
            Lister \<Rightarrow> pi_list_on_aggregators info
          | Aggregator \<Rightarrow> pi_mirror_on_aggregators info))"

text \<open>
  \<open>parse\<close> is \<open>DateTime::parse_from_rfc3339\<close> of the chrono crate, \<open>now\<close> the clock.
\<close>

definition provider_entry :: "(string \<Rightarrow> int option) \<Rightarrow> int \<Rightarrow> provider_info \<Rightarrow> csaf_provider_entry" where
  "provider_entry parse now info = \<lparr>pe_metadata = \<lparr>
       pm_last_updated = (case parse (pi_last_updated info) of Some t \<Rightarrow> t | None \<Rightarrow> now),
       pm_publisher = \<lparr>pr_category = pi_publisher_category info, pr_name = pi_publisher_name info,
         pr_namespace = pi_publisher_namespace info\<rparr>,
       pm_url = pi_canonical_url info,
       pm_role = pi_role info\<rparr>,
     pe_mirrors = None\<rparr>"

fun category_text :: "aggregator_category \<Rightarrow> string" where
  "category_text Lister = ''lister''"
| "category_text Aggregator = ''aggregator''"

text \<open>
  \<open>generate_aggregator\<close>: the new content of \<open>state.aggregator\<close>; it keeps the old content
  without a configuration and without an eligible provider. The number of disjoint publisher
  namespaces only decides a log line.
\<close>

definition aggregator_entries where
  "aggregator_entries parse now sources category all_info =
     map (\<lambda>(domain, info). provider_entry parse now info)
       (filter (\<lambda>(domain, info). should_include sources domain info category) all_info)"

definition generate_aggregator ::
  "(string \<Rightarrow> int option) \<Rightarrow> int \<Rightarrow> aggregator_config option \<Rightarrow> (string \<rightharpoonup> source)
   \<Rightarrow> (string \<times> provider_info) list \<Rightarrow> aggregator_document option \<Rightarrow> aggregator_document option" where
  "generate_aggregator parse now config sources all_info old =
     (case config of None \<Rightarrow> old
      | Some c \<Rightarrow>
         (let entries = aggregator_entries parse now sources (ac_category c) all_info in
          if entries = [] then old
          else Some \<lparr>ad_aggregator = \<lparr>ai_category = category_text (ac_category c),
                  ai_name = ac_name c, ai_namespace = ac_namespace c,
                  ai_contact_details = ac_contact_details c,
                  ai_issuing_authority = ac_issuing_authority c\<rparr>,
                ad_version = ''2.0'', ad_canonical_url = ac_canonical_url c,
                ad_providers = entries, ad_last_updated = now\<rparr>))"

lemma aggregator_entries_mem:
  "e \<in> set (aggregator_entries parse now sources category all_info) \<longleftrightarrow>
   (\<exists>domain info. (domain, info) \<in> set all_info \<and> should_include sources domain info category
      \<and> e = provider_entry parse now info)"
  by (auto simp: aggregator_entries_def)

text \<open>
  The listing respects consent: whenever a document is published from scratch, it is not
  empty, and each of its entries comes from a stored provider that the operator included
  explicitly or that the operator left open and that consents to being listed (for a lister) or
  mirrored (for an aggregator).
\<close>

theorem aggregator_respects_consent:
  assumes "generate_aggregator parse now (Some c) sources all_info None = Some doc"
  shows "ad_providers doc \<noteq> []
    \<and> (\<forall>e \<in> set (ad_providers doc). \<exists>domain info.
        (domain, info) \<in> set all_info \<and> e = provider_entry parse now info
        \<and> (Option.bind (sources domain) src_aggregator_include = Some True
           \<or> Option.bind (sources domain) src_aggregator_include = None
             \<and> (if ac_category c = Lister then pi_list_on_aggregators info
                else pi_mirror_on_aggregators info)))"
proof -
  let ?es = "aggregator_entries parse now sources (ac_category c) all_info"
  have ne: "?es \<noteq> []" and p: "ad_providers doc = ?es"
    using assms by (auto simp: generate_aggregator_def Let_def split: if_splits)
  have incl: "Option.bind (sources domain) src_aggregator_include = Some True
           \<or> Option.bind (sources domain) src_aggregator_include = None
             \<and> (if ac_category c = Lister then pi_list_on_aggregators info
                else pi_mirror_on_aggregators info)"
    if "should_include sources domain info (ac_category c)" for domain info
    using that by (auto simp: should_include_def split: option.splits aggregator_category.splits)
  show ?thesis unfolding p using ne incl by (auto simp only: aggregator_entries_mem) blast+
qed

definition sample_info :: provider_info where
  "sample_info = \<lparr>pi_canonical_url = ''u'', pi_publisher_name = ''n'',
     pi_publisher_category = ''vendor'', pi_publisher_namespace = ''ns'', pi_role = None,
     pi_list_on_aggregators = True, pi_mirror_on_aggregators = False, pi_last_updated = ''x''\<rparr>"

definition sample_config :: aggregator_config where
  "sample_config = \<lparr>ac_category = Lister, ac_name = ''a'', ac_namespace = ''b'',
     ac_canonical_url = ''c'', ac_contact_details = None, ac_issuing_authority = None\<rparr>"

theorem aggregator_respects_consent_witness:
  "\<exists>doc. generate_aggregator (\<lambda>_. None) 7 (Some sample_config) Map.empty
       [(''p'', sample_info)] None = Some doc \<and> ad_providers doc \<noteq> []"
proof -
  have "\<exists>doc. generate_aggregator (\<lambda>_. None) 7 (Some sample_config) Map.empty
       [(''p'', sample_info)] None = Some doc"
    by (simp add: generate_aggregator_def aggregator_entries_def should_include_def
        sample_config_def sample_info_def Let_def)
  then show ?thesis using aggregator_respects_consent by blast
qed

end
