(* ===== verification/Path_Set.thy ===== *)
theory Path_Set
  imports Trove_Prelude
begin

section \<open>The disposable path set\<close>

text \<open>
  \<open>server/src/storage/path_set.rs\<close>: a set of paths in a temporary SQLite table
  (\<open>path TEXT PRIMARY KEY\<close>, \<open>WITHOUT ROWID\<close>), so its rows are kept in byte order and are
  unique; \<open>INSERT OR IGNORE\<close> leaves a row that is there and \<open>rows_affected\<close> counts the new
  ones. The table is the list of its rows in key order; SQLite's own I/O errors are not modelled.
\<close>

definition PATH_BATCH :: nat where
  "PATH_BATCH = 256"

record path_set =
  ps_paths :: "string list"
  ps_len :: nat

definition path_set_new :: path_set where
  "path_set_new = \<lparr>ps_paths = [], ps_len = 0\<rparr>"

text \<open>One row of an \<open>INSERT OR IGNORE\<close>: the table and the number of rows affected.\<close>

definition insert_row :: "string \<Rightarrow> string list \<times> nat \<Rightarrow> string list \<times> nat" where
  "insert_row p tn = (case tn of (t, n) \<Rightarrow> if p \<in> set t then (t, n) else (insort p t, Suc n))"

lemma insert_row_pair [simp]:
  "insert_row p (t, n) = (if p \<in> set t then (t, n) else (insort p t, Suc n))"
  by (simp add: insert_row_def)

definition insert_or_ignore :: "string list \<Rightarrow> string list \<Rightarrow> string list \<times> nat" where
  "insert_or_ignore ps t = fold insert_row ps (t, 0)"

definition insert_chunk :: "string list \<Rightarrow> path_set \<Rightarrow> path_set" where
  "insert_chunk ps s = (case insert_or_ignore ps (ps_paths s) of
     (t, affected) \<Rightarrow> s\<lparr>ps_paths := t, ps_len := ps_len s + affected\<rparr>)"

definition insert_batch :: "string list \<Rightarrow> path_set \<Rightarrow> path_set" where
  "insert_batch ps s = fold insert_chunk (chunks PATH_BATCH ps) s"

definition path_insert :: "string \<Rightarrow> path_set \<Rightarrow> path_set" where
  "path_insert p s = insert_batch [p] s"

definition path_len :: "path_set \<Rightarrow> nat" where
  "path_len s = ps_len s"

definition path_is_empty :: "path_set \<Rightarrow> bool" where
  "path_is_empty s \<longleftrightarrow> ps_len s = 0"

text \<open>\<open>SELECT path FROM paths WHERE path > ? ORDER BY path LIMIT 256\<close>.\<close>

definition path_batch :: "path_set \<Rightarrow> string \<Rightarrow> string list" where
  "path_batch s after = take PATH_BATCH (filter (\<lambda>p. after < p) (ps_paths s))"

subsection \<open>Invariant and effect of the operations\<close>

definition path_set_inv :: "path_set \<Rightarrow> bool" where
  "path_set_inv s \<longleftrightarrow> sorted_wrt (<) (ps_paths s) \<and> ps_len s = length (ps_paths s)"

lemma path_set_new_inv [simp]: "path_set_inv path_set_new" "ps_paths path_set_new = []"
  by (simp_all add: path_set_inv_def path_set_new_def)

lemma fold_insert_row:
  "sorted_wrt (<) t \<Longrightarrow> fold insert_row ps (t, n) = (t', n') \<Longrightarrow>
   sorted_wrt (<) t' \<and> set t' = set t \<union> set ps \<and> length t' + n = length t + n'"
proof (induction ps arbitrary: t n)
  case Nil
  then show ?case by simp
next
  case (Cons p ps)
  show ?case
  proof (cases "p \<in> set t")
    case True
    then have "fold insert_row ps (t, n) = (t', n')" using Cons.prems(2) by simp
    from Cons.IH [OF Cons.prems(1) this] True show ?thesis by auto
  next
    case False
    then have f: "fold insert_row ps (insort p t, Suc n) = (t', n')"
      using Cons.prems(2) by simp
    have "sorted_wrt (<) (insort p t)"
      using Cons.prems(1) False by (simp add: strict_sorted_iff sorted_insort distinct_insort)
    from Cons.IH [OF this f] show ?thesis by (auto simp: set_insort_key)
  qed
qed

lemma insert_chunk_effect:
  "path_set_inv s \<Longrightarrow> path_set_inv (insert_chunk ps s)
    \<and> set (ps_paths (insert_chunk ps s)) = set (ps_paths s) \<union> set ps"
  using fold_insert_row [of "ps_paths s" ps 0]
  by (auto simp: path_set_inv_def insert_chunk_def insert_or_ignore_def split: prod.splits)

lemma fold_insert_chunk:
  "path_set_inv s \<Longrightarrow> path_set_inv (fold insert_chunk css s)
    \<and> set (ps_paths (fold insert_chunk css s)) = set (ps_paths s) \<union> set (concat css)"
  by (induction css arbitrary: s) (auto simp: insert_chunk_effect)

lemma insert_batch_inv: "path_set_inv s \<Longrightarrow> path_set_inv (insert_batch ps s)"
  by (simp add: insert_batch_def fold_insert_chunk)

lemma set_insert_batch:
  "path_set_inv s \<Longrightarrow> set (ps_paths (insert_batch ps s)) = set (ps_paths s) \<union> set ps"
  using fold_insert_chunk [of s "chunks PATH_BATCH ps"]
  by (simp add: insert_batch_def PATH_BATCH_def)

lemma path_set_eqI:
  "path_set_inv s \<Longrightarrow> path_set_inv t \<Longrightarrow> set (ps_paths s) = set (ps_paths t) \<Longrightarrow> s = (t :: path_set)"
  by (rule path_set.equality)
    (auto simp: path_set_inv_def intro!: strict_sorted_equal arg_cong [where f = length])

lemma insert_batch_append:
  "path_set_inv s \<Longrightarrow> insert_batch (ps @ qs) s = insert_batch qs (insert_batch ps s)"
  by (rule path_set_eqI) (auto simp: insert_batch_inv set_insert_batch)

text \<open>
  A path set is a set: inserting a batch of any size, with any duplicates, keeps the rows in
  strict byte order, adds exactly the paths of the batch, and the reported length is the number of
  distinct paths; splitting a batch does not matter.
\<close>

theorem path_set_is_set:
  assumes "path_set_inv s"
  shows "path_set_inv (insert_batch ps s)
    \<and> set (ps_paths (insert_batch ps s)) = set (ps_paths s) \<union> set ps
    \<and> path_len (insert_batch ps s) = card (set (ps_paths s) \<union> set ps)
    \<and> (\<forall>qs. insert_batch (ps @ qs) s = insert_batch qs (insert_batch ps s))"
proof -
  have inv: "path_set_inv (insert_batch ps s)" by (rule insert_batch_inv [OF assms])
  then have "path_len (insert_batch ps s) = card (set (ps_paths (insert_batch ps s)))"
    by (simp add: path_len_def path_set_inv_def strict_sorted_iff distinct_card)
  then show ?thesis using inv assms by (simp add: set_insert_batch insert_batch_append)
qed

theorem path_set_is_set_witness:
  "path_set_inv path_set_new \<and> path_len (insert_batch [''b'', ''a'', ''b''] path_set_new) = 2"
proof -
  have "card (set [''b'', ''a'', ''b'']) = 2" by code_simp
  then have "card (set (ps_paths path_set_new) \<union> set [''b'', ''a'', ''b'']) = 2"
    unfolding path_set_new_inv(2) by simp
  then show ?thesis
    using path_set_is_set [OF path_set_new_inv(1), of "[''b'', ''a'', ''b'']"] path_set_new_inv(1)
    by metis
qed

subsection \<open>Reading a path set in pages\<close>

interpretation paths: keyset_pages path_batch ps_paths path_set_inv PATH_BATCH
  by unfold_locales (simp_all add: path_set_inv_def path_batch_def PATH_BATCH_def)

lemma path_loop_all:
  assumes "path_set_inv s" and "[] \<notin> set (ps_paths s)"
    and "\<And>xs ys st. body (xs @ ys) st = (case body xs st of Inl e \<Rightarrow> Inl e | Inr st' \<Rightarrow> body ys st')"
    and "\<And>st. body [] st = Inr st"
  shows "page_loop (path_batch s) body [] st = Some (body (ps_paths s) st)"
  using paths.page_loop_whole [of s body "[]" st] assms by simp

lemma path_is_empty_iff: "path_set_inv s \<Longrightarrow> path_is_empty s \<longleftrightarrow> ps_paths s = []"
  by (simp add: path_is_empty_def path_set_inv_def)

text \<open>
  The cursor loop over a path set ends and hands each stored path to its body exactly once, in
  order and in non-empty pages of at most 256 paths, however many paths there are.
\<close>

theorem path_pages_complete:
  assumes "path_set_inv s" and "[] \<notin> set (ps_paths s)"
  shows "\<exists>pages. page_loop (path_batch s) (\<lambda>page acc. Inr (acc @ [page])) [] [] = Some (Inr pages)
    \<and> concat pages = ps_paths s
    \<and> (\<forall>page \<in> set pages. page \<noteq> [] \<and> length page \<le> 256)"
proof -
  have f: "fold (\<lambda>page acc. acc @ [page]) xss acc = acc @ xss" for xss and acc :: "string list list"
    by (induction xss arbitrary: acc) auto
  have "page_loop (path_batch s) (\<lambda>page acc. Inr (acc @ [page])) [] []
      = Some (Inr (chunks PATH_BATCH (ps_paths s)))"
    unfolding paths.page_loop_returns [OF assms(1)] filter_after_empty(2) [OF assms(2)]
    by (simp add: fold_res_total f)
  moreover have "concat (chunks PATH_BATCH (ps_paths s)) = ps_paths s"
    by (simp add: PATH_BATCH_def)
  moreover have "\<forall>page \<in> set (chunks PATH_BATCH (ps_paths s)). page \<noteq> [] \<and> length page \<le> 256"
    unfolding PATH_BATCH_def by (blast dest: chunks_bound)
  ultimately show ?thesis by blast
qed

theorem path_pages_complete_witness:
  "\<exists>pages. page_loop (path_batch (path_insert ''a'' path_set_new)) (\<lambda>page acc. Inr (acc @ [page])) [] []
     = Some (Inr pages :: unit + string list list) \<and> concat pages = [''a'']"
proof -
  have "path_insert ''a'' path_set_new = \<lparr>ps_paths = [''a''], ps_len = 1\<rparr>"
    by (simp add: path_insert_def insert_batch_def PATH_BATCH_def chunks.simps insert_chunk_def
        insert_or_ignore_def insert_row_def path_set_new_def)
  then have eq: "ps_paths (path_insert ''a'' path_set_new) = [''a'']"
    and inv: "path_set_inv (path_insert ''a'' path_set_new)"
    by (simp_all add: path_set_inv_def)
  have ne: "[] \<notin> set (ps_paths (path_insert ''a'' path_set_new))" unfolding eq by simp
  obtain pages where "page_loop (path_batch (path_insert ''a'' path_set_new))
      (\<lambda>page acc. Inr (acc @ [page])) [] [] = Some (Inr pages :: unit + string list list)"
    and "concat pages = ps_paths (path_insert ''a'' path_set_new)"
    using path_pages_complete [OF inv ne] by metis
  then show ?thesis unfolding eq by metis
qed

end
