(* ===== verification/Provider_Db.thy ===== *)
theory Provider_Db
  imports Check_Outcomes Provider_Sources
begin

section \<open>The database of one provider\<close>

text \<open>
  The tables of a provider's SQLite database (\<open>entity/src\<close>, \<open>migration/src\<close>) and the
  values exchanged with it (\<open>server/src/models/result.rs\<close>). A table is the list of its rows
  in the order of their \<open>INTEGER PRIMARY KEY AUTOINCREMENT\<close>; the documents keep their id,
  because the child tables refer to it. The column \<open>document_checks\<close> is the JSON text of a
  \<open>DocumentChecks\<close> value, which every writer serializes and every reader parses back; the row
  holds the value itself (the schema's default \<open>{}\<close> parses to the default outcomes). Scores are
  reals; IEEE rounding is not modelled.
\<close>

subsection \<open>Validation results\<close>

record check_failure =
  cf_test_id :: string
  cf_message :: string
  cf_severity :: string

record profile_detail =
  pd_passed :: bool
  pd_error_count :: nat
  pd_warning_count :: nat
  pd_info_count :: nat
  pd_total_tests :: nat
  pd_failing_test_count :: nat
  pd_failing_tests :: "check_failure list"

record profile_results =
  pf_basic :: "profile_detail option"
  pf_extended :: "profile_detail option"
  pf_full :: "profile_detail option"

record revision_entry =
  re_number :: string
  re_date :: string
  re_summary :: string

record vulnerability_entry =
  ve_cve :: "string option"
  ve_ids :: "string list"
  ve_title :: "string option"
  ve_score :: "real option"
  ve_severity :: "string option"

record document_validation =
  dv_checks :: doc_checks
  dv_tracking_id :: string
  dv_title :: string
  dv_url :: string
  dv_profiles :: profile_results
  dv_signature_error :: "string option"
  dv_signature_warning :: "string option"
  dv_signature_present :: bool
  dv_category :: "string option"
  dv_publisher_name :: "string option"
  dv_initial_release_date :: "string option"
  dv_current_release_date :: "string option"
  dv_status :: "string option"
  dv_revision :: "string option"
  dv_aggregate_severity :: "string option"
  dv_csaf_version :: "string option"
  dv_revision_history :: "revision_entry list"
  dv_vulnerabilities :: "vulnerability_entry list"
  dv_version_count :: nat
  dv_retrieval_error :: "string option"

text \<open>\<open>RetrievalFailure\<close> of \<open>pipeline/sync.rs\<close>.\<close>

record retrieval_failure =
  rf_url :: string
  rf_error :: string
  rf_missing :: bool

subsection \<open>Tables\<close>

record profile_columns =
  pc_passed :: "int option"
  pc_error_count :: "int option"
  pc_warning_count :: "int option"
  pc_info_count :: "int option"
  pc_test_count :: "int option"
  pc_failing_test_count :: "int option"

definition no_columns :: profile_columns where
  "no_columns = \<lparr>pc_passed = None, pc_error_count = None, pc_warning_count = None,
     pc_info_count = None, pc_test_count = None, pc_failing_test_count = None\<rparr>"

record document_row =
  dr_id :: nat
  dr_tracking_id :: string
  dr_title :: string
  dr_url :: string
  dr_basic :: profile_columns
  dr_extended :: profile_columns
  dr_full :: profile_columns
  dr_checks :: doc_checks
  dr_signature_present :: int
  dr_signature_error :: "string option"
  dr_signature_warning :: "string option"
  dr_category :: "string option"
  dr_publisher_name :: "string option"
  dr_initial_release_date :: "string option"
  dr_current_release_date :: "string option"
  dr_status :: "string option"
  dr_revision :: "string option"
  dr_aggregate_severity :: "string option"
  dr_csaf_version :: "string option"
  dr_retrieval_error :: "string option"
  dr_version_count :: int

record failure_row =
  fr_document_id :: nat
  fr_profile :: string
  fr_test_id :: string
  fr_message :: string
  fr_severity :: string

record revision_row =
  rr_document_id :: nat
  rr_version :: string
  rr_date :: string
  rr_summary :: string

record vulnerability_row =
  vr_document_id :: nat
  vr_cve :: "string option"
  vr_ids :: "string list"
  vr_title :: "string option"
  vr_score :: "real option"
  vr_severity :: "string option"

record version_row =
  vn_id :: nat
  vn_url :: string
  vn_commit_id :: string
  vn_timestamp :: int
  vn_message :: string
  vn_blob_id :: string
  vn_status :: "string option"
  vn_version :: "string option"
  vn_current_release_date :: "string option"

record sync_run_row =
  sr_id :: nat
  sr_timestamp :: int
  sr_documents_changed :: int
  sr_duration_ms :: "int option"
  sr_documents_missing :: "int option"

record processing_checkpoint =
  pk_commit_id :: string
  pk_fingerprint :: string
  pk_summary_dirty :: bool

record provider_db =
  db_documents :: "document_row list"
  db_next_id :: nat
  db_failures :: "failure_row list"
  db_revisions :: "revision_row list"
  db_vulnerabilities :: "vulnerability_row list"
  db_versions :: "version_row list"
  db_next_version_id :: nat
  db_sync_runs :: "sync_run_row list"
  db_next_run_id :: nat
  db_checkpoint :: "processing_checkpoint option"
  db_provider_info :: "provider_info option"
  db_membership :: "(string \<times> string) list"

definition db_empty :: provider_db where
  "db_empty = \<lparr>db_documents = [], db_next_id = 1, db_failures = [], db_revisions = [],
     db_vulnerabilities = [], db_versions = [], db_next_version_id = 1, db_sync_runs = [],
     db_next_run_id = 1, db_checkpoint = None, db_provider_info = None, db_membership = []\<rparr>"

subsection \<open>Virtual columns\<close>

text \<open>
  Migration 14 exposes the stage outcomes and one overall outcome as generated columns. A SQL
  comparison with NULL is not true; the conditions contain no negation, so NULL can be read as
  false.
\<close>

fun stage_status :: "string \<Rightarrow> document_row \<Rightarrow> string option" where
  "stage_status stage d =
     (if stage = ''retrieval'' then Some (status_text (co_status (dc_retrieval (dr_checks d))))
      else if stage = ''parsing'' then Some (status_text (co_status (dc_parsing (dr_checks d))))
      else if stage = ''signature'' then Some (status_text (co_status (dc_signature (dr_checks d))))
      else if stage = ''digest'' then Some (status_text (co_status (dc_digest (dr_checks d))))
      else None)"

definition evaluated :: "doc_checks \<Rightarrow> bool" where
  "evaluated c \<longleftrightarrow> co_status (dc_retrieval c) = Passed \<and> co_status (dc_parsing c) = Passed"

definition positive :: "int option \<Rightarrow> bool" where
  "positive n \<longleftrightarrow> (case n of None \<Rightarrow> False | Some i \<Rightarrow> 0 < i)"

datatype overall = OFailing | OWarning | OPassing

fun overall_text :: "overall \<Rightarrow> string" where
  "overall_text OFailing = ''failing''"
| "overall_text OWarning = ''warning''"
| "overall_text OPassing = ''passing''"

definition overall_status :: "document_row \<Rightarrow> overall option" where
  "overall_status d =
     (let c = dr_checks d;
          ret = co_status (dc_retrieval c); par = co_status (dc_parsing c);
          sig = co_status (dc_signature c); dig = co_status (dc_digest c) in
      if ret \<in> {Failed, Missing} \<or> par = Failed \<or> sig = Failed \<or> dig = Failed
         \<or> (ret = Passed \<and> par = Passed
            \<and> (positive (pc_error_count (dr_basic d)) \<or> positive (pc_error_count (dr_extended d))
               \<or> positive (pc_error_count (dr_full d))))
      then Some OFailing
      else if dig = Warning
         \<or> (ret = Passed \<and> par = Passed
            \<and> (positive (pc_warning_count (dr_basic d)) \<or> positive (pc_warning_count (dr_extended d))
               \<or> positive (pc_warning_count (dr_full d))))
      then Some OWarning
      else if ret = Passed \<and> par = Passed \<and> sig \<in> {Passed, Missing} \<and> dig \<in> {Passed, Missing}
      then Some OPassing
      else None)"

subsection \<open>Well-formed databases\<close>

definition document_ids :: "provider_db \<Rightarrow> nat list" where
  "document_ids db = map dr_id (db_documents db)"

definition document_urls :: "provider_db \<Rightarrow> string list" where
  "document_urls db = map dr_url (db_documents db)"

text \<open>
  Ids are unique and below the next one, URLs identify documents (no UNIQUE index enforces
  this; the operations do), and every child row belongs to a stored document.
\<close>

definition db_inv :: "provider_db \<Rightarrow> bool" where
  "db_inv db \<longleftrightarrow>
     distinct (document_ids db) \<and> (\<forall>i \<in> set (document_ids db). i < db_next_id db)
     \<and> distinct (document_urls db)
     \<and> fr_document_id ` set (db_failures db) \<subseteq> set (document_ids db)
     \<and> rr_document_id ` set (db_revisions db) \<subseteq> set (document_ids db)
     \<and> vr_document_id ` set (db_vulnerabilities db) \<subseteq> set (document_ids db)"

lemma db_empty_inv [simp]: "db_inv db_empty"
  by (simp add: db_inv_def db_empty_def document_ids_def document_urls_def)

text \<open>The abstract view of the document table: what is stored under a URL.\<close>

definition doc_at :: "provider_db \<Rightarrow> string \<Rightarrow> document_row option" where
  "doc_at db u = find (\<lambda>d. dr_url d = u) (db_documents db)"

lemma doc_at_Some:
  "db_inv db \<Longrightarrow> doc_at db u = Some d \<longleftrightarrow> d \<in> set (db_documents db) \<and> dr_url d = u"
  using find_distinct [of dr_url "db_documents db" d]
  by (auto simp: doc_at_def db_inv_def document_urls_def dest: find_SomeD)

lemma db_empty_simps [simp]:
  "doc_at db_empty u = None" "db_next_id db_empty = 1" "db_documents db_empty = []"
  "db_checkpoint db_empty = None" "db_versions db_empty = []" "db_next_version_id db_empty = 1"
  "db_failures db_empty = []" "db_revisions db_empty = []" "db_vulnerabilities db_empty = []"
  "db_sync_runs db_empty = []" "db_membership db_empty = []"
  by (simp_all add: doc_at_def db_empty_def)

lemma doc_at_None: "doc_at db u = None \<longleftrightarrow> u \<notin> set (document_urls db)"
  by (auto simp: doc_at_def find_None document_urls_def)

lemma distinct_map_filter: "distinct (map f xs) \<Longrightarrow> distinct (map f (filter P xs))"
  by (induction xs) auto

end
