(* ===== verification/Document_Store.thy ===== *)
theory Document_Store
  imports Provider_Db
begin

section \<open>Writing documents\<close>

text \<open>
  The writing half of \<open>server/src/storage/documents.rs\<close> and of \<open>processing.rs\<close>: saving
  validation results, deleting documents, recording retrieval errors, the processing checkpoint.
  Each operation runs in one transaction; errors of SQLite itself roll it back and are not
  modelled, so an operation is a function on databases. \<open>lower\<close> is \<open>str::to_lowercase\<close>, whose
  Unicode tables are not reproduced; only its ASCII instance is used in examples.
\<close>

subsection \<open>Tracking ids\<close>

definition continuation_byte :: "char \<Rightarrow> bool" where
  "continuation_byte c \<longleftrightarrow> 128 \<le> (of_char c :: nat) \<and> (of_char c :: nat) < 192"

text \<open>The characters of a UTF-8 string, each as its bytes (\<open>str::chars\<close>).\<close>

function utf8_chars :: "string \<Rightarrow> string list" where
  "utf8_chars [] = []"
| "utf8_chars (c # cs) =
     (c # takeWhile continuation_byte cs) # utf8_chars (dropWhile continuation_byte cs)"
  by pat_completeness auto
termination
  by (relation "measure length") (auto simp: le_imp_less_Suc length_dropWhile_le)

definition between :: "nat \<Rightarrow> char \<Rightarrow> nat \<Rightarrow> bool" where
  "between a c b \<longleftrightarrow> a \<le> of_char c \<and> of_char c \<le> b"

definition kept_char :: "char \<Rightarrow> bool" where
  "kept_char c \<longleftrightarrow> between 97 c 122 \<or> between 48 c 57 \<or> c = CHR ''+'' \<or> c = CHR ''-''"

definition lossy_char :: "string \<Rightarrow> char" where
  "lossy_char s = (case s of [c] \<Rightarrow> if kept_char c then c else CHR ''_'' | _ \<Rightarrow> CHR ''_'')"

definition lossy_tracking_id :: "(string \<Rightarrow> string) \<Rightarrow> string \<Rightarrow> string" where
  "lossy_tracking_id lower tracking_id = map lossy_char (utf8_chars (lower tracking_id))"

definition tracking_id_from_url :: "string \<Rightarrow> string" where
  "tracking_id_from_url url = trim_end_str ''.json'' (after_last (CHR ''/'') url)"

text \<open>The ASCII instance of \<open>to_lowercase\<close>, for examples.\<close>

definition ascii_lower :: "string \<Rightarrow> string" where
  "ascii_lower s = map (\<lambda>c. if between 65 c 90 then char_of (of_char c + 32 :: nat) else c) s"

lemma lossy_charset:
  "c \<in> set (lossy_tracking_id lower t) \<Longrightarrow> kept_char c \<or> c = CHR ''_''"
  by (auto simp: lossy_tracking_id_def lossy_char_def split: list.splits if_splits)

subsection \<open>Rows of a validation result\<close>

definition bool_col :: "bool \<Rightarrow> int" where
  "bool_col b = (if b then 1 else 0)"

definition profile_to_cols :: "profile_detail option \<Rightarrow> profile_columns" where
  "profile_to_cols detail = (case detail of
     Some d \<Rightarrow> \<lparr>pc_passed = Some (bool_col (pd_passed d)),
       pc_error_count = Some (as_i64 (pd_error_count d)),
       pc_warning_count = Some (as_i64 (pd_warning_count d)),
       pc_info_count = Some (as_i64 (pd_info_count d)),
       pc_test_count = Some (as_i64 (pd_total_tests d)),
       pc_failing_test_count = Some (as_i64 (pd_failing_test_count d))\<rparr>
   | None \<Rightarrow> no_columns)"

definition document_row_of :: "nat \<Rightarrow> int option \<Rightarrow> document_validation \<Rightarrow> document_row" where
  "document_row_of i previous_count doc = \<lparr>dr_id = i, dr_tracking_id = dv_tracking_id doc,
     dr_title = dv_title doc, dr_url = dv_url doc,
     dr_basic = profile_to_cols (pf_basic (dv_profiles doc)),
     dr_extended = profile_to_cols (pf_extended (dv_profiles doc)),
     dr_full = profile_to_cols (pf_full (dv_profiles doc)),
     dr_checks = dv_checks doc,
     dr_signature_present = bool_col (dv_signature_present doc),
     dr_signature_error = dv_signature_error doc, dr_signature_warning = dv_signature_warning doc,
     dr_category = dv_category doc, dr_publisher_name = dv_publisher_name doc,
     dr_initial_release_date = dv_initial_release_date doc,
     dr_current_release_date = dv_current_release_date doc, dr_status = dv_status doc,
     dr_revision = dv_revision doc, dr_aggregate_severity = dv_aggregate_severity doc,
     dr_csaf_version = dv_csaf_version doc, dr_retrieval_error = dv_retrieval_error doc,
     dr_version_count = (case previous_count of Some n \<Rightarrow> n
       | None \<Rightarrow> as_i32 (dv_version_count doc))\<rparr>"

definition failure_rows :: "nat \<Rightarrow> string \<Rightarrow> profile_detail option \<Rightarrow> failure_row list" where
  "failure_rows i profile detail = (case detail of None \<Rightarrow> []
     | Some d \<Rightarrow> map (\<lambda>f. \<lparr>fr_document_id = i, fr_profile = profile, fr_test_id = cf_test_id f,
         fr_message = cf_message f, fr_severity = cf_severity f\<rparr>) (pd_failing_tests d))"

definition all_failure_rows :: "nat \<Rightarrow> profile_results \<Rightarrow> failure_row list" where
  "all_failure_rows i ps = failure_rows i ''basic'' (pf_basic ps)
     @ failure_rows i ''extended'' (pf_extended ps) @ failure_rows i ''full'' (pf_full ps)"

definition revision_rows :: "nat \<Rightarrow> revision_entry list \<Rightarrow> revision_row list" where
  "revision_rows i rs = map (\<lambda>r. \<lparr>rr_document_id = i, rr_version = re_number r,
     rr_date = re_date r, rr_summary = re_summary r\<rparr>) rs"

definition vulnerability_rows :: "nat \<Rightarrow> vulnerability_entry list \<Rightarrow> vulnerability_row list" where
  "vulnerability_rows i vs = map (\<lambda>v. \<lparr>vr_document_id = i, vr_cve = ve_cve v, vr_ids = ve_ids v,
     vr_title = ve_title v, vr_score = ve_score v, vr_severity = ve_severity v\<rparr>) vs"

subsection \<open>Deleting and saving\<close>

text \<open>The deletes of one document's rows, child tables first.\<close>

definition delete_ids :: "nat list \<Rightarrow> provider_db \<Rightarrow> provider_db" where
  "delete_ids ids db = db\<lparr>
     db_failures := filter (\<lambda>r. fr_document_id r \<notin> set ids) (db_failures db),
     db_revisions := filter (\<lambda>r. rr_document_id r \<notin> set ids) (db_revisions db),
     db_vulnerabilities := filter (\<lambda>r. vr_document_id r \<notin> set ids) (db_vulnerabilities db),
     db_documents := filter (\<lambda>d. dr_id d \<notin> set ids) (db_documents db)\<rparr>"

definition mark_summary_dirty :: "provider_db \<Rightarrow> provider_db" where
  "mark_summary_dirty db = db\<lparr>db_checkpoint :=
     map_option (\<lambda>c. c\<lparr>pk_summary_dirty := True\<rparr>) (db_checkpoint db)\<rparr>"

text \<open>The rows a saved document replaces: same tracking id, its lossy form, or same URL.\<close>

definition replaces :: "(string \<Rightarrow> string) \<Rightarrow> document_validation \<Rightarrow> document_row \<Rightarrow> bool" where
  "replaces lower doc d =
     (let lossy_id = lossy_tracking_id lower (dv_tracking_id doc) in
      (if lossy_id \<noteq> dv_tracking_id doc
       then dr_tracking_id d = dv_tracking_id doc \<or> dr_tracking_id d = lossy_id
       else dr_tracking_id d = dv_tracking_id doc)
      \<or> dr_url d = dv_url doc)"

definition existing_ids :: "(string \<Rightarrow> string) \<Rightarrow> document_validation \<Rightarrow> provider_db \<Rightarrow> nat list" where
  "existing_ids lower doc db = map dr_id (filter (replaces lower doc) (db_documents db))"

definition insert_document :: "int option \<Rightarrow> document_validation \<Rightarrow> provider_db \<Rightarrow> provider_db" where
  "insert_document previous_count doc db =
     (let i = db_next_id db in db\<lparr>
        db_documents := db_documents db @ [document_row_of i previous_count doc],
        db_next_id := Suc i,
        db_failures := db_failures db @ all_failure_rows i (dv_profiles doc),
        db_revisions := db_revisions db @ revision_rows i (dv_revision_history doc),
        db_vulnerabilities := db_vulnerabilities db @ vulnerability_rows i (dv_vulnerabilities doc)\<rparr>)"

definition save_document :: "(string \<Rightarrow> string) \<Rightarrow> document_validation \<Rightarrow> provider_db \<Rightarrow> provider_db" where
  "save_document lower doc db =
     (let previous_count = map_option dr_version_count (doc_at db (dv_url doc));
          ids = existing_ids lower doc db;
          db1 = (if ids \<noteq> [] then delete_ids ids db else db) in
      insert_document previous_count doc db1)"

definition save_documents ::
  "(string \<Rightarrow> string) \<Rightarrow> document_validation list \<Rightarrow> provider_db \<Rightarrow> provider_db \<times> nat" where
  "save_documents lower docs db =
     (let db1 = fold (save_document lower) docs db;
          db2 = (if docs \<noteq> [] then mark_summary_dirty db1 else db1) in
      (db2, length (db_documents db2)))"

definition delete_all_documents :: "provider_db \<Rightarrow> provider_db" where
  "delete_all_documents db = db\<lparr>db_failures := [], db_vulnerabilities := [], db_revisions := [],
     db_documents := []\<rparr>"

definition document_count :: "provider_db \<Rightarrow> nat" where
  "document_count db = length (db_documents db)"

definition delete_document_url :: "string \<Rightarrow> provider_db \<Rightarrow> provider_db" where
  "delete_document_url url db =
     (let ids = map dr_id (filter (\<lambda>d. dr_url d = url) (db_documents db)) in
      if ids = [] then db else mark_summary_dirty (delete_ids ids db))"

definition delete_document_urls :: "string list \<Rightarrow> provider_db \<Rightarrow> provider_db" where
  "delete_document_urls urls db = (if urls = [] then db else fold delete_document_url urls db)"

subsection \<open>Retrieval errors\<close>

definition failure_checks :: "retrieval_failure \<Rightarrow> doc_checks" where
  "failure_checks f = checks_default\<lparr>dc_retrieval :=
     (outcome_failed (rf_error f))\<lparr>co_status := (if rf_missing f then Missing else Failed)\<rparr>\<rparr>"

definition stub_row :: "nat \<Rightarrow> retrieval_failure \<Rightarrow> document_row" where
  "stub_row i f = \<lparr>dr_id = i, dr_tracking_id = tracking_id_from_url (rf_url f),
     dr_title = ''Retrieval failed'', dr_url = rf_url f, dr_basic = no_columns,
     dr_extended = no_columns, dr_full = no_columns, dr_checks = failure_checks f,
     dr_signature_present = 0, dr_signature_error = None, dr_signature_warning = None,
     dr_category = None, dr_publisher_name = None, dr_initial_release_date = None,
     dr_current_release_date = None, dr_status = None, dr_revision = None,
     dr_aggregate_severity = None, dr_csaf_version = None,
     dr_retrieval_error = Some (rf_error f), dr_version_count = 1\<rparr>"

definition update_row :: "nat \<Rightarrow> (document_row \<Rightarrow> document_row) \<Rightarrow> provider_db \<Rightarrow> provider_db" where
  "update_row i f db = db\<lparr>db_documents := map (\<lambda>d. if dr_id d = i then f d else d) (db_documents db)\<rparr>"

definition save_retrieval_error :: "retrieval_failure \<Rightarrow> provider_db \<times> bool \<Rightarrow> provider_db \<times> bool" where
  "save_retrieval_error f dbc = (case dbc of (db, changed) \<Rightarrow>
     (case doc_at db (rf_url f) of
        Some d \<Rightarrow>
          (if dr_retrieval_error d = Some (rf_error f) \<and> dr_checks d = failure_checks f
           then (db, changed)
           else (update_row (dr_id d)
             (\<lambda>r. r\<lparr>dr_retrieval_error := Some (rf_error f), dr_checks := failure_checks f\<rparr>) db, True))
      | None \<Rightarrow>
          (db\<lparr>db_documents := db_documents db @ [stub_row (db_next_id db) f],
              db_next_id := Suc (db_next_id db)\<rparr>, True)))"

definition save_retrieval_errors :: "retrieval_failure list \<Rightarrow> provider_db \<Rightarrow> provider_db \<times> bool" where
  "save_retrieval_errors errors db =
     (case fold save_retrieval_error errors (db, False) of
        (db1, changed) \<Rightarrow> (if changed then mark_summary_dirty db1 else db1, changed))"

text \<open>\<open>retrieval_failures\<close> and the page query \<open>retrieval_error_urls\<close> of \<open>processing.rs\<close>.\<close>

definition retrieval_failures :: "provider_db \<Rightarrow> retrieval_failure list" where
  "retrieval_failures db = List.map_filter (\<lambda>d. map_option (\<lambda>e. \<lparr>rf_url = dr_url d, rf_error = e,
       rf_missing = (co_status (dc_retrieval (dr_checks d)) = Missing)\<rparr>) (dr_retrieval_error d))
     (db_documents db)"

definition error_urls :: "provider_db \<Rightarrow> string list" where
  "error_urls db = sort (map dr_url (filter (\<lambda>d. dr_retrieval_error d \<noteq> None) (db_documents db)))"

definition retrieval_error_urls :: "provider_db \<Rightarrow> string \<Rightarrow> string list" where
  "retrieval_error_urls db after = take 256 (filter (\<lambda>u. after < u) (error_urls db))"

subsection \<open>The processing checkpoint\<close>

definition processing_checkpoint_row :: "provider_db \<Rightarrow> processing_checkpoint option" where
  "processing_checkpoint_row db = db_checkpoint db"

text \<open>The insert names neither column \<open>summary_dirty\<close> (default 0) nor its conflict value 1.\<close>

definition save_processing_checkpoint :: "processing_checkpoint \<Rightarrow> provider_db \<Rightarrow> provider_db" where
  "save_processing_checkpoint c db = db\<lparr>db_checkpoint :=
     Some \<lparr>pk_commit_id = pk_commit_id c, pk_fingerprint = pk_fingerprint c,
       pk_summary_dirty = False\<rparr>\<rparr>"

definition clear_processing_checkpoint :: "provider_db \<Rightarrow> provider_db" where
  "clear_processing_checkpoint db = db\<lparr>db_checkpoint := None\<rparr>"

end
