(* ===== verification/Document_Invariants.thy ===== *)
theory Document_Invariants
  imports Document_Store
begin

section \<open>What the document operations keep and change\<close>

text \<open>
  Every operation on the document tables preserves \<open>db_inv\<close> (unique ids and URLs, no dangling
  child rows), and acts on the abstract map from URLs to rows (\<open>doc_at\<close>) in a simple way. The
  locale \<open>document_writes\<close> states the interface by which other components may change the
  database; the lemmas about runs of operations are proved once in it.
\<close>

lemma document_ids_simps [simp]:
  "document_ids (mark_summary_dirty db) = document_ids db"
  "document_urls (mark_summary_dirty db) = document_urls db"
  "db_documents (mark_summary_dirty db) = db_documents db"
  "doc_at (mark_summary_dirty db) u = doc_at db u"
  by (simp_all add: mark_summary_dirty_def document_ids_def document_urls_def doc_at_def)

lemma mark_summary_dirty_inv [simp]: "db_inv (mark_summary_dirty db) = db_inv db"
  by (simp add: db_inv_def mark_summary_dirty_def document_ids_def document_urls_def)

subsection \<open>Deleting\<close>

lemma delete_ids_documents:
  "db_documents (delete_ids ids db) = filter (\<lambda>d. dr_id d \<notin> set ids) (db_documents db)"
  "db_next_id (delete_ids ids db) = db_next_id db"
  by (simp_all add: delete_ids_def)

lemma delete_ids_inv: "db_inv db \<Longrightarrow> db_inv (delete_ids ids db)"
  unfolding db_inv_def document_ids_def document_urls_def delete_ids_def
  by (auto intro: distinct_map_filter)

lemma find_filter: "find P (filter Q xs) = find (\<lambda>x. Q x \<and> P x) xs"
  by (induction xs) auto

lemma doc_at_delete_ids:
  "db_inv db \<Longrightarrow> doc_at (delete_ids ids db) u =
     (case doc_at db u of None \<Rightarrow> None | Some d \<Rightarrow> if dr_id d \<in> set ids then None else Some d)"
proof -
  assume inv: "db_inv db"
  show ?thesis
  proof (cases "doc_at db u")
    case None
    then have "doc_at (delete_ids ids db) u = None"
      by (auto simp: doc_at_None document_urls_def delete_ids_documents)
    then show ?thesis using None by simp
  next
    case (Some d)
    then have d: "d \<in> set (db_documents db)" "dr_url d = u" using inv by (auto simp: doc_at_Some)
    have same: "e = d" if "e \<in> set (db_documents db)" "dr_url e = u" for e
      using that d inv by (auto simp: db_inv_def document_urls_def distinct_map inj_on_def)
    show ?thesis
    proof (cases "dr_id d \<in> set ids")
      case True
      then have "doc_at (delete_ids ids db) u = None"
        using same by (auto simp: doc_at_None document_urls_def delete_ids_documents)
      then show ?thesis using Some True by simp
    next
      case False
      then have "doc_at (delete_ids ids db) u = Some d"
        using d by (auto simp: doc_at_Some [OF delete_ids_inv [OF inv]] delete_ids_documents)
      then show ?thesis using Some False by simp
    qed
  qed
qed

lemma ids_of_filter:
  "db_inv db \<Longrightarrow> d \<in> set (db_documents db) \<Longrightarrow>
   dr_id d \<in> set (map dr_id (filter P (db_documents db))) \<longleftrightarrow> P d"
  by (auto simp: db_inv_def document_ids_def distinct_map inj_on_def)

lemma filter_by_ids:
  "db_inv db \<Longrightarrow> filter (\<lambda>d. dr_id d \<notin> set (map dr_id (filter P (db_documents db)))) (db_documents db)
     = filter (\<lambda>d. \<not> P d) (db_documents db)"
  using ids_of_filter [of db _ P] by (intro filter_cong) (simp_all del: set_map set_filter)

lemma delete_document_url_inv: "db_inv db \<Longrightarrow> db_inv (delete_document_url url db)"
  by (simp add: delete_document_url_def Let_def delete_ids_inv)

lemma doc_at_delete_url:
  assumes inv: "db_inv db"
  shows "doc_at (delete_document_url url db) u = (if u = url then None else doc_at db u)"
proof -
  let ?ids = "map dr_id (filter (\<lambda>d. dr_url d = url) (db_documents db))"
  show ?thesis
  proof (cases "?ids = []")
    case True
    then have "url \<notin> set (document_urls db)" by (auto simp: document_urls_def filter_empty_conv)
    then have "doc_at db url = None" by (simp add: doc_at_None)
    then show ?thesis using True by (simp add: delete_document_url_def)
  next
    case False
    have "doc_at (delete_document_url url db) u =
       (case doc_at db u of None \<Rightarrow> None | Some d \<Rightarrow> if dr_id d \<in> set ?ids then None else Some d)"
      using False by (simp add: delete_document_url_def Let_def doc_at_delete_ids [OF inv])
    also have "\<dots> = (if u = url then None else doc_at db u)"
    proof (cases "doc_at db u")
      case None
      then show ?thesis by simp
    next
      case (Some d)
      then have "d \<in> set (db_documents db)" "dr_url d = u" using inv by (auto simp: doc_at_Some)
      then show ?thesis using Some ids_of_filter [OF inv] by auto
    qed
    finally show ?thesis .
  qed
qed

lemma delete_document_urls_fold: "delete_document_urls urls db = fold delete_document_url urls db"
  by (simp add: delete_document_urls_def)

lemma delete_document_urls_append [simp]:
  "delete_document_urls (xs @ ys) db = delete_document_urls ys (delete_document_urls xs db)"
  by (simp add: delete_document_urls_fold)

lemma delete_document_urls_Nil [simp]: "delete_document_urls [] db = db"
  by (simp add: delete_document_urls_def)

lemma delete_urls_inv: "db_inv db \<Longrightarrow> db_inv (delete_document_urls urls db)"
  unfolding delete_document_urls_fold
  by (induction urls arbitrary: db) (simp_all add: delete_document_url_inv)

lemma doc_at_delete_urls:
  "db_inv db \<Longrightarrow> doc_at (delete_document_urls urls db) u = (if u \<in> set urls then None else doc_at db u)"
  unfolding delete_document_urls_fold
  by (induction urls arbitrary: db) (simp_all add: delete_document_url_inv doc_at_delete_url)

subsection \<open>Saving\<close>

lemma child_rows_ids [simp]:
  "r \<in> set (all_failure_rows i ps) \<Longrightarrow> fr_document_id r = i"
  "rv \<in> set (revision_rows i rs) \<Longrightarrow> rr_document_id rv = i"
  "v \<in> set (vulnerability_rows i vs) \<Longrightarrow> vr_document_id v = i"
  by (auto simp: all_failure_rows_def failure_rows_def revision_rows_def vulnerability_rows_def
      split: option.splits)

lemma document_row_of_simps [simp]:
  "dr_id (document_row_of i n doc) = i" "dr_url (document_row_of i n doc) = dv_url doc"
  "dr_tracking_id (document_row_of i n doc) = dv_tracking_id doc"
  by (simp_all add: document_row_of_def)

lemma insert_document_inv:
  assumes inv: "db_inv db" and fresh: "dv_url doc \<notin> set (document_urls db)"
  shows "db_inv (insert_document n doc db)"
proof -
  have "db_next_id db \<notin> set (document_ids db)" using inv by (auto simp: db_inv_def)
  then show ?thesis
    using inv fresh
    unfolding db_inv_def insert_document_def Let_def document_ids_def document_urls_def
    by (auto simp: less_Suc_eq image_Un)
qed

lemma doc_at_insert:
  "doc_at (insert_document n doc db) u = (case doc_at db u of Some d \<Rightarrow> Some d
     | None \<Rightarrow> if u = dv_url doc then Some (document_row_of (db_next_id db) n doc) else None)"
proof -
  have "find P (xs @ [x]) = (case find P xs of Some d \<Rightarrow> Some d | None \<Rightarrow> if P x then Some x else None)"
    for P and xs :: "document_row list" and x
    by (induction xs) auto
  then show ?thesis by (auto simp: doc_at_def insert_document_def Let_def split: option.splits)
qed

abbreviation cleared :: "(string \<Rightarrow> string) \<Rightarrow> document_validation \<Rightarrow> provider_db \<Rightarrow> provider_db" where
  "cleared lower doc db \<equiv> delete_ids (existing_ids lower doc db) db"

lemma save_document_eq:
  "save_document lower doc db =
     insert_document (map_option dr_version_count (doc_at db (dv_url doc))) doc (cleared lower doc db)"
proof -
  have "delete_ids [] db = db" by (simp add: delete_ids_def)
  then show ?thesis by (simp add: save_document_def Let_def)
qed

lemma cleared_documents:
  "db_inv db \<Longrightarrow> db_documents (cleared lower doc db) =
     filter (\<lambda>d. \<not> replaces lower doc d) (db_documents db)"
  using filter_by_ids [of db "replaces lower doc"] by (simp add: delete_ids_documents existing_ids_def)

lemma save_document_inv: "db_inv db \<Longrightarrow> db_inv (save_document lower doc db)"
  unfolding save_document_eq
  by (rule insert_document_inv) (auto simp: delete_ids_inv cleared_documents document_urls_def
      replaces_def Let_def)

lemma save_documents_fold_inv: "db_inv db \<Longrightarrow> db_inv (fold (save_document lower) docs db)"
  by (induction docs arbitrary: db) (simp_all add: save_document_inv)

lemma save_documents_inv: "db_inv db \<Longrightarrow> db_inv (fst (save_documents lower docs db))"
  by (simp add: save_documents_def Let_def save_documents_fold_inv)

lemma doc_at_save_document:
  assumes inv: "db_inv db"
  shows "doc_at (save_document lower doc db) u =
    (if u = dv_url doc
     then Some (document_row_of (db_next_id db) (map_option dr_version_count (doc_at db u)) doc)
     else case doc_at db u of None \<Rightarrow> None
       | Some d \<Rightarrow> if replaces lower doc d then None else Some d)"
proof -
  have cl: "doc_at (cleared lower doc db) v = (case doc_at db v of None \<Rightarrow> None
       | Some d \<Rightarrow> if replaces lower doc d then None else Some d)" for v
  proof (cases "doc_at db v")
    case None
    then show ?thesis by (simp add: doc_at_delete_ids [OF inv])
  next
    case (Some d)
    then have "d \<in> set (db_documents db)" using inv by (auto simp: doc_at_Some)
    then show ?thesis using Some ids_of_filter [OF inv, of d "replaces lower doc"]
      by (simp add: doc_at_delete_ids [OF inv] existing_ids_def)
  qed
  have "doc_at (cleared lower doc db) (dv_url doc) = None"
  proof (cases "doc_at db (dv_url doc)")
    case None
    then show ?thesis by (simp add: cl)
  next
    case (Some d)
    then have "dr_url d = dv_url doc" using inv by (auto simp: doc_at_Some)
    then show ?thesis using Some by (simp add: cl replaces_def)
  qed
  then show ?thesis
    by (auto simp: save_document_eq doc_at_insert delete_ids_documents cl split: option.splits)
qed

subsection \<open>Retrieval errors\<close>

lemma update_row_simps:
  "(\<And>d. dr_id (f d) = dr_id d) \<Longrightarrow> document_ids (update_row i f db) = document_ids db"
  "(\<And>d. dr_url (f d) = dr_url d) \<Longrightarrow> document_urls (update_row i f db) = document_urls db"
  by (auto simp: update_row_def document_ids_def document_urls_def)

lemma update_row_inv:
  "db_inv db \<Longrightarrow> (\<And>d. dr_id (f d) = dr_id d) \<Longrightarrow> (\<And>d. dr_url (f d) = dr_url d)
   \<Longrightarrow> db_inv (update_row i f db)"
proof -
  assume "db_inv db" and f: "\<And>d. dr_id (f d) = dr_id d" "\<And>d. dr_url (f d) = dr_url d"
  moreover have "db_next_id (update_row i f db) = db_next_id db"
    "db_failures (update_row i f db) = db_failures db"
    "db_revisions (update_row i f db) = db_revisions db"
    "db_vulnerabilities (update_row i f db) = db_vulnerabilities db"
    by (simp_all add: update_row_def)
  ultimately show ?thesis by (simp add: db_inv_def update_row_simps)
qed

lemma save_retrieval_error_inv:
  "db_inv db \<Longrightarrow> save_retrieval_error f (db, ch) = (db', ch') \<Longrightarrow> db_inv db'"
proof -
  assume inv: "db_inv db" and s: "save_retrieval_error f (db, ch) = (db', ch')"
  show "db_inv db'"
  proof (cases "doc_at db (rf_url f)")
    case (Some d)
    then show ?thesis
      using s inv by (auto simp: save_retrieval_error_def split: if_splits intro!: update_row_inv)
  next
    case None
    then have "rf_url f \<notin> set (document_urls db)" by (simp add: doc_at_None)
    moreover have "db_next_id db \<notin> set (document_ids db)" using inv by (auto simp: db_inv_def)
    moreover have "db' = db\<lparr>db_documents := db_documents db @ [stub_row (db_next_id db) f],
        db_next_id := Suc (db_next_id db)\<rparr>"
      using s None by (simp add: save_retrieval_error_def)
    ultimately show ?thesis
      using inv by (auto simp: db_inv_def document_ids_def document_urls_def stub_row_def less_Suc_eq)
  qed
qed

lemma save_retrieval_errors_fold_inv:
  "db_inv db \<Longrightarrow> fold save_retrieval_error errors (db, ch) = (db', ch') \<Longrightarrow> db_inv db'"
proof (induction errors arbitrary: db ch)
  case Nil
  then show ?case by simp
next
  case (Cons f errors)
  obtain db1 ch1 where st: "save_retrieval_error f (db, ch) = (db1, ch1)"
    by (cases "save_retrieval_error f (db, ch)")
  then have "db_inv db1" using Cons.prems(1) by (rule save_retrieval_error_inv [rotated])
  then show ?case using Cons st by simp
qed

lemma save_retrieval_errors_inv: "db_inv db \<Longrightarrow> db_inv (fst (save_retrieval_errors errors db))"
  using save_retrieval_errors_fold_inv [of db errors False]
  by (auto simp: save_retrieval_errors_def split: prod.splits)

lemma delete_all_documents_inv: "db_inv db \<Longrightarrow> db_inv (delete_all_documents db)"
  by (auto simp: db_inv_def delete_all_documents_def document_ids_def document_urls_def)

lemma checkpoint_inv [simp]:
  "db_inv (save_processing_checkpoint c db) = db_inv db"
  "db_inv (clear_processing_checkpoint db) = db_inv db"
  by (simp_all add: db_inv_def save_processing_checkpoint_def clear_processing_checkpoint_def
      document_ids_def document_urls_def)

subsection \<open>The write interface\<close>

text \<open>
  What a caller of the document store relies on: a set of commands, each of which keeps the
  invariant. Any sequence of them then keeps it as well.
\<close>

locale document_writes =
  fixes apply_cmd :: "'cmd \<Rightarrow> provider_db \<Rightarrow> provider_db"
  assumes apply_cmd_inv: "db_inv db \<Longrightarrow> db_inv (apply_cmd c db)"
begin

lemma writes_inv: "db_inv db \<Longrightarrow> db_inv (fold apply_cmd cs db)"
  by (induction cs arbitrary: db) (simp_all add: apply_cmd_inv)

lemma reachable_inv: "db_inv (fold apply_cmd cs db_empty)"
  by (rule writes_inv) simp

end

datatype document_cmd =
    SaveDocuments "document_validation list"
  | DeleteUrls "string list"
  | DeleteAll
  | SaveRetrievalErrors "retrieval_failure list"
  | SaveCheckpoint processing_checkpoint
  | ClearCheckpoint

fun run_cmd :: "(string \<Rightarrow> string) \<Rightarrow> document_cmd \<Rightarrow> provider_db \<Rightarrow> provider_db" where
  "run_cmd lower (SaveDocuments docs) db = fst (save_documents lower docs db)"
| "run_cmd lower (DeleteUrls urls) db = delete_document_urls urls db"
| "run_cmd lower DeleteAll db = delete_all_documents db"
| "run_cmd lower (SaveRetrievalErrors es) db = fst (save_retrieval_errors es db)"
| "run_cmd lower (SaveCheckpoint c) db = save_processing_checkpoint c db"
| "run_cmd lower ClearCheckpoint db = clear_processing_checkpoint db"

interpretation store: document_writes "run_cmd lower" for lower
proof
  fix db and c :: document_cmd
  assume "db_inv db"
  then show "db_inv (run_cmd lower c db)"
    by (cases c) (simp_all add: save_documents_inv delete_urls_inv delete_all_documents_inv
        save_retrieval_errors_inv)
qed

text \<open>
  C22. Starting from an empty database, any sequence of the store's write operations (saving
  validation results, deleting URLs or everything, recording retrieval errors, saving or clearing
  the checkpoint) leaves a well-formed database: unique document ids, at most one row per URL, and
  no check failure, revision or vulnerability row without its document.
\<close>

theorem store_reachable_inv: "db_inv (fold (run_cmd lower) cmds db_empty)"
  by (rule store.reachable_inv)

subsection \<open>Effects\<close>

text \<open>
  C13. Saving one validation result refines an update of the map from URLs to rows: the document
  is stored under its URL with the version count it already had there; rows under other URLs stay
  as they are unless they carry its tracking id or the lossy form of it, in which case they go.
\<close>

theorem save_document_refines:
  assumes "db_inv db"
  shows "doc_at (fst (save_documents lower [doc] db)) =
    (\<lambda>u. case doc_at db u of None \<Rightarrow> None | Some d \<Rightarrow> if replaces lower doc d then None else Some d)
      (dv_url doc \<mapsto> document_row_of (db_next_id db)
         (map_option dr_version_count (doc_at db (dv_url doc))) doc)"
  by (rule ext)
    (auto simp: save_documents_def Let_def doc_at_save_document [OF assms] split: option.splits)

definition sample_doc :: "string \<Rightarrow> string \<Rightarrow> document_validation" where
  "sample_doc t u = \<lparr>dv_checks = checks_default\<lparr>dc_retrieval := outcome_new Passed,
       dc_parsing := outcome_new Passed\<rparr>,
     dv_tracking_id = t, dv_title = ''title'', dv_url = u,
     dv_profiles = \<lparr>pf_basic = Some \<lparr>pd_passed = False, pd_error_count = 1, pd_warning_count = 0,
         pd_info_count = 0, pd_total_tests = 10, pd_failing_test_count = 1,
         pd_failing_tests = [\<lparr>cf_test_id = ''6.1.1'', cf_message = ''m'', cf_severity = ''error''\<rparr>]\<rparr>,
       pf_extended = None, pf_full = None\<rparr>,
     dv_signature_error = None, dv_signature_warning = None, dv_signature_present = False,
     dv_category = None, dv_publisher_name = None, dv_initial_release_date = None,
     dv_current_release_date = None, dv_status = None, dv_revision = None,
     dv_aggregate_severity = None, dv_csaf_version = None, dv_revision_history = [],
     dv_vulnerabilities = [], dv_version_count = 1, dv_retrieval_error = None\<rparr>"

lemma sample_doc_simps [simp]:
  "dv_url (sample_doc t u) = u" "dv_tracking_id (sample_doc t u) = t"
  by (simp_all add: sample_doc_def)

theorem save_document_refines_witness:
  "db_inv db_empty \<and> doc_at (fst (save_documents ascii_lower [sample_doc ''A'' ''u''] db_empty)) ''u''
     = Some (document_row_of 1 None (sample_doc ''A'' ''u''))"
  using save_document_refines [OF db_empty_inv, of ascii_lower "sample_doc ''A'' ''u''"]
  by simp

text \<open>
  Deleting URLs refines the restriction of the map: exactly the named URLs lose their rows,
  whatever order and repetitions the list has.
\<close>

theorem delete_urls_refines:
  assumes "db_inv db"
  shows "doc_at (delete_document_urls urls db) = doc_at db |` (- set urls)"
  by (rule ext) (simp add: doc_at_delete_urls [OF assms] restrict_map_def)

theorem delete_urls_refines_witness:
  "db_inv db_empty \<and> doc_at (delete_document_urls [''u''] db_empty) ''u'' = None"
  using delete_urls_refines [OF db_empty_inv, of "[''u'']"] by simp

end
