(* ===== verification/Document_Queries.thy ===== *)
theory Document_Queries
  imports Document_Invariants "HOL-Library.Option_ord" "HOL-Library.Product_Lexorder"
begin

section \<open>Reading documents\<close>

text \<open>
  The reading half of \<open>server/src/storage/documents.rs\<close>: loading documents with their check
  failures, status filters and pagination, the CVE index, the provider summary and the health of a
  distribution. \<open>ORDER BY\<close> is a stable sort of the rows in id order; where SQL leaves the order
  of ties open, no theorem depends on it.
\<close>

subsection \<open>Loading\<close>

definition or_zero :: "int option \<Rightarrow> int" where
  "or_zero n = (case n of Some i \<Rightarrow> i | None \<Rightarrow> 0)"

definition row_columns :: "document_row \<Rightarrow> string \<Rightarrow> profile_columns option" where
  "row_columns d profile =
     (if profile = ''basic'' then Some (dr_basic d)
      else if profile = ''extended'' then Some (dr_extended d)
      else if profile = ''full'' then Some (dr_full d)
      else None)"

definition cols_to_profile :: "document_row \<Rightarrow> failure_row list \<Rightarrow> string \<Rightarrow> profile_detail option" where
  "cols_to_profile d failures profile =
     (case row_columns d profile of None \<Rightarrow> None
      | Some cols \<Rightarrow> (case pc_passed cols of None \<Rightarrow> None
          | Some p \<Rightarrow> Some \<lparr>pd_passed = (p \<noteq> 0),
              pd_error_count = as_u64 (or_zero (pc_error_count cols)),
              pd_warning_count = as_u64 (or_zero (pc_warning_count cols)),
              pd_info_count = as_u64 (or_zero (pc_info_count cols)),
              pd_total_tests = as_u64 (or_zero (pc_test_count cols)),
              pd_failing_test_count = as_u64 (or_zero (pc_failing_test_count cols)),
              pd_failing_tests = map (\<lambda>f. \<lparr>cf_test_id = fr_test_id f, cf_message = fr_message f,
                  cf_severity = fr_severity f\<rparr>) (filter (\<lambda>f. fr_profile f = profile) failures)\<rparr>))"

definition load_row :: "provider_db \<Rightarrow> document_row \<Rightarrow> document_validation" where
  "load_row db d =
     (let failures = filter (\<lambda>f. fr_document_id f = dr_id d) (db_failures db);
          ev = evaluated (dr_checks d);
          profile = (\<lambda>p. if ev then cols_to_profile d failures p else None) in
      \<lparr>dv_checks = dr_checks d, dv_tracking_id = dr_tracking_id d, dv_title = dr_title d,
        dv_url = dr_url d,
        dv_profiles = \<lparr>pf_basic = profile ''basic'', pf_extended = profile ''extended'',
          pf_full = profile ''full''\<rparr>,
        dv_signature_error = dr_signature_error d, dv_signature_warning = dr_signature_warning d,
        dv_signature_present = (dr_signature_present d \<noteq> 0), dv_category = dr_category d,
        dv_publisher_name = dr_publisher_name d,
        dv_initial_release_date = dr_initial_release_date d,
        dv_current_release_date = dr_current_release_date d, dv_status = dr_status d,
        dv_revision = dr_revision d, dv_aggregate_severity = dr_aggregate_severity d,
        dv_csaf_version = dr_csaf_version d,
        dv_revision_history = map (\<lambda>r. \<lparr>re_number = rr_version r, re_date = rr_date r,
            re_summary = rr_summary r\<rparr>)
          (filter (\<lambda>r. rr_document_id r = dr_id d) (db_revisions db)),
        dv_vulnerabilities = [], dv_version_count = as_u32 (dr_version_count d),
        dv_retrieval_error = dr_retrieval_error d\<rparr>)"

definition load_failures_for_docs :: "provider_db \<Rightarrow> document_row list \<Rightarrow> document_validation list" where
  "load_failures_for_docs db rows = (if rows = [] then [] else map (load_row db) rows)"

definition load_document :: "provider_db \<Rightarrow> string \<Rightarrow> document_validation option" where
  "load_document db tracking_id =
     (case find (\<lambda>d. dr_tracking_id d = tracking_id) (db_documents db) of
        None \<Rightarrow> None
      | Some d \<Rightarrow> (case load_failures_for_docs db [d] of [] \<Rightarrow> None | x # _ \<Rightarrow> Some x))"

definition document_url :: "provider_db \<Rightarrow> string \<Rightarrow> string option" where
  "document_url db tracking_id =
     map_option dr_url (find (\<lambda>d. dr_tracking_id d = tracking_id) (db_documents db))"

subsection \<open>Filters and pages\<close>

record 'a paginated =
  pg_items :: "'a list"
  pg_total :: nat
  pg_offset :: nat
  pg_limit :: nat

definition check_in :: "string \<Rightarrow> string list \<Rightarrow> document_row \<Rightarrow> bool" where
  "check_in stage sts d = (case stage_status stage d of None \<Rightarrow> False | Some s \<Rightarrow> s \<in> set sts)"

definition check_condition :: "string \<Rightarrow> string \<Rightarrow> document_row \<Rightarrow> bool" where
  "check_condition stage status d = (stage_status stage d = Some status)"

definition overall_in :: "string list \<Rightarrow> document_row \<Rightarrow> bool" where
  "overall_in sts d = (case overall_status d of None \<Rightarrow> False | Some o' \<Rightarrow> overall_text o' \<in> set sts)"

definition stages :: "string list" where
  "stages = [''retrieval'', ''parsing'', ''signature'', ''digest'']"

definition named_filter :: "string \<Rightarrow> document_row \<Rightarrow> bool" where
  "named_filter f d =
     (if f = ''document-issues'' then
        list_ex (\<lambda>stage. check_in stage [''failed'', ''warning'', ''missing''] d) stages
      else if f = ''failing'' then overall_in [''failing''] d
      else if f = ''warnings'' then overall_in [''failing'', ''warning''] d
      else if f = ''passing'' then overall_in [''passing''] d
      else if f = ''errors'' \<or> f = ''retrieval-errors'' then check_in ''retrieval'' [''failed'', ''missing''] d
      else if f = ''parse-errors'' then check_condition ''parsing'' ''failed'' d
      else if f = ''signature-errors'' then check_condition ''signature'' ''failed'' d
      else if f = ''digest-errors'' then check_condition ''digest'' ''failed'' d
      else if f = ''digest-warnings'' then check_condition ''digest'' ''warning'' d
      else if f = ''missing-signatures'' then check_condition ''signature'' ''missing'' d
      else if f = ''missing-digests'' then check_condition ''digest'' ''missing'' d
      else if f = ''not-evaluated'' then
        list_ex (\<lambda>stage. check_condition stage ''not_evaluated'' d) stages
      else (case split_once (CHR ''-'') f of
          Some (stage, status) \<Rightarrow>
            (if stage \<in> set stages
               \<and> status \<in> set [''passed'', ''failed'', ''warning'', ''missing'', ''not_evaluated'']
             then check_condition stage status d else True)
        | None \<Rightarrow> True))"

definition status_filter :: "string option \<Rightarrow> document_row \<Rightarrow> bool" where
  "status_filter f d = (case f of None \<Rightarrow> True | Some s \<Rightarrow> named_filter s d)"

definition load_documents_paginated ::
  "provider_db \<Rightarrow> nat \<Rightarrow> nat \<Rightarrow> string option \<Rightarrow> document_validation paginated" where
  "load_documents_paginated db offset limit f =
     (let matching = filter (status_filter f) (db_documents db);
          docs = take limit (drop offset (sort_key dr_tracking_id matching)) in
      \<lparr>pg_items = load_failures_for_docs db docs, pg_total = length matching,
        pg_offset = offset, pg_limit = limit\<rparr>)"

subsection \<open>CVE search\<close>

record cve_hit =
  ch_domain :: string
  ch_cve :: string
  ch_tracking_id :: string
  ch_title :: string
  ch_url :: string
  ch_publisher_name :: "string option"
  ch_current_release_date :: "string option"
  ch_status :: "string option"
  ch_aggregate_severity :: "string option"
  ch_vulnerability_title :: "string option"
  ch_score :: "real option"
  ch_severity :: "string option"

text \<open>The UTF-8 bytes of U+10FFFF, the upper end of the range scan.\<close>

definition range_end :: string where
  "range_end = map char_of [244 :: nat, 143, 191, 191]"

definition cve_matches :: "bool \<Rightarrow> string \<Rightarrow> string option \<Rightarrow> bool" where
  "cve_matches prefix_mode cve v = (case v of None \<Rightarrow> False
     | Some s \<Rightarrow> if prefix_mode then cve \<le> s \<and> s < cve @ range_end else s = cve)"

definition sort_key_desc :: "('a \<Rightarrow> 'b::linorder) \<Rightarrow> 'a list \<Rightarrow> 'a list" where
  "sort_key_desc f xs = rev (sort_key f (rev xs))"

definition cve_join :: "provider_db \<Rightarrow> (vulnerability_row \<times> document_row) list" where
  "cve_join db = concat (map (\<lambda>v. map (\<lambda>d. (v, d))
     (filter (\<lambda>d. dr_id d = vr_document_id v) (db_documents db))) (db_vulnerabilities db))"

definition cve_hit_of :: "string \<Rightarrow> vulnerability_row \<times> document_row \<Rightarrow> cve_hit" where
  "cve_hit_of domain vd = (case vd of (v, d) \<Rightarrow> \<lparr>ch_domain = domain,
     ch_cve = (case vr_cve v of Some c \<Rightarrow> c | None \<Rightarrow> []), ch_tracking_id = dr_tracking_id d,
     ch_title = dr_title d, ch_url = dr_url d, ch_publisher_name = dr_publisher_name d,
     ch_current_release_date = dr_current_release_date d, ch_status = dr_status d,
     ch_aggregate_severity = dr_aggregate_severity d, ch_vulnerability_title = vr_title v,
     ch_score = vr_score v, ch_severity = vr_severity v\<rparr>)"

definition find_by_cve :: "provider_db \<Rightarrow> string \<Rightarrow> string \<Rightarrow> bool \<Rightarrow> nat \<Rightarrow> cve_hit list" where
  "find_by_cve db domain cve prefix_mode limit =
     take limit (sort_key_desc ch_current_release_date
       (sort_key (\<lambda>h. (ch_tracking_id h, ch_cve h))
         (map (cve_hit_of domain)
           (filter (\<lambda>(v, d). cve_matches prefix_mode cve (vr_cve v)) (cve_join db)))))"

subsection \<open>Round trip of a saved document\<close>

definition detail_fits :: "profile_detail option \<Rightarrow> bool" where
  "detail_fits p = (case p of None \<Rightarrow> True | Some d \<Rightarrow>
     pd_error_count d < 2 ^ 64 \<and> pd_warning_count d < 2 ^ 64 \<and> pd_info_count d < 2 ^ 64
     \<and> pd_total_tests d < 2 ^ 64 \<and> pd_failing_test_count d < 2 ^ 64)"

text \<open>The part of a validation result the document page shows: what a later load returns.\<close>

definition stored_view :: "nat \<Rightarrow> document_validation \<Rightarrow> document_validation" where
  "stored_view versions doc = doc\<lparr>
     dv_profiles := (if evaluated (dv_checks doc) then dv_profiles doc
       else \<lparr>pf_basic = None, pf_extended = None, pf_full = None\<rparr>),
     dv_vulnerabilities := [], dv_version_count := versions\<rparr>"

lemma bool_col_nonzero [simp]: "(bool_col b \<noteq> 0) = b"
  by (simp add: bool_col_def)

lemma filter_failure_rows:
  "filter (\<lambda>f. fr_profile f = p) (failure_rows i q d) = (if p = q then failure_rows i q d else [])"
  by (auto simp: failure_rows_def filter_map comp_def split: option.splits)

lemma failure_rows_back:
  "map (\<lambda>f. \<lparr>cf_test_id = fr_test_id f, cf_message = fr_message f, cf_severity = fr_severity f\<rparr>)
     (failure_rows i p d) = (case d of None \<Rightarrow> [] | Some x \<Rightarrow> pd_failing_tests x)"
  by (auto simp: failure_rows_def comp_def intro!: map_idI split: option.splits)

lemma profile_names_distinct:
  "(''basic'' = ''extended'') = False" "(''basic'' = ''full'') = False"
  "(''extended'' = ''basic'') = False" "(''extended'' = ''full'') = False"
  "(''full'' = ''basic'') = False" "(''full'' = ''extended'') = False"
  by simp_all

lemma cols_to_profile_back:
  assumes "detail_fits (pf_basic (dv_profiles doc))" "detail_fits (pf_extended (dv_profiles doc))"
    "detail_fits (pf_full (dv_profiles doc))"
  shows "cols_to_profile (document_row_of i n doc) (all_failure_rows i (dv_profiles doc)) ''basic''
      = pf_basic (dv_profiles doc)"
    and "cols_to_profile (document_row_of i n doc) (all_failure_rows i (dv_profiles doc)) ''extended''
      = pf_extended (dv_profiles doc)"
    and "cols_to_profile (document_row_of i n doc) (all_failure_rows i (dv_profiles doc)) ''full''
      = pf_full (dv_profiles doc)"
  using assms
  by (auto simp: cols_to_profile_def row_columns_def document_row_of_def profile_to_cols_def
      no_columns_def all_failure_rows_def filter_failure_rows failure_rows_back detail_fits_def
      or_zero_def split: option.splits)

lemma new_children:
  assumes inv: "db_inv db" and i: "i = db_next_id db"
  shows "filter (\<lambda>f. fr_document_id f = i) (db_failures (save_document lower doc db))
      = all_failure_rows i (dv_profiles doc)"
    and "filter (\<lambda>r. rr_document_id r = i) (db_revisions (save_document lower doc db))
      = revision_rows i (dv_revision_history doc)"
proof -
  have inv': "db_inv (cleared lower doc db)" by (rule delete_ids_inv [OF inv])
  have next': "db_next_id (cleared lower doc db) = i" by (simp add: delete_ids_documents i)
  have fresh: "i \<notin> set (document_ids (cleared lower doc db))"
    using inv' next' by (auto simp: db_inv_def)
  have f: "filter (\<lambda>f. fr_document_id f = i) (db_failures (cleared lower doc db)) = []"
    and r: "filter (\<lambda>r. rr_document_id r = i) (db_revisions (cleared lower doc db)) = []"
    using inv' fresh by (auto simp: db_inv_def filter_empty_conv)
  show "filter (\<lambda>f. fr_document_id f = i) (db_failures (save_document lower doc db))
      = all_failure_rows i (dv_profiles doc)"
    using f next' by (simp add: save_document_eq insert_document_def Let_def filter_id_conv)
  show "filter (\<lambda>r. rr_document_id r = i) (db_revisions (save_document lower doc db))
      = revision_rows i (dv_revision_history doc)"
    using r next' by (simp add: save_document_eq insert_document_def Let_def filter_id_conv)
qed

lemma find_by_tracking_id:
  assumes inv: "db_inv db"
  shows "find (\<lambda>d. dr_tracking_id d = dv_tracking_id doc) (db_documents (save_document lower doc db))
    = Some (document_row_of (db_next_id db) (map_option dr_version_count (doc_at db (dv_url doc))) doc)"
proof -
  have "find (\<lambda>d. dr_tracking_id d = dv_tracking_id doc) (db_documents (cleared lower doc db)) = None"
    by (auto simp: find_None cleared_documents [OF inv] replaces_def Let_def)
  moreover have "find P (xs @ [x]) = (case find P xs of Some d \<Rightarrow> Some d | None \<Rightarrow> if P x then Some x else None)"
    for P and xs :: "document_row list" and x
    by (induction xs) auto
  ultimately show ?thesis
    by (simp add: save_document_eq insert_document_def Let_def delete_ids_documents)
qed

lemma revision_rows_back:
  "map (\<lambda>r. \<lparr>re_number = rr_version r, re_date = rr_date r, re_summary = rr_summary r\<rparr>)
     (revision_rows i rs) = rs"
  by (auto simp: revision_rows_def comp_def intro!: map_idI)

text \<open>
  C23. A document saved in a well-formed database is read back by its tracking id exactly as it
  was validated, with its profile details (each check failure under the profile it belongs to) and
  its revision history; details are withheld if it was not retrieved and parsed, the search index
  entries are not returned, and the version count is the one recorded before for its URL.
\<close>

theorem load_after_save:
  assumes inv: "db_inv db"
    and fits: "detail_fits (pf_basic (dv_profiles doc))" "detail_fits (pf_extended (dv_profiles doc))"
      "detail_fits (pf_full (dv_profiles doc))"
    and count: "dv_version_count doc < 2 ^ 32"
  shows "load_document (fst (save_documents lower [doc] db)) (dv_tracking_id doc)
    = Some (stored_view (case doc_at db (dv_url doc) of None \<Rightarrow> dv_version_count doc
        | Some d \<Rightarrow> as_u32 (dr_version_count d)) doc)"
proof -
  let ?n = "map_option dr_version_count (doc_at db (dv_url doc))"
  let ?d = "document_row_of (db_next_id db) ?n doc"
  have dirty: "load_row (mark_summary_dirty x) = load_row x"
    "db_documents (mark_summary_dirty x) = db_documents x" for x
    by (rule ext, simp_all add: load_row_def mark_summary_dirty_def)
  have "load_document (fst (save_documents lower [doc] db)) (dv_tracking_id doc)
      = Some (load_row (save_document lower doc db) ?d)"
    by (simp add: load_document_def save_documents_def Let_def dirty find_by_tracking_id [OF inv]
        load_failures_for_docs_def)
  also have "load_row (save_document lower doc db) ?d = stored_view (case doc_at db (dv_url doc) of
      None \<Rightarrow> dv_version_count doc | Some d \<Rightarrow> as_u32 (dr_version_count d)) doc"
  proof -
    have c: "dr_checks ?d = dv_checks doc" "dr_signature_present ?d = bool_col (dv_signature_present doc)"
      by (simp_all add: document_row_of_def)
    have vc: "as_u32 (dr_version_count ?d) = (case doc_at db (dv_url doc) of
      None \<Rightarrow> dv_version_count doc | Some d \<Rightarrow> as_u32 (dr_version_count d))"
      using count by (simp add: document_row_of_def split: option.split)
    show ?thesis
      unfolding load_row_def Let_def document_row_of_simps(1) new_children [OF inv refl] vc c
        cols_to_profile_back [OF fits] revision_rows_back
      by (rule document_validation.equality)
        (simp_all add: stored_view_def document_row_of_def)
  qed
  finally show ?thesis .
qed

theorem load_after_save_witness:
  "db_inv db_empty \<and> load_document (fst (save_documents ascii_lower [sample_doc ''A'' ''u''] db_empty)) ''A''
     = Some (stored_view 1 (sample_doc ''A'' ''u''))"
proof -
  have v: "dv_version_count (sample_doc ''A'' ''u'') = 1"
    and f: "detail_fits (pf_basic (dv_profiles (sample_doc ''A'' ''u'')))"
      "detail_fits (pf_extended (dv_profiles (sample_doc ''A'' ''u'')))"
      "detail_fits (pf_full (dv_profiles (sample_doc ''A'' ''u'')))"
    by (simp_all add: sample_doc_def detail_fits_def)
  show ?thesis
    using load_after_save [OF db_empty_inv f, of ascii_lower] v by simp
qed

end
