(* ===== verification/Document_Summary.thy ===== *)
theory Document_Summary
  imports Document_Queries
begin

section \<open>Summaries of a provider's documents\<close>

text \<open>
  \<open>build_summary_from_db\<close>, \<open>document_check_summary\<close> and \<open>distribution_health\<close> of
  \<open>documents.rs\<close>, the summary types of \<open>models/result.rs\<close>, the sync run history, and the
  facts that relate them to the filters of the document list. Sums that SQLite computes in
  \<open>i64\<close> are integers; pass rates are reals (IEEE rounding is not modelled).
\<close>

record profile_summary =
  psum_valid :: nat
  psum_invalid :: nat
  psum_pass_rate :: real

record signature_summary =
  ss_valid :: nat
  ss_invalid :: nat
  ss_missing :: nat

record failing_test =
  ft_test_id :: string
  ft_count :: nat
  ft_severity :: string

record profile_rates =
  pr_basic :: "profile_summary option"
  pr_extended :: "profile_summary option"
  pr_full :: "profile_summary option"

record provider_summary =
  sm_summary_revision :: nat
  sm_csaf_versions :: "(string \<rightharpoonup> nat) option"
  sm_checks :: "check_summary option"
  sm_provider :: string
  sm_publisher_name :: "string option"
  sm_validated_at :: int
  sm_document_count :: nat
  sm_profiles :: profile_rates
  sm_signatures :: "signature_summary option"
  sm_top_failing_tests :: "failing_test list"
  sm_retrieval_errors :: nat
  sm_note :: "string option"

definition SUMMARY_REVISION :: nat where
  "SUMMARY_REVISION = 1"

definition build_profile_from_counts :: "nat \<Rightarrow> nat \<Rightarrow> profile_summary" where
  "build_profile_from_counts valid invalid =
     (let total = valid + invalid in \<lparr>psum_valid = valid, psum_invalid = invalid,
        psum_pass_rate = (if total > 0 then real valid / real total else 0)\<rparr>)"

text \<open>\<open>GROUP BY k\<close> with \<open>COUNT(*)\<close>: the groups in key order with their sizes.\<close>

definition group_counts :: "'k::linorder list \<Rightarrow> ('k \<times> nat) list" where
  "group_counts ks = map (\<lambda>k. (k, count_list ks k)) (sort (remdups ks))"

text \<open>The \<open>SUM(CASE WHEN retrieval and parsing passed THEN \<dots>)\<close> columns of one profile.\<close>

definition sum_valid :: "(document_row \<Rightarrow> profile_columns) \<Rightarrow> document_row list \<Rightarrow> int" where
  "sum_valid cols rows = sum_list (map (\<lambda>d. if evaluated (dr_checks d)
     then or_zero (pc_test_count (cols d)) - or_zero (pc_failing_test_count (cols d)) else 0) rows)"

definition sum_invalid :: "(document_row \<Rightarrow> profile_columns) \<Rightarrow> document_row list \<Rightarrow> int" where
  "sum_invalid cols rows = sum_list (map (\<lambda>d. if evaluated (dr_checks d)
     then or_zero (pc_failing_test_count (cols d)) else 0) rows)"

definition count_rows :: "('a \<Rightarrow> bool) \<Rightarrow> 'a list \<Rightarrow> nat" where
  "count_rows P rows = length (filter P rows)"

definition profile_summary_of :: "(document_row \<Rightarrow> profile_columns) \<Rightarrow> document_row list \<Rightarrow> profile_summary" where
  "profile_summary_of cols rows =
     build_profile_from_counts (as_u64 (sum_valid cols rows)) (as_u64 (sum_invalid cols rows))"

definition some_tests :: "profile_summary \<Rightarrow> profile_summary option" where
  "some_tests p = (if psum_valid p + psum_invalid p > 0 then Some p else None)"

definition top_failing_tests :: "provider_db \<Rightarrow> failing_test list" where
  "top_failing_tests db =
     map (\<lambda>((t, s), n). \<lparr>ft_test_id = t, ft_count = n, ft_severity = s\<rparr>)
       (take 10 (sort_key_desc snd (group_counts (map (\<lambda>f. (fr_test_id f, fr_severity f))
          (filter (\<lambda>f. \<exists>d \<in> set (db_documents db). dr_id d = fr_document_id f \<and> evaluated (dr_checks d))
             (db_failures db))))))"

definition common_publisher :: "document_row list \<Rightarrow> string option" where
  "common_publisher rows =
     (case sort_key_desc snd (group_counts (List.map_filter dr_publisher_name rows)) of
        [] \<Rightarrow> None | (p, _) # _ \<Rightarrow> Some p)"

definition csaf_version_counts :: "document_row list \<Rightarrow> (string \<rightharpoonup> nat)" where
  "csaf_version_counts rows v = (let n = count_rows (\<lambda>d. dr_csaf_version d = Some v) rows in
     if v = [] \<or> n = 0 then None else Some n)"

text \<open>
  \<open>document_check_summary\<close>: one query row per combination of the four outcomes, with a
  \<open>document_checks\<close> value of the group and the size of the group.
\<close>

fun same_statuses :: "doc_checks \<Rightarrow> doc_checks \<Rightarrow> bool" where
  "same_statuses a b \<longleftrightarrow> statuses a = statuses b"

fun check_groups :: "doc_checks list \<Rightarrow> (doc_checks \<times> nat) list" where
  "check_groups [] = []"
| "check_groups (c # cs) =
     (c, Suc (count_rows (same_statuses c) cs)) # check_groups (filter (\<lambda>x. \<not> same_statuses c x) cs)"

definition add_group :: "doc_checks \<times> nat \<Rightarrow> check_summary \<Rightarrow> check_summary" where
  "add_group g s = (case g of (checks, n) \<Rightarrow> \<lparr>
     dc_retrieval = counts_add (dc_retrieval s) (co_status (dc_retrieval checks)) n,
     dc_parsing = counts_add (dc_parsing s) (co_status (dc_parsing checks)) n,
     dc_signature = counts_add (dc_signature s) (co_status (dc_signature checks)) n,
     dc_digest = counts_add (dc_digest s) (co_status (dc_digest checks)) n\<rparr>)"

definition document_check_summary :: "provider_db \<Rightarrow> check_summary" where
  "document_check_summary db =
     fold add_group (check_groups (map dr_checks (db_documents db))) summary_default"

definition build_summary_from_db :: "provider_db \<Rightarrow> string \<Rightarrow> int \<Rightarrow> provider_summary" where
  "build_summary_from_db db domain now =
     (let rows = db_documents db;
          sig = (\<lambda>st. count_rows (\<lambda>d. co_status (dc_signature (dr_checks d)) = st) rows) in
      \<lparr>sm_summary_revision = SUMMARY_REVISION,
        sm_csaf_versions = Some (csaf_version_counts rows),
        sm_checks = Some (document_check_summary db),
        sm_provider = domain,
        sm_publisher_name = common_publisher rows,
        sm_validated_at = now,
        sm_document_count = length rows,
        sm_profiles = \<lparr>pr_basic = some_tests (profile_summary_of dr_basic rows),
          pr_extended = some_tests (profile_summary_of dr_extended rows),
          pr_full = some_tests (profile_summary_of dr_full rows)\<rparr>,
        sm_signatures = Some \<lparr>ss_valid = sig Passed, ss_invalid = sig Failed, ss_missing = sig Missing\<rparr>,
        sm_top_failing_tests = top_failing_tests db,
        sm_retrieval_errors =
          count_rows (\<lambda>d. co_status (dc_retrieval (dr_checks d)) \<in> {Failed, Missing}) rows,
        sm_note = None\<rparr>)"

subsection \<open>Distribution health\<close>

definition pass_rate :: "int \<Rightarrow> int \<Rightarrow> real option" where
  "pass_rate valid invalid = (let v = as_u64 valid; i = as_u64 invalid; total = v + i in
     if total > 0 then Some (real v / real total) else None)"

definition bad_status :: "check_status \<Rightarrow> bool" where
  "bad_status st \<longleftrightarrow> st \<in> {Failed, Warning, Missing}"

definition has_check_issue :: "doc_checks \<Rightarrow> bool" where
  "has_check_issue c \<longleftrightarrow> bad_status (co_status (dc_retrieval c)) \<or> bad_status (co_status (dc_parsing c))
     \<or> bad_status (co_status (dc_signature c)) \<or> bad_status (co_status (dc_digest c))"

text \<open>
  The rows of \<open>distribution_membership JOIN documents ON url\<close> for one distribution, and
  \<open>(document_count, check_issues, basic, extended, full)\<close> over them.
\<close>

definition member_rows :: "provider_db \<Rightarrow> string \<Rightarrow> document_row list" where
  "member_rows db distribution_url = concat (map (\<lambda>(dist, url).
     if dist = distribution_url then filter (\<lambda>d. dr_url d = url) (db_documents db) else [])
     (db_membership db))"

definition distribution_health ::
  "provider_db \<Rightarrow> string \<Rightarrow> nat \<times> nat \<times> real option \<times> real option \<times> real option" where
  "distribution_health db distribution_url =
     (let rows = member_rows db distribution_url in
      (length rows, count_rows (\<lambda>d. has_check_issue (dr_checks d)) rows,
       pass_rate (sum_valid dr_basic rows) (sum_invalid dr_basic rows),
       pass_rate (sum_valid dr_extended rows) (sum_invalid dr_extended rows),
       pass_rate (sum_valid dr_full rows) (sum_invalid dr_full rows)))"

subsection \<open>Sync runs and provider metadata\<close>

record commit_info =
  ci_id :: nat
  ci_message :: string
  ci_timestamp :: int
  ci_files_changed :: nat
  ci_duration_ms :: "int option"
  ci_documents_missing :: "nat option"

record sync_point =
  sp_timestamp :: int
  sp_count :: nat

definition save_sync_run :: "int \<Rightarrow> nat \<Rightarrow> nat \<Rightarrow> int \<Rightarrow> provider_db \<Rightarrow> provider_db" where
  "save_sync_run timestamp changed missing duration_ms db = db\<lparr>
     db_sync_runs := db_sync_runs db @ [\<lparr>sr_id = db_next_run_id db, sr_timestamp = timestamp,
       sr_documents_changed = as_i64 changed, sr_duration_ms = Some duration_ms,
       sr_documents_missing = Some (as_i64 missing)\<rparr>],
     db_next_run_id := Suc (db_next_run_id db)\<rparr>"

definition commit_info_of :: "sync_run_row \<Rightarrow> commit_info" where
  "commit_info_of r = \<lparr>ci_id = sr_id r, ci_message = [], ci_timestamp = sr_timestamp r,
     ci_files_changed = as_u64 (sr_documents_changed r), ci_duration_ms = sr_duration_ms r,
     ci_documents_missing = map_option as_u64 (sr_documents_missing r)\<rparr>"

definition load_sync_runs :: "provider_db \<Rightarrow> nat \<Rightarrow> commit_info list" where
  "load_sync_runs db max_entries = map commit_info_of (take max_entries (rev (db_sync_runs db)))"

definition load_sync_runs_paginated :: "provider_db \<Rightarrow> nat \<Rightarrow> nat \<Rightarrow> commit_info paginated" where
  "load_sync_runs_paginated db offset limit = \<lparr>
     pg_items = map commit_info_of (take limit (drop offset (rev (db_sync_runs db)))),
     pg_total = length (db_sync_runs db), pg_offset = offset, pg_limit = limit\<rparr>"

definition load_last_sync_duration :: "provider_db \<Rightarrow> int option" where
  "load_last_sync_duration db = (case rev (db_sync_runs db) of [] \<Rightarrow> None | r # _ \<Rightarrow> sr_duration_ms r)"

definition load_recent_sync_points :: "provider_db \<Rightarrow> nat \<Rightarrow> sync_point list" where
  "load_recent_sync_points db limit = rev (map (\<lambda>r. \<lparr>sp_timestamp = sr_timestamp r,
     sp_count = as_u64 (sr_documents_changed r)\<rparr>) (take limit (rev (db_sync_runs db))))"

definition save_provider_info :: "provider_info \<Rightarrow> provider_db \<Rightarrow> provider_db" where
  "save_provider_info info db = db\<lparr>db_provider_info := Some info\<rparr>"

definition load_provider_info :: "provider_db \<Rightarrow> provider_info option" where
  "load_provider_info db = db_provider_info db"

end
