(* ===== verification/Document_Facts.thy ===== *)
theory Document_Facts
  imports Document_Summary
begin

section \<open>Filters, pages, searches and summaries agree\<close>

text \<open>
  The facts about the reading operations of the document store: filters against the counters of
  the summary, pages against the whole list, the CVE range scan against prefix matching, and the
  redundant fields of a summary against each other.
\<close>

subsection \<open>Grouped and single counting\<close>

abbreviation add_one :: "doc_checks \<Rightarrow> check_summary \<Rightarrow> check_summary" where
  "add_one c \<equiv> summary_add (statuses c) 1"

lemma add_group_eq: "add_group (c, n) s = summary_add (statuses c) n s"
  by (simp add: add_group_def summary_add_def statuses_def)

lemma fold_add_commute: "fold add_one cs (summary_add d n s) = summary_add d n (fold add_one cs s)"
  by (induction cs arbitrary: s) (simp_all add: summary_add_commute)

lemma same_statuses_fun: "same_statuses c = (\<lambda>x. statuses c = statuses x)"
  by (rule ext) simp

lemma fold_add_same:
  "fold add_one cs s = fold add_one (filter (\<lambda>x. \<not> same_statuses c x) cs)
     (summary_add (statuses c) (count_rows (same_statuses c) cs) s)"
proof (induction cs arbitrary: s)
  case Nil
  then show ?case by (simp add: count_rows_def)
next
  case (Cons x cs)
  show ?case
  proof (cases "same_statuses c x")
    case True
    then have eq: "statuses x = statuses c" by simp
    have "fold add_one (x # cs) s = fold add_one (filter (\<lambda>x. \<not> same_statuses c x) cs)
       (summary_add (statuses c) (count_rows (same_statuses c) cs) (summary_add (statuses c) 1 s))"
      unfolding fold_simps eq by (rule Cons.IH)
    then show ?thesis by (simp add: summary_add_twice count_rows_def same_statuses_fun eq)
  next
    case False
    have "fold add_one (x # cs) s = fold add_one (filter (\<lambda>x. \<not> same_statuses c x) cs)
       (summary_add (statuses c) (count_rows (same_statuses c) cs) (add_one x s))"
      unfolding fold_simps by (rule Cons.IH)
    then show ?thesis using False by (simp add: summary_add_commute [of "statuses x"] count_rows_def same_statuses_fun)
  qed
qed

lemma fold_groups: "fold add_group (check_groups cs) s = fold add_one cs s"
proof (induction cs arbitrary: s rule: check_groups.induct)
  case 1
  then show ?case by simp
next
  case (2 c cs)
  have "fold add_group (check_groups (c # cs)) s
     = fold add_one (filter (\<lambda>x. \<not> same_statuses c x) cs)
        (summary_add (statuses c) (Suc (count_rows (same_statuses c) cs)) s)"
    by (simp add: 2 add_group_eq del: same_statuses.simps)
  also have "\<dots> = fold add_one (filter (\<lambda>x. \<not> same_statuses c x) cs)
        (summary_add (statuses c) (count_rows (same_statuses c) cs) (add_one c s))"
    by (simp add: summary_add_twice)
  also have "\<dots> = fold add_one cs (add_one c s)" by (rule fold_add_same [symmetric])
  finally show ?case by simp
qed

lemma count_fold_add:
  "count_of (dc_retrieval (fold add_one cs s)) st
     = count_of (dc_retrieval s) st + count_rows (\<lambda>c. co_status (dc_retrieval c) = st) cs"
  "count_of (dc_parsing (fold add_one cs s)) st
     = count_of (dc_parsing s) st + count_rows (\<lambda>c. co_status (dc_parsing c) = st) cs"
  "count_of (dc_signature (fold add_one cs s)) st
     = count_of (dc_signature s) st + count_rows (\<lambda>c. co_status (dc_signature c) = st) cs"
  "count_of (dc_digest (fold add_one cs s)) st
     = count_of (dc_digest s) st + count_rows (\<lambda>c. co_status (dc_digest c) = st) cs"
  by (induction cs arbitrary: s) (simp_all add: count_rows_def summary_add_def statuses_def)

lemma count_rows_map: "count_rows P (map f xs) = count_rows (\<lambda>x. P (f x)) xs"
  by (simp add: count_rows_def filter_map comp_def)

lemma summary_counts:
  "count_of (dc_retrieval (document_check_summary db)) st
     = count_rows (\<lambda>d. co_status (dc_retrieval (dr_checks d)) = st) (db_documents db)"
  "count_of (dc_parsing (document_check_summary db)) st
     = count_rows (\<lambda>d. co_status (dc_parsing (dr_checks d)) = st) (db_documents db)"
  "count_of (dc_signature (document_check_summary db)) st
     = count_rows (\<lambda>d. co_status (dc_signature (dr_checks d)) = st) (db_documents db)"
  "count_of (dc_digest (document_check_summary db)) st
     = count_rows (\<lambda>d. co_status (dc_digest (dr_checks d)) = st) (db_documents db)"
  unfolding document_check_summary_def fold_groups count_fold_add
  by (simp_all add: count_rows_map summary_default_def)

subsection \<open>Filters against counters\<close>

lemma stage_filter:
  assumes "stage \<in> set stages"
  shows "status_filter (Some (stage @ ''-'' @ status_text st)) d
    \<longleftrightarrow> stage_status stage d = Some (status_text st)"
proof -
  from assms consider "stage = ''retrieval''" | "stage = ''parsing''" | "stage = ''signature''"
    | "stage = ''digest''"
    by (auto simp: stages_def)
  then show ?thesis
    by cases (cases st; simp add: status_filter_def named_filter_def split_once_def stages_def
        check_condition_def Let_def)+
qed

definition stage_counts :: "string \<Rightarrow> check_summary \<Rightarrow> check_counts" where
  "stage_counts stage s = (if stage = ''retrieval'' then dc_retrieval s
     else if stage = ''parsing'' then dc_parsing s
     else if stage = ''signature'' then dc_signature s else dc_digest s)"

lemma stage_count:
  assumes "stage \<in> set stages"
  shows "count_rows (\<lambda>d. stage_status stage d = Some (status_text st)) (db_documents db)
    = count_of (stage_counts stage (document_check_summary db)) st"
proof -
  from assms consider "stage = ''retrieval''" | "stage = ''parsing''" | "stage = ''signature''"
    | "stage = ''digest''"
    by (auto simp: stages_def)
  then show ?thesis
    by cases (simp_all add: stage_counts_def summary_counts)
qed

text \<open>
  The check counters of a provider are the sizes of the filtered document lists: for every
  stage and every outcome, the grouped query of the summary counts as many documents as the list
  filtered by \<open>stage-outcome\<close> reports in total, whatever page is asked for.
\<close>

theorem filters_match_summary:
  assumes "stage \<in> set stages"
  shows "pg_total (load_documents_paginated db offset limit (Some (stage @ ''-'' @ status_text st)))
    = count_of (stage_counts stage (document_check_summary db)) st"
proof -
  have "pg_total (load_documents_paginated db offset limit (Some (stage @ ''-'' @ status_text st)))
      = count_rows (\<lambda>d. stage_status stage d = Some (status_text st)) (db_documents db)"
    unfolding load_documents_paginated_def Let_def stage_filter [OF assms] count_rows_def by simp
  also have "\<dots> = count_of (stage_counts stage (document_check_summary db)) st"
    by (rule stage_count [OF assms])
  finally show ?thesis .
qed

theorem filters_match_summary_witness:
  "''digest'' \<in> set stages
   \<and> pg_total (load_documents_paginated db_empty 0 50 (Some (''digest'' @ ''-'' @ status_text Warning)))
     = count_of (stage_counts ''digest'' (document_check_summary db_empty)) Warning"
proof -
  have s: "''digest'' \<in> set stages" by (simp add: stages_def)
  show ?thesis using s filters_match_summary [OF s, of db_empty 0 50 Warning] by blast
qed

subsection \<open>The named filters\<close>

lemma check_in_iff:
  assumes "stage_status stage d = Some (status_text st)"
  shows "check_in stage [''failed'', ''warning'', ''missing''] d = bad_status st"
    "check_in stage [''failed'', ''missing''] d \<longleftrightarrow> st = Failed \<or> st = Missing"
  using assms by (cases st; simp add: check_in_def bad_status_def)+

lemma stage_status_of:
  "stage_status ''retrieval'' d = Some (status_text (co_status (dc_retrieval (dr_checks d))))"
  "stage_status ''parsing'' d = Some (status_text (co_status (dc_parsing (dr_checks d))))"
  "stage_status ''signature'' d = Some (status_text (co_status (dc_signature (dr_checks d))))"
  "stage_status ''digest'' d = Some (status_text (co_status (dc_digest (dr_checks d))))"
  by simp_all

lemma check_condition_status: "check_condition stage (status_text st) d
    \<longleftrightarrow> stage_status stage d = Some (status_text st)"
  by (simp add: check_condition_def)

lemma overall_in_iff:
  "overall_in [''failing''] d \<longleftrightarrow> overall_status d = Some OFailing"
  "overall_in [''passing''] d \<longleftrightarrow> overall_status d = Some OPassing"
  "overall_in [''failing'', ''warning''] d \<longleftrightarrow> overall_status d = Some OFailing \<or> overall_status d = Some OWarning"
proof -
  show "overall_in [''failing''] d \<longleftrightarrow> overall_status d = Some OFailing"
  proof (cases "overall_status d")
    case (Some x) then show ?thesis by (cases x) (simp_all add: overall_in_def)
  qed (simp add: overall_in_def)
  show "overall_in [''passing''] d \<longleftrightarrow> overall_status d = Some OPassing"
  proof (cases "overall_status d")
    case (Some x) then show ?thesis by (cases x) (simp_all add: overall_in_def)
  qed (simp add: overall_in_def)
  show "overall_in [''failing'', ''warning''] d \<longleftrightarrow> overall_status d = Some OFailing \<or> overall_status d = Some OWarning"
  proof (cases "overall_status d")
    case (Some x) then show ?thesis by (cases x) (simp_all add: overall_in_def)
  qed (simp add: overall_in_def)
qed

lemma named_filter_of:
  "named_filter ''document-issues'' d = has_check_issue (dr_checks d)"
  "named_filter ''failing'' d \<longleftrightarrow> overall_status d = Some OFailing"
  "named_filter ''warnings'' d \<longleftrightarrow> overall_status d = Some OFailing \<or> overall_status d = Some OWarning"
  "named_filter ''passing'' d \<longleftrightarrow> overall_status d = Some OPassing"
  "named_filter ''errors'' d \<longleftrightarrow> co_status (dc_retrieval (dr_checks d)) \<in> {Failed, Missing}"
  "named_filter ''retrieval-errors'' d \<longleftrightarrow> co_status (dc_retrieval (dr_checks d)) \<in> {Failed, Missing}"
  by (simp_all add: named_filter_def overall_in_iff stages_def check_in_iff [OF stage_status_of(1)]
      check_in_iff [OF stage_status_of(2)] check_in_iff [OF stage_status_of(3)]
      check_in_iff [OF stage_status_of(4)] has_check_issue_def del: stage_status.simps)

lemma status_text_eq:
  "status_text st = ''failed'' \<longleftrightarrow> st = Failed" "status_text st = ''warning'' \<longleftrightarrow> st = Warning"
  by (cases st; simp)+

lemma named_filter_status:
  "named_filter ''parse-errors'' d \<longleftrightarrow> co_status (dc_parsing (dr_checks d)) = Failed"
  "named_filter ''signature-errors'' d \<longleftrightarrow> co_status (dc_signature (dr_checks d)) = Failed"
  "named_filter ''digest-errors'' d \<longleftrightarrow> co_status (dc_digest (dr_checks d)) = Failed"
  "named_filter ''digest-warnings'' d \<longleftrightarrow> co_status (dc_digest (dr_checks d)) = Warning"
  by (simp_all add: named_filter_def check_condition_def status_text_eq)

definition error_filters :: "string list" where
  "error_filters = [''errors'', ''retrieval-errors'', ''parse-errors'', ''signature-errors'',
     ''digest-errors'']"

text \<open>
  The document filters agree with each other: \<open>document-issues\<close> lists exactly the documents
  with an essential check that failed, warned or has no input (the ones \<open>distribution_health\<close>
  counts); \<open>failing\<close>, the remaining \<open>warnings\<close> and \<open>passing\<close> exclude one another; and a
  document listed by any of the error filters is listed as failing.
\<close>

theorem document_filters_agree:
  "status_filter (Some ''document-issues'') d = has_check_issue (dr_checks d)
   \<and> \<not> (status_filter (Some ''passing'') d \<and> status_filter (Some ''warnings'') d)
   \<and> (status_filter (Some ''failing'') d \<longrightarrow> status_filter (Some ''warnings'') d)
   \<and> (\<forall>e \<in> set error_filters. status_filter (Some e) d \<longrightarrow> status_filter (Some ''failing'') d)"
proof -
  have e: "\<forall>e \<in> set error_filters. status_filter (Some e) d \<longrightarrow> status_filter (Some ''failing'') d"
    by (simp add: error_filters_def status_filter_def named_filter_of named_filter_status
        overall_status_def Let_def)
  have "status_filter (Some ''failing'') d \<longrightarrow> status_filter (Some ''warnings'') d"
    "\<not> (status_filter (Some ''passing'') d \<and> status_filter (Some ''warnings'') d)"
    "status_filter (Some ''document-issues'') d = has_check_issue (dr_checks d)"
    unfolding status_filter_def option.case named_filter_of by simp_all
  with e show ?thesis by (intro conjI)
qed

text \<open>A document whose retrieval failed is listed as an error and as failing.\<close>

definition unreachable_row :: document_row where
  "unreachable_row = (document_row_of 1 None (sample_doc ''A'' ''u''))
     \<lparr>dr_checks := checks_default\<lparr>dc_retrieval := outcome_new Failed\<rparr>\<rparr>"

definition unreachable_db :: provider_db where
  "unreachable_db = db_empty\<lparr>db_documents := [unreachable_row]\<rparr>"

theorem document_filters_agree_witness:
  "''errors'' \<in> set error_filters \<and> status_filter (Some ''errors'') unreachable_row
   \<and> status_filter (Some ''failing'') unreachable_row \<and> status_filter (Some ''warnings'') unreachable_row"
proof -
  have e: "''errors'' \<in> set error_filters" by (simp add: error_filters_def)
  have s: "status_filter (Some ''errors'') unreachable_row"
    by (simp add: status_filter_def named_filter_of unreachable_row_def outcome_new_def)
  note facts = document_filters_agree [of unreachable_row]
  have f: "status_filter (Some ''failing'') unreachable_row"
    by (rule mp [OF bspec [OF facts [THEN conjunct2, THEN conjunct2, THEN conjunct2] e] s])
  have "status_filter (Some ''warnings'') unreachable_row"
    using facts [THEN conjunct2, THEN conjunct2, THEN conjunct1] f by (rule mp)
  with e s f show ?thesis by (intro conjI)
qed

subsection \<open>Pages\<close>

lemma concat_pages: "concat (map (\<lambda>i. take l (drop (i * l) xs)) [0..<n]) = take (n * l) xs"
proof (induction n)
  case (Suc n)
  have "take (Suc n * l) xs = take (n * l) xs @ take l (drop (n * l) xs)"
    by (simp add: take_add [symmetric] add.commute)
  then show ?case using Suc by simp
qed simp

lemma load_failures_map [simp]: "load_failures_for_docs db rows = map (load_row db) rows"
  by (simp add: load_failures_for_docs_def)

text \<open>
  Reading the pages of the document list one after the other yields every document that
  matches the filter exactly once, ordered by tracking id, as soon as the pages cover the reported
  total; no page is longer than the limit and the total is the same on every page.
\<close>

theorem document_pages:
  assumes "pg_total (load_documents_paginated db 0 limit f) \<le> n * limit"
  shows "concat (map (\<lambda>i. pg_items (load_documents_paginated db (i * limit) limit f)) [0..<n])
      = map (load_row db) (sort_key dr_tracking_id (filter (status_filter f) (db_documents db)))
    \<and> (\<forall>i. length (pg_items (load_documents_paginated db i limit f)) \<le> limit
        \<and> pg_total (load_documents_paginated db i limit f)
          = length (filter (status_filter f) (db_documents db)))"
proof -
  let ?s = "sort_key dr_tracking_id (filter (status_filter f) (db_documents db))"
  have n: "length ?s \<le> n * limit" using assms by (simp add: load_documents_paginated_def Let_def)
  have "concat (map (\<lambda>i. pg_items (load_documents_paginated db (i * limit) limit f)) [0..<n])
      = concat (map (\<lambda>i. take limit (drop (i * limit) (map (load_row db) ?s))) [0..<n])"
    by (simp add: load_documents_paginated_def Let_def take_map drop_map)
  also have "\<dots> = map (load_row db) ?s"
    unfolding concat_pages using n by simp
  finally show ?thesis by (simp add: load_documents_paginated_def Let_def)
qed

theorem document_pages_witness:
  "pg_total (load_documents_paginated db_empty 0 20 None) \<le> 1 * 20
   \<and> pg_items (load_documents_paginated db_empty 0 20 None) = []"
proof -
  have t: "pg_total (load_documents_paginated db_empty 0 20 None) \<le> 1 * 20"
    by (simp add: load_documents_paginated_def)
  show ?thesis using document_pages [OF t] t by simp
qed

subsection \<open>The CVE index\<close>

lemma append_less_iff: "p @ a < p @ b \<longleftrightarrow> (a :: string) < b"
  by (induction p) auto

lemma range_end_above:
  assumes "\<forall>c \<in> set r. of_char c < (244 :: nat)"
  shows "(r :: string) < range_end"
  using assms by (cases r) (auto simp: range_end_def less_char_def)

lemma range_is_prefix:
  fixes s p :: string
  assumes "\<forall>c \<in> set s. of_char c < (244 :: nat)"
  shows "p \<le> s \<and> s < p @ range_end \<longleftrightarrow> starts_with s p"
  using assms
proof (induction p arbitrary: s)
  case Nil
  then show ?case using range_end_above [of s] by (simp add: starts_with_def)
next
  case (Cons c p)
  show ?case
  proof (cases s)
    case Nil then show ?thesis by (simp add: starts_with_def)
  next
    case (Cons d t)
    then have "p \<le> t \<and> t < p @ range_end \<longleftrightarrow> starts_with t p" using Cons.IH [of t] Cons.prems by simp
    then show ?thesis unfolding Cons by (auto simp: starts_with_def)
  qed
qed

lemma set_sort_key_desc [simp]: "set (sort_key_desc f xs) = set xs"
  by (simp add: sort_key_desc_def)

lemma length_sort_key_desc [simp]: "length (sort_key_desc f xs) = length xs"
  by (simp add: sort_key_desc_def)

lemma sorted_sort_key_desc: "sorted_wrt (\<lambda>a b. f b \<le> f a) (sort_key_desc f xs)"
proof -
  have "sorted_wrt (\<lambda>a b. f a \<le> f b) (sort_key f (rev xs))"
    using sorted_sort_key [of f "rev xs"] by (simp only: sorted_wrt_map)
  then show ?thesis by (simp add: sort_key_desc_def sorted_wrt_rev)
qed

text \<open>The documents of a database that mention a CVE starting with a prefix.\<close>

definition cve_mentions :: "provider_db \<Rightarrow> string \<Rightarrow> string \<Rightarrow> cve_hit set" where
  "cve_mentions db domain prefix = {cve_hit_of domain (v, d) | v d c. v \<in> set (db_vulnerabilities db)
     \<and> d \<in> set (db_documents db) \<and> dr_id d = vr_document_id v \<and> vr_cve v = Some c
     \<and> starts_with c prefix}"

text \<open>
  A CVE search in prefix mode, which the code runs as a range scan from the prefix to the
  prefix followed by U+10FFFF, returns only documents mentioning a CVE with that prefix, newest
  first and at most \<open>limit\<close>; when the limit is not smaller than the number of matching rows it
  returns all of them. CVE identifiers are assumed to hold no character beyond U+FFFFF.
\<close>

theorem cve_prefix_search:
  assumes ids: "\<forall>v \<in> set (db_vulnerabilities db). \<forall>c. vr_cve v = Some c
    \<longrightarrow> (\<forall>x \<in> set c. of_char x < (244 :: nat))"
  shows "set (find_by_cve db domain prefix True limit) \<subseteq> cve_mentions db domain prefix
    \<and> sorted_wrt (\<lambda>a b. ch_current_release_date b \<le> ch_current_release_date a)
        (find_by_cve db domain prefix True limit)
    \<and> length (find_by_cve db domain prefix True limit) \<le> limit
    \<and> (length (cve_join db) \<le> limit
        \<longrightarrow> set (find_by_cve db domain prefix True limit) = cve_mentions db domain prefix)"
proof -
  let ?hits = "map (cve_hit_of domain) (filter (\<lambda>(v, d). cve_matches True prefix (vr_cve v)) (cve_join db))"
  let ?sorted = "sort_key_desc ch_current_release_date (sort_key (\<lambda>h. (ch_tracking_id h, ch_cve h)) ?hits)"
  have m: "cve_matches True prefix (vr_cve v) \<longleftrightarrow> (\<exists>c. vr_cve v = Some c \<and> starts_with c prefix)"
    if "v \<in> set (db_vulnerabilities db)" for v
  proof (cases "vr_cve v")
    case (Some c)
    then have "\<forall>x \<in> set c. of_char x < (244 :: nat)" using ids that by blast
    then show ?thesis using range_is_prefix [of c prefix] by (simp add: cve_matches_def Some)
  qed (simp add: cve_matches_def)
  have join: "(v, d) \<in> set (cve_join db) \<longleftrightarrow> v \<in> set (db_vulnerabilities db)
      \<and> d \<in> set (db_documents db) \<and> dr_id d = vr_document_id v" for v d
    by (auto simp: cve_join_def)
  have set_hits: "set ?hits = cve_mentions db domain prefix"
    using m by (fastforce simp: cve_mentions_def join image_iff)
  have len: "length ?sorted \<le> length (cve_join db)" by simp
  have def': "find_by_cve db domain prefix True limit = take limit ?sorted"
    by (simp add: find_by_cve_def)
  have "set (take limit ?sorted) \<subseteq> set ?hits"
    using set_take_subset [of limit ?sorted] by simp
  moreover have "sorted_wrt (\<lambda>a b. ch_current_release_date b \<le> ch_current_release_date a) (take limit ?sorted)"
    by (rule sorted_wrt_take [OF sorted_sort_key_desc])
  moreover have "set (take limit ?sorted) = set ?hits" if "length (cve_join db) \<le> limit"
    using take_all [OF le_trans [OF len that]] by simp
  ultimately show ?thesis unfolding def' set_hits by simp
qed

definition cve_sample :: provider_db where
  "cve_sample = db_empty\<lparr>db_documents := [document_row_of 1 None (sample_doc ''A'' ''u'')],
     db_vulnerabilities := [\<lparr>vr_document_id = 1, vr_cve = Some ''CVE-1'', vr_ids = [],
       vr_title = None, vr_score = None, vr_severity = None\<rparr>]\<rparr>"

theorem cve_prefix_search_witness:
  "set (find_by_cve cve_sample ''d'' ''CVE'' True 5) = cve_mentions cve_sample ''d'' ''CVE''
   \<and> cve_mentions cve_sample ''d'' ''CVE'' \<noteq> {}"
proof -
  have ids: "\<forall>v \<in> set (db_vulnerabilities cve_sample). \<forall>c. vr_cve v = Some c
      \<longrightarrow> (\<forall>x \<in> set c. of_char x < (244 :: nat))"
    by (simp add: cve_sample_def)
  have "cve_hit_of ''d'' (hd (db_vulnerabilities cve_sample), hd (db_documents cve_sample))
      \<in> cve_mentions cve_sample ''d'' ''CVE''"
    unfolding cve_mentions_def
    by (rule CollectI, rule exI, rule exI, rule exI [of _ "''CVE-1''"])
      (rule conjI, rule refl, simp add: cve_sample_def document_row_of_def starts_with_def)
  then have "cve_mentions cve_sample ''d'' ''CVE'' \<noteq> {}" by fast
  moreover have "length (cve_join cve_sample) \<le> 5" by (simp add: cve_sample_def cve_join_def)
  ultimately show ?thesis using ids cve_prefix_search [OF ids, of "''d''" "''CVE''" 5] by simp
qed

subsection \<open>The summary\<close>

lemma count_rows_statuses:
  "count_rows (\<lambda>d. f d = Passed) rows + count_rows (\<lambda>d. f d = Failed) rows
    + count_rows (\<lambda>d. f d = Warning) rows + count_rows (\<lambda>d. f d = Missing) rows
    + count_rows (\<lambda>d. f d = NotEvaluated) rows = length rows"
proof (induction rows)
  case (Cons d rows)
  then show ?case by (cases "f d") (simp_all add: count_rows_def)
qed (simp add: count_rows_def)

lemma count_total_rows:
  assumes "\<And>st. count_of c st = count_rows (\<lambda>d. f d = st) rows"
  shows "count_total c = length rows"
  using assms [of Passed] assms [of Failed] assms [of Warning] assms [of Missing]
    assms [of NotEvaluated] count_rows_statuses [of f rows]
  by (simp add: count_total_def)

lemma count_rows_either:
  "count_rows (\<lambda>d. f d = Failed \<or> f d = Missing) rows
    = count_rows (\<lambda>d. f d = Failed) rows + count_rows (\<lambda>d. f d = Missing) rows"
  by (induction rows) (auto simp: count_rows_def)

lemma pass_rate_bounds:
  "0 \<le> psum_pass_rate (build_profile_from_counts v i) \<and> psum_pass_rate (build_profile_from_counts v i) \<le> 1"
  by (simp add: build_profile_from_counts_def Let_def)

lemma some_tests_bounds:
  "some_tests (profile_summary_of cols rows) = Some p \<Longrightarrow> 0 \<le> psum_pass_rate p \<and> psum_pass_rate p \<le> 1"
  unfolding some_tests_def profile_summary_of_def
  using pass_rate_bounds by (auto split: if_splits)

text \<open>
  A freshly built summary is consistent with itself: every document is counted once in each
  of the four check counters, the signature summary and the number of retrieval errors are the
  counters of their checks, every published pass rate lies between 0 and 1, and at most ten failing
  tests are listed.
\<close>

theorem summary_consistent:
  assumes c: "sm_checks (build_summary_from_db db domain now) = Some c"
  shows "(\<forall>k \<in> {dc_retrieval c, dc_parsing c, dc_signature c, dc_digest c}.
        count_total k = sm_document_count (build_summary_from_db db domain now))
    \<and> sm_signatures (build_summary_from_db db domain now) = Some \<lparr>ss_valid = cc_passed (dc_signature c),
        ss_invalid = cc_failed (dc_signature c), ss_missing = cc_missing (dc_signature c)\<rparr>
    \<and> sm_retrieval_errors (build_summary_from_db db domain now)
        = cc_failed (dc_retrieval c) + cc_missing (dc_retrieval c)
    \<and> (\<forall>p sel. sel \<in> {pr_basic, pr_extended, pr_full}
        \<and> sel (sm_profiles (build_summary_from_db db domain now)) = Some p
        \<longrightarrow> 0 \<le> psum_pass_rate p \<and> psum_pass_rate p \<le> 1)
    \<and> length (sm_top_failing_tests (build_summary_from_db db domain now)) \<le> 10"
proof -
  have c': "c = document_check_summary db" using c by (simp add: build_summary_from_db_def Let_def)
  have counters: "cc_passed k = count_of k Passed" "cc_failed k = count_of k Failed"
    "cc_missing k = count_of k Missing" for k by simp_all
  have totals: "count_total k = length (db_documents db)"
    if "k \<in> {dc_retrieval c, dc_parsing c, dc_signature c, dc_digest c}" for k
  proof -
    from that [unfolded c'] consider "k = dc_retrieval (document_check_summary db)"
      | "k = dc_parsing (document_check_summary db)" | "k = dc_signature (document_check_summary db)"
      | "k = dc_digest (document_check_summary db)" by blast
    then show ?thesis
      by cases (erule ssubst, rule count_total_rows, rule summary_counts)+
  qed
  have rates: "0 \<le> psum_pass_rate p \<and> psum_pass_rate p \<le> 1"
    if "sel \<in> {pr_basic, pr_extended, pr_full}"
      "sel (sm_profiles (build_summary_from_db db domain now)) = Some p" for p sel
    using that some_tests_bounds by (auto simp: build_summary_from_db_def Let_def)
  have sig: "sm_signatures (build_summary_from_db db domain now) = Some \<lparr>ss_valid = cc_passed (dc_signature c),
        ss_invalid = cc_failed (dc_signature c), ss_missing = cc_missing (dc_signature c)\<rparr>"
    unfolding counters c' summary_counts by (simp add: build_summary_from_db_def Let_def)
  have err: "sm_retrieval_errors (build_summary_from_db db domain now)
        = cc_failed (dc_retrieval c) + cc_missing (dc_retrieval c)"
    unfolding counters c' summary_counts by (simp add: build_summary_from_db_def Let_def count_rows_either)
  have top: "length (sm_top_failing_tests (build_summary_from_db db domain now)) \<le> 10"
    by (simp add: build_summary_from_db_def Let_def top_failing_tests_def)
  have n: "sm_document_count (build_summary_from_db db domain now) = length (db_documents db)"
    by (simp add: build_summary_from_db_def Let_def)
  have all: "\<forall>k \<in> {dc_retrieval c, dc_parsing c, dc_signature c, dc_digest c}.
        count_total k = sm_document_count (build_summary_from_db db domain now)"
    unfolding n by (rule ballI, rule totals)
  show ?thesis
    by (rule conjI [OF all conjI [OF sig conjI [OF err conjI [OF _ top]]]])
      (intro allI impI, elim conjE, rule rates)
qed

theorem summary_consistent_witness:
  "sm_checks (build_summary_from_db unreachable_db ''d'' 0) = Some (document_check_summary unreachable_db)
   \<and> sm_retrieval_errors (build_summary_from_db unreachable_db ''d'' 0)
     = cc_failed (dc_retrieval (document_check_summary unreachable_db))
       + cc_missing (dc_retrieval (document_check_summary unreachable_db))
   \<and> sm_document_count (build_summary_from_db unreachable_db ''d'' 0) = 1"
proof -
  have c: "sm_checks (build_summary_from_db unreachable_db ''d'' 0) = Some (document_check_summary unreachable_db)"
    and n: "sm_document_count (build_summary_from_db unreachable_db ''d'' 0) = 1"
    by (simp_all add: build_summary_from_db_def Let_def unreachable_db_def)
  show ?thesis
    using c n summary_consistent [OF c, THEN conjunct2, THEN conjunct2, THEN conjunct1] by simp
qed

subsection \<open>The cursor over failed URLs\<close>

lemma error_urls_sorted: "db_inv db \<Longrightarrow> sorted_wrt (<) (error_urls db)"
  by (simp add: error_urls_def strict_sorted_iff db_inv_def document_urls_def distinct_map_filter)

interpretation failed_urls: keyset_pages retrieval_error_urls error_urls db_inv 256
  by unfold_locales (simp_all add: error_urls_sorted retrieval_error_urls_def)

text \<open>
  Two different documents under different URLs whose tracking ids have the same lossy form: saving
  the first removes the second, although the batch does not contain it.
\<close>

lemma lossy_ids_collide: "lossy_tracking_id ascii_lower ''X:1'' = ''x_1''"
  by code_simp

theorem save_removes_other_document:
  "doc_at (save_document ascii_lower (sample_doc ''x_1'' ''u2'') db_empty) ''u2'' \<noteq> None
   \<and> doc_at (fold (save_document ascii_lower) [sample_doc ''x_1'' ''u2'', sample_doc ''X:1'' ''u1''] db_empty) ''u2''
     = None"
proof -
  let ?db = "save_document ascii_lower (sample_doc ''x_1'' ''u2'') db_empty"
  have d: "doc_at ?db ''u2'' = Some (document_row_of 1 None (sample_doc ''x_1'' ''u2''))"
    by (simp add: doc_at_save_document)
  have r: "replaces ascii_lower (sample_doc ''X:1'' ''u1'') (document_row_of 1 None (sample_doc ''x_1'' ''u2''))"
    by (simp add: replaces_def lossy_ids_collide)
  have inv: "db_inv ?db" by (simp add: save_document_inv)
  show ?thesis using r by (simp add: doc_at_save_document [OF inv] d)
qed

end
