(* ===== verification/Git_Objects.thy ===== *)
theory Git_Objects
  imports Trove_Prelude
begin

section \<open>Git trees and their comparison\<close>

text \<open>
  \<open>server/src/storage/git_changes.rs\<close>: the comparison of two snapshots that descends only into
  changed directories and the bounded cache of recent comparisons. Trees are immutable and
  content-addressed, so a tree is modelled by value: a datatype that holds its identity and its
  entries, with \<open>find_tree\<close> of a subdirectory being the entry itself (a tree missing from the
  object database is not modelled). \<open>diff_tree_to_tree\<close> is libgit2's and a parameter
  \<open>native\<close>; what the code relies on is \<open>libgit2_diff\<close>. \<open>utf8\<close> tells the names that
  are valid UTF-8.
\<close>

type_synonym oid = string

datatype git_tree = GTree (tree_id: oid) (tree_entries: "(string \<times> git_entry) list")
  and git_entry = EBlob nat oid | ETree git_tree | ECommit oid

definition is_tree :: "git_entry \<Rightarrow> bool" where
  "is_tree e = (case e of ETree t \<Rightarrow> True | _ \<Rightarrow> False)"

text \<open>\<open>(entry.id(), entry.filemode())\<close>.\<close>

fun identity :: "git_entry \<Rightarrow> oid \<times> nat" where
  "identity (EBlob m i) = (i, m)"
| "identity (ETree t) = (tree_id t, 16384)"
| "identity (ECommit i) = (i, 57344)"

definition entries_of :: "git_tree option \<Rightarrow> (string \<times> git_entry) list" where
  "entries_of t = (case t of None \<Rightarrow> [] | Some t' \<Rightarrow> tree_entries t')"

definition get_name :: "git_tree option \<Rightarrow> string \<Rightarrow> git_entry option" where
  "get_name t name = map_of (entries_of t) name"

definition subtree :: "git_tree option \<Rightarrow> string \<Rightarrow> git_tree option" where
  "subtree t name = (case get_name t name of Some (ETree s) \<Rightarrow> Some s | _ \<Rightarrow> None)"

text \<open>\<open>Tree::get_path\<close>: the entry at a path, \<open>None\<close> for \<open>ErrorCode::NotFound\<close>.\<close>

fun walk_path :: "git_tree option \<Rightarrow> string list \<Rightarrow> git_entry option" where
  "walk_path t [] = None"
| "walk_path t [n] = get_name t n"
| "walk_path t (n # m # ps) = walk_path (subtree t n) (m # ps)"

definition get_path :: "git_tree \<Rightarrow> string \<Rightarrow> git_entry option" where
  "get_path t path = walk_path (Some t) (split_on (CHR ''/'') path)"

text \<open>The file (blob or submodule) at a path: what a comparison of files sees.\<close>

definition as_file :: "git_entry option \<Rightarrow> (oid \<times> nat) option" where
  "as_file e = (case e of None \<Rightarrow> None | Some e' \<Rightarrow> if is_tree e' then None else Some (identity e'))"

definition file_at :: "git_tree option \<Rightarrow> string \<Rightarrow> (oid \<times> nat) option" where
  "file_at t path = as_file (walk_path t (split_on (CHR ''/'') path))"

subsection \<open>Deltas\<close>

datatype delta_status = DAdded | DDeleted | DModified | DOther

record tree_delta =
  td_status :: delta_status
  td_old_path :: "string option"
  td_new_path :: "string option"
  td_new_id :: oid

type_synonym native_diff = "git_tree option \<Rightarrow> git_tree option \<Rightarrow> tree_delta list"

text \<open>
  What a list of deltas says when it compares files correctly: it mentions exactly the paths whose
  file differs, and its added or modified entries are the new contents.
\<close>

definition mentions :: "tree_delta list \<Rightarrow> string \<Rightarrow> bool" where
  "mentions ds x \<longleftrightarrow> (\<exists>d \<in> set ds. td_old_path d = Some x \<or> td_new_path d = Some x)"

definition introduces :: "tree_delta list \<Rightarrow> string \<Rightarrow> oid \<Rightarrow> bool" where
  "introduces ds x i \<longleftrightarrow> (\<exists>d \<in> set ds. td_status d \<in> {DAdded, DModified}
     \<and> td_new_path d = Some x \<and> td_new_id d = i)"

definition new_content :: "git_tree option \<Rightarrow> git_tree option \<Rightarrow> string \<Rightarrow> oid \<Rightarrow> bool" where
  "new_content old new p i \<longleftrightarrow> (\<exists>m. file_at new p = Some (i, m) \<and> file_at old p \<noteq> Some (i, m))"

definition deltas_correct :: "git_tree option \<Rightarrow> git_tree option \<Rightarrow> string \<Rightarrow> tree_delta list \<Rightarrow> bool" where
  "deltas_correct old new prefix ds \<longleftrightarrow>
     (\<forall>x. mentions ds x \<longleftrightarrow> (\<exists>p. x = prefix @ p \<and> file_at old p \<noteq> file_at new p))
     \<and> (\<forall>x i. introduces ds x i \<longleftrightarrow> (\<exists>p. x = prefix @ p \<and> new_content old new p i))"

text \<open>Objects of one repository: identities determine trees, names are path components.\<close>

definition object_store :: "git_tree set \<Rightarrow> bool" where
  "object_store U \<longleftrightarrow> inj_on tree_id U
     \<and> (\<forall>t \<in> U. distinct (map fst (tree_entries t))
         \<and> (\<forall>n e. (n, e) \<in> set (tree_entries t) \<longrightarrow> CHR ''/'' \<notin> set n
             \<and> (\<forall>s. e = ETree s \<longrightarrow> s \<in> U)))"

definition libgit2_diff :: "git_tree set \<Rightarrow> native_diff \<Rightarrow> bool" where
  "libgit2_diff U native \<longleftrightarrow> (\<forall>old new. set_option old \<union> set_option new \<subseteq> U
     \<longrightarrow> deltas_correct old new [] (native old new))"

subsection \<open>Pruned comparison\<close>

text \<open>
  The loop of \<open>compare\<close> over the entries of both trees: \<open>None\<close> where it hands the pair to
  libgit2, otherwise the names of the changed subdirectories.
\<close>

fun scan_dirs :: "(string \<Rightarrow> bool) \<Rightarrow> git_tree option \<Rightarrow> git_tree option
    \<Rightarrow> (string \<times> git_entry) list \<Rightarrow> string list option" where
  "scan_dirs utf8 old new [] = Some []"
| "scan_dirs utf8 old new ((name, e) # es) =
     (if \<not> is_tree e then None
      else if \<not> utf8 name then None
      else (let before = get_name old name; after = get_name new name in
        if map_option identity before = map_option identity after then scan_dirs utf8 old new es
        else if \<exists>x \<in> set_option before \<union> set_option after. \<not> is_tree x then None
        else map_option (\<lambda>ns. name # ns) (scan_dirs utf8 old new es)))"

lemma scan_dirs_SomeD:
  assumes "scan_dirs utf8 old new es = Some names"
  shows "\<forall>(n, e) \<in> set es. is_tree e \<and> (n \<in> set names \<or>
        map_option identity (get_name old n) = map_option identity (get_name new n))"
    and "\<forall>n \<in> set names. n \<in> fst ` set es
        \<and> (\<forall>x \<in> set_option (get_name old n) \<union> set_option (get_name new n). is_tree x)"
proof -
  have "(\<forall>(n, e) \<in> set es. is_tree e \<and> (n \<in> set names \<or>
        map_option identity (get_name old n) = map_option identity (get_name new n)))
     \<and> (\<forall>n \<in> set names. n \<in> fst ` set es
        \<and> (\<forall>x \<in> set_option (get_name old n) \<union> set_option (get_name new n). is_tree x))"
    using assms
  proof (induction es arbitrary: names)
    case (Cons ne es)
    obtain n e where ne: "ne = (n, e)" by (cases ne)
    show ?case
    proof (cases "map_option identity (get_name old n) = map_option identity (get_name new n)")
      case True
      then have "is_tree e" "scan_dirs utf8 old new es = Some names"
        using Cons.prems by (auto simp: ne Let_def split: if_splits)
      then show ?thesis using Cons.IH True by (auto simp: ne)
    next
      case False
      then obtain ns where "is_tree e" "scan_dirs utf8 old new es = Some ns" "names = n # ns"
        and "\<forall>x \<in> set_option (get_name old n) \<union> set_option (get_name new n). is_tree x"
        using Cons.prems by (auto simp: ne Let_def split: if_splits)
      then show ?thesis using Cons.IH by (auto simp: ne)
    qed
  qed simp
  then show "\<forall>(n, e) \<in> set es. is_tree e \<and> (n \<in> set names \<or>
        map_option identity (get_name old n) = map_option identity (get_name new n))"
    and "\<forall>n \<in> set names. n \<in> fst ` set es
        \<and> (\<forall>x \<in> set_option (get_name old n) \<union> set_option (get_name new n). is_tree x)"
    by simp_all
qed

definition osize :: "git_tree option \<Rightarrow> nat" where
  "osize t = (case t of None \<Rightarrow> 0 | Some t' \<Rightarrow> Suc (size t'))"

lemma entry_smaller: "(n, ETree s) \<in> set es \<Longrightarrow> size s < size (GTree i es)"
  by (induction es) auto

lemma subtree_SomeD:
  assumes "subtree t n = Some s"
  obtains t' where "t = Some t'" "(n, ETree s) \<in> set (tree_entries t')"
  using assms
  by (auto simp: subtree_def get_name_def entries_of_def split: option.splits git_entry.splits
      dest: map_of_SomeD)

lemma osize_subtree: "osize (subtree t n) \<le> osize t"
  and osize_subtree_less: "subtree t n \<noteq> None \<Longrightarrow> osize (subtree t n) < osize t"
proof -
  show "subtree t n \<noteq> None \<Longrightarrow> osize (subtree t n) < osize t"
  proof -
    assume "subtree t n \<noteq> None"
    then obtain s where s: "subtree t n = Some s" by blast
    then obtain t' where t: "t = Some t'" "(n, ETree s) \<in> set (tree_entries t')"
      by (rule subtree_SomeD)
    show ?thesis unfolding s using entry_smaller [OF t(2), of "tree_id t'"] by (simp add: t(1) osize_def)
  qed
  then show "osize (subtree t n) \<le> osize t"
    by (cases "subtree t n") (auto simp: osize_def less_imp_le)
qed

lemma scan_dirs_smaller:
  assumes "scan_dirs utf8 old new (entries_of old @ entries_of new) = Some names" "n \<in> set names"
  shows "osize (subtree old n) + osize (subtree new n) < osize old + osize new"
proof -
  have "n \<in> fst ` set (entries_of old @ entries_of new)"
    and trees: "\<forall>x \<in> set_option (get_name old n) \<union> set_option (get_name new n). is_tree x"
    using scan_dirs_SomeD(2) [OF assms(1)] assms(2) by blast+
  then have "get_name old n \<noteq> None \<or> get_name new n \<noteq> None"
    by (auto simp: get_name_def map_of_eq_None_iff)
  then have "subtree old n \<noteq> None \<or> subtree new n \<noteq> None"
    using trees by (fastforce simp: subtree_def is_tree_def split: git_entry.splits)
  then show ?thesis
    using osize_subtree [of old n] osize_subtree [of new n]
      osize_subtree_less [of old n] osize_subtree_less [of new n] by linarith
qed

text \<open>
  \<open>compare\<close>: the calls of libgit2 it makes, each with the directory it is about. The changed
  directories are visited in name order (\<open>BTreeSet\<close>).
\<close>

function compare_calls :: "(string \<Rightarrow> bool) \<Rightarrow> git_tree option \<Rightarrow> git_tree option \<Rightarrow> string
    \<Rightarrow> (string \<times> git_tree option \<times> git_tree option) list" where
  "compare_calls utf8 old new prefix =
     (if map_option tree_id old = map_option tree_id new then []
      else case scan_dirs utf8 old new (entries_of old @ entries_of new) of
          None \<Rightarrow> [(prefix, old, new)]
        | Some names \<Rightarrow> concat (map (\<lambda>name.
            compare_calls utf8 (subtree old name) (subtree new name) (prefix @ name @ ''/''))
            (sort (remdups names))))"
  by pat_completeness auto
termination
  by (relation "measure (\<lambda>(_, old, new, _). osize old + osize new)") (auto dest: scan_dirs_smaller)

declare compare_calls.simps [simp del]

text \<open>\<open>native_diff\<close>: the deltas of one call with their paths below the directory.\<close>

definition native_deltas :: "native_diff \<Rightarrow> string \<times> git_tree option \<times> git_tree option \<Rightarrow> tree_delta list" where
  "native_deltas native call = (case call of (prefix, old, new) \<Rightarrow>
     map (\<lambda>d. d\<lparr>td_old_path := map_option ((@) prefix) (td_old_path d),
       td_new_path := map_option ((@) prefix) (td_new_path d)\<rparr>) (native old new))"

definition compare_trees :: "native_diff \<Rightarrow> (string \<Rightarrow> bool) \<Rightarrow> git_tree option \<Rightarrow> git_tree option \<Rightarrow> tree_delta list" where
  "compare_trees native utf8 old new =
     concat (map (native_deltas native) (compare_calls utf8 old new []))"

subsection \<open>The comparison is complete\<close>

lemma split_on_sep [simp]: "c \<notin> set n \<Longrightarrow> split_on c (n @ c # p) = n # split_on c p"
  by (induction n) auto

lemma file_at_child:
  assumes "CHR ''/'' \<notin> set n"
  shows "file_at t (n @ ''/'' @ p) = file_at (subtree t n) p"
proof -
  obtain q qs where q: "split_on (CHR ''/'') p = q # qs"
    by (cases "split_on (CHR ''/'') p") simp_all
  show ?thesis using assms by (simp add: file_at_def q)
qed

lemma file_at_None [simp]: "file_at None p = None"
proof -
  have "walk_path None ps = None" for ps
  proof (induction ps)
    case (Cons a ps)
    then show ?case by (cases ps) (simp_all add: get_name_def entries_of_def subtree_def)
  qed simp
  then show ?thesis by (simp add: file_at_def as_file_def)
qed

lemma native_deltas_iff:
  "mentions (native_deltas native (prefix, old, new)) x \<longleftrightarrow>
     (\<exists>p. x = prefix @ p \<and> mentions (native old new) p)"
  "introduces (native_deltas native (prefix, old, new)) x i \<longleftrightarrow>
     (\<exists>p. x = prefix @ p \<and> introduces (native old new) p i)"
  by (auto simp: native_deltas_def mentions_def introduces_def)

lemma deltas_correct_native:
  assumes "deltas_correct old new [] (native old new)"
  shows "deltas_correct old new prefix (native_deltas native (prefix, old, new))"
  using assms unfolding deltas_correct_def native_deltas_iff by simp

lemma concat_deltas_iff:
  "mentions (concat (map f ns)) x \<longleftrightarrow> (\<exists>n \<in> set ns. mentions (f n) x)"
  "introduces (concat (map f ns)) x i \<longleftrightarrow> (\<exists>n \<in> set ns. introduces (f n) x i)"
  by (auto simp: mentions_def introduces_def)

lemma below_iff:
  assumes "\<And>p. P p \<Longrightarrow> \<exists>n \<in> N. \<exists>q. p = g n q"
  shows "(\<exists>n \<in> N. \<exists>q. x = prefix @ g n q \<and> P (g n q)) \<longleftrightarrow> (\<exists>p. x = prefix @ p \<and> P p)"
  using assms by blast

lemma deltas_correct_dirs:
  assumes sub: "\<And>n. n \<in> set ns \<Longrightarrow>
      deltas_correct (subtree old n) (subtree new n) (prefix @ n @ ''/'') (f n)"
    and names: "\<And>n. n \<in> set ns \<Longrightarrow> CHR ''/'' \<notin> set n"
    and below: "\<And>p. file_at old p \<noteq> file_at new p \<Longrightarrow> \<exists>n \<in> set ns. \<exists>q. p = n @ ''/'' @ q"
  shows "deltas_correct old new prefix (concat (map f ns))"
proof -
  have child: "file_at t (n @ ''/'' @ q) = file_at (subtree t n) q" if "n \<in> set ns" for t n q
    using file_at_child names that by blast
  have fresh: "new_content old new (n @ ''/'' @ q) i = new_content (subtree old n) (subtree new n) q i"
    if "n \<in> set ns" for n q i
    unfolding new_content_def child [OF that] ..
  have "mentions (concat (map f ns)) x \<longleftrightarrow> (\<exists>p. x = prefix @ p \<and> file_at old p \<noteq> file_at new p)" for x
  proof -
    have "mentions (concat (map f ns)) x \<longleftrightarrow> (\<exists>n \<in> set ns. \<exists>q. x = prefix @ n @ ''/'' @ q
        \<and> file_at old (n @ ''/'' @ q) \<noteq> file_at new (n @ ''/'' @ q))"
      unfolding concat_deltas_iff
    proof (rule bex_cong [OF refl])
      fix n assume n: "n \<in> set ns"
      show "mentions (f n) x \<longleftrightarrow> (\<exists>q. x = prefix @ n @ ''/'' @ q
        \<and> file_at old (n @ ''/'' @ q) \<noteq> file_at new (n @ ''/'' @ q))"
        unfolding child [OF n] using sub [OF n] by (simp add: deltas_correct_def)
    qed
    then show ?thesis
      using below_iff [of "\<lambda>p. file_at old p \<noteq> file_at new p" "set ns" "\<lambda>n q. n @ ''/'' @ q", OF below]
      by simp
  qed
  moreover have "introduces (concat (map f ns)) x i \<longleftrightarrow> (\<exists>p. x = prefix @ p \<and> new_content old new p i)" for x i
  proof -
    have below': "new_content old new p i \<Longrightarrow> \<exists>n \<in> set ns. \<exists>q. p = n @ ''/'' @ q" for p
      using below by (force simp: new_content_def)
    have "introduces (concat (map f ns)) x i \<longleftrightarrow> (\<exists>n \<in> set ns. \<exists>q. x = prefix @ n @ ''/'' @ q
        \<and> new_content old new (n @ ''/'' @ q) i)"
      unfolding concat_deltas_iff
    proof (rule bex_cong [OF refl])
      fix n assume n: "n \<in> set ns"
      show "introduces (f n) x i \<longleftrightarrow> (\<exists>q. x = prefix @ n @ ''/'' @ q
        \<and> new_content old new (n @ ''/'' @ q) i)"
        unfolding fresh [OF n] using sub [OF n] by (simp add: deltas_correct_def)
    qed
    then show ?thesis
      using below_iff [of "\<lambda>p. new_content old new p i" "set ns" "\<lambda>n q. n @ ''/'' @ q", OF below']
      by simp
  qed
  ultimately show ?thesis by (simp add: deltas_correct_def)
qed

lemma same_id_same:
  assumes "object_store U" "set_option a \<union> set_option b \<subseteq> U" "map_option tree_id a = map_option tree_id b"
  shows "a = b"
  using assms by (cases a; cases b) (auto simp: object_store_def dest: inj_onD)

lemma subtree_store:
  assumes "object_store U" "set_option t \<subseteq> U"
  shows "set_option (subtree t n) \<subseteq> U"
proof
  fix s assume "s \<in> set_option (subtree t n)"
  then have "subtree t n = Some s" by simp
  then obtain t' where "t = Some t'" "(n, ETree s) \<in> set (tree_entries t')" by (rule subtree_SomeD)
  then show "s \<in> U" using assms by (auto simp: object_store_def)
qed

lemma entry_name_ok:
  assumes "object_store U" "set_option t \<subseteq> U" "n \<in> fst ` set (entries_of t)"
  shows "CHR ''/'' \<notin> set n"
  using assms by (cases t) (auto simp: entries_of_def object_store_def)

lemma no_slash_file:
  assumes "CHR ''/'' \<notin> set p" "\<And>e. get_name t p = Some e \<Longrightarrow> is_tree e"
  shows "file_at t p = None"
proof -
  have "split_on (CHR ''/'') p = [p]" using assms(1) by (induction p) auto
  then show ?thesis using assms(2) by (simp add: file_at_def as_file_def split: option.split)
qed

lemma path_cases:
  obtains "CHR ''/'' \<notin> set p" | n q where "p = n @ ''/'' @ q" "CHR ''/'' \<notin> set n"
proof (cases "CHR ''/'' \<in> set p")
  case True
  then obtain n q where "p = n @ CHR ''/'' # q" "CHR ''/'' \<notin> set n" by (auto dest: split_list_first)
  then show ?thesis using that(2) by simp
qed (use that(1) in simp)

text \<open>With identities that determine trees, a difference lies below a changed directory.\<close>

lemma scanned_below:
  assumes store: "object_store U" and sub: "set_option old \<union> set_option new \<subseteq> U"
    and scan: "scan_dirs utf8 old new (entries_of old @ entries_of new) = Some names"
    and diff: "file_at old p \<noteq> file_at new p"
  shows "\<exists>n \<in> set names. \<exists>q. p = n @ ''/'' @ q"
proof -
  note s = scan_dirs_SomeD(1) [OF scan]
  have trees: "is_tree e" if "get_name t n = Some e" "t = old \<or> t = new" for t n e
  proof -
    have "(n, e) \<in> set (entries_of old @ entries_of new)"
      using that by (auto simp: get_name_def dest: map_of_SomeD)
    then show ?thesis using s by blast
  qed
  show ?thesis
  proof (rule path_cases [of p])
    assume "CHR ''/'' \<notin> set p"
    then have "file_at old p = None" "file_at new p = None"
      using no_slash_file trees by blast+
    then show ?thesis using diff by simp
  next
    fix n q assume p: "p = n @ ''/'' @ q" "CHR ''/'' \<notin> set n"
    then have d: "file_at (subtree old n) q \<noteq> file_at (subtree new n) q"
      using diff by (simp only: p(1) file_at_child [OF p(2)] not_False_eq_True)
    have "n \<in> set names"
    proof (rule ccontr)
      assume no: "n \<notin> set names"
      have "map_option identity (get_name old n) = map_option identity (get_name new n)"
      proof (cases "n \<in> fst ` set (entries_of old @ entries_of new)")
        case True
        then show ?thesis using s no by fastforce
      next
        case False
        then have "get_name old n = None" "get_name new n = None"
          unfolding get_name_def map_of_eq_None_iff by auto
        then show ?thesis by simp
      qed
      then have "map_option tree_id (subtree old n) = map_option tree_id (subtree new n)"
        using trees [of old n] trees [of new n]
        by (cases "get_name old n"; cases "get_name new n")
          (auto simp: subtree_def is_tree_def split: git_entry.splits)
      then have "subtree old n = subtree new n"
        using same_id_same [OF store] subtree_store [OF store] sub by (metis le_sup_iff)
      then show False using d by simp
    qed
    then show ?thesis using p(1) by blast
  qed
qed

lemma concat_concat_map: "concat (concat (map f xs)) = concat (map (\<lambda>x. concat (f x)) xs)"
  by (induction xs) simp_all

lemma compare_calls_correct:
  assumes "object_store U" "libgit2_diff U native"
  shows "set_option old \<union> set_option new \<subseteq> U \<Longrightarrow>
    deltas_correct old new prefix (concat (map (native_deltas native) (compare_calls utf8 old new prefix)))"
proof (induction utf8 old new prefix rule: compare_calls.induct)
  case (1 utf8 old new prefix)
  show ?case
  proof (cases "map_option tree_id old = map_option tree_id new")
    case True
    then have "old = new" using same_id_same assms(1) "1.prems" by blast
    then show ?thesis
      by (simp add: compare_calls.simps deltas_correct_def mentions_def introduces_def new_content_def)
  next
    case changed: False
    show ?thesis
    proof (cases "scan_dirs utf8 old new (entries_of old @ entries_of new)")
      case None
      have "deltas_correct old new [] (native old new)"
        using assms(2) "1.prems" by (simp add: libgit2_diff_def)
      then show ?thesis
        using changed None deltas_correct_native by (simp add: compare_calls.simps)
    next
      case (Some names)
      let ?f = "\<lambda>n. concat (map (native_deltas native)
        (compare_calls utf8 (subtree old n) (subtree new n) (prefix @ n @ ''/'')))"
      have eq: "concat (map (native_deltas native) (compare_calls utf8 old new prefix))
          = concat (map ?f (sort (remdups names)))"
        using changed Some by (subst compare_calls.simps) (simp add: map_concat comp_def concat_concat_map)
      show ?thesis
        unfolding eq
      proof (rule deltas_correct_dirs)
        fix n assume n: "n \<in> set (sort (remdups names))"
        have "set_option (subtree old n) \<union> set_option (subtree new n) \<subseteq> U"
          using subtree_store [OF assms(1)] "1.prems" by blast
        then show "deltas_correct (subtree old n) (subtree new n) (prefix @ n @ ''/'') (?f n)"
          using "1.IH" [OF changed Some n] by blast
        have "n \<in> fst ` set (entries_of old @ entries_of new)"
          using scan_dirs_SomeD(2) [OF Some] n by simp
        then show "CHR ''/'' \<notin> set n"
          using entry_name_ok [OF assms(1)] "1.prems" by (metis Un_iff image_Un le_sup_iff set_append)
      next
        fix p assume "file_at old p \<noteq> file_at new p"
        then show "\<exists>n \<in> set (sort (remdups names)). \<exists>q. p = n @ ''/'' @ q"
          using scanned_below [OF assms(1) "1.prems" Some] by simp
      qed
    qed
  qed
qed

end
