(* ===== verification/Git_Diff_Cache.thy ===== *)
theory Git_Diff_Cache
  imports Git_Objects
begin

section \<open>The bounded cache of comparisons\<close>

text \<open>
  \<open>TreeDiffCache\<close> of \<open>git_changes.rs\<close>: recently used comparisons are replayed, small new ones
  are retained. A visitor is a function from a delta and its state to an error or a new state; when
  it fails the scan stops and its cache is dropped. The theorems show that the comparison is
  complete and that neither the pruning nor the cache can be observed by a visitor.
\<close>

definition CACHE_ENTRIES :: nat where
  "CACHE_ENTRIES = 32"

definition CACHE_MAX_DELTAS :: nat where
  "CACHE_MAX_DELTAS = 1024"

record cached_diff =
  cd_old :: "oid option"
  cd_new :: oid
  cd_deltas :: "tree_delta list"

record diff_cache =
  tc_entries :: "cached_diff list"
  tc_attempted :: nat
  tc_hits :: nat

definition cache_default :: diff_cache where
  "cache_default = \<lparr>tc_entries = [], tc_attempted = 0, tc_hits = 0\<rparr>"

definition has_key :: "oid option \<Rightarrow> oid \<Rightarrow> cached_diff \<Rightarrow> bool" where
  "has_key old new e \<longleftrightarrow> cd_old e = old \<and> cd_new e = new"

text \<open>A hit moves its entry to the back.\<close>

definition cached :: "oid option \<Rightarrow> oid \<Rightarrow> diff_cache \<Rightarrow> tree_delta list option \<times> diff_cache" where
  "cached old new c = (case dropWhile (\<lambda>e. \<not> has_key old new e) (tc_entries c) of
     [] \<Rightarrow> (None, c)
   | e # rest \<Rightarrow> (Some (cd_deltas e),
       c\<lparr>tc_entries := takeWhile (\<lambda>e. \<not> has_key old new e) (tc_entries c) @ rest @ [e],
         tc_hits := tc_hits c + 1\<rparr>))"

definition retain :: "tree_delta \<Rightarrow> tree_delta list option \<Rightarrow> tree_delta list option" where
  "retain d r = (case r of None \<Rightarrow> None
     | Some items \<Rightarrow> if length items < CACHE_MAX_DELTAS then Some (items @ [d]) else None)"

definition keep_diff :: "oid option \<Rightarrow> oid \<Rightarrow> tree_delta list option \<Rightarrow> diff_cache \<Rightarrow> diff_cache" where
  "keep_diff old new r c = (case r of None \<Rightarrow> c
     | Some ds \<Rightarrow> (let es = (if length (tc_entries c) = CACHE_ENTRIES then tl (tc_entries c) else tc_entries c) in
         c\<lparr>tc_entries := es @ [\<lparr>cd_old = old, cd_new = new, cd_deltas = ds\<rparr>]\<rparr>))"

definition visit :: "native_diff \<Rightarrow> (string \<Rightarrow> bool) \<Rightarrow> git_tree option \<Rightarrow> git_tree
    \<Rightarrow> (tree_delta \<Rightarrow> 's \<Rightarrow> 'e + 's) \<Rightarrow> diff_cache \<times> 's \<Rightarrow> 'e + diff_cache \<times> 's" where
  "visit native utf8 old new visitor cs = (case cs of (c, s) \<Rightarrow>
     (case cached (map_option tree_id old) (tree_id new) c of
        (Some ds, c1) \<Rightarrow> (case fold_res visitor ds s of Inl e \<Rightarrow> Inl e | Inr s' \<Rightarrow> Inr (c1, s'))
      | (None, c1) \<Rightarrow>
          (let calls = compare_calls utf8 old (Some new) [];
               ds = concat (map (native_deltas native) calls) in
           case fold_res visitor ds s of Inl e \<Rightarrow> Inl e
           | Inr s' \<Rightarrow> Inr (keep_diff (map_option tree_id old) (tree_id new) (fold retain ds (Some []))
               (c1\<lparr>tc_attempted := tc_attempted c1 + length calls\<rparr>), s'))))"

definition diff :: "native_diff \<Rightarrow> (string \<Rightarrow> bool) \<Rightarrow> git_tree option \<Rightarrow> git_tree
    \<Rightarrow> diff_cache \<Rightarrow> tree_delta list \<times> diff_cache" where
  "diff native utf8 old new c =
     (case cached (map_option tree_id old) (tree_id new) c of
        (Some ds, c1) \<Rightarrow> (ds, c1)
      | (None, c1) \<Rightarrow>
          (case visit native utf8 old new (\<lambda>d ds. Inr (ds @ [d]) :: unit + tree_delta list) (c1, []) of
             Inl _ \<Rightarrow> ([], c1) | Inr (c2, ds) \<Rightarrow> (ds, c2)))"

subsection \<open>Correctness of the cache\<close>

lemma retain_simps [simp]:
  "retain d None = None"
  "retain d (Some items) = (if length items < CACHE_MAX_DELTAS then Some (items @ [d]) else None)"
  by (simp_all add: retain_def)

lemma fold_retain:
  "fold retain ds (Some items) =
     (if length items + length ds \<le> CACHE_MAX_DELTAS \<or> ds = [] then Some (items @ ds) else None)"
proof (induction ds arbitrary: items)
  case (Cons d ds)
  have none: "fold retain xs None = None" for xs
    by (induction xs) simp_all
  show ?case
    using Cons.IH [of "items @ [d]"] by (auto simp: none)
qed simp

definition entry_ok :: "native_diff \<Rightarrow> (string \<Rightarrow> bool) \<Rightarrow> git_tree set \<Rightarrow> cached_diff \<Rightarrow> bool" where
  "entry_ok native utf8 U e \<longleftrightarrow> length (cd_deltas e) \<le> CACHE_MAX_DELTAS
     \<and> (\<forall>old new. set_option old \<subseteq> U \<and> new \<in> U \<and> has_key (map_option tree_id old) (tree_id new) e
         \<longrightarrow> cd_deltas e = compare_trees native utf8 old (Some new))"

definition cache_ok :: "native_diff \<Rightarrow> (string \<Rightarrow> bool) \<Rightarrow> git_tree set \<Rightarrow> diff_cache \<Rightarrow> bool" where
  "cache_ok native utf8 U c \<longleftrightarrow> length (tc_entries c) \<le> CACHE_ENTRIES
     \<and> distinct (map (\<lambda>e. (cd_old e, cd_new e)) (tc_entries c))
     \<and> (\<forall>e \<in> set (tc_entries c). entry_ok native utf8 U e)"

lemma cache_default_ok [simp]: "cache_ok native utf8 U cache_default"
  by (simp add: cache_ok_def cache_default_def)

lemma cached_None:
  assumes "cached old new c = (None, c1)"
  shows "c1 = c" "\<forall>e \<in> set (tc_entries c). \<not> has_key old new e"
  using assms by (auto simp: cached_def dropWhile_eq_Nil_conv split: list.splits)

lemma cached_Some:
  assumes "cached old new c = (Some ds, c1)"
  obtains a e b where "tc_entries c = a @ e # b" "has_key old new e" "ds = cd_deltas e"
    "tc_entries c1 = a @ b @ [e]"
proof -
  obtain e rest where e: "dropWhile (\<lambda>e. \<not> has_key old new e) (tc_entries c) = e # rest"
    using assms by (cases "dropWhile (\<lambda>e. \<not> has_key old new e) (tc_entries c)")
      (auto simp: cached_def)
  show ?thesis
  proof (rule that [of "takeWhile (\<lambda>e. \<not> has_key old new e) (tc_entries c)" e rest])
    show "tc_entries c = takeWhile (\<lambda>e. \<not> has_key old new e) (tc_entries c) @ e # rest"
      unfolding e [symmetric] by simp
    show "has_key old new e" using dropWhile_eq_Cons_conv [THEN iffD1, OF e] by blast
  qed (use assms e in \<open>auto simp: cached_def\<close>)
qed

lemma cached_ok:
  assumes "cache_ok native utf8 U c" "cached (map_option tree_id old) (tree_id new) c = (Some ds, c1)"
    "set_option old \<subseteq> U" "new \<in> U"
  shows "cache_ok native utf8 U c1 \<and> ds = compare_trees native utf8 old (Some new)"
proof -
  obtain a e b where e: "tc_entries c = a @ e # b" "has_key (map_option tree_id old) (tree_id new) e"
    "ds = cd_deltas e" "tc_entries c1 = a @ b @ [e]"
    using cached_Some [OF assms(2)] by metis
  then have "entry_ok native utf8 U e" using assms(1) by (simp add: cache_ok_def)
  then have "ds = compare_trees native utf8 old (Some new)"
    using e(2,3) assms(3,4) by (simp add: entry_ok_def)
  then show ?thesis using assms(1) e(1,4) by (auto simp: cache_ok_def)
qed

lemma keep_ok:
  assumes store: "object_store U" and ok: "cache_ok native utf8 U c"
    and U: "set_option old \<subseteq> U" "new \<in> U"
    and miss: "\<forall>e \<in> set (tc_entries c). \<not> has_key (map_option tree_id old) (tree_id new) e"
  shows "cache_ok native utf8 U (keep_diff (map_option tree_id old) (tree_id new)
    (fold retain (compare_trees native utf8 old (Some new)) (Some [])) c)"
proof (cases "length (compare_trees native utf8 old (Some new)) \<le> CACHE_MAX_DELTAS")
  case True
  let ?e = "\<lparr>cd_old = map_option tree_id old, cd_new = tree_id new,
    cd_deltas = compare_trees native utf8 old (Some new)\<rparr>"
  let ?es = "if length (tc_entries c) = CACHE_ENTRIES then tl (tc_entries c) else tc_entries c"
  have "set_option old' \<subseteq> U \<and> new' \<in> U \<and> has_key (map_option tree_id old') (tree_id new') ?e
      \<longrightarrow> compare_trees native utf8 old (Some new) = compare_trees native utf8 old' (Some new')" for old' new'
    using same_id_same [OF store, of old' old] same_id_same [OF store, of "Some new'" "Some new"] U
    by (auto simp: has_key_def)
  then have "entry_ok native utf8 U ?e" using True by (simp add: entry_ok_def)
  moreover have "set ?es \<subseteq> set (tc_entries c)" by (cases "tc_entries c") auto
  moreover have "length ?es < CACHE_ENTRIES"
    using ok by (auto simp: cache_ok_def CACHE_ENTRIES_def)
  moreover have "distinct (map (\<lambda>e. (cd_old e, cd_new e)) ?es)"
    using ok by (simp add: cache_ok_def map_tl distinct_tl)
  moreover have "(cd_old x, cd_new x) \<noteq> (map_option tree_id old, tree_id new)" if "x \<in> set ?es" for x
    using miss that calculation(2) by (fastforce simp: has_key_def)
  ultimately have "cache_ok native utf8 U (c\<lparr>tc_entries := ?es @ [?e]\<rparr>)"
    using ok by (fastforce simp: cache_ok_def)
  then show ?thesis using True by (simp add: fold_retain keep_diff_def Let_def)
next
  case False
  then have "fold retain (compare_trees native utf8 old (Some new)) (Some []) = None"
    by (auto simp: fold_retain CACHE_MAX_DELTAS_def)
  then show ?thesis using ok by (simp add: keep_diff_def)
qed

lemma cache_ok_attempted [simp]:
  "cache_ok native utf8 U (c\<lparr>tc_attempted := n\<rparr>) = cache_ok native utf8 U c"
  by (simp add: cache_ok_def)

lemma visit_cases:
  assumes store: "object_store U" and ok: "cache_ok native utf8 U c"
    and U: "set_option old \<subseteq> U" "new \<in> U"
  shows "\<exists>c'. cache_ok native utf8 U c' \<and> visit native utf8 old new visitor (c, s) =
    (case fold_res visitor (compare_trees native utf8 old (Some new)) s of
       Inl e \<Rightarrow> Inl e | Inr s' \<Rightarrow> Inr (c', s'))"
proof (cases "cached (map_option tree_id old) (tree_id new) c")
  case (Pair r c1)
  show ?thesis
  proof (cases r)
    case (Some ds)
    then show ?thesis
      using cached_ok [OF ok _ U, of ds c1] Pair
      by (auto simp: visit_def split: sum.split intro!: exI [of _ c1])
  next
    case None
    note miss = cached_None [OF Pair [unfolded None]]
    let ?c' = "keep_diff (map_option tree_id old) (tree_id new)
      (fold retain (compare_trees native utf8 old (Some new)) (Some []))
      (c\<lparr>tc_attempted := tc_attempted c + length (compare_calls utf8 old (Some new) [])\<rparr>)"
    have "cache_ok native utf8 U ?c'"
      by (rule keep_ok [OF store _ U]) (use ok miss(2) in simp_all)
    moreover have "visit native utf8 old new visitor (c, s) =
        (case fold_res visitor (compare_trees native utf8 old (Some new)) s of
           Inl e \<Rightarrow> Inl e | Inr s' \<Rightarrow> Inr (?c', s'))"
      using Pair None miss(1) by (simp add: visit_def compare_trees_def Let_def split: sum.split)
    ultimately show ?thesis by blast
  qed
qed

text \<open>
  C16. Comparing two snapshots of a repository is complete and exact: the deltas mention a path
  if and only if its file differs between the snapshots, and their added or modified entries are
  exactly the new contents, although only changed directories are read and the work is handed to
  libgit2 piecewise. Trees of the repository are assumed to be determined by their identities, and
  libgit2 to compare any pair of them correctly.
\<close>

theorem compare_exact:
  assumes "object_store U" and "libgit2_diff U native" and "set_option old \<union> set_option new \<subseteq> U"
  shows "(mentions (compare_trees native utf8 old new) p \<longleftrightarrow> file_at old p \<noteq> file_at new p)
    \<and> (introduces (compare_trees native utf8 old new) p i \<longleftrightarrow> new_content old new p i)"
  using compare_calls_correct [OF assms, of "[]" utf8]
  by (simp add: compare_trees_def deltas_correct_def)

text \<open>
  C17. The cache cannot be observed: with any cache whose entries are right, visiting the changes
  between two snapshots ends like handing the fresh comparison to the visitor, with the same state
  or the same error, and leaves a cache whose entries are right, at most 32 of them with distinct
  keys and at most 1024 deltas each.
\<close>

theorem visit_transparent:
  assumes "object_store U" and "cache_ok native utf8 U c" and "set_option old \<subseteq> U" and "new \<in> U"
  shows "case visit native utf8 old new visitor (c, s) of
      Inl e \<Rightarrow> fold_res visitor (compare_trees native utf8 old (Some new)) s = Inl e
    | Inr (c', s') \<Rightarrow> fold_res visitor (compare_trees native utf8 old (Some new)) s = Inr s'
        \<and> cache_ok native utf8 U c'"
proof -
  obtain c' where c': "cache_ok native utf8 U c'" "visit native utf8 old new visitor (c, s) =
      (case fold_res visitor (compare_trees native utf8 old (Some new)) s of
         Inl e \<Rightarrow> Inl e | Inr s' \<Rightarrow> Inr (c', s'))"
    using visit_cases [OF assms, of visitor s] by blast
  show ?thesis
    unfolding c'(2)
    by (cases "fold_res visitor (compare_trees native utf8 old (Some new)) s") (simp_all add: c'(1))
qed

lemma fold_res_push: "fold_res (\<lambda>d ds. Inr (ds @ [d])) xs ds = Inr (ds @ xs)"
  by (induction xs arbitrary: ds) simp_all

lemma diff_eq:
  assumes "object_store U" "cache_ok native utf8 U c" "set_option old \<subseteq> U" "new \<in> U"
  shows "fst (diff native utf8 old new c) = compare_trees native utf8 old (Some new)
    \<and> cache_ok native utf8 U (snd (diff native utf8 old new c))"
proof (cases "cached (map_option tree_id old) (tree_id new) c")
  case (Pair r c1)
  show ?thesis
  proof (cases r)
    case (Some ds)
    then show ?thesis using cached_ok [OF assms(2) _ assms(3,4), of ds c1] Pair by (simp add: diff_def)
  next
    case None
    then have c1: "c1 = c" using cached_None Pair by metis
    obtain c' where "cache_ok native utf8 U c'"
      "visit native utf8 old new (\<lambda>d ds. Inr (ds @ [d]) :: unit + tree_delta list) (c, [])
        = Inr (c', compare_trees native utf8 old (Some new))"
      using visit_cases [OF assms, of "\<lambda>d ds. Inr (ds @ [d]) :: unit + tree_delta list" "[]"]
      by (auto simp: fold_res_push)
    then show ?thesis using Pair None c1 by (simp add: diff_def)
  qed
qed

subsection \<open>A concrete comparison\<close>

text \<open>A comparison of whole trees that meets the contract, for examples.\<close>

fun all_paths :: "git_tree \<Rightarrow> string list" where
  "all_paths (GTree i es) = concat (map (\<lambda>(n, e). case e of
     ETree s \<Rightarrow> map (\<lambda>p. n @ ''/'' @ p) (all_paths s) | _ \<Rightarrow> [n]) es)"

definition paths_of :: "git_tree option \<Rightarrow> string list" where
  "paths_of t = (case t of None \<Rightarrow> [] | Some t' \<Rightarrow> all_paths t')"

definition full_diff :: native_diff where
  "full_diff old new = map (\<lambda>p. \<lparr>td_status = (if file_at old p = None then DAdded
       else if file_at new p = None then DDeleted else DModified),
       td_old_path = Some p, td_new_path = Some p,
       td_new_id = (case file_at new p of Some (i, _) \<Rightarrow> i | None \<Rightarrow> ''0'')\<rparr>)
     (filter (\<lambda>p. file_at old p \<noteq> file_at new p) (remdups (paths_of old @ paths_of new)))"

lemma entry_paths:
  assumes "(n, e) \<in> set es"
    and "x \<in> set (case e of ETree s \<Rightarrow> map (\<lambda>p. n @ ''/'' @ p) (all_paths s) | _ \<Rightarrow> [n])"
  shows "x \<in> set (all_paths (GTree i es))"
  unfolding all_paths.simps set_concat set_map image_image
  by (rule UN_I [OF assms(1)]) (use assms(2) in \<open>simp only: prod.case\<close>)

lemma paths_of_subtree:
  assumes "subtree t n = Some s" "q \<in> set (all_paths s)"
  shows "n @ ''/'' @ q \<in> set (paths_of t)"
proof -
  obtain t' where "t = Some t'" "(n, ETree s) \<in> set (tree_entries t')"
    using assms(1) by (rule subtree_SomeD)
  then show ?thesis
    using assms(2) entry_paths [of n "ETree s" "tree_entries t'" "n @ ''/'' @ q" "tree_id t'"]
    by (simp add: paths_of_def)
qed

lemma file_in_paths: "file_at t p \<noteq> None \<Longrightarrow> p \<in> set (paths_of t)"
proof (induction "length p" arbitrary: t p rule: less_induct)
  case less
  show ?case
  proof (rule path_cases [of p])
    assume "CHR ''/'' \<notin> set p"
    then have "split_on (CHR ''/'') p = [p]" by (induction p) auto
    then obtain e where e: "get_name t p = Some e" "\<not> is_tree e"
      using less.prems by (auto simp: file_at_def as_file_def split: option.splits if_splits)
    then obtain t' where "t = Some t'" "(p, e) \<in> set (tree_entries t')"
      by (auto simp: get_name_def entries_of_def split: option.splits dest: map_of_SomeD)
    moreover have "p \<in> set (case e of ETree s \<Rightarrow> map (\<lambda>q. p @ ''/'' @ q) (all_paths s) | _ \<Rightarrow> [p])"
      using e(2) by (cases e) (simp_all add: is_tree_def)
    ultimately show ?thesis using entry_paths [of p e "tree_entries t'" p "tree_id t'"]
      by (simp add: paths_of_def)
  next
    fix n q assume p: "p = n @ ''/'' @ q" "CHR ''/'' \<notin> set n"
    then have f: "file_at (subtree t n) q \<noteq> None" using less.prems file_at_child [OF p(2)] by simp
    then obtain s where s: "subtree t n = Some s" by (cases "subtree t n") auto
    have "q \<in> set (paths_of (subtree t n))" using less.hyps [OF _ f] p(1) by simp
    then show ?thesis using paths_of_subtree [OF s] by (simp add: s paths_of_def p(1))
  qed
qed

lemma full_diff_correct: "libgit2_diff U full_diff"
proof -
  have in_paths: "p \<in> set (remdups (paths_of old @ paths_of new))" if "file_at old p \<noteq> file_at new p" for old new p
    using that file_in_paths [of old p] file_in_paths [of new p] by (cases "file_at old p") auto
  have "mentions (full_diff old new) x \<longleftrightarrow> file_at old x \<noteq> file_at new x" for old new x
    using in_paths [of old x new] by (auto simp: mentions_def full_diff_def)
  moreover have "introduces (full_diff old new) x i \<longleftrightarrow> new_content old new x i" for old new x i
  proof
    assume "introduces (full_diff old new) x i"
    then show "new_content old new x i"
      by (auto simp: introduces_def full_diff_def new_content_def split: if_splits option.splits)
  next
    assume n: "new_content old new x i"
    then obtain m where m: "file_at new x = Some (i, m)" "file_at old x \<noteq> Some (i, m)"
      by (auto simp: new_content_def)
    then have "x \<in> set (remdups (paths_of old @ paths_of new))" using in_paths [of old x new] by auto
    then show "introduces (full_diff old new) x i"
      using m by (force simp: introduces_def full_diff_def)
  qed
  ultimately show ?thesis by (simp add: libgit2_diff_def deltas_correct_def)
qed

text \<open>Two snapshots: a changed advisory beside an unchanged directory.\<close>

definition dir_a :: git_tree where
  "dir_a = GTree ''a'' [(''x.json'', EBlob 33188 ''1'')]"

definition dir_b :: git_tree where
  "dir_b = GTree ''b'' [(''x.json'', EBlob 33188 ''2'')]"

definition root_a :: git_tree where
  "root_a = GTree ''ra'' [(''d'', ETree dir_a), (''k'', ETree dir_a)]"

definition root_b :: git_tree where
  "root_b = GTree ''rb'' [(''d'', ETree dir_b), (''k'', ETree dir_a)]"

definition sample_store :: "git_tree set" where
  "sample_store = {dir_a, dir_b, root_a, root_b}"

lemma sample_store_ok: "object_store sample_store"
  by (simp add: object_store_def sample_store_def dir_a_def dir_b_def root_a_def root_b_def inj_on_def)

lemma sample_members: "root_a \<in> sample_store" "root_b \<in> sample_store"
  by (simp_all add: sample_store_def)

lemma sample_changed: "file_at (Some root_a) ''d/x.json'' \<noteq> file_at (Some root_b) ''d/x.json''"
  by (simp add: file_at_def root_a_def root_b_def dir_a_def dir_b_def get_name_def entries_of_def
      subtree_def as_file_def is_tree_def)

theorem compare_exact_witness:
  "object_store sample_store \<and> libgit2_diff sample_store full_diff
   \<and> mentions (compare_trees full_diff (\<lambda>_. True) (Some root_a) (Some root_b)) ''d/x.json''"
proof -
  have u: "set_option (Some root_a) \<union> set_option (Some root_b) \<subseteq> sample_store"
    using sample_members by simp
  show ?thesis
    using compare_exact [OF sample_store_ok full_diff_correct u, of "\<lambda>_. True" "''d/x.json''"]
      sample_changed sample_store_ok full_diff_correct by blast
qed

theorem visit_transparent_witness:
  "object_store sample_store \<and> cache_ok full_diff (\<lambda>_. True) sample_store cache_default
   \<and> (case visit full_diff (\<lambda>_. True) (Some root_a) root_b (\<lambda>d n. Inr (Suc n) :: unit + nat) (cache_default, 0) of
       Inl e \<Rightarrow> False | Inr (c', n) \<Rightarrow> n = length (compare_trees full_diff (\<lambda>_. True) (Some root_a) (Some root_b)))"
proof -
  have n: "fold_res (\<lambda>d n. Inr (Suc n) :: unit + nat) ds k = Inr (k + length ds)" for ds :: "tree_delta list" and k
    by (induction ds arbitrary: k) simp_all
  have u: "set_option (Some root_a) \<subseteq> sample_store" using sample_members by simp
  show ?thesis
    using visit_transparent [where native = full_diff and ?utf8.0 = "\<lambda>_. True" and s = 0
        and visitor = "\<lambda>d n. Inr (Suc n) :: unit + nat",
        OF sample_store_ok cache_default_ok u sample_members(2)] sample_store_ok
    by (cases "visit full_diff (\<lambda>_. True) (Some root_a) root_b
        (\<lambda>d n. Inr (Suc n) :: unit + nat) (cache_default, 0)") (auto simp: n)
qed

end
