(* ===== verification/Json_Content.thy ===== *)
theory Json_Content
  imports Document_Store
begin

section \<open>Reading CSAF documents\<close>

text \<open>
  \<open>server/src/storage/content.rs\<close>, the tracking fields of \<open>git_repo.rs\<close> and the metadata
  extraction of \<open>storage/mod.rs\<close>. A parsed document is a \<open>json\<close> value; the parser
  (\<open>serde_json::from_slice\<close>) is a parameter \<open>parse\<close> that returns \<open>None\<close> for invalid JSON.
  Objects keep repeated keys: access to a \<open>serde_json::Value\<close> sees the last one, a derived struct
  rejects repeated fields. Scores are reals, \<open>upper\<close> is \<open>str::to_uppercase\<close>, \<open>url_path\<close> is
  \<open>Url::parse(..).path()\<close>.
\<close>

datatype json_number = PosInt nat | NegInt int | Float real string

datatype json = JNull | JBool bool | JNumber json_number | JString string
  | JArray "json list" | JObject "(string \<times> json) list"

subsection \<open>Access to a value\<close>

definition jget :: "string \<Rightarrow> json \<Rightarrow> json option" where
  "jget k j = (case j of JObject kvs \<Rightarrow> map_of (rev kvs) k | _ \<Rightarrow> None)"

text \<open>\<open>value["k"]\<close>: \<open>Null\<close> when there is no such field.\<close>

definition jidx :: "json \<Rightarrow> string \<Rightarrow> json" where
  "jidx j k = (case jget k j of Some v \<Rightarrow> v | None \<Rightarrow> JNull)"

definition as_str :: "json \<Rightarrow> string option" where
  "as_str j = (case j of JString s \<Rightarrow> Some s | _ \<Rightarrow> None)"

definition as_array :: "json \<Rightarrow> json list option" where
  "as_array j = (case j of JArray xs \<Rightarrow> Some xs | _ \<Rightarrow> None)"

text \<open>The fields of an object in order of first occurrence, each with its last value.\<close>

definition as_object :: "json \<Rightarrow> (string \<times> json) list option" where
  "as_object j = (case j of JObject kvs \<Rightarrow>
     Some (map (\<lambda>k. (k, the (map_of (rev kvs) k))) (rev (remdups (rev (map fst kvs))))) | _ \<Rightarrow> None)"

fun digits :: "nat \<Rightarrow> string" where
  "digits n = (if n < 10 then [char_of (48 + n)] else digits (n div 10) @ [char_of (48 + n mod 10)])"

declare digits.simps [simp del]

definition int_text :: "int \<Rightarrow> string" where
  "int_text i = (if i < 0 then ''-'' @ digits (nat (- i)) else digits (nat i))"

fun number_text :: "json_number \<Rightarrow> string" where
  "number_text (PosInt n) = digits n"
| "number_text (NegInt i) = int_text i"
| "number_text (Float x t) = t"

definition as_i64 :: "json \<Rightarrow> int option" where
  "as_i64 j = (case j of JNumber (PosInt n) \<Rightarrow> if n < 2 ^ 63 then Some (int n) else None
     | JNumber (NegInt i) \<Rightarrow> Some i | _ \<Rightarrow> None)"

definition as_f64 :: "json \<Rightarrow> real option" where
  "as_f64 j = (case j of JNumber (PosInt n) \<Rightarrow> Some (real n) | JNumber (NegInt i) \<Rightarrow> Some (real_of_int i)
     | JNumber (Float x _) \<Rightarrow> Some x | _ \<Rightarrow> None)"

text \<open>
  What a struct deriving \<open>Deserialize\<close> with defaulted fields sees: an object's fields by name
  (unknown ones ignored, repeated ones an error) or an array's elements by position.
\<close>

definition struct_fields :: "string list \<Rightarrow> json \<Rightarrow> json option list option" where
  "struct_fields names j = (case j of
     JObject kvs \<Rightarrow> if list_ex (\<lambda>n. count_list (map fst kvs) n > 1) names then None
       else Some (map (map_of kvs) names)
   | JArray xs \<Rightarrow> if length xs > length names then None
       else Some (map Some xs @ replicate (length names - length xs) None)
   | _ \<Rightarrow> None)"

subsection \<open>Tracking fields\<close>

record tracking_summary =
  ts_status :: "string option"
  ts_version :: "string option"
  ts_current_release_date :: "string option"

definition tracking_default :: tracking_summary where
  "tracking_default = \<lparr>ts_status = None, ts_version = None, ts_current_release_date = None\<rparr>"

definition scalar_text :: "json option \<Rightarrow> string option" where
  "scalar_text v = (case v of Some (JString s) \<Rightarrow> Some s | Some (JNumber n) \<Rightarrow> Some (number_text n)
     | _ \<Rightarrow> None)"

text \<open>\<open>CsafTracking\<close>, \<open>CsafDocument\<close> and \<open>CsafEnvelope\<close>; an absent section is empty.\<close>

definition csaf_tracking :: "json option \<Rightarrow> tracking_summary option" where
  "csaf_tracking v = (case v of None \<Rightarrow> Some tracking_default
     | Some j \<Rightarrow> (case struct_fields [''status'', ''version'', ''current_release_date''] j of
         Some [s, w, d] \<Rightarrow> Some \<lparr>ts_status = scalar_text s, ts_version = scalar_text w,
           ts_current_release_date = scalar_text d\<rparr>
       | _ \<Rightarrow> None))"

definition csaf_document :: "json option \<Rightarrow> tracking_summary option" where
  "csaf_document v = (case v of None \<Rightarrow> Some tracking_default
     | Some j \<Rightarrow> (case struct_fields [''tracking''] j of Some [t] \<Rightarrow> csaf_tracking t | _ \<Rightarrow> None))"

definition csaf_envelope :: "json \<Rightarrow> tracking_summary option" where
  "csaf_envelope j = (case struct_fields [''document''] j of Some [d] \<Rightarrow> csaf_document d | _ \<Rightarrow> None)"

definition parse_tracking :: "(string \<Rightarrow> json option) \<Rightarrow> string \<Rightarrow> tracking_summary" where
  "parse_tracking parse blob = (case parse blob of None \<Rightarrow> tracking_default
     | Some j \<Rightarrow> (case csaf_envelope j of None \<Rightarrow> tracking_default | Some t \<Rightarrow> t))"

subsection \<open>Vulnerabilities\<close>

definition white_space :: "string \<Rightarrow> bool" where
  "white_space s \<longleftrightarrow> map of_char s \<in> set
     ([[9], [10], [11], [12], [13], [32], [194, 133], [194, 160], [225, 154, 128],
       [226, 128, 168], [226, 128, 169], [226, 128, 175], [226, 129, 159], [227, 128, 128 :: nat]]
      @ map (\<lambda>b. [226, 128, b]) [128 ..< 139])"

text \<open>\<open>str::trim\<close>.\<close>

definition trim :: "string \<Rightarrow> string" where
  "trim s = concat (rev (dropWhile white_space (rev (dropWhile white_space (utf8_chars s)))))"

definition normalize_cve :: "(string \<Rightarrow> string) \<Rightarrow> string \<Rightarrow> string" where
  "normalize_cve upper cve = upper (trim cve)"

definition array_items :: "json \<Rightarrow> json list" where
  "array_items j = (case as_array j of Some xs \<Rightarrow> xs | None \<Rightarrow> [])"

definition is_object :: "json \<Rightarrow> bool" where
  "is_object j = (case j of JObject _ \<Rightarrow> True | _ \<Rightarrow> False)"

definition cvss_entries :: "json \<Rightarrow> json list" where
  "cvss_entries vuln =
     (let scores = array_items (jidx vuln ''scores'');
          metrics = map (\<lambda>m. jidx m ''content'') (array_items (jidx vuln ''metrics'')) in
      filter is_object (concat (map (\<lambda>entry. map (jidx entry) [''cvss_v4'', ''cvss_v3'', ''cvss_v2''])
        (scores @ metrics))))"

text \<open>\<open>Iterator::max_by\<close> on the score: of equal ones the last.\<close>

fun max_score :: "(real \<times> 'a) list \<Rightarrow> (real \<times> 'a) option" where
  "max_score [] = None"
| "max_score (x # xs) = (case max_score xs of None \<Rightarrow> Some x
     | Some y \<Rightarrow> if fst x \<le> fst y then Some y else Some x)"

definition max_cvss :: "json \<Rightarrow> real option \<times> string option" where
  "max_cvss vuln = (case max_score (List.map_filter (\<lambda>cvss.
       map_option (\<lambda>x. (x, as_str (jidx cvss ''baseSeverity''))) (as_f64 (jidx cvss ''baseScore'')))
       (cvss_entries vuln)) of
     None \<Rightarrow> (None, None) | Some (score, severity) \<Rightarrow> (Some score, severity))"

definition vulnerability_index_entry :: "(string \<Rightarrow> string) \<Rightarrow> json \<Rightarrow> vulnerability_entry option" where
  "vulnerability_index_entry upper vuln =
     (let cve = map_option (normalize_cve upper) (as_str (jidx vuln ''cve''));
          ids = List.map_filter (\<lambda>i. as_str (jidx i ''text'')) (array_items (jidx vuln ''ids'')) in
      if cve = None \<and> ids = [] then None
      else (case max_cvss vuln of (score, severity) \<Rightarrow>
        Some \<lparr>ve_cve = cve, ve_ids = ids, ve_title = as_str (jidx vuln ''title''),
          ve_score = score, ve_severity = severity\<rparr>))"

definition vulnerabilities_only :: "json \<Rightarrow> json list option" where
  "vulnerabilities_only j = (case struct_fields [''vulnerabilities''] j of
     Some [v] \<Rightarrow> (case v of None \<Rightarrow> Some [] | Some w \<Rightarrow> as_array w) | _ \<Rightarrow> None)"

definition extract_vulnerability_index ::
  "(string \<Rightarrow> string) \<Rightarrow> (string \<Rightarrow> json option) \<Rightarrow> string \<Rightarrow> vulnerability_entry list option" where
  "extract_vulnerability_index upper parse blob =
     (case parse blob of None \<Rightarrow> None
      | Some j \<Rightarrow> map_option (List.map_filter (vulnerability_index_entry upper)) (vulnerabilities_only j))"

subsection \<open>Displayed content\<close>

record publisher = pb_name :: string  pb_category :: "string option"  pb_namespace :: "string option"
  pb_contact_details :: "string option"  pb_issuing_authority :: "string option"

record csaf_note = nt_category :: "string option"  nt_title :: "string option"  nt_text :: string

record reference = rf_category :: "string option"  rf_summary :: string  rf_target :: string

record cwe = cw_id :: string  cw_name :: "string option"

record product_status_count = psc_status :: string  psc_count :: nat

record vulnerability =
  vl_cve :: "string option"
  vl_ids :: "string list"
  vl_title :: "string option"
  vl_cwes :: "cwe list"
  vl_severity :: "string option"
  vl_score :: "real option"
  vl_product_status :: "product_status_count list"
  vl_notes :: "csaf_note list"
  vl_references :: "reference list"

record document_content =
  dct_tlp :: "string option"
  dct_publisher :: "publisher option"
  dct_notes :: "csaf_note list"
  dct_references :: "reference list"
  dct_vulnerabilities :: "vulnerability list"

definition publisher_of :: "json \<Rightarrow> publisher option" where
  "publisher_of v = map_option (\<lambda>n. \<lparr>pb_name = n, pb_category = as_str (jidx v ''category''),
     pb_namespace = as_str (jidx v ''namespace''),
     pb_contact_details = as_str (jidx v ''contact_details''),
     pb_issuing_authority = as_str (jidx v ''issuing_authority'')\<rparr>) (as_str (jidx v ''name''))"

definition notes_of :: "json \<Rightarrow> csaf_note list" where
  "notes_of v = List.map_filter (\<lambda>n. map_option (\<lambda>t. \<lparr>nt_category = as_str (jidx n ''category''),
     nt_title = as_str (jidx n ''title''), nt_text = t\<rparr>) (as_str (jidx n ''text''))) (array_items v)"

definition references_of :: "json \<Rightarrow> reference list" where
  "references_of v = List.map_filter (\<lambda>r. map_option (\<lambda>u. \<lparr>rf_category = as_str (jidx r ''category''),
     rf_summary = (case as_str (jidx r ''summary'') of Some s \<Rightarrow> s | None \<Rightarrow> []), rf_target = u\<rparr>)
     (as_str (jidx r ''url''))) (array_items v)"

definition cwe_of :: "json \<Rightarrow> cwe option" where
  "cwe_of v = map_option (\<lambda>i. \<lparr>cw_id = i, cw_name = as_str (jidx v ''name'')\<rparr>) (as_str (jidx v ''id''))"

definition vulnerability_of :: "json \<Rightarrow> vulnerability" where
  "vulnerability_of vuln = (case max_cvss vuln of (score, severity) \<Rightarrow>
     \<lparr>vl_cve = as_str (jidx vuln ''cve''),
       vl_ids = List.map_filter (\<lambda>i. as_str (jidx i ''text'')) (array_items (jidx vuln ''ids'')),
       vl_title = as_str (jidx vuln ''title''),
       vl_cwes = (case jget ''cwes'' vuln of Some cwes \<Rightarrow> List.map_filter cwe_of (array_items cwes)
         | None \<Rightarrow> (case Option.bind (jget ''cwe'' vuln) cwe_of of Some c \<Rightarrow> [c] | None \<Rightarrow> [])),
       vl_severity = severity, vl_score = score,
       vl_product_status = (case as_object (jidx vuln ''product_status'') of None \<Rightarrow> []
         | Some kvs \<Rightarrow> List.map_filter (\<lambda>(k, v). map_option (\<lambda>xs. \<lparr>psc_status = k,
             psc_count = length xs\<rparr>) (as_array v)) kvs),
       vl_notes = notes_of (jidx vuln ''notes''),
       vl_references = references_of (jidx vuln ''references'')\<rparr>)"

definition extract_content ::
  "(string \<Rightarrow> string) \<Rightarrow> (string \<Rightarrow> json option) \<Rightarrow> string \<Rightarrow> document_content option" where
  "extract_content upper parse blob = map_option (\<lambda>val. let doc = jidx val ''document'' in
     \<lparr>dct_tlp = map_option upper (as_str (jidx (jidx (jidx doc ''distribution'') ''tlp'') ''label'')),
       dct_publisher = publisher_of (jidx doc ''publisher''),
       dct_notes = notes_of (jidx doc ''notes''),
       dct_references = references_of (jidx doc ''references''),
       dct_vulnerabilities = map vulnerability_of (array_items (jidx val ''vulnerabilities''))\<rparr>)
     (parse blob)"

subsection \<open>Historical documents and distributions\<close>

record historical_document =
  hd_tracking_id :: string
  hd_title :: string
  hd_category :: "string option"
  hd_publisher_name :: "string option"
  hd_initial_release_date :: "string option"
  hd_current_release_date :: "string option"
  hd_status :: "string option"
  hd_revision :: "string option"
  hd_aggregate_severity :: "string option"
  hd_csaf_version :: "string option"
  hd_revision_history :: "revision_entry list"
  hd_commit_id :: string
  hd_timestamp :: int

definition str_field :: "string \<Rightarrow> json \<Rightarrow> string option" where
  "str_field k j = Option.bind (jget k j) as_str"

definition revision_number :: "json \<Rightarrow> string option" where
  "revision_number v = (case as_str v of Some s \<Rightarrow> Some s | None \<Rightarrow> map_option int_text (as_i64 v))"

definition revision_of :: "json \<Rightarrow> revision_entry option" where
  "revision_of entry =
     (case Option.bind (jget ''number'' entry) revision_number of None \<Rightarrow> None
      | Some n \<Rightarrow> (case str_field ''date'' entry of None \<Rightarrow> None
        | Some d \<Rightarrow> map_option (\<lambda>s. \<lparr>re_number = n, re_date = d, re_summary = s\<rparr>)
            (str_field ''summary'' entry)))"

definition csaf_version_of :: "json \<Rightarrow> string option" where
  "csaf_version_of val = (let doc = jidx val ''document'' in
     if jget ''$schema'' val \<noteq> None \<or> jget ''csaf_version'' doc \<noteq> None
     then (case str_field ''csaf_version'' doc of Some s \<Rightarrow> Some s | None \<Rightarrow> Some ''2.1'')
     else Some ''2.0'')"

definition extract_metadata_from_json ::
  "(string \<Rightarrow> json option) \<Rightarrow> string \<Rightarrow> string \<Rightarrow> int \<Rightarrow> historical_document option" where
  "extract_metadata_from_json parse blob commit_id timestamp = map_option (\<lambda>val.
     let doc = jidx val ''document''; tracking = jidx doc ''tracking'' in
     \<lparr>hd_tracking_id = (case as_str (jidx tracking ''id'') of Some s \<Rightarrow> s | None \<Rightarrow> []),
       hd_title = (case as_str (jidx doc ''title'') of Some s \<Rightarrow> s | None \<Rightarrow> []),
       hd_category = str_field ''category'' doc,
       hd_publisher_name = Option.bind (jget ''publisher'' doc) (str_field ''name''),
       hd_initial_release_date = str_field ''initial_release_date'' tracking,
       hd_current_release_date = str_field ''current_release_date'' tracking,
       hd_status = str_field ''status'' tracking,
       hd_revision = str_field ''version'' tracking,
       hd_aggregate_severity = Option.bind (jget ''aggregate_severity'' doc) (str_field ''text''),
       hd_csaf_version = csaf_version_of val,
       hd_revision_history = (case Option.bind (jget ''revision_history'' tracking) as_array of
           Some arr \<Rightarrow> List.map_filter revision_of arr | None \<Rightarrow> []),
       hd_commit_id = commit_id, hd_timestamp = timestamp\<rparr>) (parse blob)"

record distribution_entry =
  de_label :: string
  de_kind :: string
  de_url :: string
  de_tlp_labels :: "string list"

definition feed_of :: "json \<Rightarrow> (string \<times> string option) option" where
  "feed_of f = map_option (\<lambda>url. (url, str_field ''tlp_label'' f)) (str_field ''url'' f)"

definition url_label :: "(string \<Rightarrow> string option) \<Rightarrow> string \<Rightarrow> string" where
  "url_label url_path u = (case url_path u of Some p \<Rightarrow> p | None \<Rightarrow> u)"

definition entries_of_distribution ::
  "(string \<Rightarrow> string) \<Rightarrow> (string \<Rightarrow> string option) \<Rightarrow> json \<Rightarrow> distribution_entry list" where
  "entries_of_distribution upper url_path entry =
     (let feeds = (case Option.bind (Option.bind (jget ''rolie'' entry) (jget ''feeds'')) as_array of
            Some fs \<Rightarrow> List.map_filter feed_of fs | None \<Rightarrow> []) in
      (case str_field ''directory_url'' entry of None \<Rightarrow> []
       | Some dir \<Rightarrow> [\<lparr>de_label = url_label url_path dir, de_kind = ''directory'', de_url = dir,
           de_tlp_labels = []\<rparr>])
      @ map (\<lambda>(url, tlp). \<lparr>de_label = url_label url_path url, de_kind = ''rolie'', de_url = url,
          de_tlp_labels = (case tlp of Some t \<Rightarrow> [upper t] | None \<Rightarrow> [])\<rparr>) feeds)"

definition extract_distribution_entries ::
  "(string \<Rightarrow> string) \<Rightarrow> (string \<Rightarrow> string option) \<Rightarrow> json list \<Rightarrow> distribution_entry list" where
  "extract_distribution_entries upper url_path dists =
     concat (map (entries_of_distribution upper url_path) dists)"

subsection \<open>Properties\<close>

lemma max_score_None: "max_score xs = None \<longleftrightarrow> xs = []"
  by (cases xs) (auto split: option.split)

lemma max_score_Some:
  "max_score xs = Some x \<Longrightarrow> x \<in> set xs \<and> (\<forall>y \<in> set xs. fst y \<le> fst x)"
proof (induction xs arbitrary: x)
  case (Cons y ys)
  then show ?case by (cases "max_score ys") (fastforce simp: max_score_None split: if_splits)+
qed simp

text \<open>The base scores of a vulnerability, with the severity given beside each.\<close>

definition base_scores :: "json \<Rightarrow> (real \<times> string option) set" where
  "base_scores vuln = {(x, as_str (jidx c ''baseSeverity'')) | x c.
     c \<in> set (cvss_entries vuln) \<and> as_f64 (jidx c ''baseScore'') = Some x}"

lemma set_map_filter_Some: "set (List.map_filter f xs) = {y. \<exists>x \<in> set xs. f x = Some y}"
  by (induction xs) (auto simp: List.map_filter_simps split: option.splits)

lemma max_cvss_cases:
  "(max_cvss vuln = (None, None) \<and> base_scores vuln = {})
   \<or> (\<exists>x sv. max_cvss vuln = (Some x, sv) \<and> (x, sv) \<in> base_scores vuln
        \<and> (\<forall>(y, _) \<in> base_scores vuln. y \<le> x))"
proof -
  let ?l = "List.map_filter (\<lambda>cvss. map_option (\<lambda>x. (x, as_str (jidx cvss ''baseSeverity'')))
    (as_f64 (jidx cvss ''baseScore''))) (cvss_entries vuln)"
  have set_l: "set ?l = base_scores vuln"
    by (auto simp: set_map_filter_Some base_scores_def)
  show ?thesis
  proof (cases "max_score ?l")
    case None
    then show ?thesis using set_l by (simp add: max_cvss_def max_score_None)
  next
    case (Some xs)
    then show ?thesis
      using max_score_Some [OF Some] set_l by (cases xs) (auto simp: max_cvss_def)
  qed
qed

text \<open>
  An indexed vulnerability carries an identifier, and its score is the highest CVSS base
  score of any version given for it, with the severity stated beside that score; it has no score
  exactly if no CVSS object has a numeric base score.
\<close>

theorem vulnerability_index_scores:
  assumes "vulnerability_index_entry upper vuln = Some e"
  shows "(ve_cve e \<noteq> None \<or> ve_ids e \<noteq> [])
    \<and> (ve_score e = None \<longleftrightarrow> base_scores vuln = {})
    \<and> (\<forall>x. ve_score e = Some x \<longrightarrow> (x, ve_severity e) \<in> base_scores vuln
        \<and> (\<forall>(y, _) \<in> base_scores vuln. y \<le> x))"
proof -
  obtain sc sv where m: "max_cvss vuln = (sc, sv)" by (cases "max_cvss vuln")
  have "ve_cve e \<noteq> None \<or> ve_ids e \<noteq> []" and e: "ve_score e = sc" "ve_severity e = sv"
    using assms by (auto simp: vulnerability_index_entry_def Let_def m split: if_splits)
  then show ?thesis using max_cvss_cases [of vuln] unfolding e m by auto
qed

definition sample_vuln :: json where
  "sample_vuln = JObject [(''cve'', JString '' CVE-2024-1 ''),
     (''scores'', JArray [JObject [(''cvss_v3'', JObject [(''baseScore'', JNumber (PosInt 7)),
       (''baseSeverity'', JString ''HIGH'')])]])]"

theorem vulnerability_index_scores_witness:
  "\<exists>e. vulnerability_index_entry id sample_vuln = Some e \<and> ve_cve e \<noteq> None
     \<and> (ve_score e = None \<longleftrightarrow> base_scores sample_vuln = {})"
proof -
  obtain sc sv where m: "max_cvss sample_vuln = (sc, sv)" by (cases "max_cvss sample_vuln")
  have c: "as_str (jidx sample_vuln ''cve'') = Some '' CVE-2024-1 ''"
    by (simp add: sample_vuln_def jidx_def jget_def as_str_def)
  obtain e where e: "vulnerability_index_entry id sample_vuln = Some e" "ve_cve e \<noteq> None"
    by (simp add: vulnerability_index_entry_def Let_def m c)
  show ?thesis
    by (rule exI [of _ e], rule conjI [OF e(1) conjI [OF e(2)
      vulnerability_index_scores [OF e(1), THEN conjunct2, THEN conjunct1]]])
qed

lemma distinct_count_le_one: "distinct xs \<Longrightarrow> count_list xs n \<le> 1"
  by (induction xs) auto

text \<open>
  Tracking fields are read independently of each other: in a document whose tracking section
  is an object without repeated keys, each field is the text of its own string or number, whatever
  the other fields hold; a document that is not valid JSON yields no fields.
\<close>

theorem tracking_fields_independent:
  assumes "parse blob = Some (JObject env)" "map_of env ''document'' = Some (JObject doc)"
    and "map_of doc ''tracking'' = Some (JObject t)"
    and "distinct (map fst env)" "distinct (map fst doc)" "distinct (map fst t)"
  shows "parse_tracking parse blob = \<lparr>ts_status = scalar_text (map_of t ''status''),
      ts_version = scalar_text (map_of t ''version''),
      ts_current_release_date = scalar_text (map_of t ''current_release_date'')\<rparr>"
proof -
  have one: "\<not> Suc 0 < count_list (map fst env) n" "\<not> Suc 0 < count_list (map fst doc) n"
    "\<not> Suc 0 < count_list (map fst t) n" for n
    using distinct_count_le_one [OF assms(4), of n] distinct_count_le_one [OF assms(5), of n]
      distinct_count_le_one [OF assms(6), of n] by (simp_all add: not_less)
  show ?thesis
    by (simp add: parse_tracking_def csaf_envelope_def csaf_document_def
        csaf_tracking_def struct_fields_def one assms(1-3))
qed

definition odd_tracking :: json where
  "odd_tracking = JObject [(''document'', JObject [(''tracking'', JObject
     [(''status'', JArray []), (''version'', JString ''1'')])])]"

theorem tracking_fields_independent_witness:
  "parse_tracking (\<lambda>_. Some odd_tracking) ''x''
     = \<lparr>ts_status = None, ts_version = Some ''1'', ts_current_release_date = None\<rparr>"
proof -
  have p: "(\<lambda>_ :: string. Some odd_tracking) ''x'' = Some (JObject [(''document'', JObject
      [(''tracking'', JObject [(''status'', JArray []), (''version'', JString ''1'')])])])"
    by (simp add: odd_tracking_def)
  show ?thesis
    using tracking_fields_independent [OF p, of "[(''tracking'', JObject [(''status'', JArray []), (''version'', JString ''1'')])]"
        "[(''status'', JArray []), (''version'', JString ''1'')]"]
    by (simp add: scalar_text_def)
qed

end
