(* ===== verification/Advisory_Paths.thy ===== *)
theory Advisory_Paths
  imports Trove_Prelude
begin

section \<open>Paths of advisories and sidecars\<close>

text \<open>
  The mapping between advisory URLs, paths in the Git tree and files in the scratch directory:
  \<open>advisory_path\<close> and \<open>path_url\<close> of \<open>git_processing.rs\<close>, \<open>url_to_git_path\<close> of
  \<open>git_repo.rs\<close> and the naming functions of \<open>scratch.rs\<close>. Paths are byte strings with
  components separated by a slash; \<open>parse_url\<close> is \<open>url::Url::parse\<close> reduced to host and
  path.
\<close>

definition sidecar_suffixes :: "string list" where
  "sidecar_suffixes = [''.asc'', ''.sha256'', ''.sha512'']"

definition strip_sidecar :: "string \<Rightarrow> string" where
  "strip_sidecar path = (case List.map_filter (\<lambda>s. strip_suffix s path) sidecar_suffixes of
     [] \<Rightarrow> path | p # _ \<Rightarrow> p)"

definition advisory_path :: "string \<Rightarrow> string option" where
  "advisory_path path =
     (if starts_with path ''metadata/'' then None
      else (let p = strip_sidecar path in if ends_with p ''.json'' then Some p else None))"

definition path_url :: "string \<Rightarrow> string" where
  "path_url path = ''https://'' @ path"

definition url_to_git_path ::
  "(string \<Rightarrow> (string option \<times> string) option) \<Rightarrow> string \<Rightarrow> string + string option" where
  "url_to_git_path parse_url url = (case parse_url url of
     None \<Rightarrow> Inl ''invalid document URL''
   | Some (None, _) \<Rightarrow> Inr None
   | Some (Some domain, p) \<Rightarrow> (let path = trim_start_char (CHR ''/'') p in
       if path = [] then Inr None else Inr (Some (domain @ ''/'' @ path))))"

subsection \<open>Scratch files\<close>

text \<open>\<open>Path::extension\<close>: nothing for a name without a dot or with a leading dot only.\<close>

definition file_name :: "string \<Rightarrow> string" where
  "file_name path = after_last (CHR ''/'') path"

definition extension :: "string \<Rightarrow> string option" where
  "extension path = (let name = file_name path; ext = after_last (CHR ''.'') name in
     if length ext + 1 < length name then Some ext else None)"

text \<open>\<open>with_extension("")\<close>.\<close>

definition without_extension :: "string \<Rightarrow> string" where
  "without_extension path = (case extension path of None \<Rightarrow> path
     | Some ext \<Rightarrow> take (length path - Suc (length ext)) path)"

definition compressed_path :: "string \<Rightarrow> string" where
  "compressed_path path = path @ ''.zst''"

definition logical_path :: "string \<Rightarrow> string" where
  "logical_path path = (if ends_with path ''.json.zst'' then without_extension path else path)"

definition is_advisory :: "string \<Rightarrow> bool" where
  "is_advisory path \<longleftrightarrow> extension (logical_path path) = Some ''json''"

text \<open>\<open>Path::starts_with("metadata")\<close>.\<close>

definition in_metadata :: "string \<Rightarrow> bool" where
  "in_metadata path \<longleftrightarrow> hd (split_on (CHR ''/'') path) = ''metadata''"

text \<open>\<open>scratch::write\<close> stores an advisory outside the metadata directory compressed.\<close>

definition scratch_name :: "string \<Rightarrow> string" where
  "scratch_name path = (if extension path = Some ''json'' \<and> \<not> in_metadata path
     then compressed_path path else path)"

subsection \<open>Properties\<close>

lemma ends_with_last: "ends_with s p \<Longrightarrow> p \<noteq> [] \<Longrightarrow> s \<noteq> [] \<and> last s = last p"
  by (auto simp: ends_with_iff)

lemma strip_suffix_other: "p \<noteq> [] \<Longrightarrow> s = [] \<or> last s \<noteq> last p \<Longrightarrow> strip_suffix p s = None"
  using ends_with_last by (auto simp: strip_suffix_None)

lemma strip_sidecar_json: "ends_with p ''.json'' \<Longrightarrow> strip_sidecar p = p"
proof -
  assume "ends_with p ''.json''"
  then have l: "last p = CHR ''n''" using ends_with_last [of p "''.json''"] by simp
  then have "strip_suffix ''.asc'' p = None" "strip_suffix ''.sha256'' p = None"
    "strip_suffix ''.sha512'' p = None"
    by (simp_all add: strip_suffix_other)
  then show ?thesis by (simp add: strip_sidecar_def sidecar_suffixes_def List.map_filter_simps)
qed

lemma strip_sidecar_append:
  assumes "ends_with p ''.json''" "s \<in> set sidecar_suffixes"
  shows "strip_sidecar (p @ s) = p"
proof -
  from assms(2) consider "s = ''.asc''" | "s = ''.sha256''" | "s = ''.sha512''"
    by (auto simp: sidecar_suffixes_def)
  then show ?thesis
  proof cases
    case 1
    have f:  "strip_suffix ''.asc'' (p @ ''.asc'') = Some p"
      by (simp_all add: strip_suffix_other del: append_assoc)
    show ?thesis unfolding 1
      by (simp add: strip_sidecar_def sidecar_suffixes_def List.map_filter_simps f del: strip_suffix_Some)
  next
    case 2
    have f: "strip_suffix ''.asc'' (p @ ''.sha256'') = None" "strip_suffix ''.sha256'' (p @ ''.sha256'') = Some p"
      by (simp_all add: strip_suffix_other del: append_assoc)
    show ?thesis unfolding 2
      by (simp add: strip_sidecar_def sidecar_suffixes_def List.map_filter_simps f del: strip_suffix_Some)
  next
    case 3
    have f: "strip_suffix ''.asc'' (p @ ''.sha512'') = None" "strip_suffix ''.sha256'' (p @ ''.sha512'') = None" "strip_suffix ''.sha512'' (p @ ''.sha512'') = Some p"
      by (simp_all add: strip_suffix_other del: append_assoc)
    show ?thesis unfolding 3
      by (simp add: strip_sidecar_def sidecar_suffixes_def List.map_filter_simps f del: strip_suffix_Some)
  qed
qed

lemma advisory_path_idem:
  assumes "advisory_path p = Some a"
  shows "advisory_path a = Some a"
proof -
  have np: "\<not> starts_with p ''metadata/''" and a: "a = strip_sidecar p" "ends_with a ''.json''"
    using assms by (auto simp: advisory_path_def Let_def split: if_splits)
  have "\<exists>r. p = a @ r"
    unfolding a(1) strip_sidecar_def sidecar_suffixes_def
    by (auto simp: List.map_filter_simps split: option.split)
  then have "\<not> starts_with a ''metadata/''" using np by (auto simp: starts_with_iff)
  then show ?thesis using strip_sidecar_json [OF a(2)] a(2) by (simp add: advisory_path_def)
qed

lemma advisory_sidecar:
  assumes "advisory_path a = Some a" "s \<in> set sidecar_suffixes"
  shows "advisory_path (a @ s) = Some a"
proof -
  have j: "ends_with a ''.json''" and m: "\<not> starts_with a ''metadata/''"
    using assms(1) strip_sidecar_json by (auto simp: advisory_path_def Let_def split: if_splits)
  have "\<not> starts_with (a @ s) ''metadata/''"
  proof
    assume "starts_with (a @ s) ''metadata/''"
    then obtain r where r: "a @ s = ''metadata/'' @ r" by (auto simp: starts_with_iff)
    obtain b where b: "a = b @ ''.json''" using j by (auto simp: ends_with_iff)
    from r b have e: "b @ ''.json'' @ s = ''metadata/'' @ r" by simp
    from e consider us where "b = ''metadata/'' @ us" | us where "''metadata/'' = b @ us" "us @ r = ''.json'' @ s"
      unfolding append_eq_append_conv2 by metis
    then show False
    proof cases
      case 1
      then have "starts_with a ''metadata/''" unfolding b starts_with_iff by (metis append.assoc)
      then show False using m by blast
    next
      case (2 us)
      have "CHR ''.'' \<notin> set ''metadata/''" by simp
      then have "CHR ''.'' \<notin> set us" unfolding 2(1) by simp
      then have "us = []" using 2(2) by (cases us) auto
      then have "starts_with a ''metadata/''" unfolding b 2(1) by simp
      then show False using m by blast
    qed
  qed
  then show ?thesis using strip_sidecar_append [OF j assms(2)] j by (simp add: advisory_path_def)
qed

lemma after_last_suffix: "CHR ''.'' \<notin> set e \<Longrightarrow> after_last (CHR ''.'') (x @ ''.'' @ e) = e"
  using after_last_append [of "CHR ''.''" e x] by simp

lemma takeWhile_sep: "c \<notin> set xs \<Longrightarrow> takeWhile (\<lambda>x. x \<noteq> c) (xs @ ys) = xs @ takeWhile (\<lambda>x. x \<noteq> c) ys"
  by (induction xs) auto

lemma file_name_append: "CHR ''/'' \<notin> set e \<Longrightarrow> file_name (x @ e) = file_name x @ e"
  unfolding file_name_def after_last_def by (simp add: takeWhile_sep)

lemma logical_compressed:
  assumes "ends_with p ''.json''"
  shows "logical_path (compressed_path p) = p"
proof -
  obtain x where x: "p = x @ ''.json''" using assms by (auto simp: ends_with_iff)
  have "file_name (x @ ''.json.zst'') = file_name x @ ''.json.zst''" by (rule file_name_append) simp
  moreover have "after_last (CHR ''.'') (file_name x @ ''.json.zst'') = ''zst''"
    using after_last_suffix [of "''zst''" "file_name x @ ''.json''"] by simp
  ultimately have "extension (x @ ''.json.zst'') = Some ''zst''" by (simp add: extension_def)
  moreover have "ends_with (x @ ''.json.zst'') ''.json.zst''" by (rule ends_with_append)
  ultimately show ?thesis
    by (simp add: logical_path_def compressed_path_def x without_extension_def)
qed

text \<open>
  The advisory a path belongs to is found consistently: it belongs to itself, its detached
  signature and digests belong to it, nothing in the metadata directory belongs to an advisory,
  and the compressed scratch file of the advisory has it as its logical path.
\<close>

theorem advisory_of_sidecars:
  assumes "advisory_path p = Some a"
  shows "advisory_path a = Some a
    \<and> (\<forall>s \<in> set sidecar_suffixes. advisory_path (a @ s) = Some a)
    \<and> \<not> starts_with p ''metadata/'' \<and> \<not> starts_with a ''metadata/''
    \<and> logical_path (compressed_path a) = a"
proof -
  note a = advisory_path_idem [OF assms]
  have "ends_with a ''.json''" "\<not> starts_with a ''metadata/''" "\<not> starts_with p ''metadata/''"
    using a assms by (auto simp: advisory_path_def Let_def split: if_splits)
  then show ?thesis using a advisory_sidecar [OF a] logical_compressed by blast
qed

theorem advisory_of_sidecars_witness:
  "advisory_path ''h/a.json.asc'' = Some ''h/a.json''
   \<and> logical_path (compressed_path ''h/a.json'') = ''h/a.json''"
proof -
  have "advisory_path ''h/a.json'' = Some ''h/a.json''"
    using strip_sidecar_json [of "''h/a.json''"] ends_with_append [of "''h/a''" "''.json''"]
    by (simp add: advisory_path_def starts_with_def)
  then have a: "advisory_path ''h/a.json.asc'' = Some ''h/a.json''"
    using advisory_sidecar [of "''h/a.json''" "''.asc''"] by (simp add: sidecar_suffixes_def)
  show ?thesis using advisory_of_sidecars [OF a] a by blast
qed

text \<open>
  The tree path of an advisory and its URL determine each other: for a path made of a host
  and a path below it, parsing the canonical URL gives back the path.
\<close>

theorem git_path_of_url:
  assumes "parse_url (path_url (host @ ''/'' @ p)) = Some (Some host, ''/'' @ p)"
    and "p \<noteq> []" "hd p \<noteq> CHR ''/''"
  shows "url_to_git_path parse_url (path_url (host @ ''/'' @ p)) = Inr (Some (host @ ''/'' @ p))"
proof -
  have "trim_start_char (CHR ''/'') (''/'' @ p) = p"
    using assms(2,3) by (cases p) (simp_all add: trim_start_char_def)
  then show ?thesis using assms(1,2) by (simp add: url_to_git_path_def Let_def)
qed

theorem git_path_of_url_witness:
  "url_to_git_path (\<lambda>u. Some (Some ''h'', ''/a.json'')) (path_url (''h'' @ ''/'' @ ''a.json''))
     = Inr (Some (''h'' @ ''/'' @ ''a.json''))"
proof -
  have p: "(\<lambda>u. Some (Some ''h'', ''/a.json'')) (path_url (''h'' @ ''/'' @ ''a.json''))
      = Some (Some ''h'', ''/'' @ ''a.json'')" by simp
  show ?thesis using git_path_of_url [OF p] by simp
qed

end
