(* ===== verification/Git_History.thy ===== *)
theory Git_History
  imports Git_Diff_Cache Json_Content Advisory_Paths Path_Set
begin

section \<open>Walking the history\<close>

text \<open>
  \<open>scan_changes\<close> of \<open>git_processing.rs\<close> and \<open>collect_versions\<close> of \<open>git_repo.rs\<close>. A
  commit is modelled by value like a tree, with its parents; the first parents of a commit form a
  finite chain. The bounded channel between the scanning thread and the receiver delivers the
  batches in order, so a scan is the list of the messages it sends.
\<close>

datatype git_commit = GCommit (cm_id: oid) (cm_tree: git_tree) (cm_time: int)
  (cm_message: "string option") (cm_parents: "git_commit list")

lemma parent_smaller [simp]: "cm_parents c = p # ps \<Longrightarrow> size p < size c"
  by (cases c) simp

subsection \<open>Changed paths since a checkpoint\<close>

type_synonym scan_message = "string list \<times> nat"

definition delta_paths :: "tree_delta \<Rightarrow> string list" where
  "delta_paths d = (case td_old_path d of Some p \<Rightarrow> [p] | None \<Rightarrow> [])
     @ (case td_new_path d of Some p \<Rightarrow> [p] | None \<Rightarrow> [])"

definition push_path :: "nat \<Rightarrow> string \<Rightarrow> string list \<times> scan_message list \<Rightarrow> string list \<times> scan_message list" where
  "push_path visited path st = (case st of (paths, sent) \<Rightarrow>
     (let paths' = paths @ [path] in
      if length paths' = PATH_BATCH then ([], sent @ [(paths', visited)]) else (paths', sent)))"

definition scan_delta :: "nat \<Rightarrow> tree_delta \<Rightarrow> string list \<times> scan_message list
    \<Rightarrow> unit + string list \<times> scan_message list" where
  "scan_delta visited d st = Inr (fold (push_path visited) (delta_paths d) st)"

text \<open>
  The loop of \<open>scan_changes\<close>: \<open>True\<close> when the checkpoint is not on the linear history
  (the first commit without exactly one parent is met first).
\<close>

function scan_loop :: "native_diff \<Rightarrow> (string \<Rightarrow> bool) \<Rightarrow> oid option \<Rightarrow> git_commit \<Rightarrow> nat
    \<Rightarrow> diff_cache \<Rightarrow> scan_message list \<Rightarrow> unit + (bool \<times> scan_message list)" where
  "scan_loop native utf8 previous current visited cache sent =
     (if Some (cm_id current) = previous then Inr (False, sent)
      else (case cm_parents current of
          [parent] \<Rightarrow>
            (case visit native utf8 (Some (cm_tree parent)) (cm_tree current)
                (scan_delta (visited + 1)) (cache, ([], sent)) of
               Inl e \<Rightarrow> Inl e
             | Inr (cache', (paths, sent')) \<Rightarrow>
                 scan_loop native utf8 previous parent (visited + 1) cache' (sent' @ [(paths, visited + 1)]))
        | _ \<Rightarrow> Inr (True, sent)))"
  by pat_completeness auto
termination
  by (relation "measure (\<lambda>(_, _, _, c, _). size c)") auto

declare scan_loop.simps [simp del]

definition scan_changes :: "native_diff \<Rightarrow> (string \<Rightarrow> bool) \<Rightarrow> git_commit \<Rightarrow> oid option
    \<Rightarrow> unit + (bool \<times> scan_message list)" where
  "scan_changes native utf8 head previous = scan_loop native utf8 previous head 0 cache_default []"

subsection \<open>Versions of documents\<close>

record changed_document =
  chd_url :: string
  chd_blob_id :: oid
  chd_tracking :: tracking_summary

record commit_versions =
  cv_commit_id :: oid
  cv_timestamp :: int
  cv_message :: string
  cv_documents :: "changed_document list"

text \<open>\<open>None\<close> where the loop over the deltas continues with the next one.\<close>

definition changed_document_of :: "(oid \<Rightarrow> string option) \<Rightarrow> (string \<Rightarrow> json option) \<Rightarrow> tree_delta
    \<Rightarrow> string + changed_document option" where
  "changed_document_of blob parse d =
     (if td_status d \<notin> {DAdded, DModified} then Inr None
      else (case td_new_path d of None \<Rightarrow> Inr None
        | Some path \<Rightarrow> (if advisory_path path \<noteq> Some path then Inr None
            else (case blob (td_new_id d) of None \<Rightarrow> Inl ''object not found''
              | Some content \<Rightarrow> Inr (Some \<lparr>chd_url = path_url path, chd_blob_id = td_new_id d,
                  chd_tracking = parse_tracking parse content\<rparr>)))))"

definition commit_documents :: "(oid \<Rightarrow> string option) \<Rightarrow> (string \<Rightarrow> json option) \<Rightarrow> tree_delta list
    \<Rightarrow> string + changed_document list" where
  "commit_documents blob parse ds = (case map_res (changed_document_of blob parse) ds of
     Inl e \<Rightarrow> Inl e | Inr docs \<Rightarrow> Inr (List.map_filter id docs))"

function commits_until :: "oid option \<Rightarrow> git_commit \<Rightarrow> git_commit list" where
  "commits_until since c =
     (if Some (cm_id c) = since then []
      else c # (case cm_parents c of [] \<Rightarrow> [] | p # _ \<Rightarrow> commits_until since p))"
  by pat_completeness auto
termination
  by (relation "measure (\<lambda>(_, c). size c)") auto

declare commits_until.simps [simp del]

definition first_parent_tree :: "git_commit \<Rightarrow> git_tree option" where
  "first_parent_tree c = (case cm_parents c of [] \<Rightarrow> None | p # _ \<Rightarrow> Some (cm_tree p))"

definition collect_commit :: "native_diff \<Rightarrow> (string \<Rightarrow> bool) \<Rightarrow> (oid \<Rightarrow> string option)
    \<Rightarrow> (string \<Rightarrow> json option) \<Rightarrow> (commit_versions \<Rightarrow> 's \<Rightarrow> string + 's)
    \<Rightarrow> git_commit \<Rightarrow> diff_cache \<times> 's \<Rightarrow> string + diff_cache \<times> 's" where
  "collect_commit native utf8 blob parse emit c cs = (case cs of (cache, s) \<Rightarrow>
     (case diff native utf8 (first_parent_tree c) (cm_tree c) cache of (ds, cache') \<Rightarrow>
       (case commit_documents blob parse ds of
          Inl e \<Rightarrow> Inl e
        | Inr documents \<Rightarrow>
            (if documents = [] then Inr (cache', s)
             else (case emit \<lparr>cv_commit_id = cm_id c, cv_timestamp = cm_time c,
                 cv_message = (case cm_message c of Some m \<Rightarrow> m | None \<Rightarrow> []),
                 cv_documents = documents\<rparr> s of
               Inl e \<Rightarrow> Inl e | Inr s' \<Rightarrow> Inr (cache', s'))))))"

text \<open>\<open>head\<close> is \<open>None\<close> for a repository without a HEAD commit; \<open>oid_from_str\<close> parses ids.\<close>

definition collect_versions :: "native_diff \<Rightarrow> (string \<Rightarrow> bool) \<Rightarrow> (oid \<Rightarrow> string option)
    \<Rightarrow> (string \<Rightarrow> json option) \<Rightarrow> (string \<Rightarrow> oid option) \<Rightarrow> git_commit option \<Rightarrow> string option
    \<Rightarrow> (commit_versions \<Rightarrow> 's \<Rightarrow> string + 's) \<Rightarrow> 's \<Rightarrow> string + 's" where
  "collect_versions native utf8 blob parse oid_from_str head since emit s =
     (case head of None \<Rightarrow> Inr s
      | Some h \<Rightarrow> (case since of
          Some t \<Rightarrow> (case oid_from_str t of None \<Rightarrow> Inl ''invalid commit id''
            | Some i \<Rightarrow> map_sum (\<lambda>e. e) snd (fold_res (collect_commit native utf8 blob parse emit)
                (rev (commits_until (Some i) h)) (cache_default, s)))
        | None \<Rightarrow> map_sum (\<lambda>e. e) snd (fold_res (collect_commit native utf8 blob parse emit)
            (rev (commits_until None h)) (cache_default, s))))"

subsection \<open>What a scan reports\<close>

text \<open>The linear history from a commit down to, and without, a checkpoint.\<close>

function linear_since :: "oid option \<Rightarrow> git_commit \<Rightarrow> git_commit list option" where
  "linear_since previous c =
     (if Some (cm_id c) = previous then Some []
      else (case cm_parents c of [p] \<Rightarrow> map_option (\<lambda>cs. c # cs) (linear_since previous p)
        | _ \<Rightarrow> None))"
  by pat_completeness auto
termination
  by (relation "measure (\<lambda>(_, c). size c)") auto

declare linear_since.simps [simp del]

text \<open>The first-parent chain of a commit, and the paths a commit changes against its parent.\<close>

function chain :: "git_commit \<Rightarrow> git_commit list" where
  "chain c = c # (case cm_parents c of [] \<Rightarrow> [] | p # _ \<Rightarrow> chain p)"
  by pat_completeness auto
termination
  by (relation "measure size") auto

declare chain.simps [simp del]

definition history_store :: "git_tree set \<Rightarrow> git_commit \<Rightarrow> bool" where
  "history_store U c \<longleftrightarrow> object_store U \<and> cm_tree ` set (chain c) \<subseteq> U"

definition changed_paths :: "git_commit \<Rightarrow> string set" where
  "changed_paths c = {p. file_at (first_parent_tree c) p \<noteq> file_at (Some (cm_tree c)) p}"

lemma history_store_parent:
  assumes "history_store U c" "cm_parents c = p # ps"
  shows "history_store U p" "cm_tree c \<in> U" "cm_tree p \<in> U"
proof -
  have c: "chain c = c # chain p" using assms(2) by (simp add: chain.simps [of c])
  have "p \<in> set (chain p)" by (subst chain.simps) simp
  with c show "history_store U p" "cm_tree c \<in> U" "cm_tree p \<in> U"
    using assms(1) by (auto simp: history_store_def)
qed

lemma history_store_tree: "history_store U c \<Longrightarrow> cm_tree c \<in> U"
  unfolding history_store_def chain.simps [of c] by simp

lemma history_first_parent: "history_store U c \<Longrightarrow> set_option (first_parent_tree c) \<subseteq> U"
  using history_store_parent(3) by (auto simp: first_parent_tree_def split: list.splits)

definition sent_paths :: "scan_message list \<Rightarrow> string set" where
  "sent_paths sent = set (concat (map fst sent))"

definition batches_ok :: "scan_message list \<Rightarrow> bool" where
  "batches_ok sent \<longleftrightarrow> (\<forall>(ps, _) \<in> set sent. length ps \<le> PATH_BATCH)"

lemma push_path_eq:
  "push_path visited p (paths, sent) = (if Suc (length paths) = PATH_BATCH
     then ([], sent @ [(paths @ [p], visited)]) else (paths @ [p], sent))"
  by (simp add: push_path_def)

lemma push_path_sent:
  assumes "fold (push_path visited) ps (paths, sent) = (paths', sent')" "length paths < PATH_BATCH"
  shows "set paths' \<union> sent_paths sent' = set paths \<union> sent_paths sent \<union> set ps
    \<and> length paths' < PATH_BATCH \<and> (batches_ok sent \<longrightarrow> batches_ok sent')"
  using assms
proof (induction ps arbitrary: paths sent)
  case (Cons p ps)
  show ?case
  proof (cases "length (paths @ [p]) = PATH_BATCH")
    case True
    then have f: "fold (push_path visited) ps ([], sent @ [(paths @ [p], visited)]) = (paths', sent')"
      using Cons.prems(1) by (simp add: push_path_eq)
    have l: "length ([] :: string list) < PATH_BATCH" by (simp add: PATH_BATCH_def)
    have "sent_paths (sent @ [(paths @ [p], visited)]) = sent_paths sent \<union> set paths \<union> {p}"
      by (simp add: sent_paths_def)
    moreover have "batches_ok sent \<longrightarrow> batches_ok (sent @ [(paths @ [p], visited)])"
      using True by (simp add: batches_ok_def)
    ultimately show ?thesis using Cons.IH [OF f l] by auto
  next
    case False
    then have "fold (push_path visited) ps (paths @ [p], sent) = (paths', sent')"
      using Cons.prems(1) by (simp add: push_path_eq)
    then show ?thesis using Cons.IH [of "paths @ [p]" sent] Cons.prems(2) False by auto
  qed
qed auto

lemma scan_deltas:
  "fold_res (scan_delta visited) ds st = Inr (fold (push_path visited) (concat (map delta_paths ds)) st)"
  by (induction ds arbitrary: st) (simp_all add: scan_delta_def)

lemma mentions_paths: "set (concat (map delta_paths ds)) = {p. mentions ds p}"
  by (auto simp: delta_paths_def mentions_def split: option.splits)

lemma scan_visit:
  assumes store: "object_store U" and diff: "libgit2_diff U native" and ok: "cache_ok native utf8 U cache"
    and U: "old \<in> U" "new \<in> U"
  obtains cache' paths sent' where
    "visit native utf8 (Some old) new (scan_delta visited) (cache, ([], sent)) = Inr (cache', (paths, sent'))"
    "cache_ok native utf8 U cache'"
    "sent_paths (sent' @ [(paths, visited)]) = sent_paths sent \<union> {p. file_at (Some old) p \<noteq> file_at (Some new) p}"
    "batches_ok sent \<longrightarrow> batches_ok (sent' @ [(paths, visited)])"
proof -
  let ?ds = "compare_trees native utf8 (Some old) (Some new)"
  have u: "set_option (Some old) \<union> set_option (Some new) \<subseteq> U" using U by simp
  have m: "{p. mentions ?ds p} = {p. file_at (Some old) p \<noteq> file_at (Some new) p}"
    using compare_calls_correct [OF store diff u, of "[]" utf8]
    by (simp add: compare_trees_def deltas_correct_def)
  obtain paths sent' where f: "fold (push_path visited) (concat (map delta_paths ?ds)) ([], sent) = (paths, sent')"
    by (cases "fold (push_path visited) (concat (map delta_paths ?ds)) ([], sent)")
  obtain cache' where c: "cache_ok native utf8 U cache'"
    "visit native utf8 (Some old) new (scan_delta visited) (cache, ([], sent)) = Inr (cache', (paths, sent'))"
    using visit_cases [OF store ok, of "Some old" new "scan_delta visited" "([], sent)"] U
    by (auto simp: scan_deltas f)
  have s: "set paths \<union> sent_paths sent' = sent_paths sent \<union> {p. file_at (Some old) p \<noteq> file_at (Some new) p}"
    "length paths < PATH_BATCH" "batches_ok sent \<longrightarrow> batches_ok sent'"
    using push_path_sent [OF f] unfolding mentions_paths m by (auto simp: PATH_BATCH_def)
  show ?thesis
    by (rule that [OF c(2,1)]) (use s in \<open>auto simp: sent_paths_def batches_ok_def\<close>)
qed

lemma scan_loop_result:
  assumes diff: "libgit2_diff U native"
  shows "history_store U c \<Longrightarrow> cache_ok native utf8 U cache \<Longrightarrow> batches_ok sent \<Longrightarrow>
    \<exists>b sent'. scan_loop native utf8 previous c visited cache sent = Inr (b, sent') \<and> batches_ok sent'
      \<and> (case linear_since previous c of
           None \<Rightarrow> b
         | Some cs \<Rightarrow> \<not> b \<and> sent_paths sent' = sent_paths sent \<union> \<Union> (changed_paths ` set cs))"
proof (induction "size c" arbitrary: c visited cache sent rule: less_induct)
  case less
  show ?case
  proof (cases "Some (cm_id c) = previous")
    case True
    then show ?thesis
      using less.prems by (auto simp: scan_loop.simps [of _ _ _ c] linear_since.simps [of _ c])
  next
    case no: False
    show ?thesis
    proof (cases "\<exists>p. cm_parents c = [p]")
      case False
      then have "scan_loop native utf8 previous c visited cache sent = Inr (True, sent)"
        and "linear_since previous c = None"
        using no by (auto simp: scan_loop.simps [of _ _ _ c] linear_since.simps [of _ c] split: list.splits)
      then show ?thesis using less.prems by (intro exI [of _ True] exI [of _ sent]) simp
    next
      case True
      then obtain p where p: "cm_parents c = [p]" by blast
      note st = history_store_parent [OF less.prems(1) p]
      have store: "object_store U" using less.prems(1) by (simp add: history_store_def)
      obtain cache' paths sent' where v: "visit native utf8 (Some (cm_tree p)) (cm_tree c)
            (scan_delta (visited + 1)) (cache, ([], sent)) = Inr (cache', (paths, sent'))"
        and ok: "cache_ok native utf8 U cache'"
        and s: "sent_paths (sent' @ [(paths, visited + 1)]) = sent_paths sent
            \<union> {q. file_at (Some (cm_tree p)) q \<noteq> file_at (Some (cm_tree c)) q}"
        and b: "batches_ok sent \<longrightarrow> batches_ok (sent' @ [(paths, visited + 1)])"
        by (rule scan_visit [OF store diff less.prems(2) st(3,2)])
      have ch: "changed_paths c = {q. file_at (Some (cm_tree p)) q \<noteq> file_at (Some (cm_tree c)) q}"
        by (simp add: changed_paths_def first_parent_tree_def p)
      have step: "scan_loop native utf8 previous c visited cache sent
          = scan_loop native utf8 previous p (visited + 1) cache' (sent' @ [(paths, visited + 1)])"
        using no p v by (subst scan_loop.simps) simp
      have ls: "linear_since previous c = map_option (\<lambda>cs. c # cs) (linear_since previous p)"
        using no p by (simp add: linear_since.simps [of _ c])
      have "size p < size c" using p by simp
      from less.hyps [OF this st(1) ok, of "sent' @ [(paths, visited + 1)]" "visited + 1"] b less.prems(3)
      show ?thesis
        unfolding step ls s by (cases "linear_since previous p") (auto simp: ch)
    qed
  qed
qed

text \<open>The commit of a checkpoint, where the linear history reaches it.\<close>

function checkpoint_commit :: "oid option \<Rightarrow> git_commit \<Rightarrow> git_commit" where
  "checkpoint_commit previous c =
     (if Some (cm_id c) = previous then c
      else (case cm_parents c of [p] \<Rightarrow> checkpoint_commit previous p | _ \<Rightarrow> c))"
  by pat_completeness auto
termination
  by (relation "measure (\<lambda>(_, c). size c)") auto

declare checkpoint_commit.simps [simp del]

lemma net_change_covered:
  "linear_since previous c = Some cs \<Longrightarrow>
    {p. file_at (Some (cm_tree (checkpoint_commit previous c))) p \<noteq> file_at (Some (cm_tree c)) p}
      \<subseteq> \<Union> (changed_paths ` set cs) \<and> Some (cm_id (checkpoint_commit previous c)) = previous"
proof (induction "size c" arbitrary: c cs rule: less_induct)
  case less
  show ?case
  proof (cases "Some (cm_id c) = previous")
    case True
    then show ?thesis by (simp add: checkpoint_commit.simps [of _ c])
  next
    case no: False
    then obtain p ds where p: "cm_parents c = [p]" "linear_since previous p = Some ds" "cs = c # ds"
      using less.prems by (auto simp: linear_since.simps [of _ c] split: list.splits)
    have b: "checkpoint_commit previous c = checkpoint_commit previous p"
      using no p(1) by (simp add: checkpoint_commit.simps [of _ c])
    have "size p < size c" using p(1) by simp
    from less.hyps [OF this p(2)]
    have IH: "{q. file_at (Some (cm_tree (checkpoint_commit previous p))) q \<noteq> file_at (Some (cm_tree p)) q}
        \<subseteq> \<Union> (changed_paths ` set ds)"
      and i: "Some (cm_id (checkpoint_commit previous p)) = previous" by simp_all
    have tri: "{q. x q \<noteq> z q} \<subseteq> {q. x q \<noteq> y q} \<union> {q. y q \<noteq> z q}" for x y z :: "string \<Rightarrow> (oid \<times> nat) option"
      by auto
    have ch: "changed_paths c = {q. file_at (Some (cm_tree p)) q \<noteq> file_at (Some (cm_tree c)) q}"
      by (simp add: changed_paths_def first_parent_tree_def p(1))
    have "{q. file_at (Some (cm_tree (checkpoint_commit previous p))) q \<noteq> file_at (Some (cm_tree c)) q}
        \<subseteq> \<Union> (changed_paths ` set ds) \<union> changed_paths c"
      unfolding ch using tri [of "file_at (Some (cm_tree (checkpoint_commit previous p)))"
        "file_at (Some (cm_tree c))" "file_at (Some (cm_tree p))"] IH
      by (rule order_trans [OF _ Un_mono [OF _ subset_refl]])
    then show ?thesis unfolding b p(3) using i by (simp add: Un_commute)
  qed
qed

text \<open>
  C18. Scanning the history from the head down to a checkpoint always ends with an answer. It
  reports an incompatible history exactly if the checkpoint does not lie on the linear history of
  the head. Otherwise the batches it sends, each of at most 256 paths, together hold exactly the
  paths some commit since the checkpoint changed, those reverted later included; in particular
  every path whose file differs between the checkpoint and the head is among them.
\<close>

theorem scan_complete:
  assumes "libgit2_diff U native" and "history_store U head"
  shows "\<exists>baseline sent. scan_changes native utf8 head previous = Inr (baseline, sent)
    \<and> batches_ok sent
    \<and> (case linear_since previous head of
         None \<Rightarrow> baseline
       | Some cs \<Rightarrow> \<not> baseline \<and> sent_paths sent = \<Union> (changed_paths ` set cs)
           \<and> {p. file_at (Some (cm_tree (checkpoint_commit previous head))) p
                \<noteq> file_at (Some (cm_tree head)) p} \<subseteq> sent_paths sent)"
proof -
  have "batches_ok []" "sent_paths [] = {}" by (simp_all add: batches_ok_def sent_paths_def)
  then obtain b sent where r: "scan_changes native utf8 head previous = Inr (b, sent)" "batches_ok sent"
    and c0: "case linear_since previous head of None \<Rightarrow> b
      | Some cs \<Rightarrow> \<not> b \<and> sent_paths sent = sent_paths [] \<union> \<Union> (changed_paths ` set cs)"
    using scan_loop_result [OF assms cache_default_ok, of "[]" utf8 previous 0]
    unfolding scan_changes_def by blast
  have c: "case linear_since previous head of None \<Rightarrow> b
      | Some cs \<Rightarrow> \<not> b \<and> sent_paths sent = \<Union> (changed_paths ` set cs)"
    using c0 by (cases "linear_since previous head") (simp_all add: \<open>sent_paths [] = {}\<close>)
  have "case linear_since previous head of None \<Rightarrow> b
      | Some cs \<Rightarrow> \<not> b \<and> sent_paths sent = \<Union> (changed_paths ` set cs)
          \<and> {p. file_at (Some (cm_tree (checkpoint_commit previous head))) p
                \<noteq> file_at (Some (cm_tree head)) p} \<subseteq> sent_paths sent"
    using c net_change_covered [of previous head] by (cases "linear_since previous head") simp_all
  with r show ?thesis by blast
qed

definition commit_a :: git_commit where
  "commit_a = GCommit ''ca'' root_a 1 (Some ''first'') []"

definition commit_b :: git_commit where
  "commit_b = GCommit ''cb'' root_b 2 None [commit_a]"

lemma sample_history: "history_store sample_store commit_b"
  using sample_store_ok sample_members
  by (simp add: history_store_def commit_b_def commit_a_def chain.simps)

lemma sample_linear: "linear_since (Some ''ca'') commit_b = Some [commit_b]"
  by (simp add: linear_since.simps commit_b_def commit_a_def)

theorem scan_complete_witness:
  "\<exists>baseline sent. scan_changes full_diff (\<lambda>_. True) commit_b (Some ''ca'') = Inr (baseline, sent)
     \<and> \<not> baseline \<and> ''d/x.json'' \<in> sent_paths sent"
proof -
  have "''d/x.json'' \<in> changed_paths commit_b"
    using sample_changed by (simp add: changed_paths_def first_parent_tree_def commit_b_def commit_a_def)
  then show ?thesis
    using scan_complete [OF full_diff_correct sample_history, of "\<lambda>_. True" "Some ''ca''"]
    by (auto simp: sample_linear)
qed

subsection \<open>What a collection of versions reports\<close>

definition version_of :: "native_diff \<Rightarrow> (string \<Rightarrow> bool) \<Rightarrow> (oid \<Rightarrow> string option)
    \<Rightarrow> (string \<Rightarrow> json option) \<Rightarrow> git_commit \<Rightarrow> commit_versions option" where
  "version_of native utf8 blob parse c =
     (case commit_documents blob parse (compare_trees native utf8 (first_parent_tree c) (Some (cm_tree c))) of
        Inl _ \<Rightarrow> None
      | Inr docs \<Rightarrow> (if docs = [] then None else Some \<lparr>cv_commit_id = cm_id c,
          cv_timestamp = cm_time c, cv_message = (case cm_message c of Some m \<Rightarrow> m | None \<Rightarrow> []),
          cv_documents = docs\<rparr>))"

text \<open>The advisories a commit adds or changes, with their contents.\<close>

definition advisory_changes :: "git_commit \<Rightarrow> (string \<times> oid) set" where
  "advisory_changes c = {(path_url p, i) | p i. advisory_path p = Some p
     \<and> new_content (first_parent_tree c) (Some (cm_tree c)) p i}"

definition blobs_present :: "(oid \<Rightarrow> string option) \<Rightarrow> git_commit \<Rightarrow> bool" where
  "blobs_present blob c \<longleftrightarrow> (\<forall>(u, i) \<in> advisory_changes c. blob i \<noteq> None)"

lemma map_res_Inr:
  "(\<And>x. x \<in> set xs \<Longrightarrow> \<exists>y. f x = Inr y) \<Longrightarrow> \<exists>ys. map_res f xs = Inr ys \<and> map f xs = map Inr ys"
proof (induction xs)
  case (Cons x xs)
  then obtain y ys where "f x = Inr y" "map_res f xs = Inr ys" "map f xs = map Inr ys" by force
  then show ?case by (intro exI [of _ "y # ys"]) simp
qed simp

lemma commit_documents_ok:
  assumes exact: "\<And>p i. introduces ds p i \<longleftrightarrow> new_content (first_parent_tree c) (Some (cm_tree c)) p i"
    and blobs: "blobs_present blob c"
  shows "\<exists>docs. commit_documents blob parse ds = Inr docs
    \<and> (\<lambda>d. (chd_url d, chd_blob_id d)) ` set docs = advisory_changes c
    \<and> (\<forall>d \<in> set docs. \<exists>content. blob (chd_blob_id d) = Some content
          \<and> chd_tracking d = parse_tracking parse content)"
proof -
  let ?doc = "changed_document_of blob parse"
  have some: "\<exists>content. blob (td_new_id d) = Some content \<and> (path_url p, td_new_id d) \<in> advisory_changes c"
    if "d \<in> set ds" "td_status d \<in> {DAdded, DModified}" "td_new_path d = Some p" "advisory_path p = Some p"
    for d p
  proof -
    have "introduces ds p (td_new_id d)" using that by (auto simp: introduces_def)
    then have "(path_url p, td_new_id d) \<in> advisory_changes c"
      using that(4) by (auto simp: advisory_changes_def exact)
    then show ?thesis using blobs by (fastforce simp: blobs_present_def)
  qed
  have total: "\<exists>r. ?doc d = Inr r" if "d \<in> set ds" for d
    using some [OF that] by (auto simp: changed_document_of_def split: option.split)
  obtain rs where rs: "map_res ?doc ds = Inr rs" "map ?doc ds = map Inr rs"
    using map_res_Inr [of ds ?doc] total by blast
  have mem: "Some x \<in> set rs \<longleftrightarrow> (\<exists>d \<in> set ds. ?doc d = Inr (Some x))" for x
  proof -
    have "Some x \<in> set rs \<longleftrightarrow> Inr (Some x) \<in> set (map Inr rs :: (string + changed_document option) list)"
      by auto
    then show ?thesis unfolding rs(2) [symmetric] by (auto simp: image_iff eq_commute)
  qed
  let ?docs = "List.map_filter id rs"
  have in_docs: "x \<in> set ?docs \<longleftrightarrow> (\<exists>d \<in> set ds. ?doc d = Inr (Some x))" for x
    by (simp add: set_map_filter_Some mem)
  have doc: "?doc d = Inr (Some x) \<longleftrightarrow> (\<exists>p content. td_status d \<in> {DAdded, DModified}
      \<and> td_new_path d = Some p \<and> advisory_path p = Some p \<and> blob (td_new_id d) = Some content
      \<and> x = \<lparr>chd_url = path_url p, chd_blob_id = td_new_id d, chd_tracking = parse_tracking parse content\<rparr>)"
    for d x
    by (auto simp: changed_document_of_def split: option.split)
  have "(\<lambda>d. (chd_url d, chd_blob_id d)) ` set ?docs = advisory_changes c"
  proof (intro set_eqI iffI)
    fix y assume "y \<in> (\<lambda>d. (chd_url d, chd_blob_id d)) ` set ?docs"
    then obtain x d where x: "y = (chd_url x, chd_blob_id x)" "d \<in> set ds" "?doc d = Inr (Some x)"
      using in_docs by blast
    then show "y \<in> advisory_changes c" using some [OF x(2)] by (auto simp: doc)
  next
    fix y assume "y \<in> advisory_changes c"
    then obtain p i where y: "y = (path_url p, i)" "advisory_path p = Some p" "introduces ds p i"
      by (auto simp: advisory_changes_def exact)
    then obtain d where d: "d \<in> set ds" "td_status d \<in> {DAdded, DModified}" "td_new_path d = Some p"
      "td_new_id d = i" by (auto simp: introduces_def)
    obtain content where b: "blob (td_new_id d) = Some content" using some [OF d(1-3) y(2)] by blast
    let ?x = "\<lparr>chd_url = path_url p, chd_blob_id = td_new_id d, chd_tracking = parse_tracking parse content\<rparr>"
    have "?doc d = Inr (Some ?x)" unfolding doc using d(2,3) y(2) b by blast
    then have "?x \<in> set ?docs" using in_docs d(1) by blast
    then show "y \<in> (\<lambda>d. (chd_url d, chd_blob_id d)) ` set ?docs"
      using d(4) y(1) by (force simp: image_iff)
  qed
  moreover have "\<forall>d \<in> set ?docs. \<exists>content. blob (chd_blob_id d) = Some content
      \<and> chd_tracking d = parse_tracking parse content"
    using in_docs by (auto simp: doc)
  ultimately show ?thesis using rs(1) by (simp add: commit_documents_def)
qed

lemma chain_suffix: "c \<in> set (chain h) \<Longrightarrow> set (chain c) \<subseteq> set (chain h)"
proof (induction h rule: chain.induct)
  case (1 h)
  show ?case
  proof (cases "c = h")
    case False
    then obtain p ps where p: "cm_parents h = p # ps" "c \<in> set (chain p)"
      using "1.prems" by (cases "cm_parents h") (auto simp: chain.simps [of h])
    have "set (chain c) \<subseteq> set (chain p)" by (rule "1.IH" [OF p])
    then show ?thesis using p(1) by (auto simp: chain.simps [of h])
  qed simp
qed

lemma history_store_chain: "history_store U h \<Longrightarrow> c \<in> set (chain h) \<Longrightarrow> history_store U c"
  using chain_suffix by (force simp: history_store_def)

lemma commits_until_chain: "set (commits_until since h) \<subseteq> set (chain h)"
proof (induction since h rule: commits_until.induct)
  case (1 since h)
  then show ?case
    by (cases "cm_parents h") (auto simp: commits_until.simps [of since h] chain.simps [of h])
qed

lemma version_of_exact:
  assumes "libgit2_diff U native" "history_store U c" "blobs_present blob c"
  shows "\<exists>docs. commit_documents blob parse
      (compare_trees native utf8 (first_parent_tree c) (Some (cm_tree c))) = Inr docs
    \<and> (\<lambda>d. (chd_url d, chd_blob_id d)) ` set docs = advisory_changes c
    \<and> (\<forall>d \<in> set docs. \<exists>content. blob (chd_blob_id d) = Some content
          \<and> chd_tracking d = parse_tracking parse content)"
proof (rule commit_documents_ok [OF _ assms(3)])
  have store: "object_store U" using assms(2) by (simp add: history_store_def)
  have u: "set_option (first_parent_tree c) \<union> set_option (Some (cm_tree c)) \<subseteq> U"
    using history_store_tree [OF assms(2)] history_first_parent [OF assms(2)] by simp
  show "introduces (compare_trees native utf8 (first_parent_tree c) (Some (cm_tree c))) p i
      = new_content (first_parent_tree c) (Some (cm_tree c)) p i" for p i
    using compare_calls_correct [OF store assms(1) u, of "[]" utf8]
    by (simp add: compare_trees_def deltas_correct_def)
qed

lemma collect_step:
  assumes "libgit2_diff U native" "history_store U c" "blobs_present blob c" "cache_ok native utf8 U cache"
  shows "\<exists>cache'. cache_ok native utf8 U cache' \<and> collect_commit native utf8 blob parse emit c (cache, s) =
    (case version_of native utf8 blob parse c of None \<Rightarrow> Inr (cache', s)
     | Some v \<Rightarrow> (case emit v s of Inl e \<Rightarrow> Inl e | Inr s' \<Rightarrow> Inr (cache', s')))"
proof -
  have store: "object_store U" using assms(2) by (simp add: history_store_def)
  obtain ds cache' where d: "diff native utf8 (first_parent_tree c) (cm_tree c) cache = (ds, cache')"
    by (cases "diff native utf8 (first_parent_tree c) (cm_tree c) cache")
  have "ds = compare_trees native utf8 (first_parent_tree c) (Some (cm_tree c))" "cache_ok native utf8 U cache'"
    using diff_eq [OF store assms(4) history_first_parent [OF assms(2)] history_store_tree [OF assms(2)]] d
    by simp_all
  then show ?thesis
    using version_of_exact [OF assms(1-3), of parse utf8]
    by (intro exI [of _ cache']) (auto simp: collect_commit_def version_of_def d split: sum.split)
qed

lemma collect_fold:
  assumes diff: "libgit2_diff U native"
  shows "(\<And>c. c \<in> set cs \<Longrightarrow> history_store U c \<and> blobs_present blob c) \<Longrightarrow> cache_ok native utf8 U cache \<Longrightarrow>
    map_sum (\<lambda>e. e) snd (fold_res (collect_commit native utf8 blob parse emit) cs (cache, s))
      = fold_res emit (List.map_filter (version_of native utf8 blob parse) cs) s"
proof (induction cs arbitrary: cache s)
  case (Cons c cs)
  obtain cache' where ok: "cache_ok native utf8 U cache'"
    and step: "collect_commit native utf8 blob parse emit c (cache, s) =
      (case version_of native utf8 blob parse c of None \<Rightarrow> Inr (cache', s)
       | Some v \<Rightarrow> (case emit v s of Inl e \<Rightarrow> Inl e | Inr s' \<Rightarrow> Inr (cache', s')))"
    using collect_step [OF diff, of c blob utf8 cache parse emit s] Cons.prems by auto
  have IH: "map_sum (\<lambda>e. e) snd (fold_res (collect_commit native utf8 blob parse emit) cs (cache', s'))
      = fold_res emit (List.map_filter (version_of native utf8 blob parse) cs) s'" for s'
    by (rule Cons.IH [OF _ ok]) (use Cons.prems(1) in simp)
  show ?case
  proof (cases "version_of native utf8 blob parse c")
    case None
    then show ?thesis by (simp add: step IH List.map_filter_simps)
  next
    case (Some v)
    then show ?thesis by (cases "emit v s") (simp_all add: step IH List.map_filter_simps)
  qed
qed (simp add: List.map_filter_simps)

definition since_oid :: "(string \<Rightarrow> oid option) \<Rightarrow> string option \<Rightarrow> oid option option" where
  "since_oid oid_from_str since = (case since of None \<Rightarrow> Some None
     | Some t \<Rightarrow> map_option Some (oid_from_str t))"

text \<open>
  Collecting versions reports every version of every advisory once, oldest commit first: for
  each commit after \<open>since\<close> on the first-parent history the callback receives one record with
  exactly the advisories whose content the commit adds or changes against its parent, reverts and
  re-additions included, and none for a commit that changes no advisory; an error of the callback
  stops the collection and is returned. The contents are assumed to be in the object database.
\<close>

theorem collect_versions_exact:
  assumes "libgit2_diff U native" and "history_store U h"
    and "since_oid oid_from_str since = Some start"
    and "\<forall>c \<in> set (commits_until start h). blobs_present blob c"
  shows "collect_versions native utf8 blob parse oid_from_str (Some h) since emit s
      = fold_res emit (List.map_filter (version_of native utf8 blob parse) (rev (commits_until start h))) s
    \<and> (\<forall>c \<in> set (commits_until start h). case version_of native utf8 blob parse c of
         None \<Rightarrow> advisory_changes c = {}
       | Some v \<Rightarrow> cv_commit_id v = cm_id c \<and> cv_timestamp v = cm_time c
           \<and> (\<lambda>d. (chd_url d, chd_blob_id d)) ` set (cv_documents v) = advisory_changes c)"
proof -
  have hist: "history_store U c" if "c \<in> set (commits_until start h)" for c
    using that commits_until_chain history_store_chain [OF assms(2)] by blast
  have "map_sum (\<lambda>e. e) snd (fold_res (collect_commit native utf8 blob parse emit)
      (rev (commits_until start h)) (cache_default, s))
    = fold_res emit (List.map_filter (version_of native utf8 blob parse) (rev (commits_until start h))) s"
    by (rule collect_fold [OF assms(1)]) (use hist assms(4) in auto)
  then have "collect_versions native utf8 blob parse oid_from_str (Some h) since emit s
      = fold_res emit (List.map_filter (version_of native utf8 blob parse) (rev (commits_until start h))) s"
    using assms(3) by (cases since) (auto simp: since_oid_def collect_versions_def)
  moreover have "case version_of native utf8 blob parse c of
         None \<Rightarrow> advisory_changes c = {}
       | Some v \<Rightarrow> cv_commit_id v = cm_id c \<and> cv_timestamp v = cm_time c
           \<and> (\<lambda>d. (chd_url d, chd_blob_id d)) ` set (cv_documents v) = advisory_changes c"
    if c: "c \<in> set (commits_until start h)" for c
    using version_of_exact [OF assms(1) hist [OF c], of blob parse utf8] assms(4) c
    by (auto simp: version_of_def)
  ultimately show ?thesis by blast
qed

theorem collect_versions_exact_witness:
  "collect_versions full_diff (\<lambda>_. True) (\<lambda>_. Some ''{}'') (\<lambda>_. None) Some (Some commit_b) (Some ''ca'')
       (\<lambda>v n. Inr (Suc n)) 0
     = Inr (length (List.map_filter (version_of full_diff (\<lambda>_. True) (\<lambda>_. Some ''{}'') (\<lambda>_. None))
         (rev (commits_until (Some ''ca'') commit_b))))"
proof -
  have s: "since_oid Some (Some ''ca'') = Some (Some ''ca'')" by (simp add: since_oid_def)
  have b: "\<forall>c \<in> set (commits_until (Some ''ca'') commit_b). blobs_present (\<lambda>_. Some ''{}'') c"
    by (simp add: blobs_present_def)
  have n: "fold_res (\<lambda>v n. Inr (Suc n)) vs k = Inr (length vs + k)" for vs :: "commit_versions list" and k
    by (induction vs arbitrary: k) simp_all
  show ?thesis
    using collect_versions_exact [OF full_diff_correct sample_history s b, of "\<lambda>_. True" "\<lambda>_. None"
        "\<lambda>v n. Inr (Suc n)" 0]
    by (simp add: n)
qed

end
