(* ===== verification/Git_Selection.thy ===== *)
theory Git_Selection
  imports Git_History
begin

section \<open>Selecting the documents to validate\<close>

text \<open>
  \<open>server/src/storage/git_processing.rs\<close>: which advisories of the committed snapshot have to be
  validated after a checkpoint, and writing them to a scratch directory. The libraries the code
  calls are the fields of \<open>git_env\<close>: libgit2's diff and blob lookup, \<open>serde_json\<close>, SHA-256
  with hex encoding, and the parsing and raw bytes of object ids. Progress callbacks only report.
\<close>

record git_env =
  ge_native :: native_diff
  ge_utf8 :: "string \<Rightarrow> bool"
  ge_blob :: "oid \<Rightarrow> string option"
  ge_parse :: "string \<Rightarrow> json option"
  ge_to_vec :: "json \<Rightarrow> string"
  ge_sha_hex :: "string \<Rightarrow> string"
  ge_oid_bytes :: "oid \<Rightarrow> string"
  ge_oid_from_str :: "string \<Rightarrow> oid option"

record processing_selection =
  sel_checkpoint :: processing_checkpoint
  sel_full :: bool
  sel_baseline :: bool
  sel_advisories :: path_set
  sel_history :: path_set
  sel_deleted :: path_set

subsection \<open>The fingerprint of the validation inputs\<close>

definition entry_oid :: "git_entry \<Rightarrow> oid" where
  "entry_oid e = fst (identity e)"

definition metadata_inputs :: "git_env \<Rightarrow> git_tree \<Rightarrow> string + string" where
  "metadata_inputs env tree = (case get_path tree ''metadata/provider-metadata.json'' of
     None \<Rightarrow> Inr []
   | Some e \<Rightarrow> (case ge_blob env (entry_oid e) of None \<Rightarrow> Inl ''object not found''
     | Some content \<Rightarrow> (case ge_parse env content of None \<Rightarrow> Inl ''invalid JSON''
       | Some v \<Rightarrow> Inr (ge_to_vec env (jidx v ''distributions'')
           @ ge_to_vec env (jidx v ''public_openpgp_keys'')))))"

definition key_inputs :: "git_env \<Rightarrow> git_tree \<Rightarrow> string" where
  "key_inputs env tree = (case get_path tree ''metadata/keys'' of
     None \<Rightarrow> [] | Some e \<Rightarrow> ge_oid_bytes env (entry_oid e))"

definition fingerprint_of :: "git_env \<Rightarrow> string \<Rightarrow> git_tree \<Rightarrow> string + string" where
  "fingerprint_of env validator_identity tree = (case metadata_inputs env tree of
     Inl e \<Rightarrow> Inl e
   | Inr m \<Rightarrow> Inr (ge_sha_hex env (validator_identity @ m @ key_inputs env tree)))"

subsection \<open>Resolving changed paths\<close>

type_synonym resolved = "string list \<times> string list \<times> string list"

definition resolve_path :: "bool \<Rightarrow> git_tree \<Rightarrow> string \<Rightarrow> resolved \<Rightarrow> resolved" where
  "resolve_path full tree path acc = (case acc of (advisories, history, deleted) \<Rightarrow>
     (case advisory_path path of None \<Rightarrow> acc
      | Some advisory \<Rightarrow>
          (let history' = (if path = advisory then history @ [advisory] else history) in
           case get_path tree advisory of
             Some _ \<Rightarrow> (if \<not> full then (advisories @ [advisory], history', deleted)
               else (advisories, history', deleted))
           | None \<Rightarrow> (if path = advisory then (advisories, history', deleted @ [path_url advisory])
               else (advisories, history', deleted)))))"

definition resolve_page :: "bool \<Rightarrow> git_tree \<Rightarrow> string list
    \<Rightarrow> path_set \<times> path_set \<times> path_set \<Rightarrow> path_set \<times> path_set \<times> path_set" where
  "resolve_page full tree paths sets = (case sets of (advisories, history, deleted) \<Rightarrow>
     (case fold (resolve_path full tree) paths ([], [], []) of (a, h, d) \<Rightarrow>
       (insert_batch a advisories, insert_batch h history, insert_batch d deleted)))"

text \<open>The changes since the checkpoint; the receiver inserts every batch it is sent.\<close>

definition gather_changes :: "git_env \<Rightarrow> git_commit \<Rightarrow> oid option \<Rightarrow> unit + (path_set \<times> bool)" where
  "gather_changes env head previous_oid =
     (if previous_oid = None then Inr (path_set_new, True)
      else (case scan_changes (ge_native env) (ge_utf8 env) head previous_oid of
          Inl e \<Rightarrow> Inl e
        | Inr (baseline, sent) \<Rightarrow>
            Inr (fold (\<lambda>(paths, _) s. insert_batch paths s) sent path_set_new, baseline)))"

definition select_processing :: "git_env \<Rightarrow> git_commit \<Rightarrow> processing_checkpoint option \<Rightarrow> string \<Rightarrow> bool
    \<Rightarrow> (string + processing_selection) option" where
  "select_processing env head previous validator_identity force_full =
     (let tree = cm_tree head in
      case fingerprint_of env validator_identity tree of
        Inl e \<Rightarrow> Some (Inl e)
      | Inr fingerprint \<Rightarrow>
          (let previous_oid = Option.bind previous (\<lambda>p. ge_oid_from_str env (pk_commit_id p)) in
           case gather_changes env head previous_oid of
             Inl _ \<Rightarrow> Some (Inl ''Selection stopped'')
           | Inr (changes, baseline) \<Rightarrow>
               (let full = (baseline \<or> force_full
                      \<or> (case previous of None \<Rightarrow> True | Some p \<Rightarrow> pk_fingerprint p \<noteq> fingerprint)) in
                map_option (map_sum (\<lambda>e. e) (\<lambda>(advisories, history, deleted).
                    \<lparr>sel_checkpoint = \<lparr>pk_commit_id = cm_id head, pk_fingerprint = fingerprint,
                       pk_summary_dirty = False\<rparr>,
                     sel_full = full, sel_baseline = baseline, sel_advisories = advisories,
                     sel_history = history, sel_deleted = deleted\<rparr>))
                  (page_loop (path_batch changes) (\<lambda>paths sets. Inr (resolve_page full tree paths sets)) []
                    (path_set_new, path_set_new, path_set_new)))))"

text \<open>
  \<open>include_recovered_downloads\<close>: advisories downloaded again after a retrieval failure;
  \<open>exists\<close> tells which files are in the download directory.
\<close>

definition include_recovered :: "(string \<Rightarrow> (string option \<times> string) option) \<Rightarrow> (string \<Rightarrow> bool)
    \<Rightarrow> string \<Rightarrow> processing_selection \<Rightarrow> string + processing_selection" where
  "include_recovered parse_url exists url sel = (case url_to_git_path parse_url url of
     Inl e \<Rightarrow> Inl e
   | Inr None \<Rightarrow> Inr sel
   | Inr (Some path) \<Rightarrow> (if exists path \<or> exists (compressed_path path)
       then Inr (sel\<lparr>sel_advisories := path_insert path (sel_advisories sel)\<rparr>) else Inr sel))"

definition include_recovered_downloads :: "(string \<Rightarrow> (string option \<times> string) option)
    \<Rightarrow> (string \<Rightarrow> bool) \<Rightarrow> string list \<Rightarrow> processing_selection \<Rightarrow> string + processing_selection" where
  "include_recovered_downloads parse_url exists urls sel =
     (if sel_full sel then Inr sel else fold_res (include_recovered parse_url exists) urls sel)"

subsection \<open>Correctness of the selection\<close>

definition selects :: "bool \<Rightarrow> git_tree \<Rightarrow> string \<Rightarrow> string set" where
  "selects full tree p = (case advisory_path p of
     Some a \<Rightarrow> if get_path tree a \<noteq> None \<and> \<not> full then {a} else {} | None \<Rightarrow> {})"

definition historic :: "string \<Rightarrow> string set" where
  "historic p = (if advisory_path p = Some p then {p} else {})"

definition deletes :: "git_tree \<Rightarrow> string \<Rightarrow> string set" where
  "deletes tree p = (if advisory_path p = Some p \<and> get_path tree p = None then {path_url p} else {})"

lemma resolve_path_sets:
  "resolve_path full tree p (a, h, d) = (a', h', d') \<Longrightarrow>
     set a' = set a \<union> selects full tree p \<and> set h' = set h \<union> historic p \<and> set d' = set d \<union> deletes tree p"
  by (auto simp: resolve_path_def selects_def historic_def deletes_def Let_def split: option.splits if_splits)

lemma fold_resolve_sets:
  "fold (resolve_path full tree) ps (a, h, d) = (a', h', d') \<Longrightarrow>
     set a' = set a \<union> \<Union> (selects full tree ` set ps) \<and> set h' = set h \<union> \<Union> (historic ` set ps)
     \<and> set d' = set d \<union> \<Union> (deletes tree ` set ps)"
proof (induction ps arbitrary: a h d)
  case (Cons p ps)
  obtain a1 h1 d1 where r: "resolve_path full tree p (a, h, d) = (a1, h1, d1)"
    by (cases "resolve_path full tree p (a, h, d)") auto
  show ?case
    using Cons.IH [of a1 h1 d1] Cons.prems resolve_path_sets [OF r] by (auto simp: r)
qed simp

definition sets_for :: "bool \<Rightarrow> git_tree \<Rightarrow> string set \<Rightarrow> path_set \<times> path_set \<times> path_set \<Rightarrow> bool" where
  "sets_for full tree P sets \<longleftrightarrow> (case sets of (a, h, d) \<Rightarrow>
     path_set_inv a \<and> path_set_inv h \<and> path_set_inv d
     \<and> set (ps_paths a) = \<Union> (selects full tree ` P) \<and> set (ps_paths h) = \<Union> (historic ` P)
     \<and> set (ps_paths d) = \<Union> (deletes tree ` P))"

lemma resolve_page_sets:
  assumes "sets_for full tree P sets"
  shows "sets_for full tree (P \<union> set ps) (resolve_page full tree ps sets)"
proof -
  obtain a h d where s: "sets = (a, h, d)" by (cases sets) auto
  obtain a' h' d' where f: "fold (resolve_path full tree) ps ([], [], []) = (a', h', d')"
    by (cases "fold (resolve_path full tree) ps ([], [], [])") auto
  show ?thesis
    using assms fold_resolve_sets [OF f]
    by (simp add: s sets_for_def resolve_page_def f insert_batch_inv set_insert_batch)
qed

lemma resolve_pages_sets:
  "sets_for full tree P sets \<Longrightarrow>
    sets_for full tree (P \<union> set (concat pages)) (fold (resolve_page full tree) pages sets)"
proof (induction pages arbitrary: P sets)
  case (Cons p pages)
  show ?case using Cons.IH [OF resolve_page_sets [OF Cons.prems, of p]] by (simp add: Un_assoc)
qed simp

lemma resolve_loop:
  assumes "path_set_inv changes"
  shows "\<exists>sets. page_loop (path_batch changes) (\<lambda>paths sets. Inr (resolve_page full tree paths sets)) []
      (path_set_new, path_set_new, path_set_new) = Some (Inr sets)
    \<and> sets_for full tree (set (ps_paths changes) - {[]}) sets"
proof -
  let ?pages = "chunks PATH_BATCH (filter (\<lambda>k. [] < k) (ps_paths changes))"
  have "sets_for full tree {} (path_set_new, path_set_new, path_set_new)"
    by (simp add: sets_for_def)
  from resolve_pages_sets [OF this, of ?pages]
  have "sets_for full tree (set (ps_paths changes) - {[]})
      (fold (resolve_page full tree) ?pages (path_set_new, path_set_new, path_set_new))"
    by (simp add: PATH_BATCH_def set_diff_eq)
  then show ?thesis
    unfolding paths.page_loop_returns [OF assms] fold_res_total by blast
qed

lemma gathered:
  "path_set_inv s \<Longrightarrow> path_set_inv (fold (\<lambda>(paths, _) s. insert_batch paths s) sent s)
    \<and> set (ps_paths (fold (\<lambda>(paths, _) s. insert_batch paths s) sent s)) = set (ps_paths s) \<union> sent_paths sent"
  by (induction sent arbitrary: s)
    (auto simp: sent_paths_def insert_batch_inv set_insert_batch split: prod.splits)

definition changed_since :: "git_commit \<Rightarrow> oid option \<Rightarrow> string set" where
  "changed_since head previous = (case linear_since previous head of
     None \<Rightarrow> {} | Some cs \<Rightarrow> \<Union> (changed_paths ` set cs))"

definition previous_oid :: "git_env \<Rightarrow> processing_checkpoint option \<Rightarrow> oid option" where
  "previous_oid env previous = Option.bind previous (\<lambda>p. ge_oid_from_str env (pk_commit_id p))"

lemma gather_changes_result:
  assumes "libgit2_diff U (ge_native env)" "history_store U head"
  shows "\<exists>changes baseline. gather_changes env head po = Inr (changes, baseline) \<and> path_set_inv changes
    \<and> (baseline \<longleftrightarrow> po = None \<or> linear_since po head = None)
    \<and> (\<not> baseline \<longrightarrow> set (ps_paths changes) = changed_since head po)"
proof (cases "po = None")
  case False
  obtain b sent where r: "scan_changes (ge_native env) (ge_utf8 env) head po = Inr (b, sent)"
    and c: "case linear_since po head of None \<Rightarrow> b
      | Some cs \<Rightarrow> \<not> b \<and> sent_paths sent = sent_paths [] \<union> \<Union> (changed_paths ` set cs)"
    using scan_loop_result [OF assms cache_default_ok, of "[]" "ge_utf8 env" po 0]
    unfolding scan_changes_def by (auto simp: batches_ok_def)
  have e: "sent_paths [] = {}" by (simp add: sent_paths_def)
  show ?thesis
    using False r c gathered [OF path_set_new_inv(1), of sent]
    by (cases "linear_since po head") (auto simp: gather_changes_def changed_since_def e)
next
  case True
  then show ?thesis by (intro exI [of _ path_set_new] exI [of _ True]) (simp add: gather_changes_def)
qed

lemma select_result:
  assumes diff: "libgit2_diff U (ge_native env)" and hist: "history_store U head"
    and fp: "fingerprint_of env validator_identity (cm_tree head) = Inr fp"
  shows "\<exists>sel. select_processing env head previous validator_identity force_full = Some (Inr sel)
    \<and> sel_checkpoint sel = \<lparr>pk_commit_id = cm_id head, pk_fingerprint = fp, pk_summary_dirty = False\<rparr>
    \<and> (sel_baseline sel \<longleftrightarrow> previous_oid env previous = None
        \<or> linear_since (previous_oid env previous) head = None)
    \<and> (sel_full sel \<longleftrightarrow> sel_baseline sel \<or> force_full
        \<or> map_option pk_fingerprint previous \<noteq> Some fp)
    \<and> path_set_inv (sel_advisories sel) \<and> path_set_inv (sel_history sel) \<and> path_set_inv (sel_deleted sel)
    \<and> (\<not> sel_baseline sel \<longrightarrow> sets_for (sel_full sel) (cm_tree head)
        (changed_since head (previous_oid env previous) - {[]})
        (sel_advisories sel, sel_history sel, sel_deleted sel))"
proof -
  let ?po = "previous_oid env previous"
  obtain changes baseline where g: "gather_changes env head ?po = Inr (changes, baseline)"
    and inv: "path_set_inv changes"
    and b: "baseline \<longleftrightarrow> ?po = None \<or> linear_since ?po head = None"
    and ch: "\<not> baseline \<longrightarrow> set (ps_paths changes) = changed_since head ?po"
    using gather_changes_result [OF diff hist, of ?po] by blast
  let ?full = "baseline \<or> force_full \<or> (case previous of None \<Rightarrow> True | Some p \<Rightarrow> pk_fingerprint p \<noteq> fp)"
  obtain a h d where loop: "page_loop (path_batch changes) (\<lambda>paths sets. Inr (resolve_page ?full (cm_tree head) paths sets)) []
      (path_set_new, path_set_new, path_set_new) = Some (Inr (a, h, d) :: string + _)"
    and s: "sets_for ?full (cm_tree head) (set (ps_paths changes) - {[]}) (a, h, d)"
    using resolve_loop [OF inv, of ?full "cm_tree head"] by (metis prod_cases3)
  let ?sel = "\<lparr>sel_checkpoint = \<lparr>pk_commit_id = cm_id head, pk_fingerprint = fp, pk_summary_dirty = False\<rparr>,
      sel_full = ?full, sel_baseline = baseline, sel_advisories = a, sel_history = h, sel_deleted = d\<rparr>"
  have r: "select_processing env head previous validator_identity force_full = Some (Inr ?sel)"
    using g loop by (simp add: select_processing_def fp previous_oid_def [symmetric] Let_def)
  have full: "?full \<longleftrightarrow> baseline \<or> force_full \<or> map_option pk_fingerprint previous \<noteq> Some fp"
    by (auto split: option.split)
  show ?thesis
    by (rule exI [of _ ?sel]) (use r b s ch full in \<open>simp add: sets_for_def\<close>)
qed

lemma advisory_path_Nil: "advisory_path [] = None"
  by (simp add: advisory_path_def strip_sidecar_def sidecar_suffixes_def List.map_filter_simps
      strip_suffix_other ends_with_def starts_with_def)

lemma selects_iff: "x \<in> selects False tree p \<longleftrightarrow> advisory_path p = Some x \<and> get_path tree x \<noteq> None"
  by (auto simp: selects_def split: option.splits)

text \<open>
  C19. Selecting the documents of a snapshot always ends with a selection when its metadata can be
  read. The pass is complete if there is no usable checkpoint on the linear history, if it was
  forced, or if the validation inputs changed; otherwise it validates exactly the advisories still
  in the snapshot of which a commit since the checkpoint changed the document, its signature or a
  digest, updates the history of exactly the changed advisories and deletes exactly those that are
  gone.
\<close>

theorem selection_exact:
  assumes "libgit2_diff U (ge_native env)" and "history_store U head"
    and "fingerprint_of env validator_identity (cm_tree head) = Inr fp"
  shows "\<exists>sel. select_processing env head previous validator_identity force_full = Some (Inr sel)
    \<and> (sel_full sel \<longleftrightarrow> sel_baseline sel \<or> force_full \<or> map_option pk_fingerprint previous \<noteq> Some fp)
    \<and> (sel_baseline sel \<longleftrightarrow> previous_oid env previous = None
        \<or> linear_since (previous_oid env previous) head = None)
    \<and> (\<not> sel_full sel \<longrightarrow> set (ps_paths (sel_advisories sel)) =
        {a. get_path (cm_tree head) a \<noteq> None
          \<and> (\<exists>p \<in> changed_since head (previous_oid env previous). advisory_path p = Some a)})
    \<and> (\<not> sel_baseline sel \<longrightarrow> set (ps_paths (sel_history sel)) =
          {a \<in> changed_since head (previous_oid env previous). advisory_path a = Some a}
        \<and> set (ps_paths (sel_deleted sel)) =
          path_url ` {a \<in> changed_since head (previous_oid env previous).
            advisory_path a = Some a \<and> get_path (cm_tree head) a = None})"
proof -
  let ?C = "changed_since head (previous_oid env previous)"
  obtain sel where r: "select_processing env head previous validator_identity force_full = Some (Inr sel)"
    and b: "sel_baseline sel \<longleftrightarrow> previous_oid env previous = None \<or> linear_since (previous_oid env previous) head = None"
    and f: "sel_full sel \<longleftrightarrow> sel_baseline sel \<or> force_full \<or> map_option pk_fingerprint previous \<noteq> Some fp"
    and s: "\<not> sel_baseline sel \<longrightarrow> sets_for (sel_full sel) (cm_tree head) (?C - {[]})
        (sel_advisories sel, sel_history sel, sel_deleted sel)"
    using select_result [OF assms, of previous force_full] by (elim exE conjE) (rule that)
  note nil = advisory_path_Nil
  have a: "\<Union> (selects False (cm_tree head) ` (?C - {[]})) =
      {a. get_path (cm_tree head) a \<noteq> None \<and> (\<exists>p \<in> ?C. advisory_path p = Some a)}"
    using nil by (auto simp: selects_iff)
  have h: "\<Union> (historic ` (?C - {[]})) = {a \<in> ?C. advisory_path a = Some a}"
    using nil by (auto simp: historic_def split: if_splits)
  have d: "\<Union> (deletes (cm_tree head) ` (?C - {[]})) =
      path_url ` {a \<in> ?C. advisory_path a = Some a \<and> get_path (cm_tree head) a = None}"
    using nil by (auto simp: deletes_def split: if_splits)
  have adv: "set (ps_paths (sel_advisories sel)) = {a. get_path (cm_tree head) a \<noteq> None
      \<and> (\<exists>p \<in> ?C. advisory_path p = Some a)}" if nf: "\<not> sel_full sel"
  proof -
    have "\<not> sel_baseline sel" using nf f by blast
    then have "sets_for False (cm_tree head) (?C - {[]}) (sel_advisories sel, sel_history sel, sel_deleted sel)"
      using s nf by simp
    then show ?thesis unfolding sets_for_def by (simp add: a)
  qed
  have rest: "set (ps_paths (sel_history sel)) = {a \<in> ?C. advisory_path a = Some a}
      \<and> set (ps_paths (sel_deleted sel)) =
        path_url ` {a \<in> ?C. advisory_path a = Some a \<and> get_path (cm_tree head) a = None}"
    if "\<not> sel_baseline sel"
    using s that unfolding sets_for_def by (simp add: h d)
  show ?thesis
    by (rule exI [of _ sel], intro conjI impI) (rule r, rule f, rule b, erule adv,
      drule rest, erule conjunct1, drule rest, erule conjunct2)
qed

text \<open>An environment and a checkpoint for examples.\<close>

definition sample_env :: git_env where
  "sample_env = \<lparr>ge_native = full_diff, ge_utf8 = (\<lambda>_. True), ge_blob = (\<lambda>i. Some ''{}''),
     ge_parse = (\<lambda>_. None), ge_to_vec = (\<lambda>_. []), ge_sha_hex = (\<lambda>s. s), ge_oid_bytes = (\<lambda>i. i),
     ge_oid_from_str = Some\<rparr>"

definition checkpoint_a :: processing_checkpoint where
  "checkpoint_a = \<lparr>pk_commit_id = ''ca'', pk_fingerprint = ''v1'', pk_summary_dirty = False\<rparr>"

lemma sample_env_diff: "libgit2_diff sample_store (ge_native sample_env)"
  by (simp add: sample_env_def full_diff_correct)

lemma sample_fingerprint: "fingerprint_of sample_env ''v1'' (cm_tree commit_b) = Inr ''v1''"
  by (simp add: fingerprint_of_def metadata_inputs_def key_inputs_def sample_env_def commit_b_def
      root_b_def get_path_def get_name_def entries_of_def subtree_def)

lemma sample_previous: "previous_oid sample_env (Some checkpoint_a) = Some ''ca''"
  by (simp add: previous_oid_def sample_env_def checkpoint_a_def)

lemma sample_advisory: "advisory_path ''d/x.json'' = Some ''d/x.json''"
  using strip_sidecar_json [of "''d/x.json''"] ends_with_append [of "''d/x''" "''.json''"]
  by (simp add: advisory_path_def starts_with_def)

lemma sample_get_path: "get_path (cm_tree commit_b) ''d/x.json'' \<noteq> None"
  by (simp add: commit_b_def root_b_def dir_b_def get_path_def get_name_def entries_of_def subtree_def)

lemma sample_changed_since: "''d/x.json'' \<in> changed_since commit_b (Some ''ca'')"
proof -
  have "''d/x.json'' \<in> changed_paths commit_b"
    using sample_changed by (simp add: changed_paths_def first_parent_tree_def commit_b_def commit_a_def)
  then show ?thesis by (simp add: changed_since_def sample_linear)
qed

theorem selection_exact_witness:
  "\<exists>sel. select_processing sample_env commit_b (Some checkpoint_a) ''v1'' False = Some (Inr sel)
     \<and> \<not> sel_full sel \<and> ''d/x.json'' \<in> set (ps_paths (sel_advisories sel))"
proof -
  obtain sel where r: "select_processing sample_env commit_b (Some checkpoint_a) ''v1'' False = Some (Inr sel)"
    and f: "sel_full sel \<longleftrightarrow> sel_baseline sel \<or> False \<or> map_option pk_fingerprint (Some checkpoint_a) \<noteq> Some ''v1''"
    and b: "sel_baseline sel \<longleftrightarrow> previous_oid sample_env (Some checkpoint_a) = None
        \<or> linear_since (previous_oid sample_env (Some checkpoint_a)) commit_b = None"
    and a: "\<not> sel_full sel \<longrightarrow> set (ps_paths (sel_advisories sel)) =
        {a. get_path (cm_tree commit_b) a \<noteq> None
          \<and> (\<exists>p \<in> changed_since commit_b (previous_oid sample_env (Some checkpoint_a)). advisory_path p = Some a)}"
    using selection_exact [OF sample_env_diff sample_history sample_fingerprint, of "Some checkpoint_a" False]
    by (elim exE conjE) (rule that)
  have fp: "map_option pk_fingerprint (Some checkpoint_a) = Some ''v1''" by (simp add: checkpoint_a_def)
  have nf: "\<not> sel_full sel" using f b unfolding fp sample_previous sample_linear by simp
  have "''d/x.json'' \<in> set (ps_paths (sel_advisories sel))"
    unfolding a [THEN mp, OF nf] sample_previous
    using sample_get_path sample_changed_since sample_advisory by blast
  with r nf show ?thesis by blast
qed

text \<open>
  C1. An incremental pass loses nothing: an advisory of the snapshot that is not selected has the
  same document, signature and digest files as at the checkpoint, and the provider's validation
  inputs and validator are those of the checkpoint; the URL of an advisory that was stored at the
  checkpoint and is gone from the snapshot is among the deleted ones.
\<close>

theorem incremental_selection_safe:
  assumes "libgit2_diff U (ge_native env)" and "history_store U head"
    and "select_processing env head (Some previous) validator_identity force_full = Some (Inr sel)"
    and "\<not> sel_full sel"
  shows "fingerprint_of env validator_identity (cm_tree head) = Inr (pk_fingerprint previous)
    \<and> (\<forall>a q. advisory_path q = Some a \<and> get_path (cm_tree head) a \<noteq> None
        \<and> a \<notin> set (ps_paths (sel_advisories sel))
        \<longrightarrow> file_at (Some (cm_tree head)) q
            = file_at (Some (cm_tree (checkpoint_commit (previous_oid env (Some previous)) head))) q)
    \<and> (\<forall>a. advisory_path a = Some a \<and> get_path (cm_tree head) a = None
        \<and> file_at (Some (cm_tree (checkpoint_commit (previous_oid env (Some previous)) head))) a \<noteq> None
        \<longrightarrow> path_url a \<in> set (ps_paths (sel_deleted sel)))"
proof -
  let ?po = "previous_oid env (Some previous)"
  let ?C = "changed_since head ?po"
  obtain fp where fp: "fingerprint_of env validator_identity (cm_tree head) = Inr fp"
    using assms(3) by (cases "fingerprint_of env validator_identity (cm_tree head)")
      (simp_all add: select_processing_def Let_def)
  obtain sel' where r: "select_processing env head (Some previous) validator_identity force_full = Some (Inr sel')"
    and b: "sel_baseline sel' \<longleftrightarrow> ?po = None \<or> linear_since ?po head = None"
    and f: "sel_full sel' \<longleftrightarrow> sel_baseline sel' \<or> force_full \<or> map_option pk_fingerprint (Some previous) \<noteq> Some fp"
    and s: "\<not> sel_baseline sel' \<longrightarrow> sets_for (sel_full sel') (cm_tree head) (?C - {[]})
        (sel_advisories sel', sel_history sel', sel_deleted sel')"
    using select_result [OF assms(1,2) fp, of "Some previous" force_full] by (elim exE conjE) (rule that)
  have sel: "sel' = sel" using r assms(3) by simp
  have nb: "\<not> sel_baseline sel" and same: "fp = pk_fingerprint previous"
    using f assms(4) by (auto simp: sel)
  obtain cs where cs: "linear_since ?po head = Some cs" using b nb by (auto simp: sel)
  have C: "?C = \<Union> (changed_paths ` set cs)" by (simp add: changed_since_def cs)
  have covered: "p \<in> ?C" if "file_at (Some (cm_tree (checkpoint_commit ?po head))) p \<noteq> file_at (Some (cm_tree head)) p" for p
    using net_change_covered [OF cs] that by (auto simp: C)
  have sets: "sets_for False (cm_tree head) (?C - {[]}) (sel_advisories sel, sel_history sel, sel_deleted sel)"
    using s nb assms(4) by (simp add: sel)
  have adv: "file_at (Some (cm_tree head)) q = file_at (Some (cm_tree (checkpoint_commit ?po head))) q"
    if "advisory_path q = Some a" "get_path (cm_tree head) a \<noteq> None" "a \<notin> set (ps_paths (sel_advisories sel))" for a q
  proof (rule ccontr)
    assume "file_at (Some (cm_tree head)) q \<noteq> file_at (Some (cm_tree (checkpoint_commit ?po head))) q"
    then have "q \<in> ?C - {[]}" using covered [of q] that(1) advisory_path_Nil by auto
    moreover have "a \<in> selects False (cm_tree head) q" using that(1,2) by (simp add: selects_iff)
    ultimately show False using sets that(3) by (auto simp: sets_for_def)
  qed
  have del: "path_url a \<in> set (ps_paths (sel_deleted sel))"
    if "advisory_path a = Some a" "get_path (cm_tree head) a = None"
      "file_at (Some (cm_tree (checkpoint_commit ?po head))) a \<noteq> None" for a
  proof -
    have "file_at (Some (cm_tree head)) a = None"
      using that(2) by (simp add: get_path_def file_at_def as_file_def)
    then have "a \<in> ?C - {[]}" using covered [of a] that(1,3) advisory_path_Nil by auto
    moreover have "path_url a \<in> deletes (cm_tree head) a" using that(1,2) by (simp add: deletes_def)
    ultimately show ?thesis using sets by (auto simp: sets_for_def)
  qed
  show ?thesis using fp same adv del by blast
qed

theorem incremental_selection_safe_witness:
  "\<exists>sel. select_processing sample_env commit_b (Some checkpoint_a) ''v1'' False = Some (Inr sel)
     \<and> \<not> sel_full sel
     \<and> fingerprint_of sample_env ''v1'' (cm_tree commit_b) = Inr (pk_fingerprint checkpoint_a)"
proof -
  obtain sel where r: "select_processing sample_env commit_b (Some checkpoint_a) ''v1'' False = Some (Inr sel)"
    and b: "sel_baseline sel \<longleftrightarrow> previous_oid sample_env (Some checkpoint_a) = None
        \<or> linear_since (previous_oid sample_env (Some checkpoint_a)) commit_b = None"
    and f: "sel_full sel \<longleftrightarrow> sel_baseline sel \<or> False \<or> map_option pk_fingerprint (Some checkpoint_a) \<noteq> Some ''v1''"
    using select_result [OF sample_env_diff sample_history sample_fingerprint, of "Some checkpoint_a" False]
    by (elim exE conjE) (rule that)
  have fp: "map_option pk_fingerprint (Some checkpoint_a) = Some ''v1''" by (simp add: checkpoint_a_def)
  have nf: "\<not> sel_full sel" using f b unfolding fp sample_previous sample_linear by simp
  show ?thesis
    using r nf incremental_selection_safe [OF sample_env_diff sample_history r nf] by blast
qed

end
