(* ===== verification/Git_Materialize.thy ===== *)
theory Git_Materialize
  imports Git_Selection
begin

section \<open>Writing the selected documents to scratch\<close>

text \<open>
  \<open>visit_processing_files\<close>, \<open>visit_blobs\<close> and \<open>materialize_processing_with_progress\<close> of
  \<open>git_processing.rs\<close>: the selected files are counted, then extracted with the total known. The
  scratch directory is a map from file names to contents; a compressed file is identified with
  its content (compression is lossless) and file system errors are not modelled.
\<close>

subsection \<open>Visiting\<close>

text \<open>\<open>TreeWalkMode::PreOrder\<close> over the blobs; \<open>None\<close> for a name that is not UTF-8.\<close>

fun walk_blobs :: "(string \<Rightarrow> bool) \<Rightarrow> string \<Rightarrow> git_tree \<Rightarrow> (string option \<times> oid) list" where
  "walk_blobs utf8 dir (GTree i es) = concat (map (\<lambda>(n, e). case e of
     EBlob m b \<Rightarrow> [(if utf8 n then Some (dir @ n) else None, b)]
   | ETree s \<Rightarrow> walk_blobs utf8 (dir @ n @ ''/'') s
   | ECommit _ \<Rightarrow> []) es)"

definition visit_blobs :: "(string \<Rightarrow> bool) \<Rightarrow> git_tree \<Rightarrow> (string \<Rightarrow> oid \<Rightarrow> 's \<Rightarrow> string + 's) \<Rightarrow> 's \<Rightarrow> string + 's" where
  "visit_blobs utf8 tree visitor s = fold_res (\<lambda>(name, i) s. case name of
     None \<Rightarrow> Inl ''Non-UTF-8 Git input path'' | Some path \<Rightarrow> visitor path i s) (walk_blobs utf8 [] tree) s"

definition visit_sidecar :: "git_tree \<Rightarrow> (string \<Rightarrow> oid \<Rightarrow> 's \<Rightarrow> string + 's) \<Rightarrow> string \<Rightarrow> string \<Rightarrow> 's \<Rightarrow> string + 's" where
  "visit_sidecar tree visitor advisory suffix s = (let path = advisory @ suffix in
     case get_path tree path of Some e \<Rightarrow> visitor path (entry_oid e) s | None \<Rightarrow> Inr s)"

definition visit_tree_advisory :: "git_tree \<Rightarrow> (string \<Rightarrow> oid \<Rightarrow> 's \<Rightarrow> string + 's) \<Rightarrow> string \<Rightarrow> 's \<Rightarrow> string + 's" where
  "visit_tree_advisory tree visitor advisory s = (case get_path tree advisory of
     None \<Rightarrow> Inl (''Missing selected input '' @ advisory)
   | Some e \<Rightarrow> (case visitor advisory (entry_oid e) s of
       Inl err \<Rightarrow> Inl err
     | Inr s' \<Rightarrow> fold_res (visit_sidecar tree visitor advisory) sidecar_suffixes s'))"

definition visit_metadata :: "git_env \<Rightarrow> git_tree \<Rightarrow> (string \<Rightarrow> oid \<Rightarrow> 's \<Rightarrow> string + 's) \<Rightarrow> 's \<Rightarrow> string + 's" where
  "visit_metadata env tree visitor s = (case get_path tree ''metadata'' of
     None \<Rightarrow> Inr s
   | Some (ETree m) \<Rightarrow> visit_blobs (ge_utf8 env) m (\<lambda>path. visitor (''metadata/'' @ path)) s
   | Some _ \<Rightarrow> Inl ''object is no tree'')"

definition visit_processing_files :: "git_env \<Rightarrow> git_tree \<Rightarrow> processing_selection
    \<Rightarrow> (string \<Rightarrow> oid \<Rightarrow> 's \<Rightarrow> string + 's) \<Rightarrow> 's \<Rightarrow> (string + 's) option" where
  "visit_processing_files env tree sel visitor s =
     (if sel_full sel
      then Some (visit_blobs (ge_utf8 env) tree (\<lambda>path i s.
        if starts_with path ''metadata/'' \<or> advisory_path path \<noteq> None then visitor path i s else Inr s) s)
      else (case visit_metadata env tree visitor s of
          Inl e \<Rightarrow> Some (Inl e)
        | Inr s' \<Rightarrow> page_loop (path_batch (sel_advisories sel))
            (fold_res (visit_tree_advisory tree visitor)) [] s'))"

subsection \<open>Materializing\<close>

type_synonym scratch = "string \<rightharpoonup> string"

record extraction =
  ex_files :: nat
  ex_documents :: nat
  ex_scratch :: scratch

definition extract_file :: "git_env \<Rightarrow> string \<Rightarrow> oid \<Rightarrow> extraction \<Rightarrow> string + extraction" where
  "extract_file env path i s = (case ge_blob env i of
     None \<Rightarrow> Inl ''object not found''
   | Some content \<Rightarrow> Inr \<lparr>ex_files = ex_files s + 1,
       ex_documents = (if advisory_path path = Some path then ex_documents s + 1 else ex_documents s),
       ex_scratch = (ex_scratch s)(scratch_name path \<mapsto> content)\<rparr>)"

text \<open>The number of documents written, the total announced, and the scratch directory.\<close>

definition materialize :: "git_env \<Rightarrow> git_tree \<Rightarrow> processing_selection \<Rightarrow> scratch
    \<Rightarrow> (string + (nat \<times> extraction)) option" where
  "materialize env tree sel out =
     Option.bind (visit_processing_files env tree sel (\<lambda>_ _ n. Inr (Suc n)) 0) (\<lambda>counted.
       case counted of Inl e \<Rightarrow> Some (Inl e)
       | Inr announced \<Rightarrow> map_option (map_sum (\<lambda>e. e) (Pair announced))
           (visit_processing_files env tree sel (extract_file env)
             \<lparr>ex_files = 0, ex_documents = 0, ex_scratch = out\<rparr>))"

subsection \<open>The files of a selection\<close>

text \<open>The files a pass visits, in order; a missing or unreadable entry is an error.\<close>

definition advisory_files :: "git_tree \<Rightarrow> string \<Rightarrow> (string \<times> oid) list" where
  "advisory_files tree a = List.map_filter (\<lambda>p. map_option (\<lambda>e. (p, entry_oid e)) (get_path tree p))
     (map (\<lambda>s. a @ s) ([] # sidecar_suffixes))"

lemma visit_sidecars:
  "fold_res (visit_sidecar tree visitor a) ss s =
     fold_res (\<lambda>(p, i). visitor p i) (List.map_filter (\<lambda>p. map_option (\<lambda>e. (p, entry_oid e)) (get_path tree p))
       (map (\<lambda>x. a @ x) ss)) s"
  by (induction ss arbitrary: s)
    (auto simp: visit_sidecar_def Let_def List.map_filter_simps split: option.split sum.split)

lemma visit_advisory_files:
  "get_path tree a \<noteq> None \<Longrightarrow>
    visit_tree_advisory tree visitor a s = fold_res (\<lambda>(p, i). visitor p i) (advisory_files tree a) s"
  by (auto simp: visit_tree_advisory_def advisory_files_def List.map_filter_simps visit_sidecars split: sum.split)

lemma fold_res_concat:
  assumes "\<And>x s. x \<in> set xs \<Longrightarrow> f x s = fold_res g (h x) s"
  shows "fold_res f xs s = fold_res g (concat (map h xs)) s"
  using assms by (induction xs arbitrary: s) (auto simp: fold_res_append split: sum.split)

definition blob_files :: "(string \<Rightarrow> bool) \<Rightarrow> git_tree \<Rightarrow> (string \<times> oid) list" where
  "blob_files utf8 tree = List.map_filter (\<lambda>(n, i). map_option (\<lambda>p. (p, i)) n) (walk_blobs utf8 [] tree)"

definition names_utf8 :: "(string \<Rightarrow> bool) \<Rightarrow> git_tree \<Rightarrow> bool" where
  "names_utf8 utf8 tree \<longleftrightarrow> (\<forall>(n, i) \<in> set (walk_blobs utf8 [] tree). n \<noteq> None)"

lemma visit_blobs_files:
  assumes "names_utf8 utf8 tree"
  shows "visit_blobs utf8 tree visitor s = fold_res (\<lambda>(p, i). visitor p i) (blob_files utf8 tree) s"
proof -
  have "\<forall>(n, i) \<in> set ws. n \<noteq> None \<Longrightarrow>
    fold_res (\<lambda>(name, i) s. case name of None \<Rightarrow> Inl ''Non-UTF-8 Git input path'' | Some path \<Rightarrow> visitor path i s) ws s
      = fold_res (\<lambda>(p, i). visitor p i) (List.map_filter (\<lambda>(n, i). map_option (\<lambda>p. (p, i)) n) ws) s" for ws
    by (induction ws arbitrary: s) (auto simp: List.map_filter_simps split: sum.split)
  then show ?thesis using assms unfolding visit_blobs_def blob_files_def names_utf8_def by blast
qed

definition metadata_files :: "git_env \<Rightarrow> git_tree \<Rightarrow> (string \<times> oid) list" where
  "metadata_files env tree = (case get_path tree ''metadata'' of
     Some (ETree m) \<Rightarrow> map (\<lambda>(p, i). (''metadata/'' @ p, i)) (blob_files (ge_utf8 env) m) | _ \<Rightarrow> [])"

definition metadata_readable :: "git_env \<Rightarrow> git_tree \<Rightarrow> bool" where
  "metadata_readable env tree = (case get_path tree ''metadata'' of None \<Rightarrow> True
     | Some (ETree m) \<Rightarrow> names_utf8 (ge_utf8 env) m | _ \<Rightarrow> False)"

definition selected_files :: "git_env \<Rightarrow> git_tree \<Rightarrow> processing_selection \<Rightarrow> (string \<times> oid) list" where
  "selected_files env tree sel =
     (if sel_full sel
      then filter (\<lambda>(p, i). starts_with p ''metadata/'' \<or> advisory_path p \<noteq> None) (blob_files (ge_utf8 env) tree)
      else metadata_files env tree
        @ concat (map (advisory_files tree) (filter (\<lambda>a. a \<noteq> []) (ps_paths (sel_advisories sel)))))"

definition selection_readable :: "git_env \<Rightarrow> git_tree \<Rightarrow> processing_selection \<Rightarrow> bool" where
  "selection_readable env tree sel \<longleftrightarrow>
     (if sel_full sel then names_utf8 (ge_utf8 env) tree
      else metadata_readable env tree \<and> path_set_inv (sel_advisories sel)
        \<and> (\<forall>a \<in> set (ps_paths (sel_advisories sel)). get_path tree a \<noteq> None))"

lemma fold_res_filter:
  "fold_res (\<lambda>x s. if P x then f x s else Inr s) xs s = fold_res f (filter P xs) s"
  by (induction xs arbitrary: s) (auto split: sum.split)

lemma fold_res_map: "fold_res f (map g xs) s = fold_res (\<lambda>x. f (g x)) xs s"
  by (induction xs arbitrary: s) (auto split: sum.split)

lemma visit_metadata_files:
  "metadata_readable env tree \<Longrightarrow>
    visit_metadata env tree visitor s = fold_res (\<lambda>(p, i). visitor p i) (metadata_files env tree) s"
  by (auto simp: metadata_readable_def visit_metadata_def metadata_files_def visit_blobs_files fold_res_map
      case_prod_beta' split: option.splits git_entry.splits)

text \<open>Counting and extracting both visit the files of the selection, and the visit ends.\<close>

lemma visit_selected:
  assumes "selection_readable env tree sel"
  shows "visit_processing_files env tree sel visitor s
    = Some (fold_res (\<lambda>(p, i). visitor p i) (selected_files env tree sel) s)"
proof (cases "sel_full sel")
  case True
  have "visit_blobs (ge_utf8 env) tree (\<lambda>path i s. if starts_with path ''metadata/'' \<or> advisory_path path \<noteq> None
        then visitor path i s else Inr s) s
      = fold_res (\<lambda>(p, i) s. if starts_with p ''metadata/'' \<or> advisory_path p \<noteq> None
        then visitor p i s else Inr s) (blob_files (ge_utf8 env) tree) s"
    by (rule visit_blobs_files) (use assms True in \<open>simp add: selection_readable_def\<close>)
  also have "\<dots> = fold_res (\<lambda>x s. if (case x of (p, i) \<Rightarrow> starts_with p ''metadata/'' \<or> advisory_path p \<noteq> None)
        then (case x of (p, i) \<Rightarrow> visitor p i) s else Inr s) (blob_files (ge_utf8 env) tree) s"
    by (rule arg_cong [where f = "\<lambda>f. fold_res f _ s"]) (auto intro!: ext)
  finally show ?thesis
    using True by (simp add: visit_processing_files_def selected_files_def fold_res_filter)
next
  case False
  let ?f = "fold_res (visit_tree_advisory tree visitor)"
  let ?as = "filter (\<lambda>k. k \<noteq> []) (ps_paths (sel_advisories sel))"
  have inv: "path_set_inv (sel_advisories sel)" and m: "metadata_readable env tree"
    and a: "\<forall>a \<in> set (ps_paths (sel_advisories sel)). get_path tree a \<noteq> None"
    using assms False by (simp_all add: selection_readable_def)
  have loop: "page_loop (path_batch (sel_advisories sel)) ?f [] s' = Some (?f ?as s')" for s'
    using paths.page_loop_whole [OF inv, of ?f "[]" s'] by (simp add: fold_res_append)
  have files: "?f ?as s' = fold_res (\<lambda>(p, i). visitor p i) (concat (map (advisory_files tree) ?as)) s'" for s'
    by (rule fold_res_concat, rule visit_advisory_files) (use a in auto)
  show ?thesis
    using False
    by (simp add: visit_processing_files_def visit_metadata_files [OF m] loop files selected_files_def
        fold_res_append split: sum.split)
qed

lemma fold_res_count: "fold_res (\<lambda>(p, i) n. Inr (Suc n)) xs k = (Inr (k + length xs) :: 'e + nat)"
  by (induction xs arbitrary: k) (auto split: prod.splits)

lemma extract_files:
  assumes "\<forall>(p, i) \<in> set fs. ge_blob env i \<noteq> None"
  shows "fold_res (\<lambda>(p, i). extract_file env p i) fs s = Inr \<lparr>ex_files = ex_files s + length fs,
    ex_documents = ex_documents s + length (filter (\<lambda>(p, i). advisory_path p = Some p) fs),
    ex_scratch = ex_scratch s ++ map_of (rev (map (\<lambda>(p, i). (scratch_name p, the (ge_blob env i))) fs))\<rparr>"
  using assms
proof (induction fs arbitrary: s)
  case (Cons f fs)
  obtain p i where f: "f = (p, i)" by (cases f)
  then obtain content where "ge_blob env i = Some content" using Cons.prems by auto
  then show ?case
    using Cons by (simp add: f extract_file_def map_add_def fun_eq_iff split: option.split)
qed simp

subsection \<open>Paths determine files and file names\<close>

lemma get_name_entry:
  assumes "object_store U" "t \<in> U" "(n, e) \<in> set (tree_entries t)"
  shows "get_name (Some t) n = Some e" "CHR ''/'' \<notin> set n"
  using assms by (auto simp: get_name_def entries_of_def object_store_def intro: map_of_is_SomeI)

lemma split_on_name: "c \<notin> set n \<Longrightarrow> split_on c n = [n]"
  by (induction n) auto

lemma get_path_child:
  assumes "CHR ''/'' \<notin> set n" "subtree (Some t) n = Some s"
  shows "get_path t (n @ ''/'' @ p) = get_path s p"
proof -
  obtain q qs where q: "split_on (CHR ''/'') p = q # qs"
    by (cases "split_on (CHR ''/'') p") simp_all
  show ?thesis using assms by (simp add: get_path_def q)
qed

lemma walked_path:
  assumes "object_store U"
  shows "t \<in> U \<Longrightarrow> (Some x, i) \<in> set (walk_blobs utf8 dir t) \<Longrightarrow>
    \<exists>p m. x = dir @ p \<and> get_path t p = Some (EBlob m i)"
proof (induction utf8 dir t rule: walk_blobs.induct)
  case (1 utf8 dir j es)
  then obtain n e where ne: "(n, e) \<in> set es" and x: "(Some x, i) \<in> set (case e of
     EBlob m b \<Rightarrow> [(if utf8 n then Some (dir @ n) else None, b)]
   | ETree s \<Rightarrow> walk_blobs utf8 (dir @ n @ ''/'') s | ECommit _ \<Rightarrow> [])"
    by auto
  have entry: "(n, e) \<in> set (tree_entries (GTree j es))" using ne by simp
  note g = get_name_entry [OF assms "1.prems"(1) entry]
  show ?case
  proof (cases e)
    case (EBlob m b)
    then have "x = dir @ n" "b = i" using x by (auto split: if_splits)
    then show ?thesis using g EBlob by (auto simp: get_path_def split_on_name)
  next
    case (ETree s)
    have "s \<in> U" using assms "1.prems"(1) entry ETree by (auto simp: object_store_def)
    then obtain p m where p: "x = (dir @ n @ ''/'') @ p" "get_path s p = Some (EBlob m i)"
      using "1.IH" [of "(n, e)" n e s] ne ETree x by auto
    have "subtree (Some (GTree j es)) n = Some s" using g ETree by (simp add: subtree_def)
    then have "get_path (GTree j es) (n @ ''/'' @ p) = Some (EBlob m i)"
      using get_path_child [OF g(2)] p(2) by simp
    then show ?thesis using p(1) by auto
  qed (use x in simp)
qed

lemma blob_files_path:
  assumes "object_store U" "t \<in> U" "(p, i) \<in> set (blob_files utf8 t)"
  shows "\<exists>e. get_path t p = Some e \<and> entry_oid e = i"
proof -
  have "(Some p, i) \<in> set (walk_blobs utf8 [] t)"
    using assms(3) by (auto simp: blob_files_def set_map_filter_Some)
  then show ?thesis using walked_path [OF assms(1,2)] by (fastforce simp: entry_oid_def)
qed

lemma metadata_subtree:
  assumes "get_path t ''metadata'' = Some (ETree m)"
  shows "subtree (Some t) ''metadata'' = Some m"
  using assms by (simp add: get_path_def subtree_def)

lemma advisory_files_iff:
  "(p, i) \<in> set (advisory_files tree a) \<longleftrightarrow>
     (\<exists>s e. s \<in> set ([] # sidecar_suffixes) \<and> p = a @ s \<and> get_path tree p = Some e \<and> entry_oid e = i)"
  unfolding advisory_files_def set_map_filter_Some by (auto simp: image_iff)

lemma metadata_files_iff:
  "(p, i) \<in> set (metadata_files env tree) \<longleftrightarrow>
     (\<exists>m q. get_path tree ''metadata'' = Some (ETree m) \<and> p = ''metadata/'' @ q
        \<and> (q, i) \<in> set (blob_files (ge_utf8 env) m))"
proof (cases "get_path tree ''metadata''")
  case (Some e)
  then show ?thesis by (cases e) (auto simp: metadata_files_def)
qed (simp add: metadata_files_def)

lemma selected_path:
  assumes "object_store U" "tree \<in> U" "(p, i) \<in> set (selected_files env tree sel)"
  shows "\<exists>e. get_path tree p = Some e \<and> entry_oid e = i"
proof (cases "sel_full sel")
  case True
  then show ?thesis using assms blob_files_path [OF assms(1,2)] by (auto simp: selected_files_def)
next
  case False
  then consider "(p, i) \<in> set (metadata_files env tree)"
    | a where "(p, i) \<in> set (advisory_files tree a)"
    using assms(3) by (auto simp: selected_files_def)
  then show ?thesis
  proof cases
    case 1
    then obtain m q where m: "get_path tree ''metadata'' = Some (ETree m)" "p = ''metadata/'' @ q"
      "(q, i) \<in> set (blob_files (ge_utf8 env) m)"
      unfolding metadata_files_iff by blast
    note sub = metadata_subtree [OF m(1)]
    have "m \<in> U" using subtree_store [OF assms(1), of "Some tree" "''metadata''"] assms(2) sub by simp
    then obtain e where "get_path m q = Some e" "entry_oid e = i"
      using blob_files_path [OF assms(1) _ m(3)] by blast
    moreover have "p = ''metadata'' @ ''/'' @ q" using m(2) by simp
    ultimately show ?thesis using get_path_child [OF _ sub, of q] by simp
  next
    case 2
    then show ?thesis by (auto simp: advisory_files_iff)
  qed
qed

lemma selected_unique:
  assumes "object_store U" "tree \<in> U" "(p, i) \<in> set (selected_files env tree sel)"
    "(p, j) \<in> set (selected_files env tree sel)"
  shows "i = j"
  using selected_path [OF assms(1,2,3)] selected_path [OF assms(1,2,4)] by auto

lemma map_of_pairs:
  assumes "x \<in> set fs" "\<And>y. y \<in> set fs \<Longrightarrow> f y = f x \<Longrightarrow> g y = g x"
  shows "map_of (map (\<lambda>z. (f z, g z)) fs) (f x) = Some (g x)"
  using assms
proof (induction fs)
  case (Cons y ys)
  show ?case
  proof (cases "f y = f x")
    case True
    then show ?thesis using Cons.prems(2) [of y] by simp
  next
    case False
    then have x: "x \<in> set ys" using Cons.prems(1) by auto
    have "map_of (map (\<lambda>z. (f z, g z)) ys) (f x) = Some (g x)"
      by (rule Cons.IH [OF x]) (rule Cons.prems(2) [OF list.set_intros(2)])
    then show ?thesis using False by (simp only: list.map map_of.simps fst_conv fun_upd_apply) auto
  qed
qed simp

lemma strip_sidecar_cases:
  "strip_sidecar q = q \<or> (\<exists>s \<in> set sidecar_suffixes. q = strip_sidecar q @ s)"
  by (auto simp: strip_sidecar_def sidecar_suffixes_def List.map_filter_simps split: option.split)

lemma advisory_no_zst:
  assumes "advisory_path (p @ ''.zst'') \<noteq> None"
  shows False
proof -
  let ?q = "p @ ''.zst''"
  have "ends_with (strip_sidecar ?q) ''.json''"
    using assms by (auto simp: advisory_path_def Let_def split: if_splits)
  then obtain r where r: "strip_sidecar ?q = r @ ''.json''" by (auto simp: ends_with_iff)
  have "last ?q = CHR ''t''" by simp
  moreover have "last ?q \<noteq> CHR ''t''"
    using strip_sidecar_cases [of ?q]
  proof
    assume "strip_sidecar ?q = ?q"
    then have "last ?q = last (r @ ''.json'')" using r by metis
    then show ?thesis by simp
  next
    assume "\<exists>s \<in> set sidecar_suffixes. ?q = strip_sidecar ?q @ s"
    then obtain s where s: "s \<in> set sidecar_suffixes" "?q = strip_sidecar ?q @ s" by blast
    then have ne: "s \<noteq> []" "last s \<noteq> CHR ''t''" by (auto simp: sidecar_suffixes_def)
    have "last ?q = last (strip_sidecar ?q @ s)" by (rule arg_cong [OF s(2)])
    also have "\<dots> = last s" using ne(1) by simp
    finally show ?thesis using ne(2) by simp
  qed
  ultimately show False by simp
qed

lemma in_metadata_prefix: "starts_with p ''metadata/'' \<Longrightarrow> in_metadata p"
  using split_on_sep [of "CHR ''/''" "''metadata''"] by (auto simp: starts_with_iff in_metadata_def)

lemma extension_dot: "extension p = Some e \<Longrightarrow> CHR ''.'' \<in> set p"
proof -
  assume e: "extension p = Some e"
  then have l: "length (after_last (CHR ''.'') (file_name p)) + 1 < length (file_name p)"
    by (auto simp: extension_def Let_def split: if_splits)
  have "CHR ''.'' \<in> set (file_name p)"
  proof (rule ccontr)
    assume "CHR ''.'' \<notin> set (file_name p)"
    then have tw: "takeWhile (\<lambda>x. x \<noteq> CHR ''.'') (rev (file_name p)) = rev (file_name p)"
      by (auto simp: takeWhile_eq_all_conv)
    show False using l unfolding after_last_def tw by simp
  qed
  then show ?thesis
    unfolding file_name_def after_last_def by (auto dest: set_takeWhileD)
qed

definition input_path :: "string \<Rightarrow> bool" where
  "input_path p \<longleftrightarrow> starts_with p ''metadata/'' \<or> advisory_path p \<noteq> None"

lemma scratch_name_cases:
  "extension p = Some ''json'' \<and> \<not> in_metadata p \<Longrightarrow> scratch_name p = p @ ''.zst''"
  "\<not> (extension p = Some ''json'' \<and> \<not> in_metadata p) \<Longrightarrow> scratch_name p = p"
  by (auto simp: scratch_name_def compressed_path_def)

lemma scratch_name_inj:
  assumes "\<forall>p \<in> P. input_path p"
  shows "inj_on scratch_name P"
proof (rule inj_onI)
  have no: False if c: "extension p = Some ''json''" "\<not> in_metadata p" and q: "input_path (p @ ''.zst'')" for p
  proof -
    have "starts_with (p @ ''.zst'') ''metadata/''"
      using q advisory_no_zst by (auto simp: input_path_def)
    then obtain r where r: "p @ ''.zst'' = ''metadata/'' @ r" by (auto simp: starts_with_iff)
    then consider us where "p = ''metadata/'' @ us" | us where "''metadata/'' = p @ us"
      unfolding append_eq_append_conv2 by metis
    then show False
    proof cases
      case 1
      have "starts_with p ''metadata/''" unfolding 1 by (rule starts_with_append)
      then show False using c(2) in_metadata_prefix by blast
    next
      case (2 us)
      have "CHR ''.'' \<notin> set (''metadata/'')" by simp
      then have "CHR ''.'' \<notin> set p" unfolding 2 by simp
      then show False using extension_dot [OF c(1)] by blast
    qed
  qed
  fix p q assume pq: "p \<in> P" "q \<in> P" and e: "scratch_name p = scratch_name q"
  have ip: "input_path p" "input_path q" using assms pq by blast+
  show "p = q"
  proof (cases "extension p = Some ''json'' \<and> \<not> in_metadata p"; cases "extension q = Some ''json'' \<and> \<not> in_metadata q")
    assume p: "extension p = Some ''json'' \<and> \<not> in_metadata p"
      and q: "\<not> (extension q = Some ''json'' \<and> \<not> in_metadata q)"
    have "q = p @ ''.zst''" using e scratch_name_cases(1) [OF p] scratch_name_cases(2) [OF q] by metis
    then show ?thesis using no p ip(2) by blast
  next
    assume q: "extension q = Some ''json'' \<and> \<not> in_metadata q"
      and p: "\<not> (extension p = Some ''json'' \<and> \<not> in_metadata p)"
    have "p = q @ ''.zst''" using e scratch_name_cases(1) [OF q] scratch_name_cases(2) [OF p] by metis
    then show ?thesis using no q ip(1) by blast
  next
    assume p: "extension p = Some ''json'' \<and> \<not> in_metadata p"
      and q: "extension q = Some ''json'' \<and> \<not> in_metadata q"
    show ?thesis using e unfolding scratch_name_cases(1) [OF p] scratch_name_cases(1) [OF q] by simp
  next
    assume p: "\<not> (extension p = Some ''json'' \<and> \<not> in_metadata p)"
      and q: "\<not> (extension q = Some ''json'' \<and> \<not> in_metadata q)"
    show ?thesis using e unfolding scratch_name_cases(2) [OF p] scratch_name_cases(2) [OF q] .
  qed
qed

definition advisories_only :: "processing_selection \<Rightarrow> bool" where
  "advisories_only sel \<longleftrightarrow> (\<forall>a \<in> set (ps_paths (sel_advisories sel)). advisory_path a = Some a)"

lemma selected_input_path:
  assumes "advisories_only sel" "(p, i) \<in> set (selected_files env tree sel)"
  shows "input_path p"
proof (cases "sel_full sel")
  case True
  then show ?thesis using assms(2) by (auto simp: selected_files_def input_path_def)
next
  case False
  then consider "(p, i) \<in> set (metadata_files env tree)"
    | a where "a \<in> set (ps_paths (sel_advisories sel))" "(p, i) \<in> set (advisory_files tree a)"
    using assms(2) by (auto simp: selected_files_def)
  then show ?thesis
  proof cases
    case 1
    then show ?thesis unfolding metadata_files_iff input_path_def using starts_with_append by blast
  next
    case (2 a)
    then obtain s where "s \<in> set ([] # sidecar_suffixes)" "p = a @ s" unfolding advisory_files_iff by blast
    moreover have "advisory_path a = Some a" using assms(1) 2(1) by (simp add: advisories_only_def)
    ultimately show ?thesis using advisory_sidecar [of a s] by (auto simp: input_path_def)
  qed
qed

lemma materialize_exact_lemma:
  assumes "object_store U" and "tree \<in> U" and "selection_readable env tree sel"
    and "\<forall>(p, i) \<in> set (selected_files env tree sel). ge_blob env i \<noteq> None"
    and "advisories_only sel"
  shows "\<exists>ex. materialize env tree sel out = Some (Inr (length (selected_files env tree sel), ex))
    \<and> ex_files ex = length (selected_files env tree sel)
    \<and> ex_documents ex = length (filter (\<lambda>(p, i). advisory_path p = Some p) (selected_files env tree sel))
    \<and> (\<forall>(p, i) \<in> set (selected_files env tree sel). ex_scratch ex (scratch_name p) = ge_blob env i)
    \<and> (\<forall>n. n \<notin> scratch_name ` fst ` set (selected_files env tree sel) \<longrightarrow> ex_scratch ex n = out n)"
proof -
  let ?fs = "selected_files env tree sel"
  let ?m = "map_of (rev (map (\<lambda>(p, i). (scratch_name p, the (ge_blob env i))) ?fs))"
  let ?ex = "\<lparr>ex_files = length ?fs, ex_documents = length (filter (\<lambda>(p, i). advisory_path p = Some p) ?fs),
    ex_scratch = out ++ ?m\<rparr>"
  have r: "materialize env tree sel out = Some (Inr (length ?fs, ?ex))"
    by (simp add: materialize_def visit_selected [OF assms(3)] fold_res_count extract_files [OF assms(4)])
  have eq: "?m = map_of (map (\<lambda>z. (scratch_name (fst z), the (ge_blob env (snd z)))) (rev ?fs))"
    by (simp add: rev_map case_prod_beta')
  have "?m (scratch_name p) = ge_blob env i" if "(p, i) \<in> set ?fs" for p i
  proof -
    have det: "the (ge_blob env j) = the (ge_blob env i)" if "(q, j) \<in> set ?fs" "scratch_name q = scratch_name p" for q j
    proof -
      have "inj_on scratch_name (fst ` set ?fs)"
        by (rule scratch_name_inj) (use selected_input_path [OF assms(5)] in auto)
      then have "q = p" using that \<open>(p, i) \<in> set ?fs\<close> by (force dest: inj_onD)
      then show ?thesis using selected_unique [OF assms(1,2)] that(1) \<open>(p, i) \<in> set ?fs\<close> by metis
    qed
    let ?F = "\<lambda>z. scratch_name (fst z)" and ?G = "\<lambda>z. the (ge_blob env (snd z))"
    have "map_of (map (\<lambda>z. (?F z, ?G z)) (rev ?fs)) (?F (p, i)) = Some (?G (p, i))"
    proof (rule map_of_pairs)
      show "(p, i) \<in> set (rev ?fs)" using that by simp
      fix y assume "y \<in> set (rev ?fs)" "?F y = ?F (p, i)"
      then show "?G y = ?G (p, i)" using det [of "fst y" "snd y"] by simp
    qed
    then have "?m (scratch_name p) = Some (the (ge_blob env i))" by (simp only: eq fst_conv snd_conv)
    moreover have "ge_blob env i \<noteq> None" using assms(4) that by blast
    ultimately show ?thesis by simp
  qed
  then have inside: "\<forall>(p, i) \<in> set ?fs. (out ++ ?m) (scratch_name p) = ge_blob env i"
    using assms(4) by (auto simp: map_add_def split: option.split)
  have "?m n = None" if "n \<notin> scratch_name ` fst ` set ?fs" for n
    using that by (auto simp: map_of_eq_None_iff image_iff)
  then have outside: "\<forall>n. n \<notin> scratch_name ` fst ` set ?fs \<longrightarrow> (out ++ ?m) n = out n"
    by (simp add: map_add_def)
  show ?thesis
    by (rule exI [of _ ?ex]) (use r inside outside in simp)
qed

text \<open>
  Materializing a readable selection of advisories succeeds: counting and extracting agree
  on the number of files, each selected file ends up in scratch with its committed content under
  its own name, compressed and plain names never clashing, and nothing else in scratch is touched.
  The contents are assumed to be in the object database.
\<close>

theorem materialize_exact:
  assumes "object_store U" and "tree \<in> U" and "selection_readable env tree sel"
    and "\<forall>(p, i) \<in> set (selected_files env tree sel). ge_blob env i \<noteq> None"
    and "advisories_only sel"
  shows "\<exists>ex. materialize env tree sel out = Some (Inr (length (selected_files env tree sel), ex))
    \<and> ex_files ex = length (selected_files env tree sel)
    \<and> ex_documents ex = length (filter (\<lambda>(p, i). advisory_path p = Some p) (selected_files env tree sel))
    \<and> (\<forall>(p, i) \<in> set (selected_files env tree sel). ex_scratch ex (scratch_name p) = ge_blob env i)
    \<and> (\<forall>n. n \<notin> scratch_name ` fst ` set (selected_files env tree sel) \<longrightarrow> ex_scratch ex n = out n)"
  by (rule materialize_exact_lemma [OF assms])

lemma blob_files_child:
  assumes "get_path t ''metadata'' = Some (ETree m)"
  shows "get_path t (''metadata/'' @ q) = get_path m q"
  using get_path_child [OF _ metadata_subtree [OF assms], of q] by simp

definition one_advisory :: processing_selection where
  "one_advisory = \<lparr>sel_checkpoint = checkpoint_a, sel_full = False, sel_baseline = False,
     sel_advisories = path_insert ''d/x.json'' path_set_new, sel_history = path_set_new,
     sel_deleted = path_set_new\<rparr>"

lemma one_advisory_paths:
  "path_set_inv (sel_advisories one_advisory)" "set (ps_paths (sel_advisories one_advisory)) = {''d/x.json''}"
  using insert_batch_inv [OF path_set_new_inv(1), of "[''d/x.json'']"]
    set_insert_batch [OF path_set_new_inv(1), of "[''d/x.json'']"]
  by (simp_all add: one_advisory_def path_insert_def)

lemma one_advisory_readable:
  "selection_readable sample_env (cm_tree commit_b) one_advisory" "advisories_only one_advisory"
proof -
  have "get_path (cm_tree commit_b) ''metadata'' = None"
    by (simp add: commit_b_def root_b_def get_path_def get_name_def entries_of_def)
  then have "metadata_readable sample_env (cm_tree commit_b)" by (simp add: metadata_readable_def)
  then show "selection_readable sample_env (cm_tree commit_b) one_advisory"
    using one_advisory_paths sample_get_path
    by (simp add: selection_readable_def) (simp add: one_advisory_def)
  show "advisories_only one_advisory"
    unfolding advisories_only_def one_advisory_paths using sample_advisory by simp
qed

theorem materialize_exact_witness:
  "\<exists>n ex. materialize sample_env (cm_tree commit_b) one_advisory Map.empty = Some (Inr (n, ex))
     \<and> ex_files ex = n"
proof -
  have u: "cm_tree commit_b \<in> sample_store" using history_store_tree [OF sample_history] .
  have b: "\<forall>(p, i) \<in> set (selected_files sample_env (cm_tree commit_b) one_advisory). ge_blob sample_env i \<noteq> None"
    by (simp add: sample_env_def)
  show ?thesis
    using materialize_exact [OF sample_store_ok u one_advisory_readable(1) b one_advisory_readable(2), of Map.empty]
    by blast
qed

subsection \<open>Selection and extraction together\<close>

lemma documents_of_advisory:
  assumes "advisory_path a = Some a" "get_path tree a \<noteq> None"
  shows "length (filter (\<lambda>(p, i). advisory_path p = Some p) (advisory_files tree a)) = 1"
proof -
  have side: "advisory_path (a @ s) \<noteq> Some (a @ s)" if "s \<in> set sidecar_suffixes" for s
    using advisory_sidecar [OF assms(1) that] that by (auto simp: sidecar_suffixes_def)
  have none: "filter (\<lambda>(p, i). advisory_path p = Some p) (List.map_filter
      (\<lambda>p. map_option (\<lambda>e. (p, entry_oid e)) (get_path tree p)) (map (\<lambda>s. a @ s) ss)) = []"
    if "set ss \<subseteq> set sidecar_suffixes" for ss
    using that side by (induction ss) (auto simp: List.map_filter_simps split: option.split)
  obtain e where "get_path tree a = Some e" using assms(2) by auto
  then show ?thesis
    using assms(1) none [of sidecar_suffixes] by (simp add: advisory_files_def List.map_filter_simps)
qed

lemma documents_of_selection:
  assumes "\<not> sel_full sel" "advisories_only sel"
    and "\<forall>a \<in> set (ps_paths (sel_advisories sel)). get_path tree a \<noteq> None"
  shows "length (filter (\<lambda>(p, i). advisory_path p = Some p) (selected_files env tree sel))
    = length (ps_paths (sel_advisories sel))"
proof -
  have m: "filter (\<lambda>(p, i). advisory_path p = Some p) (metadata_files env tree) = []"
    by (auto simp: filter_empty_conv metadata_files_iff advisory_path_def starts_with_def)
  have ne: "filter (\<lambda>a. a \<noteq> []) (ps_paths (sel_advisories sel)) = ps_paths (sel_advisories sel)"
    using assms(2) advisory_path_Nil by (auto simp: filter_id_conv advisories_only_def)
  have "\<forall>a \<in> set as. advisory_path a = Some a \<and> get_path tree a \<noteq> None \<Longrightarrow>
    length (filter (\<lambda>(p, i). advisory_path p = Some p) (concat (map (advisory_files tree) as))) = length as" for as
    using documents_of_advisory by (induction as) auto
  then show ?thesis
    using assms m ne by (simp add: selected_files_def advisories_only_def)
qed

text \<open>
  C10. An incremental pass hands complete inputs to the validator: extracting its selection
  succeeds with one document per selected advisory, and for each of them the document, its
  signature and its digest files are in scratch exactly if they are in the snapshot, with the
  committed content.
\<close>

theorem incremental_inputs_complete:
  assumes "libgit2_diff U (ge_native env)" and "history_store U head"
    and "select_processing env head previous validator_identity force_full = Some (Inr sel)"
    and "\<not> sel_full sel" and "metadata_readable env (cm_tree head)"
    and "\<forall>(p, i) \<in> set (selected_files env (cm_tree head) sel). ge_blob env i \<noteq> None"
  shows "\<exists>n ex. materialize env (cm_tree head) sel Map.empty = Some (Inr (n, ex))
    \<and> ex_documents ex = path_len (sel_advisories sel)
    \<and> (\<forall>a \<in> set (ps_paths (sel_advisories sel)). \<forall>s \<in> set ([] # sidecar_suffixes).
        ex_scratch ex (scratch_name (a @ s))
          = Option.bind (get_path (cm_tree head) (a @ s)) (\<lambda>e. ge_blob env (entry_oid e)))"
proof -
  let ?tree = "cm_tree head"
  let ?po = "previous_oid env previous"
  let ?C = "changed_since head ?po"
  let ?fs = "selected_files env ?tree sel"
  obtain fp where fp: "fingerprint_of env validator_identity ?tree = Inr fp"
    using assms(3) by (cases "fingerprint_of env validator_identity ?tree")
      (simp_all add: select_processing_def Let_def)
  obtain sel' where r: "select_processing env head previous validator_identity force_full = Some (Inr sel')"
    and f: "sel_full sel' \<longleftrightarrow> sel_baseline sel' \<or> force_full \<or> map_option pk_fingerprint previous \<noteq> Some fp"
    and inv: "path_set_inv (sel_advisories sel')"
    and s: "\<not> sel_baseline sel' \<longrightarrow> sets_for (sel_full sel') ?tree (?C - {[]})
        (sel_advisories sel', sel_history sel', sel_deleted sel')"
    using select_result [OF assms(1,2) fp, of previous force_full] by (elim exE conjE) (rule that)
  have sel: "sel' = sel" using r assms(3) by simp
  have nb: "\<not> sel_baseline sel" using f assms(4) by (auto simp: sel)
  have adv: "advisory_path a = Some a \<and> get_path ?tree a \<noteq> None" if "a \<in> set (ps_paths (sel_advisories sel))" for a
  proof -
    have "set (ps_paths (sel_advisories sel)) = \<Union> (selects False ?tree ` (?C - {[]}))"
      using s nb assms(4) by (simp add: sel sets_for_def)
    then have "a \<in> \<Union> (selects False ?tree ` (?C - {[]}))" using that by (simp only:)
    then obtain p where "a \<in> selects False ?tree p" by blast
    then have "advisory_path p = Some a" "get_path ?tree a \<noteq> None" by (simp_all add: selects_iff)
    then show ?thesis using advisory_path_idem by blast
  qed
  have only: "advisories_only sel" using adv by (simp add: advisories_only_def)
  have readable: "selection_readable env ?tree sel"
    using adv inv assms(4,5) by (simp add: selection_readable_def sel)
  have store: "object_store U" using assms(2) by (simp add: history_store_def)
  obtain ex where m: "materialize env ?tree sel Map.empty = Some (Inr (length ?fs, ex))"
    and d: "ex_documents ex = length (filter (\<lambda>(p, i). advisory_path p = Some p) ?fs)"
    and inside: "\<forall>(p, i) \<in> set ?fs. ex_scratch ex (scratch_name p) = ge_blob env i"
    and outside: "\<forall>n. n \<notin> scratch_name ` fst ` set ?fs \<longrightarrow> ex_scratch ex n = Map.empty n"
    by (rule exE [OF materialize_exact_lemma [OF store history_store_tree [OF assms(2)] readable assms(6) only, of Map.empty]])
      (elim conjE, rule that)
  have "ex_scratch ex (scratch_name (a @ x)) = Option.bind (get_path ?tree (a @ x)) (\<lambda>e. ge_blob env (entry_oid e))"
    if a: "a \<in> set (ps_paths (sel_advisories sel))" and x: "x \<in> set ([] # sidecar_suffixes)" for a x
  proof (cases "get_path ?tree (a @ x)")
    case (Some e)
    have "a \<noteq> []" using adv [OF a] advisory_path_Nil by auto
    moreover have "(a @ x, entry_oid e) \<in> set (advisory_files ?tree a)"
      unfolding advisory_files_iff using x Some by blast
    ultimately have "(a @ x, entry_oid e) \<in> set ?fs" using a assms(4) by (auto simp: selected_files_def)
    then show ?thesis using inside Some by auto
  next
    case None
    have "scratch_name (a @ x) \<notin> scratch_name ` fst ` set ?fs"
    proof
      assume "scratch_name (a @ x) \<in> scratch_name ` fst ` set ?fs"
      then obtain p i where p: "(p, i) \<in> set ?fs" "scratch_name (a @ x) = scratch_name p" by auto
      have "input_path (a @ x)" using adv [OF a] x advisory_sidecar [of a x] by (auto simp: input_path_def)
      then have "inj_on scratch_name (insert (a @ x) (fst ` set ?fs))"
        by (intro scratch_name_inj) (use selected_input_path [OF only] in auto)
      then have "p = a @ x" using p by (force dest: inj_onD)
      then show False using selected_path [OF store history_store_tree [OF assms(2)] p(1)] None by simp
    qed
    then show ?thesis using outside None by simp
  qed
  moreover have "ex_documents ex = path_len (sel_advisories sel)"
    using d documents_of_selection [OF assms(4) only, of ?tree env] adv inv
    by (simp add: path_len_def path_set_inv_def sel)
  ultimately show ?thesis using m by blast
qed

theorem incremental_inputs_complete_witness:
  "\<exists>sel n ex. select_processing sample_env commit_b (Some checkpoint_a) ''v1'' False = Some (Inr sel)
     \<and> materialize sample_env (cm_tree commit_b) sel Map.empty = Some (Inr (n, ex))
     \<and> ex_documents ex = path_len (sel_advisories sel)"
proof -
  obtain sel where r: "select_processing sample_env commit_b (Some checkpoint_a) ''v1'' False = Some (Inr sel)"
    and b: "sel_baseline sel \<longleftrightarrow> previous_oid sample_env (Some checkpoint_a) = None
        \<or> linear_since (previous_oid sample_env (Some checkpoint_a)) commit_b = None"
    and f: "sel_full sel \<longleftrightarrow> sel_baseline sel \<or> False \<or> map_option pk_fingerprint (Some checkpoint_a) \<noteq> Some ''v1''"
    using select_result [OF sample_env_diff sample_history sample_fingerprint, of "Some checkpoint_a" False]
    by (elim exE conjE) (rule that)
  have fp: "map_option pk_fingerprint (Some checkpoint_a) = Some ''v1''" by (simp add: checkpoint_a_def)
  have nf: "\<not> sel_full sel" using f b unfolding fp sample_previous sample_linear by simp
  have "get_path (cm_tree commit_b) ''metadata'' = None"
    by (simp add: commit_b_def root_b_def get_path_def get_name_def entries_of_def)
  then have m: "metadata_readable sample_env (cm_tree commit_b)" by (simp add: metadata_readable_def)
  have bl: "\<forall>(p, i) \<in> set (selected_files sample_env (cm_tree commit_b) sel). ge_blob sample_env i \<noteq> None"
    by (simp add: sample_env_def)
  show ?thesis
    using incremental_inputs_complete [OF sample_env_diff sample_history r nf m bl] r by blast
qed

text \<open>
  A selected path can be a directory: when a document's file is replaced by a directory of the
  same name, the incremental pass selects the directory and extraction fails, on every sync until
  a complete pass is run.
\<close>

lemma selected_directory_fails:
  assumes "\<not> sel_full sel" "ps_paths (sel_advisories sel) = [a]" "a \<noteq> []" "path_set_inv (sel_advisories sel)"
    and "get_path tree a = Some (ETree s)" "ge_blob env (tree_id s) = None"
    and "get_path tree ''metadata'' = None"
  shows "\<exists>e. materialize env tree sel out = Some (Inl e)"
proof -
  have r: "selection_readable env tree sel"
    using assms by (simp add: selection_readable_def metadata_readable_def)
  have "selected_files env tree sel = advisory_files tree a"
    using assms by (simp add: selected_files_def metadata_files_def)
  moreover have "advisory_files tree a = (a, tree_id s) # tl (advisory_files tree a)"
    using assms(5) by (simp add: advisory_files_def List.map_filter_simps entry_oid_def)
  ultimately have "\<exists>rest. selected_files env tree sel = (a, tree_id s) # rest" by metis
  then show ?thesis
    using assms(6) by (auto simp: materialize_def visit_selected [OF r] fold_res_count extract_file_def)
qed

end
