(* ===== verification/Version_Records.thy ===== *)
theory Version_Records
  imports Git_History Document_Queries
begin

section \<open>Recorded versions of documents\<close>

text \<open>
  \<open>server/src/storage/versions.rs\<close>: the table \<open>document_versions\<close>, filled from the Git
  history with \<open>INSERT OR IGNORE\<close> on its unique index (url, commit), the version counts of the
  documents and the reading operations. Rows are kept in insertion order, which is the order of
  their AUTOINCREMENT ids; a failed pass rolls its transaction back.
\<close>

definition INSERT_CHUNK :: nat where
  "INSERT_CHUNK = 500"

definition URL_CHUNK :: nat where
  "URL_CHUNK = 500"

subsection \<open>Recording\<close>

definition version_row_of :: "nat \<Rightarrow> commit_versions \<Rightarrow> changed_document \<Rightarrow> version_row" where
  "version_row_of i c d = \<lparr>vn_id = i, vn_url = chd_url d, vn_commit_id = cv_commit_id c,
     vn_timestamp = cv_timestamp c, vn_message = cv_message c, vn_blob_id = chd_blob_id d,
     vn_status = ts_status (chd_tracking d), vn_version = ts_version (chd_tracking d),
     vn_current_release_date = ts_current_release_date (chd_tracking d)\<rparr>"

definition insert_version :: "commit_versions \<Rightarrow> changed_document \<Rightarrow> provider_db \<Rightarrow> provider_db" where
  "insert_version c d db =
     (if \<exists>r \<in> set (db_versions db). vn_url r = chd_url d \<and> vn_commit_id r = cv_commit_id c then db
      else db\<lparr>db_versions := db_versions db @ [version_row_of (db_next_version_id db) c d],
              db_next_version_id := Suc (db_next_version_id db)\<rparr>)"

type_synonym recording = "provider_db \<times> string list"

text \<open>One chunk of rows; \<open>touched\<close> collects the URLs (a \<open>BTreeSet\<close>, kept as a list here).\<close>

definition insert_versions :: "commit_versions \<Rightarrow> changed_document list \<Rightarrow> recording \<Rightarrow> recording" where
  "insert_versions c docs rec = (case rec of (db, touched) \<Rightarrow>
     (fold (insert_version c) docs db, touched @ map chd_url docs))"

definition store_commit :: "commit_versions \<Rightarrow> recording \<Rightarrow> string + recording" where
  "store_commit c rec = Inr (fold (insert_versions c) (chunks INSERT_CHUNK (cv_documents c)) rec)"

definition version_rows :: "provider_db \<Rightarrow> string \<Rightarrow> version_row list" where
  "version_rows db url = filter (\<lambda>r. vn_url r = url) (db_versions db)"

definition refresh_version_counts :: "string list option \<Rightarrow> provider_db \<Rightarrow> provider_db" where
  "refresh_version_counts urls db = db\<lparr>db_documents := map (\<lambda>d.
     let n = length (version_rows db (dr_url d)) in
     if (case urls of None \<Rightarrow> True | Some us \<Rightarrow> dr_url d \<in> set us) \<and> n > 0 \<and> dr_version_count d \<noteq> int n
     then d\<lparr>dr_version_count := int n\<rparr> else d) (db_documents db)\<rparr>"

definition record_versions :: "native_diff \<Rightarrow> (string \<Rightarrow> bool) \<Rightarrow> (oid \<Rightarrow> string option)
    \<Rightarrow> (string \<Rightarrow> json option) \<Rightarrow> (string \<Rightarrow> oid option) \<Rightarrow> bool \<Rightarrow> git_commit option
    \<Rightarrow> string option \<Rightarrow> provider_db \<Rightarrow> string + provider_db" where
  "record_versions native utf8 blob parse oid_from_str repo_exists head since db =
     (if \<not> repo_exists then Inr db
      else (let db1 = (if since = None then db\<lparr>db_versions := []\<rparr> else db) in
        case collect_versions native utf8 blob parse oid_from_str head since store_commit (db1, []) of
          Inl e \<Rightarrow> Inl e
        | Inr (db2, touched) \<Rightarrow> Inr
            (if since = None then refresh_version_counts None db2
             else fold (\<lambda>chunk. refresh_version_counts (Some chunk))
               (chunks URL_CHUNK (sort (remdups touched))) db2)))"

definition versions_missing :: "provider_db \<Rightarrow> bool" where
  "versions_missing db \<longleftrightarrow> db_documents db \<noteq> [] \<and> db_versions db = []"

subsection \<open>Reading\<close>

record document_version_info =
  vi_commit_id :: string
  vi_timestamp :: int
  vi_message :: string
  vi_is_latest :: bool
  vi_status :: "string option"
  vi_version :: "string option"
  vi_current_release_date :: "string option"

definition version_info :: "version_row \<Rightarrow> bool \<Rightarrow> document_version_info" where
  "version_info r is_latest = \<lparr>vi_commit_id = vn_commit_id r, vi_timestamp = vn_timestamp r,
     vi_message = vn_message r, vi_is_latest = is_latest, vi_status = vn_status r,
     vi_version = vn_version r, vi_current_release_date = vn_current_release_date r\<rparr>"

definition newest_first :: "provider_db \<Rightarrow> string \<Rightarrow> version_row list" where
  "newest_first db url = sort_key_desc vn_id (version_rows db url)"

definition list_versions :: "provider_db \<Rightarrow> string \<Rightarrow> nat \<Rightarrow> nat \<Rightarrow> document_version_info paginated" where
  "list_versions db url offset limit = \<lparr>
     pg_items = map (\<lambda>(i, r). version_info r (offset = 0 \<and> i = 0))
       (enumerate 0 (take limit (drop offset (newest_first db url)))),
     pg_total = length (version_rows db url), pg_offset = offset, pg_limit = limit\<rparr>"

definition find_version :: "provider_db \<Rightarrow> string \<Rightarrow> string \<Rightarrow> version_row option" where
  "find_version db url commit_id = find (\<lambda>r. vn_commit_id r = commit_id) (version_rows db url)"

definition head_option :: "'a list \<Rightarrow> 'a option" where
  "head_option xs = (case xs of [] \<Rightarrow> None | x # _ \<Rightarrow> Some x)"

definition latest_version :: "provider_db \<Rightarrow> string \<Rightarrow> version_row option" where
  "latest_version db url = head_option (newest_first db url)"

definition next_newer_version :: "provider_db \<Rightarrow> version_row \<Rightarrow> version_row option" where
  "next_newer_version db v = head_option (sort_key vn_id
     (filter (\<lambda>r. vn_id v < vn_id r) (version_rows db (vn_url v))))"

subsection \<open>Documents at a version\<close>

datatype diff_tag = TagEqual | TagInsert | TagDelete

record diff_line =
  dl_tag :: diff_tag
  dl_content :: string

text \<open>
  What the reading operations use of libgit2, \<open>serde_json\<close> and \<open>similar\<close>: blob lookup by a parsed
  id, the JSON parser and pretty printer, lossy decoding and the line diff.
\<close>

record read_env =
  rd_repo_exists :: bool
  rd_oid_from_str :: "string \<Rightarrow> oid option"
  rd_blob :: "oid \<Rightarrow> string option"
  rd_parse :: "string \<Rightarrow> json option"
  rd_pretty :: "json \<Rightarrow> string"
  rd_lossy :: "string \<Rightarrow> string"
  rd_utf8 :: "string \<Rightarrow> bool"
  rd_upper :: "string \<Rightarrow> string"
  rd_line_diff :: "string \<Rightarrow> string \<Rightarrow> (diff_tag \<times> string) list"

definition pretty_print_or_raw :: "read_env \<Rightarrow> string \<Rightarrow> string" where
  "pretty_print_or_raw env b = (case rd_parse env b of Some v \<Rightarrow> rd_pretty env v | None \<Rightarrow> rd_lossy env b)"

definition diff_documents :: "read_env \<Rightarrow> string \<Rightarrow> string \<Rightarrow> diff_line list" where
  "diff_documents env old new =
     (let old_pretty = pretty_print_or_raw env old; new_pretty = pretty_print_or_raw env new;
          (old_text, new_text) = (if old_pretty = new_pretty then (rd_lossy env old, rd_lossy env new)
            else (old_pretty, new_pretty)) in
      map (\<lambda>(t, c). \<lparr>dl_tag = t, dl_content = trim_end_char (CHR 0x0A) c\<rparr>)
        (rd_line_diff env old_text new_text))"

definition find_blob :: "read_env \<Rightarrow> string \<Rightarrow> string + string option" where
  "find_blob env blob_id = (case rd_oid_from_str env blob_id of
     None \<Rightarrow> Inl ''invalid blob ID'' | Some i \<Rightarrow> Inr (rd_blob env i))"

definition with_blob :: "read_env \<Rightarrow> string \<Rightarrow> (string \<Rightarrow> 'a) \<Rightarrow> string + 'a option" where
  "with_blob env blob_id f = (if \<not> rd_repo_exists env then Inr None
     else map_sum (\<lambda>e. e) (map_option f) (find_blob env blob_id))"

definition with_blobs :: "read_env \<Rightarrow> string \<Rightarrow> string \<Rightarrow> (string \<Rightarrow> string \<Rightarrow> 'a) \<Rightarrow> string + 'a option" where
  "with_blobs env old_id new_id f = (case find_blob env old_id of Inl e \<Rightarrow> Inl e
     | Inr old \<Rightarrow> (case find_blob env new_id of Inl e \<Rightarrow> Inl e
       | Inr new \<Rightarrow> Inr (case (old, new) of (Some a, Some b) \<Rightarrow> Some (f a b) | _ \<Rightarrow> None)))"

text \<open>\<open>Result<Option<Result<T>>>::transpose\<close>.\<close>

definition transpose_res :: "string + ('a option) option \<Rightarrow> string + 'a option" where
  "transpose_res r = (case r of Inl e \<Rightarrow> Inl e | Inr None \<Rightarrow> Inr None
     | Inr (Some None) \<Rightarrow> Inl ''invalid document'' | Inr (Some (Some x)) \<Rightarrow> Inr (Some x))"

definition document_versions :: "provider_db option \<Rightarrow> string \<Rightarrow> nat \<Rightarrow> nat \<Rightarrow> document_version_info paginated option" where
  "document_versions db tracking_id offset limit = Option.bind db (\<lambda>db.
     map_option (\<lambda>url. list_versions db url offset limit) (document_url db tracking_id))"

definition diff_document_versions ::
  "read_env \<Rightarrow> provider_db option \<Rightarrow> string \<Rightarrow> string \<Rightarrow> string + diff_line list option" where
  "diff_document_versions env db tracking_id commit_id =
     (case Option.bind db (\<lambda>db. Option.bind (document_url db tracking_id) (\<lambda>url.
        Option.bind (find_version db url commit_id) (\<lambda>old.
          map_option (Pair old) (next_newer_version db old)))) of
        None \<Rightarrow> Inr None
      | Some (old, new) \<Rightarrow> (if \<not> rd_repo_exists env then Inr None
          else with_blobs env (vn_blob_id old) (vn_blob_id new) (diff_documents env)))"

definition read_historical_document ::
  "read_env \<Rightarrow> provider_db option \<Rightarrow> string \<Rightarrow> string \<Rightarrow> string + historical_document option" where
  "read_historical_document env db tracking_id commit_id =
     (case Option.bind db (\<lambda>db. Option.bind (document_url db tracking_id) (\<lambda>url.
        find_version db url commit_id)) of
        None \<Rightarrow> Inr None
      | Some v \<Rightarrow> transpose_res (with_blob env (vn_blob_id v) (\<lambda>b.
          extract_metadata_from_json (rd_parse env) b commit_id (vn_timestamp v))))"

datatype raw_document = RawJson string | TooLarge nat

definition raw_of :: "read_env \<Rightarrow> nat \<Rightarrow> string \<Rightarrow> raw_document option" where
  "raw_of env max_bytes b = (if length b > max_bytes then Some (TooLarge (length b))
     else if rd_utf8 env b then Some (RawJson b) else None)"

definition read_document_raw ::
  "read_env \<Rightarrow> provider_db option \<Rightarrow> string \<Rightarrow> string option \<Rightarrow> nat \<Rightarrow> string + raw_document option" where
  "read_document_raw env db tracking_id commit_id max_bytes =
     (case Option.bind db (\<lambda>db. Option.bind (document_url db tracking_id) (\<lambda>url.
        case commit_id of Some c \<Rightarrow> find_version db url c | None \<Rightarrow> latest_version db url)) of
        None \<Rightarrow> Inr None
      | Some v \<Rightarrow> transpose_res (with_blob env (vn_blob_id v) (raw_of env max_bytes)))"

definition read_document_content ::
  "read_env \<Rightarrow> provider_db option \<Rightarrow> string \<Rightarrow> string + document_content option" where
  "read_document_content env db tracking_id =
     (case Option.bind db (\<lambda>db. Option.bind (document_url db tracking_id) (latest_version db)) of
        None \<Rightarrow> Inr None
      | Some v \<Rightarrow> transpose_res (with_blob env (vn_blob_id v)
          (extract_content (rd_upper env) (rd_parse env))))"

subsection \<open>The version table\<close>

definition version_key :: "version_row \<Rightarrow> string \<times> string" where
  "version_key r = (vn_url r, vn_commit_id r)"

definition version_inv :: "provider_db \<Rightarrow> bool" where
  "version_inv db \<longleftrightarrow> distinct (map version_key (db_versions db))
     \<and> sorted_wrt (<) (map vn_id (db_versions db))
     \<and> (\<forall>r \<in> set (db_versions db). vn_id r < db_next_version_id db)"

lemma version_inv_empty [simp]: "version_inv (db\<lparr>db_versions := []\<rparr>)" "version_inv db_empty"
  by (simp_all add: version_inv_def)

lemma insert_version_inv: "version_inv db \<Longrightarrow> version_inv (insert_version c d db)"
  by (auto simp: version_inv_def insert_version_def version_row_of_def version_key_def sorted_wrt_append
      less_Suc_eq)

lemma insert_version_keys:
  "version_key ` set (db_versions (insert_version c d db))
    = insert (chd_url d, cv_commit_id c) (version_key ` set (db_versions db))"
  by (force simp: insert_version_def version_row_of_def version_key_def)

lemma insert_version_documents [simp]: "db_documents (insert_version c d db) = db_documents db"
  by (simp add: insert_version_def)

lemma insert_version_same:
  "(chd_url d, cv_commit_id c) \<in> version_key ` set (db_versions db) \<Longrightarrow> insert_version c d db = db"
  by (auto simp: insert_version_def version_key_def)

text \<open>Chunks do not matter: storing a commit inserts its documents one by one.\<close>

lemma store_commit_eq:
  "store_commit c (db, touched) = Inr (fold (insert_version c) (cv_documents c) db,
    touched @ map chd_url (cv_documents c))"
proof -
  have "fold (insert_versions c) (chunks INSERT_CHUNK (cv_documents c)) (db, touched)
      = insert_versions c (cv_documents c) (db, touched)"
    by (rule fold_chunks) (auto simp: insert_versions_def INSERT_CHUNK_def)
  then show ?thesis by (simp add: store_commit_def insert_versions_def)
qed

definition commit_keys :: "commit_versions \<Rightarrow> (string \<times> string) set" where
  "commit_keys c = (\<lambda>d. (chd_url d, cv_commit_id c)) ` set (cv_documents c)"

lemma fold_insert_version:
  "version_inv db \<Longrightarrow> version_inv (fold (insert_version c) ds db)
    \<and> version_key ` set (db_versions (fold (insert_version c) ds db))
      = (\<lambda>d. (chd_url d, cv_commit_id c)) ` set ds \<union> version_key ` set (db_versions db)
    \<and> db_documents (fold (insert_version c) ds db) = db_documents db"
  by (induction ds arbitrary: db) (auto simp: insert_version_inv insert_version_keys)

lemma fold_insert_same:
  "(\<lambda>d. (chd_url d, cv_commit_id c)) ` set ds \<subseteq> version_key ` set (db_versions db) \<Longrightarrow>
    fold (insert_version c) ds db = db"
  by (induction ds) (auto simp: insert_version_same)

lemma fold_store:
  "version_inv db \<Longrightarrow> \<exists>db' touched'. fold_res store_commit cs (db, touched) = Inr (db', touched')
    \<and> version_inv db' \<and> db_documents db' = db_documents db
    \<and> version_key ` set (db_versions db') = \<Union> (commit_keys ` set cs) \<union> version_key ` set (db_versions db)
    \<and> set touched' = set touched \<union> fst ` \<Union> (commit_keys ` set cs)"
proof (induction cs arbitrary: db touched)
  case (Cons c cs)
  let ?db = "fold (insert_version c) (cv_documents c) db"
  have i: "version_inv ?db" "db_documents ?db = db_documents db"
    "version_key ` set (db_versions ?db) = commit_keys c \<union> version_key ` set (db_versions db)"
    using fold_insert_version [OF Cons.prems, of c "cv_documents c"] by (simp_all add: commit_keys_def)
  have t: "fst ` commit_keys c = chd_url ` set (cv_documents c)"
    by (force simp: commit_keys_def)
  show ?case
    using Cons.IH [OF i(1), of "touched @ map chd_url (cv_documents c)"]
    by (auto simp: store_commit_eq i t image_Un Un_assoc)
qed simp

lemma fold_store_same:
  "\<Union> (commit_keys ` set cs) \<subseteq> version_key ` set (db_versions db) \<Longrightarrow>
    \<exists>touched'. fold_res store_commit cs (db, touched) = Inr (db, touched')
      \<and> set touched' = set touched \<union> fst ` \<Union> (commit_keys ` set cs)"
proof (induction cs arbitrary: touched)
  case (Cons c cs)
  have "fold (insert_version c) (cv_documents c) db = db"
    by (rule fold_insert_same) (use Cons.prems in \<open>simp add: commit_keys_def\<close>)
  moreover have "fst ` commit_keys c = chd_url ` set (cv_documents c)"
    by (force simp: commit_keys_def)
  ultimately show ?case
    using Cons.IH [of "touched @ map chd_url (cv_documents c)"] Cons.prems
    by (auto simp: store_commit_eq image_Un Un_assoc)
qed simp

end
