(* ===== verification/Version_Facts.thy ===== *)
theory Version_Facts
  imports Version_Records Document_Facts
begin

section \<open>What recording and listing versions promises\<close>

text \<open>
  The facts about \<open>record_versions\<close> and the version lists of
  \<open>server/src/storage/versions.rs\<close>: the rows after a pass, the counts of the documents, the
  idempotence of a repeated pass, and the agreement of the list, the lookup by commit and the
  next newer version.
\<close>

subsection \<open>Version counts\<close>

definition counted :: "provider_db \<Rightarrow> (string \<Rightarrow> bool) \<Rightarrow> document_row \<Rightarrow> document_row" where
  "counted db sel d = (if sel (dr_url d) \<and> version_rows db (dr_url d) \<noteq> []
     then d\<lparr>dr_version_count := int (length (version_rows db (dr_url d)))\<rparr> else d)"

lemma counted_url [simp]: "dr_url (counted db sel d) = dr_url d"
  by (simp add: counted_def)

lemma counted_twice: "counted db p (counted db q d) = counted db (\<lambda>u. p u \<or> q u) d"
  by (auto simp: counted_def)

lemma row_same_count [simp]: "int n = dr_version_count d \<Longrightarrow> d\<lparr>dr_version_count := int n\<rparr> = d"
  by (cases d) simp

definition selected_urls :: "string list option \<Rightarrow> string \<Rightarrow> bool" where
  "selected_urls urls u \<longleftrightarrow> (case urls of None \<Rightarrow> True | Some us \<Rightarrow> u \<in> set us)"

lemma refresh_counted:
  "refresh_version_counts urls db = db\<lparr>db_documents := map (counted db (selected_urls urls)) (db_documents db)\<rparr>"
  by (simp add: refresh_version_counts_def counted_def selected_urls_def Let_def)

lemma version_rows_documents [simp]: "version_rows (db\<lparr>db_documents := ds\<rparr>) u = version_rows db u"
  by (simp add: version_rows_def)

lemma counted_documents [simp]: "counted (db\<lparr>db_documents := ds\<rparr>) = counted db"
  by (intro ext) (simp add: counted_def)

lemma refresh_append: "refresh_version_counts (Some (xs @ ys)) db
    = refresh_version_counts (Some ys) (refresh_version_counts (Some xs) db)"
proof -
  have "selected_urls (Some (xs @ ys)) = (\<lambda>u. selected_urls (Some ys) u \<or> selected_urls (Some xs) u)"
    by (auto simp: selected_urls_def)
  then show ?thesis by (simp add: refresh_counted counted_twice comp_def)
qed

lemma refresh_none: "refresh_version_counts (Some []) db = db"
  by (simp add: refresh_counted counted_def selected_urls_def map_idI)

lemma refresh_chunks: "fold (\<lambda>chunk. refresh_version_counts (Some chunk)) (chunks URL_CHUNK us) db
    = refresh_version_counts (Some us) db"
  by (rule fold_chunks) (simp_all add: refresh_append refresh_none URL_CHUNK_def)

lemma version_inv_documents [simp]: "version_inv (db\<lparr>db_documents := ds\<rparr>) = version_inv db"
  by (simp add: version_inv_def)

subsection \<open>One pass\<close>

definition changed_keys :: "git_commit list \<Rightarrow> (string \<times> string) set" where
  "changed_keys cs = {(u, cm_id c) | u i c. c \<in> set cs \<and> (u, i) \<in> advisory_changes c}"

definition kept_keys :: "string option \<Rightarrow> provider_db \<Rightarrow> (string \<times> string) set" where
  "kept_keys since db = (if since = None then {} else version_key ` set (db_versions db))"

definition kept_db :: "string option \<Rightarrow> provider_db \<Rightarrow> provider_db" where
  "kept_db since db = (if since = None then db\<lparr>db_versions := []\<rparr> else db)"

lemma kept_db_facts [simp]:
  "version_inv db \<Longrightarrow> version_inv (kept_db since db)"
  "version_key ` set (db_versions (kept_db since db)) = kept_keys since db"
  "db_documents (kept_db since db) = db_documents db"
  by (simp_all add: kept_db_def kept_keys_def)

definition count_urls :: "string option \<Rightarrow> string set \<Rightarrow> string \<Rightarrow> bool" where
  "count_urls since touched u \<longleftrightarrow> since = None \<or> u \<in> touched"

lemma collected:
  assumes "libgit2_diff U native" and "history_store U h"
    and "since_oid oid_from_str since = Some start"
    and "\<forall>c \<in> set (commits_until start h). blobs_present blob c"
  obtains vs where "\<And>emit (s :: 's). collect_versions native ok blob parse oid_from_str (Some h) since emit s
      = fold_res emit vs s"
    and "\<Union> (commit_keys ` set vs) = changed_keys (commits_until start h)"
proof -
  let ?cs = "commits_until start h"
  let ?vs = "List.map_filter (version_of native ok blob parse) (rev ?cs)"
  have hist: "history_store U c" if "c \<in> set ?cs" for c
    by (rule history_store_chain [OF assms(2)]) (use that commits_until_chain in blast)
  have fold: "collect_versions native ok blob parse oid_from_str (Some h) since emit s = fold_res emit ?vs s"
    for emit and s :: 's
  proof -
    have "map_sum (\<lambda>e. e) snd (fold_res (collect_commit native ok blob parse emit) (rev ?cs) (cache_default, s))
        = fold_res emit ?vs s"
      by (rule collect_fold [OF assms(1)]) (use hist assms(4) in auto)
    then show ?thesis using assms(3) by (cases since) (auto simp: since_oid_def collect_versions_def)
  qed
  have keys: "(case version_of native ok blob parse c of None \<Rightarrow> {} | Some v \<Rightarrow> commit_keys v)
      = {(u, cm_id c) | u i. (u, i) \<in> advisory_changes c}" if h: "c \<in> set ?cs" for c
  proof -
    obtain docs where d: "commit_documents blob parse
        (compare_trees native ok (first_parent_tree c) (Some (cm_tree c))) = Inr docs"
      "(\<lambda>d. (chd_url d, chd_blob_id d)) ` set docs = advisory_changes c"
      using version_of_exact [OF assms(1) hist [OF h], of blob parse ok] assms(4) h by metis
    have "{(u, cm_id c) | u i. (u, i) \<in> advisory_changes c} = (\<lambda>d. (chd_url d, cm_id c)) ` set docs"
      unfolding d(2) [symmetric] by force
    then show ?thesis by (simp add: version_of_def d(1) commit_keys_def)
  qed
  have "\<Union> (commit_keys ` set ?vs)
      = (\<Union>c \<in> set ?cs. case version_of native ok blob parse c of None \<Rightarrow> {} | Some v \<Rightarrow> commit_keys v)"
    by (auto simp: List.map_filter_def split: option.splits)
  also have "\<dots> = changed_keys ?cs" using keys by (simp add: changed_keys_def) blast
  finally show ?thesis using that fold by blast
qed

lemma record_pass:
  assumes "libgit2_diff U native" and "history_store U h"
    and "since_oid oid_from_str since = Some start"
    and "\<forall>c \<in> set (commits_until start h). blobs_present blob c" and "version_inv db"
  shows "\<exists>db'. record_versions native ok blob parse oid_from_str True (Some h) since db = Inr db'
    \<and> version_inv db'
    \<and> version_key ` set (db_versions db') = kept_keys since db \<union> changed_keys (commits_until start h)
    \<and> db_documents db' = map (counted db' (count_urls since (fst ` changed_keys (commits_until start h))))
        (db_documents db)"
proof -
  let ?keys = "changed_keys (commits_until start h)"
  obtain vs where vs: "\<And>emit (s :: recording). collect_versions native ok blob parse oid_from_str (Some h) since emit s
      = fold_res emit vs s" "\<Union> (commit_keys ` set vs) = ?keys"
    using collected [OF assms(1-4), where 's = recording and parse = parse and ok = ok] by blast
  obtain db2 touched where f: "fold_res store_commit vs (kept_db since db, []) = Inr (db2, touched)"
    "version_inv db2" "db_documents db2 = db_documents db"
    "version_key ` set (db_versions db2) = ?keys \<union> kept_keys since db" "set touched = fst ` ?keys"
    using fold_store [of "kept_db since db" vs "[]"] assms(5) vs(2) by auto
  have sel: "selected_urls (if since = None then None else Some (sort (remdups touched)))
      = count_urls since (fst ` ?keys)"
    by (cases since) (auto simp: selected_urls_def count_urls_def f(5))
  have "record_versions native ok blob parse oid_from_str True (Some h) since db
      = Inr (refresh_version_counts (if since = None then None else Some (sort (remdups touched))) db2)"
    using f(1) by (simp add: record_versions_def vs(1) refresh_chunks kept_db_def)
  then show ?thesis
    using f(2-4) by (intro exI conjI) (assumption | simp add: refresh_counted sel Un_commute)+
qed

text \<open>
  C11. Recording versions fills the version table with exactly one row per document and commit that
  adds or changes it: after a pass the keys (url, commit) are those kept (none for a rebuild, the
  old ones with a checkpoint) and those of the scanned commits, ids stay unique and increasing, and
  every document with recorded versions, if the pass touched it, has their number as its count,
  while the others keep what they had.
\<close>

theorem record_versions_exact:
  assumes "libgit2_diff U native" and "history_store U h"
    and "since_oid oid_from_str since = Some start"
    and "\<forall>c \<in> set (commits_until start h). blobs_present blob c" and "version_inv db"
  shows "\<exists>db'. record_versions native ok blob parse oid_from_str True (Some h) since db = Inr db'
    \<and> version_inv db'
    \<and> version_key ` set (db_versions db') = kept_keys since db \<union> changed_keys (commits_until start h)
    \<and> db_documents db' = map (counted db' (count_urls since (fst ` changed_keys (commits_until start h))))
        (db_documents db)"
  by (rule record_pass [OF assms])

theorem record_versions_exact_witness:
  "\<exists>db'. record_versions full_diff (\<lambda>_. True) (\<lambda>_. Some ''{}'') (\<lambda>_. None) Some True (Some commit_b)
       (Some ''ca'') db_empty = Inr db'
     \<and> version_key ` set (db_versions db') = changed_keys [commit_b]"
proof -
  have s: "since_oid Some (Some ''ca'') = Some (Some ''ca'')" by (simp add: since_oid_def)
  have b: "\<forall>c \<in> set (commits_until (Some ''ca'') commit_b). blobs_present (\<lambda>_. Some ''{}'') c"
    by (simp add: blobs_present_def)
  have c: "commits_until (Some ''ca'') commit_b = [commit_b]"
    by (simp add: commits_until.simps commit_b_def commit_a_def)
  show ?thesis
    using record_versions_exact [OF full_diff_correct sample_history s b version_inv_empty(2),
        where ok = "\<lambda>_. True" and parse = "\<lambda>_. None"]
    by (auto simp: c kept_keys_def)
qed

text \<open>
  Recording is idempotent, so that a pass may be retried: repeating an incremental pass over the
  same history leaves the database exactly as the first one left it.
\<close>

theorem record_versions_idempotent:
  assumes "libgit2_diff U native" and "history_store U h"
    and "since_oid oid_from_str (Some t) = Some start"
    and "\<forall>c \<in> set (commits_until start h). blobs_present blob c" and "version_inv db"
    and "record_versions native ok blob parse oid_from_str True (Some h) (Some t) db = Inr db'"
  shows "record_versions native ok blob parse oid_from_str True (Some h) (Some t) db' = Inr db'"
proof -
  let ?keys = "changed_keys (commits_until start h)"
  have db': "version_key ` set (db_versions db') = kept_keys (Some t) db \<union> ?keys"
    "db_documents db' = map (counted db' (count_urls (Some t) (fst ` ?keys))) (db_documents db)"
    using record_pass [OF assms(1-5), where parse = parse and ok = ok] assms(6) by auto
  obtain vs where vs: "\<And>emit (s :: recording). collect_versions native ok blob parse oid_from_str (Some h) (Some t) emit s
      = fold_res emit vs s" "\<Union> (commit_keys ` set vs) = ?keys"
    using collected [OF assms(1-4), where 's = recording and parse = parse and ok = ok] by blast
  have sub: "\<Union> (commit_keys ` set vs) \<subseteq> version_key ` set (db_versions db')"
    unfolding vs(2) db'(1) by simp
  obtain touched where f: "fold_res store_commit vs (db', []) = Inr (db', touched)" "set touched = fst ` ?keys"
    using fold_store_same [OF sub, of "[]"] vs(2) by auto
  have "map (counted db' (selected_urls (Some (sort (remdups touched))))) (db_documents db') = db_documents db'"
  proof -
    have "counted db' (selected_urls (Some (sort (remdups touched)))) d = d"
      if h: "d \<in> set (db_documents db')" for d
    proof -
      have "d \<in> counted db' (count_urls (Some t) (fst ` ?keys)) ` set (db_documents db)"
        using h unfolding db'(2) by simp
      then obtain d0 where "d = counted db' (count_urls (Some t) (fst ` ?keys)) d0" by blast
      then show ?thesis by (auto simp: f(2) counted_def selected_urls_def count_urls_def)
    qed
    then show ?thesis by (simp add: map_idI)
  qed
  then show ?thesis by (simp add: record_versions_def vs(1) f(1) refresh_chunks refresh_counted)
qed

theorem record_versions_idempotent_witness:
  "\<exists>db'. record_versions full_diff (\<lambda>_. True) (\<lambda>_. Some ''{}'') (\<lambda>_. None) Some True (Some commit_b)
       (Some ''ca'') db_empty = Inr db'
     \<and> record_versions full_diff (\<lambda>_. True) (\<lambda>_. Some ''{}'') (\<lambda>_. None) Some True (Some commit_b)
       (Some ''ca'') db' = Inr db'"
proof -
  have s: "since_oid Some (Some ''ca'') = Some (Some ''ca'')" by (simp add: since_oid_def)
  have b: "\<forall>c \<in> set (commits_until (Some ''ca'') commit_b). blobs_present (\<lambda>_. Some ''{}'') c"
    by (simp add: blobs_present_def)
  note pre = full_diff_correct sample_history s b version_inv_empty(2)
  obtain db' where r: "record_versions full_diff (\<lambda>_. True) (\<lambda>_. Some ''{}'') (\<lambda>_. None) Some True (Some commit_b)
       (Some ''ca'') db_empty = Inr db'"
    using record_pass [OF pre, where ok = "\<lambda>_. True" and parse = "\<lambda>_. None"] by blast
  from record_versions_idempotent [OF pre r] r show ?thesis by blast
qed

subsection \<open>Lists of versions\<close>

lemma version_rows_sorted:
  assumes "version_inv db"
  shows "sorted_wrt (\<lambda>a b. vn_id a < vn_id b) (version_rows db url)"
  using assms unfolding version_inv_def version_rows_def sorted_wrt_map
  by (intro sorted_wrt_filter) simp

lemma newest_first_rev:
  assumes "version_inv db"
  shows "newest_first db url = rev (version_rows db url)"
proof -
  let ?r = "version_rows db url"
  have s: "sorted_wrt (\<lambda>a b. vn_id a < vn_id b) ?r" by (rule version_rows_sorted [OF assms])
  then have d: "sorted (map vn_id ?r)" "distinct (map vn_id ?r)"
    using strict_sorted_iff [of "map vn_id ?r"] by (simp_all add: sorted_wrt_map)
  have "sort_key vn_id (rev ?r) = ?r"
    by (rule map_sorted_distinct_set_unique [of vn_id])
      (use d in \<open>simp_all add: distinct_map\<close>)
  then show ?thesis by (simp add: newest_first_def sort_key_desc_def)
qed

lemma version_keys_distinct:
  "version_inv db \<Longrightarrow> distinct (map vn_commit_id (version_rows db url))"
proof -
  assume "version_inv db"
  then have "distinct (map version_key (version_rows db url))"
    unfolding version_inv_def version_rows_def by (blast intro: distinct_map_filter)
  moreover have "map version_key (version_rows db url) = map (Pair url) (map vn_commit_id (version_rows db url))"
    by (simp add: version_rows_def version_key_def)
  ultimately show ?thesis by (simp only: distinct_map)
qed

lemma next_newer_nth:
  assumes "version_inv db" "i < length (version_rows db url)"
  shows "next_newer_version db (version_rows db url ! i)
    = head_option (drop (Suc i) (version_rows db url))"
proof -
  let ?r = "version_rows db url"
  have s: "sorted_wrt (\<lambda>a b. vn_id a < vn_id b) ?r" by (rule version_rows_sorted [OF assms(1)])
  have split: "?r = take i ?r @ ?r ! i # drop (Suc i) ?r" using assms(2) by (rule id_take_nth_drop)
  have "sorted_wrt (\<lambda>a b. vn_id a < vn_id b) (take i ?r @ ?r ! i # drop (Suc i) ?r)"
    using s split by simp
  then have le: "\<forall>x \<in> set (take i ?r). vn_id x < vn_id (?r ! i)"
    and gt: "\<forall>x \<in> set (drop (Suc i) ?r). vn_id (?r ! i) < vn_id x"
    and tail: "sorted_wrt (\<lambda>a b. vn_id a < vn_id b) (drop (Suc i) ?r)"
    by (auto simp: sorted_wrt_append)
  have url: "vn_url (?r ! i) = url"
    using nth_mem [OF assms(2)] by (auto simp: version_rows_def)
  have "filter (\<lambda>x. vn_id (?r ! i) < vn_id x) (take i ?r @ ?r ! i # drop (Suc i) ?r) = drop (Suc i) ?r"
    using le gt by (auto simp: filter_empty_conv filter_id_conv not_less less_imp_le)
  then have "filter (\<lambda>x. vn_id (?r ! i) < vn_id x) ?r = drop (Suc i) ?r" using split by simp
  moreover have "sort_key vn_id (drop (Suc i) ?r) = drop (Suc i) ?r"
    using tail strict_sorted_iff [of "map vn_id (drop (Suc i) ?r)"]
    by (intro sort_key_id_if_sorted) (simp add: sorted_wrt_map)
  ultimately show ?thesis by (simp add: next_newer_version_def url)
qed

lemma find_version_nth:
  assumes "version_inv db" "r \<in> set (version_rows db url)"
  shows "find_version db url (vn_commit_id r) = Some r"
  unfolding find_version_def
  by (rule find_distinct [OF version_keys_distinct [OF assms(1)] assms(2)])

text \<open>
  The version list, the lookup by commit and the diff partner agree: the list shows every
  recorded version once, newest first, in pages, with the total, only the first entry of the first
  page being marked as latest; the commit id of the entry at any position finds that very version;
  its diff partner is the entry directly before it, none for the first, which is the latest.
\<close>

theorem version_list_navigation:
  assumes "version_inv db" and "i < length (version_rows db url)"
  shows "let page = list_versions db url offset limit; vs = newest_first db url in
    set vs = set (version_rows db url) \<and> sorted_wrt (\<lambda>a b. vn_id b < vn_id a) vs
    \<and> pg_total page = length vs
    \<and> map vi_commit_id (pg_items page) = map vn_commit_id (take limit (drop offset vs))
    \<and> map vi_is_latest (pg_items page) = map (\<lambda>j. offset + j = 0) [0..<length (pg_items page)]
    \<and> find_version db url (vn_commit_id (vs ! i)) = Some (vs ! i)
    \<and> next_newer_version db (vs ! i) = (if i = 0 then None else Some (vs ! (i - 1)))
    \<and> latest_version db url = Some (vs ! 0)"
proof -
  let ?r = "version_rows db url"
  let ?n = "length ?r"
  have vs: "newest_first db url = rev ?r" by (rule newest_first_rev [OF assms(1)])
  have nth: "rev ?r ! j = ?r ! (?n - Suc j)" if "j < ?n" for j using that by (rule rev_nth)
  have sorted: "sorted_wrt (\<lambda>a b. vn_id b < vn_id a) (rev ?r)"
    using version_rows_sorted [OF assms(1)] by (simp add: sorted_wrt_rev)
  have page: "map vi_commit_id (pg_items (list_versions db url offset limit))
        = map vn_commit_id (take limit (drop offset (rev ?r)))"
      "map vi_is_latest (pg_items (list_versions db url offset limit))
        = map (\<lambda>j. offset + j = 0) [0..<length (pg_items (list_versions db url offset limit))]"
    by (auto simp: list_versions_def vs version_info_def intro!: nth_equalityI simp: nth_enumerate_eq)
  have mem: "?r ! (?n - Suc i) \<in> set ?r" using assms(2) by simp
  have next_newer: "next_newer_version db (?r ! (?n - Suc i)) = (if i = 0 then None else Some (?r ! (?n - i)))"
  proof -
    have "Suc (?n - Suc i) = ?n - i" using assms(2) by simp
    moreover have "drop (?n - i) ?r = (if i = 0 then [] else ?r ! (?n - i) # drop (Suc (?n - i)) ?r)"
      using assms(2) by (simp add: Cons_nth_drop_Suc)
    ultimately show ?thesis
      using next_newer_nth [OF assms(1), of "?n - Suc i" url] assms(2) by (auto simp: head_option_def)
  qed
  have latest: "head_option (rev ?r) = Some (rev ?r ! 0)"
    using assms(2) by (cases "rev ?r") (auto simp: head_option_def)
  have prev: "i \<noteq> 0 \<Longrightarrow> rev ?r ! (i - 1) = ?r ! (?n - i)" using nth [of "i - 1"] assms(2) by simp
  show ?thesis
    unfolding Let_def
    using sorted page find_version_nth [OF assms(1) mem] next_newer latest prev
    by (auto simp: vs nth [OF assms(2)] latest_version_def list_versions_def)
qed

definition sample_versions :: provider_db where
  "sample_versions = fold (insert_version \<lparr>cv_commit_id = ''c2'', cv_timestamp = 2, cv_message = [], cv_documents = []\<rparr>)
     [\<lparr>chd_url = ''u'', chd_blob_id = ''b2'', chd_tracking = tracking_default\<rparr>]
     (insert_version \<lparr>cv_commit_id = ''c1'', cv_timestamp = 1, cv_message = [], cv_documents = []\<rparr>
       \<lparr>chd_url = ''u'', chd_blob_id = ''b1'', chd_tracking = tracking_default\<rparr> db_empty)"

lemma sample_versions_inv: "version_inv sample_versions"
  by (simp add: sample_versions_def insert_version_inv)

theorem version_list_navigation_witness:
  "map_option vn_commit_id (next_newer_version sample_versions (newest_first sample_versions ''u'' ! 1))
     = map_option vn_commit_id (latest_version sample_versions ''u'')
   \<and> latest_version sample_versions ''u'' \<noteq> None"
proof -
  have "1 < length (version_rows sample_versions ''u'')"
    by (simp add: sample_versions_def insert_version_def version_rows_def version_row_of_def)
  from version_list_navigation [OF sample_versions_inv this]
  show ?thesis by (simp add: Let_def)
qed

end
