(* ===== verification/Git_Worktree.thy ===== *)
theory Git_Worktree
  imports Git_History
begin

section \<open>Publishing downloaded files as a commit\<close>

text \<open>
  \<open>server/src/storage/git_repo.rs\<close>: \<open>resolve_branch\<close>, \<open>prepare_worktree\<close>,
  \<open>commit_all_with_progress\<close>, \<open>flush_mempack\<close>, \<open>commit_snapshot_with_progress\<close> and
  \<open>with_head_blob\<close>. A repository is its HEAD, its references in iteration order and its blobs;
  the index maps paths to a mode and a blob id. What libgit2 and zstd do (adding an entry, trees
  from an index and back, hashing, creating commits, the compare-and-swap of a reference,
  decompression) are the fields of \<open>git_lib\<close>; \<open>git_lib_ok\<close> states what the code relies on.
  I/O errors of the disk are not modelled; blobs of a batch written before an error stay in the
  object database unreferenced and are not tracked.
\<close>

type_synonym git_index = "string \<Rightarrow> (nat \<times> oid) option"

type_synonym git_refs = "(string \<times> git_commit) list"

record git_repo =
  rp_head :: "string option"
  rp_refs :: git_refs
  rp_blobs :: "oid \<Rightarrow> string option"

record git_lib =
  gl_add :: "string \<Rightarrow> nat \<times> oid \<Rightarrow> git_index \<Rightarrow> git_index"
  gl_read_tree :: "git_tree \<Rightarrow> git_index"
  gl_write_tree :: "git_index \<Rightarrow> git_tree"
  gl_hash :: "string \<Rightarrow> oid"
  gl_commit :: "git_tree \<Rightarrow> git_commit option \<Rightarrow> string \<Rightarrow> git_commit"
  gl_ref_matching :: "git_refs \<Rightarrow> string \<Rightarrow> git_commit \<Rightarrow> git_commit option \<Rightarrow> git_refs option"
  gl_init :: git_repo
  gl_unzstd :: "string \<Rightarrow> string option"

datatype worktree_error = InvalidHead | BranchChanged string | WorktreeFailed string

record scratch_file =
  sf_path :: string
  sf_mode :: nat
  sf_content :: string

text \<open>
  The prepared worktree with its scratch directory: \<open>wt_index\<close> is the private index on disk,
  \<open>wt_files\<close> the regular files in walk order and \<open>wt_dirs\<close> the directories, without \<open>.git\<close>.
\<close>

record worktree =
  wt_branch :: string
  wt_base :: "git_commit option"
  wt_index :: "git_index option"
  wt_files :: "scratch_file list"
  wt_dirs :: "string list"

subsection \<open>Preparing\<close>

definition init_bare :: "git_lib \<Rightarrow> git_repo option \<Rightarrow> git_repo" where
  "init_bare lib repo = (case repo of Some r \<Rightarrow> r | None \<Rightarrow> gl_init lib)"

definition is_local_branch :: "string \<Rightarrow> bool" where
  "is_local_branch name \<longleftrightarrow> starts_with name ''refs/heads/''"

text \<open>The answer and the repository, whose HEAD a missing branch changes.\<close>

definition resolve_branch :: "git_repo \<Rightarrow> worktree_error + (string \<times> git_commit option) \<times> git_repo" where
  "resolve_branch repo = (case rp_head repo of
     None \<Rightarrow> Inl InvalidHead
   | Some branch \<Rightarrow>
       if \<not> is_local_branch branch then Inl InvalidHead
       else (case map_of (rp_refs repo) branch of
         Some c \<Rightarrow> Inr ((branch, Some c), repo)
       | None \<Rightarrow> (case filter (\<lambda>(n, _). is_local_branch n) (rp_refs repo) of
           (name, c) # _ \<Rightarrow> Inr ((name, Some c), repo\<lparr>rp_head := Some name\<rparr>)
         | [] \<Rightarrow> Inr ((branch, None), repo))))"

definition prepare_worktree :: "git_lib \<Rightarrow> git_repo option \<Rightarrow> worktree_error + worktree \<times> git_repo" where
  "prepare_worktree lib repo = (case resolve_branch (init_bare lib repo) of
     Inl e \<Rightarrow> Inl e
   | Inr ((branch, base), repo') \<Rightarrow> Inr (\<lparr>wt_branch = branch, wt_base = base,
       wt_index = Some (case base of Some c \<Rightarrow> gl_read_tree lib (cm_tree c) | None \<Rightarrow> Map.empty),
       wt_files = [], wt_dirs = []\<rparr>, repo'))"

subsection \<open>Staging\<close>

definition in_scratch :: "worktree \<Rightarrow> string \<Rightarrow> bool" where
  "in_scratch wt p \<longleftrightarrow> p \<in> sf_path ` set (wt_files wt) \<or> p \<in> set (wt_dirs wt)"

text \<open>A downloaded key directory replaces the keys of the index.\<close>

definition drop_keys :: "worktree \<Rightarrow> git_index \<Rightarrow> git_index" where
  "drop_keys wt ix = (if ''metadata/keys'' \<in> set (wt_dirs wt)
     then (\<lambda>p. if starts_with p ''metadata/keys/'' then None else ix p) else ix)"

definition git_index_remove :: "string \<Rightarrow> git_index \<Rightarrow> git_index" where
  "git_index_remove p ix = ix(p := None)"

definition stale_sidecars :: "worktree \<Rightarrow> string \<Rightarrow> string list" where
  "stale_sidecars wt logical = (if is_advisory logical \<and> \<not> in_metadata logical
     then filter (\<lambda>s. \<not> in_scratch wt s)
       (map (\<lambda>suffix. logical @ ''.'' @ suffix) [''asc'', ''sha256'', ''sha512''])
     else [])"

record staging =
  st_index :: git_index
  st_bytes :: nat
  st_objects :: "(oid \<times> string) list"
  st_packs :: "(oid \<times> string) list list"
  st_progress :: "(nat \<times> nat) list"

definition flush_mempack :: "staging \<Rightarrow> staging" where
  "flush_mempack st = (if st_objects st = [] then st
     else st\<lparr>st_packs := st_packs st @ [st_objects st]\<rparr>)"

definition DEFAULT_MODE :: nat where
  "DEFAULT_MODE = 33188"

text \<open>The content of a scratch file and the entry it is staged with, over the index so far.\<close>

definition scratch_content :: "git_lib \<Rightarrow> scratch_file \<Rightarrow> string option" where
  "scratch_content lib f = (if logical_path (sf_path f) \<noteq> sf_path f
     then gl_unzstd lib (sf_content f) else Some (sf_content f))"

definition staged_mode :: "git_index \<Rightarrow> scratch_file \<Rightarrow> nat" where
  "staged_mode ix f = (if logical_path (sf_path f) \<noteq> sf_path f
     then (case ix (logical_path (sf_path f)) of Some (m, _) \<Rightarrow> m | None \<Rightarrow> DEFAULT_MODE)
     else sf_mode f)"

definition stage_file :: "git_lib \<Rightarrow> worktree \<Rightarrow> nat \<Rightarrow> scratch_file \<Rightarrow> staging \<Rightarrow> worktree_error + staging" where
  "stage_file lib wt pack_threshold f st =
     (let logical = logical_path (sf_path f);
          ix = fold git_index_remove (stale_sidecars wt logical) (st_index st) in
      if logical \<noteq> sf_path f \<and> in_scratch wt logical
      then Inl (WorktreeFailed ''Both plain and compressed scratch files exist'')
      else (case scratch_content lib f of
        None \<Rightarrow> Inl (WorktreeFailed ''Failed to decompress scratch advisory'')
      | Some data \<Rightarrow>
          (let st1 = st\<lparr>st_index := gl_add lib logical (staged_mode ix f, gl_hash lib data) ix,
                 st_bytes := st_bytes st + length data,
                 st_objects := st_objects st @ [(gl_hash lib data, data)],
                 st_progress := st_progress st
                   @ [(Suc (length (st_progress st)), length (wt_files wt))]\<rparr> in
           Inr (if pack_threshold \<le> st_bytes st1
                then (flush_mempack st1)\<lparr>st_objects := [], st_bytes := 0\<rparr> else st1))))"

definition stage_all :: "git_lib \<Rightarrow> worktree \<Rightarrow> nat \<Rightarrow> git_index \<Rightarrow> worktree_error + staging" where
  "stage_all lib wt pack_threshold ix =
     map_sum (\<lambda>e. e) flush_mempack (fold_res (stage_file lib wt pack_threshold) (wt_files wt)
       \<lparr>st_index = drop_keys wt ix, st_bytes = 0, st_objects = [], st_packs = [], st_progress = []\<rparr>)"

subsection \<open>Committing\<close>

definition add_blobs :: "(oid \<times> string) list \<Rightarrow> git_repo \<Rightarrow> git_repo" where
  "add_blobs objects repo = repo\<lparr>rp_blobs := fold (\<lambda>(i, data) m. m(i \<mapsto> data)) objects (rp_blobs repo)\<rparr>"

text \<open>
  \<open>interfere\<close> is what other writers do to the repository between the first look at the branch
  and the publication.
\<close>

definition commit_all_with_progress :: "git_lib \<Rightarrow> worktree \<Rightarrow> string \<Rightarrow> nat \<Rightarrow> (git_repo \<Rightarrow> git_repo)
    \<Rightarrow> git_repo \<Rightarrow> git_repo \<times> (worktree_error + bool)" where
  "commit_all_with_progress lib wt message pack_threshold interfere repo = (case wt_index wt of
     None \<Rightarrow> (repo, Inl (WorktreeFailed ''Missing prepared worktree index''))
   | Some ix \<Rightarrow>
       if map_option cm_id (map_of (rp_refs repo) (wt_branch wt)) \<noteq> map_option cm_id (wt_base wt)
       then (repo, Inl (BranchChanged (wt_branch wt)))
       else (case stage_all lib wt pack_threshold ix of
         Inl e \<Rightarrow> (repo, Inl e)
       | Inr st \<Rightarrow>
           (let repo1 = interfere (add_blobs (concat (st_packs st)) repo);
                tree = gl_write_tree lib (st_index st) in
            if map_option (\<lambda>p. tree_id (cm_tree p)) (wt_base wt) = Some (tree_id tree)
            then (repo1, Inr False)
            else (case gl_ref_matching lib (rp_refs repo1) (wt_branch wt)
                (gl_commit lib tree (wt_base wt) message) (wt_base wt) of
              None \<Rightarrow> (repo1, Inl (BranchChanged (wt_branch wt)))
            | Some refs \<Rightarrow> (repo1\<lparr>rp_refs := refs\<rparr>, Inr True)))))"

definition head_commit :: "git_repo \<Rightarrow> git_commit option" where
  "head_commit repo = Option.bind (rp_head repo) (map_of (rp_refs repo))"

definition commit_snapshot_with_progress :: "git_lib \<Rightarrow> worktree \<Rightarrow> string \<Rightarrow> nat \<Rightarrow> (git_repo \<Rightarrow> git_repo)
    \<Rightarrow> git_repo \<Rightarrow> git_repo \<times> (worktree_error + oid)" where
  "commit_snapshot_with_progress lib wt message pack_threshold interfere repo =
     (case commit_all_with_progress lib wt message pack_threshold interfere repo of
        (repo', Inl e) \<Rightarrow> (repo', Inl e)
      | (repo', Inr _) \<Rightarrow> (repo', case head_commit repo' of
          None \<Rightarrow> Inl (WorktreeFailed ''unborn branch'') | Some c \<Rightarrow> Inr (cm_id c)))"

subsection \<open>Reading a committed file\<close>

definition blob_oid_at_path :: "git_tree \<Rightarrow> string \<Rightarrow> oid option" where
  "blob_oid_at_path tree path = map_option (\<lambda>e. fst (identity e)) (get_path tree path)"

definition with_head_blob :: "git_repo \<Rightarrow> string \<Rightarrow> (string \<Rightarrow> 'a) \<Rightarrow> worktree_error + 'a option" where
  "with_head_blob repo tree_path f = (case head_commit repo of
     None \<Rightarrow> Inr None
   | Some c \<Rightarrow> (case blob_oid_at_path (cm_tree c) tree_path of
       None \<Rightarrow> Inr None
     | Some i \<Rightarrow> (case rp_blobs repo i of
         None \<Rightarrow> Inl (WorktreeFailed ''object not found'')
       | Some data \<Rightarrow> Inr (Some (f data)))))"

end
