(* ===== verification/Git_Publish.thy ===== *)
theory Git_Publish
  imports Git_Worktree
begin

section \<open>What publishing a worktree promises\<close>

text \<open>
  The facts about \<open>prepare_worktree\<close> and \<open>commit_all_with_progress\<close>: the new snapshot is the
  base overlaid with the scratch files, a branch that moved is never overwritten, every staged blob
  is written in packs of bounded size, and a committed file reads back as it was downloaded.
\<close>

subsection \<open>What is relied on\<close>

definition path_conflict :: "string \<Rightarrow> string \<Rightarrow> bool" where
  "path_conflict p q \<longleftrightarrow> starts_with p (q @ ''/'') \<or> starts_with q (p @ ''/'')"

text \<open>Adding an entry replaces the entry of its path and those in the way of it.\<close>

definition index_add_ok :: "git_lib \<Rightarrow> bool" where
  "index_add_ok lib \<longleftrightarrow> (\<forall>p e ix q. gl_add lib p e ix q
     = (if q = p then Some e else if path_conflict p q then None else ix q))"

text \<open>The files of an index as a comparison of trees sees them.\<close>

definition index_files :: "git_index \<Rightarrow> string \<Rightarrow> (oid \<times> nat) option" where
  "index_files ix q = map_option (\<lambda>(m, i). (i, m)) (ix q)"

definition tree_of_index :: "git_lib \<Rightarrow> git_index \<Rightarrow> bool" where
  "tree_of_index lib ix \<longleftrightarrow> file_at (Some (gl_write_tree lib ix)) = index_files ix"

definition commits_ok :: "git_lib \<Rightarrow> bool" where
  "commits_ok lib \<longleftrightarrow>
     (\<forall>t p m. cm_tree (gl_commit lib t p m) = t
        \<and> cm_parents (gl_commit lib t p m) = (case p of None \<Rightarrow> [] | Some c \<Rightarrow> [c]))
     \<and> (\<forall>refs b c base. case gl_ref_matching lib refs b c base of
          None \<Rightarrow> map_option cm_id (map_of refs b) \<noteq> map_option cm_id base
        | Some refs' \<Rightarrow> map_option cm_id (map_of refs b) = map_option cm_id base
            \<and> map_of refs' = (map_of refs)(b \<mapsto> c))"

text \<open>The scratch directory of a file system: files are no directories and have their parents.\<close>

definition scratch_ok :: "worktree \<Rightarrow> bool" where
  "scratch_ok wt \<longleftrightarrow> distinct (map sf_path (wt_files wt))
     \<and> (\<forall>f \<in> set (wt_files wt). \<forall>g \<in> set (wt_files wt). \<not> path_conflict (sf_path f) (sf_path g))
     \<and> (\<forall>f \<in> set (wt_files wt). \<forall>d. d \<noteq> [] \<and> starts_with (sf_path f) (d @ ''/'') \<longrightarrow> d \<in> set (wt_dirs wt))"

subsection \<open>Logical paths\<close>

lemma logical_cases:
  obtains "logical_path p = p"
  | "p = logical_path p @ ''.zst''" "ends_with (logical_path p) ''.json''" "logical_path p \<noteq> p"
proof (cases "ends_with p ''.json.zst''")
  case True
  then obtain x where x: "p = compressed_path (x @ ''.json'')"
    by (auto simp: ends_with_iff compressed_path_def)
  have "logical_path p = x @ ''.json''"
    unfolding x by (rule logical_compressed) simp
  then show ?thesis using that(2) by (simp add: x compressed_path_def)
next
  case False
  then show ?thesis using that(1) by (simp add: logical_path_def)
qed

lemma sidecar_not_json: "s \<in> {''asc'', ''sha256'', ''sha512''} \<Longrightarrow> \<not> ends_with (p @ ''.'' @ s) ''.json''"
  using ends_with_last [of "p @ ''.'' @ s" "''.json''"] by auto

definition file_entry :: "git_lib \<Rightarrow> git_index \<Rightarrow> scratch_file \<Rightarrow> (nat \<times> oid) option" where
  "file_entry lib keyed f = map_option (\<lambda>data. (staged_mode keyed f, gl_hash lib data)) (scratch_content lib f)"

text \<open>The abstract result: the files given, laid over an index.\<close>

definition overlay :: "git_lib \<Rightarrow> worktree \<Rightarrow> git_index \<Rightarrow> scratch_file list \<Rightarrow> git_index" where
  "overlay lib wt keyed fs q = (case find (\<lambda>f. logical_path (sf_path f) = q) fs of
     Some f \<Rightarrow> file_entry lib keyed f
   | None \<Rightarrow> if \<exists>f \<in> set fs. q \<in> set (stale_sidecars wt (logical_path (sf_path f)))
         \<or> path_conflict (logical_path (sf_path f)) q then None else keyed q)"

text \<open>What the guard of the loop and the file system give: logical paths do not clash.\<close>

definition logical_ok :: "worktree \<Rightarrow> bool" where
  "logical_ok wt \<longleftrightarrow> distinct (map (\<lambda>f. logical_path (sf_path f)) (wt_files wt))
     \<and> (\<forall>f \<in> set (wt_files wt). \<forall>g \<in> set (wt_files wt).
          \<not> path_conflict (logical_path (sf_path f)) (logical_path (sf_path g)))"

definition guarded :: "worktree \<Rightarrow> scratch_file \<Rightarrow> bool" where
  "guarded wt f \<longleftrightarrow> logical_path (sf_path f) = sf_path f \<or> \<not> in_scratch wt (logical_path (sf_path f))"

lemma stage_file_cases:
  assumes "stage_file lib wt n f st = Inr st'"
  obtains data where "guarded wt f" "scratch_content lib f = Some data"
    "st_index st' = (let ix = fold git_index_remove (stale_sidecars wt (logical_path (sf_path f))) (st_index st)
       in gl_add lib (logical_path (sf_path f)) (staged_mode ix f, gl_hash lib data) ix)"
    "(if n \<le> st_bytes st + length data
      then st_packs st' = st_packs st @ [st_objects st @ [(gl_hash lib data, data)]]
         \<and> st_objects st' = [] \<and> st_bytes st' = 0
      else st_packs st' = st_packs st \<and> st_objects st' = st_objects st @ [(gl_hash lib data, data)]
         \<and> st_bytes st' = st_bytes st + length data)"
    "st_progress st' = st_progress st @ [(Suc (length (st_progress st)), length (wt_files wt))]"
  using assms
  by (auto simp: stage_file_def Let_def guarded_def flush_mempack_def split: if_splits option.splits)

lemma starts_with_trans: "starts_with s (p @ q) \<Longrightarrow> starts_with s p"
  by (auto simp: starts_with_iff)

lemma logical_ok_intro:
  assumes ok: "scratch_ok wt" and g: "\<forall>f \<in> set (wt_files wt). guarded wt f"
  shows "logical_ok wt"
proof -
  let ?L = "\<lambda>f. logical_path (sf_path f)"
  have nc: "\<not> path_conflict (sf_path f) (sf_path g)"
    and dirs: "d \<noteq> [] \<Longrightarrow> starts_with (sf_path f) (d @ ''/'') \<Longrightarrow> d \<in> set (wt_dirs wt)"
    if "f \<in> set (wt_files wt)" "g \<in> set (wt_files wt)" for f g d
    using ok that by (auto simp: scratch_ok_def)
  have gu: "?L f = sf_path f \<or> \<not> in_scratch wt (?L f)" if "f \<in> set (wt_files wt)" for f
    using g that by (simp add: guarded_def)
  have there: "in_scratch wt (sf_path f)" if "f \<in> set (wt_files wt)" for f
    using that by (simp add: in_scratch_def)
  have same: "sf_path f = sf_path g" if h: "f \<in> set (wt_files wt)" "g \<in> set (wt_files wt)" "?L f = ?L g" for f g
    by (rule logical_cases [of "sf_path f"]; rule logical_cases [of "sf_path g"])
      (use h gu there in metis)+
  have below: False if h: "f \<in> set (wt_files wt)" "g \<in> set (wt_files wt)" "starts_with (?L g) (?L f @ ''/'')" for f g
  proof -
    have "starts_with (sf_path g) (?L f @ ''/'')"
      by (rule logical_cases [of "sf_path g"]) (use h(3) in \<open>auto simp: starts_with_iff\<close>)
    then show False
      using nc [OF h(1,2)] dirs [OF h(2,2), of "?L f"] gu [OF h(1)]
      by (cases rule: logical_cases [of "sf_path f"])
        (auto simp: path_conflict_def in_scratch_def ends_with_iff)
  qed
  have "inj_on ?L (set (wt_files wt))"
    using ok same by (auto simp: scratch_ok_def inj_on_def distinct_map)
  moreover have "distinct (wt_files wt)" using ok by (auto simp: scratch_ok_def distinct_map)
  ultimately show ?thesis
    using below unfolding logical_ok_def path_conflict_def by (auto simp: distinct_map)
qed

lemma fold_index_remove: "fold git_index_remove ps ix q = (if q \<in> set ps then None else ix q)"
  by (induction ps arbitrary: ix) (auto simp: git_index_remove_def)

lemma stale_not_json: "q \<in> set (stale_sidecars wt l) \<Longrightarrow> \<not> ends_with q ''.json'' \<and> \<not> in_scratch wt q"
  using sidecar_not_json [of "''asc''" l] sidecar_not_json [of "''sha256''" l] sidecar_not_json [of "''sha512''" l]
  by (auto simp: stale_sidecars_def split: if_splits)

lemma logical_not_stale:
  assumes "f \<in> set (wt_files wt)" "guarded wt f"
  shows "logical_path (sf_path f) \<notin> set (stale_sidecars wt l)"
proof
  assume "logical_path (sf_path f) \<in> set (stale_sidecars wt l)"
  from stale_not_json [OF this] show False
    using assms(1) by (cases rule: logical_cases [of "sf_path f"]) (auto simp: in_scratch_def)
qed

subsection \<open>Staging all files\<close>

definition blob_of :: "git_lib \<Rightarrow> scratch_file \<Rightarrow> oid \<times> string" where
  "blob_of lib f = (case scratch_content lib f of Some data \<Rightarrow> (gl_hash lib data, data) | None \<Rightarrow> ([], []))"

definition pack_size :: "(oid \<times> string) list \<Rightarrow> nat" where
  "pack_size pack = sum_list (map (\<lambda>(_, data). length data) pack)"

text \<open>A pack has at most \<open>n\<close> bytes before its last blob.\<close>

definition pack_bounded :: "nat \<Rightarrow> (oid \<times> string) list \<Rightarrow> bool" where
  "pack_bounded n pack \<longleftrightarrow> pack \<noteq> [] \<and> pack_size (butlast pack) \<le> n"

definition staged_state :: "git_lib \<Rightarrow> worktree \<Rightarrow> nat \<Rightarrow> scratch_file list \<Rightarrow> staging \<Rightarrow> bool" where
  "staged_state lib wt n fs st \<longleftrightarrow>
     concat (st_packs st) @ st_objects st = map (blob_of lib) fs
     \<and> st_bytes st = pack_size (st_objects st) \<and> (st_objects st = [] \<or> st_bytes st < n)
     \<and> (\<forall>pack \<in> set (st_packs st). pack_bounded n pack)
     \<and> st_progress st = map (\<lambda>i. (Suc i, length (wt_files wt))) [0..<length fs]
     \<and> (\<forall>f \<in> set fs. guarded wt f \<and> scratch_content lib f \<noteq> None)"

lemma pack_size_simps [simp]:
  "pack_size [] = 0" "pack_size (xs @ ys) = pack_size xs + pack_size ys" "pack_size [(i, d)] = length d"
  by (simp_all add: pack_size_def)

lemma staged_step:
  assumes "staged_state lib wt n fs st" "stage_file lib wt n f st = Inr st'"
  shows "staged_state lib wt n (fs @ [f]) st'"
  using assms(2)
proof (cases rule: stage_file_cases)
  case (1 data)
  have st: "concat (st_packs st) @ st_objects st = map (blob_of lib) fs"
    "st_bytes st = pack_size (st_objects st)" "st_objects st = [] \<or> st_bytes st < n"
    "\<forall>pack \<in> set (st_packs st). pack_bounded n pack"
    "st_progress st = map (\<lambda>i. (Suc i, length (wt_files wt))) [0..<length fs]"
    "\<forall>f \<in> set fs. guarded wt f \<and> scratch_content lib f \<noteq> None"
    using assms(1) unfolding staged_state_def by blast+
  have b: "blob_of lib f = (gl_hash lib data, data)" using 1(2) by (simp add: blob_of_def)
  have "concat (st_packs st') @ st_objects st' = map (blob_of lib) (fs @ [f])"
    using st(1) 1(4) b by (auto split: if_splits)
  moreover have "st_bytes st' = pack_size (st_objects st')" "st_objects st' = [] \<or> st_bytes st' < n"
    using st(2) 1(4) by (auto split: if_splits)
  moreover have "pack_bounded n (st_objects st @ [(gl_hash lib data, data)])"
    using st(2,3) by (auto simp: pack_bounded_def)
  then have "\<forall>pack \<in> set (st_packs st'). pack_bounded n pack"
    using st(4) 1(4) by (auto split: if_splits)
  moreover have "st_progress st' = map (\<lambda>i. (Suc i, length (wt_files wt))) [0..<length (fs @ [f])]"
    using st(5) 1(5) by simp
  ultimately show ?thesis using st(6) 1(1,2) by (simp add: staged_state_def)
qed

lemma overlay_step:
  assumes lib: "index_add_ok lib" and ok: "logical_ok wt" and files: "wt_files wt = fs @ f # gs"
    and g: "\<forall>f \<in> set (wt_files wt). guarded wt f"
    and ix: "st_index st = overlay lib wt keyed fs" and step: "stage_file lib wt n f st = Inr st'"
  shows "st_index st' = overlay lib wt keyed (fs @ [f])"
proof
  fix q
  let ?L = "\<lambda>f. logical_path (sf_path f)"
  let ?ix = "fold git_index_remove (stale_sidecars wt (?L f)) (st_index st)"
  from step obtain data where data: "scratch_content lib f = Some data"
    and st': "st_index st' = gl_add lib (?L f) (staged_mode ?ix f, gl_hash lib data) ?ix"
    by (cases rule: stage_file_cases) (auto simp: Let_def)
  have mem: "f \<in> set (wt_files wt)" "\<And>g. g \<in> set fs \<Longrightarrow> g \<in> set (wt_files wt)" using files by auto
  have "?L f \<notin> ?L ` set fs" using ok by (auto simp: logical_ok_def files)
  then have fresh: "?L g \<noteq> ?L f \<and> \<not> path_conflict (?L g) (?L f)" if "g \<in> set fs" for g
    using ok that mem(1) mem(2) [OF that] by (metis imageI logical_ok_def)
  have nc: "\<not> path_conflict (?L f) (?L f)" using ok mem(1) by (simp add: logical_ok_def)
  have nostale: "?L g \<notin> set (stale_sidecars wt l)" if "g \<in> set (wt_files wt)" for g l
    using logical_not_stale [OF that] g that by blast
  have none: "find (\<lambda>g. ?L g = ?L f) fs = None" using fresh by (simp add: find_None)
  have own: "?ix (?L f) = keyed (?L f)"
    using fresh nostale [OF mem(1)] by (auto simp: fold_index_remove ix overlay_def none)
  have mode: "staged_mode ?ix f = staged_mode keyed f" by (simp add: staged_mode_def own)
  consider "q = ?L f" | g where "q \<noteq> ?L f" "find (\<lambda>f. ?L f = q) fs = Some g" "g \<in> set fs" "?L g = q"
    | "q \<noteq> ?L f" "find (\<lambda>f. ?L f = q) fs = None"
  proof -
    assume a: "q = ?L f \<Longrightarrow> thesis" and c: "q \<noteq> ?L f \<Longrightarrow> find (\<lambda>f. ?L f = q) fs = None \<Longrightarrow> thesis"
      and b: "\<And>g. q \<noteq> ?L f \<Longrightarrow> find (\<lambda>f. ?L f = q) fs = Some g \<Longrightarrow> g \<in> set fs \<Longrightarrow> ?L g = q \<Longrightarrow> thesis"
    show thesis
    proof (cases "find (\<lambda>f. ?L f = q) fs")
      case (Some g)
      then have "g \<in> set fs" "?L g = q" by (auto simp: find_Some_iff)
      then show thesis using a b Some by blast
    qed (use a c in blast)
  qed
  then show "st_index st' q = overlay lib wt keyed (fs @ [f]) q"
  proof cases
    case 1
    then show ?thesis
      using lib by (simp add: st' index_add_ok_def overlay_def find_append none file_entry_def data mode)
  next
    case (2 g)
    then have "\<not> path_conflict (?L f) q" "q \<notin> set (stale_sidecars wt (?L f))"
      using fresh nostale [OF mem(2)] by (auto simp: path_conflict_def)
    then show ?thesis
      using lib 2(1,2)
      by (simp add: st' index_add_ok_def fold_index_remove ix overlay_def find_append)
  next
    case 3
    then show ?thesis
      using lib by (auto simp: st' index_add_ok_def fold_index_remove ix overlay_def find_append)
  qed
qed

lemma stage_all_cases:
  assumes "stage_all lib wt n ix = Inr st"
  obtains st0 where "fold_res (stage_file lib wt n) (wt_files wt)
      \<lparr>st_index = drop_keys wt ix, st_bytes = 0, st_objects = [], st_packs = [], st_progress = []\<rparr> = Inr st0"
    "st = flush_mempack st0" "staged_state lib wt n (wt_files wt) st0"
proof -
  obtain st0 where st0: "fold_res (stage_file lib wt n) (wt_files wt)
      \<lparr>st_index = drop_keys wt ix, st_bytes = 0, st_objects = [], st_packs = [], st_progress = []\<rparr> = Inr st0"
    "st = flush_mempack st0"
    using assms unfolding stage_all_def by (auto split: sum.splits simp: map_sum_def)
  have "staged_state lib wt n (wt_files wt) st0"
  proof (rule fold_res_prefix [OF st0(1), of "staged_state lib wt n"])
    show "staged_state lib wt n []
        \<lparr>st_index = drop_keys wt ix, st_bytes = 0, st_objects = [], st_packs = [], st_progress = []\<rparr>"
      by (simp add: staged_state_def)
  qed (rule staged_step)
  then show ?thesis using that st0 by blast
qed

lemma stage_all_index:
  assumes lib: "index_add_ok lib" and ok: "scratch_ok wt" and run: "stage_all lib wt n ix = Inr st"
  shows "st_index st = overlay lib wt (drop_keys wt ix) (wt_files wt)"
proof -
  obtain st0 where st0: "fold_res (stage_file lib wt n) (wt_files wt)
      \<lparr>st_index = drop_keys wt ix, st_bytes = 0, st_objects = [], st_packs = [], st_progress = []\<rparr> = Inr st0"
    "st = flush_mempack st0" "staged_state lib wt n (wt_files wt) st0"
    using stage_all_cases [OF run] .
  have g: "\<forall>f \<in> set (wt_files wt). guarded wt f" using st0(3) by (simp add: staged_state_def)
  have "st_index st0 = overlay lib wt (drop_keys wt ix) (wt_files wt)"
  proof (rule fold_res_prefix [OF st0(1), of "\<lambda>fs st. st_index st = overlay lib wt (drop_keys wt ix) fs"])
    show "st_index \<lparr>st_index = drop_keys wt ix, st_bytes = 0, st_objects = [], st_packs = [], st_progress = []\<rparr>
        = overlay lib wt (drop_keys wt ix) []"
      by (simp add: overlay_def fun_eq_iff)
  qed (rule overlay_step [OF lib logical_ok_intro [OF ok g] _ g])
  then show ?thesis by (simp add: st0(2) flush_mempack_def)
qed

lemma stage_all_packs:
  assumes "stage_all lib wt n ix = Inr st"
  shows "concat (st_packs st) = map (blob_of lib) (wt_files wt)
    \<and> (\<forall>pack \<in> set (st_packs st). pack_bounded n pack)
    \<and> st_progress st = map (\<lambda>i. (Suc i, length (wt_files wt))) [0..<length (wt_files wt)]"
proof -
  obtain st0 where st0: "st = flush_mempack st0" "staged_state lib wt n (wt_files wt) st0"
    using stage_all_cases [OF assms] by blast
  have "pack_bounded n (st_objects st0)" if "st_objects st0 \<noteq> []"
  proof -
    have "pack_size (st_objects st0) < n" using st0(2) that by (auto simp: staged_state_def)
    moreover have "pack_size (butlast (st_objects st0)) \<le> pack_size (st_objects st0)"
      by (metis append_butlast_last_id le_add1 pack_size_simps(2) that)
    ultimately show ?thesis using that by (simp add: pack_bounded_def)
  qed
  then show ?thesis using st0 by (auto simp: staged_state_def flush_mempack_def)
qed

text \<open>
  C24. Staging writes every downloaded file to the object database exactly once and in bounded
  memory: when it succeeds, the packs written are, in order, the blobs of all files, no pack is
  empty or holds more than the threshold before its last blob, and the progress counts every file
  up to the announced total.
\<close>

theorem packs_complete_bounded:
  assumes "stage_all lib wt n ix = Inr st"
  shows "concat (st_packs st) = map (blob_of lib) (wt_files wt)
    \<and> (\<forall>pack \<in> set (st_packs st). pack_bounded n pack)
    \<and> st_progress st = map (\<lambda>i. (Suc i, length (wt_files wt))) [0..<length (wt_files wt)]"
  by (rule stage_all_packs [OF assms])

subsection \<open>Publishing\<close>

lemma publish_cases:
  assumes "index_add_ok lib" and "commits_ok lib" and "scratch_ok wt" and "wt_index wt = Some ix"
    and "tree_of_index lib (overlay lib wt (drop_keys wt ix) (wt_files wt))"
    and "commit_all_with_progress lib wt message n interfere repo = (repo', r)"
    and "interfered = interfere (add_blobs (map (blob_of lib) (wt_files wt)) repo)"
  shows "case r of
      Inr True \<Rightarrow> map_option cm_id (map_of (rp_refs interfered) (wt_branch wt)) = map_option cm_id (wt_base wt)
        \<and> repo' = interfered\<lparr>rp_refs := rp_refs repo'\<rparr>
        \<and> (\<exists>c. map_of (rp_refs repo') = (map_of (rp_refs interfered))(wt_branch wt \<mapsto> c)
             \<and> cm_parents c = (case wt_base wt of None \<Rightarrow> [] | Some p \<Rightarrow> [p])
             \<and> file_at (Some (cm_tree c)) = index_files (overlay lib wt (drop_keys wt ix) (wt_files wt)))
    | Inr False \<Rightarrow> repo' = interfered
        \<and> map_option (\<lambda>p. tree_id (cm_tree p)) (wt_base wt)
            = Some (tree_id (gl_write_tree lib (overlay lib wt (drop_keys wt ix) (wt_files wt))))
    | Inl (BranchChanged b) \<Rightarrow> b = wt_branch wt \<and> (\<exists>repo0 \<in> {repo, interfered}. repo' = repo0
        \<and> map_option cm_id (map_of (rp_refs repo0) b) \<noteq> map_option cm_id (wt_base wt))
    | Inl _ \<Rightarrow> repo' = repo"
proof (cases "map_option cm_id (map_of (rp_refs repo) (wt_branch wt)) = map_option cm_id (wt_base wt)")
  case False
  then show ?thesis using assms(4,6) by (auto simp: commit_all_with_progress_def)
next
  case same: True
  show ?thesis
  proof (cases "stage_all lib wt n ix")
    case (Inl e)
    have "\<exists>m. e = WorktreeFailed m"
    proof -
      have "fold_res (stage_file lib wt n) fs st = Inl e \<Longrightarrow> \<exists>m. e = WorktreeFailed m" for fs st
        by (induction fs arbitrary: st)
          (auto simp: stage_file_def Let_def split: if_splits option.splits)
      then show ?thesis using Inl by (auto simp: stage_all_def map_sum_def split: sum.splits)
    qed
    then show ?thesis using assms(4,6) same Inl by (auto simp: commit_all_with_progress_def)
  next
    case (Inr st)
    have packs: "concat (st_packs st) = map (blob_of lib) (wt_files wt)"
      using stage_all_packs [OF Inr] by simp
    note index = stage_all_index [OF assms(1,3) Inr]
    let ?c = "gl_commit lib (gl_write_tree lib (st_index st)) (wt_base wt) message"
    have c: "cm_tree ?c = gl_write_tree lib (overlay lib wt (drop_keys wt ix) (wt_files wt))"
      "cm_parents ?c = (case wt_base wt of None \<Rightarrow> [] | Some p \<Rightarrow> [p])"
      using assms(2) by (simp_all add: commits_ok_def index)
    have refs: "case gl_ref_matching lib (rp_refs interfered) (wt_branch wt) ?c (wt_base wt) of
          None \<Rightarrow> map_option cm_id (map_of (rp_refs interfered) (wt_branch wt)) \<noteq> map_option cm_id (wt_base wt)
        | Some refs' \<Rightarrow> map_option cm_id (map_of (rp_refs interfered) (wt_branch wt)) = map_option cm_id (wt_base wt)
            \<and> map_of refs' = (map_of (rp_refs interfered))(wt_branch wt \<mapsto> ?c)"
      using assms(2) unfolding commits_ok_def by blast
    have files: "file_at (Some (cm_tree ?c)) = index_files (overlay lib wt (drop_keys wt ix) (wt_files wt))"
      using assms(5) by (simp only: tree_of_index_def c(1))
    have run: "(repo', r) = (if map_option (\<lambda>p. tree_id (cm_tree p)) (wt_base wt)
          = Some (tree_id (gl_write_tree lib (st_index st)))
        then (interfered, Inr False)
        else (case gl_ref_matching lib (rp_refs interfered) (wt_branch wt) ?c (wt_base wt) of
            None \<Rightarrow> (interfered, Inl (BranchChanged (wt_branch wt)))
          | Some refs \<Rightarrow> (interfered\<lparr>rp_refs := refs\<rparr>, Inr True)))"
      unfolding assms(6) [symmetric] commit_all_with_progress_def assms(4) option.case Inr sum.case
        packs assms(7) [symmetric] Let_def
      by (simp only: same simp_thms if_False)
    show ?thesis
    proof (cases "gl_ref_matching lib (rp_refs interfered) (wt_branch wt) ?c (wt_base wt)")
      case None
      then show ?thesis using run refs by (simp add: index split: if_splits)
    next
      case (Some refs')
      then have m: "map_option cm_id (map_of (rp_refs interfered) (wt_branch wt)) = map_option cm_id (wt_base wt)"
        "map_of refs' = (map_of (rp_refs interfered))(wt_branch wt \<mapsto> ?c)"
        using refs by simp_all
      show ?thesis
      proof (cases r)
        case (Inl e)
        then show ?thesis using run Some by (simp split: if_splits)
      next
        case (Inr b)
        show ?thesis
        proof (cases b)
          case True
          then have "rp_refs repo' = refs'" "repo' = interfered\<lparr>rp_refs := rp_refs repo'\<rparr>"
            using run Some Inr by (simp_all split: if_splits)
          moreover have "b = True" using True by simp
          ultimately show ?thesis
            using m c(2) files unfolding Inr by (simp only: sum.case bool.case) blast
        next
          case False
          then show ?thesis using run Some Inr by (simp add: index split: if_splits)
        qed
      qed
    qed
  qed
qed

text \<open>
  C7. Publishing implements the abstract update of a snapshot. When the run reports a new commit,
  the branch, and no other reference, points to it, its only parent is the base, and its files are
  those of the base index laid over by the scratch files: a key directory replaces all keys, a
  downloaded advisory loses the sidecars that were not downloaded with it, all other files keep
  their content. When the branch was moved by another writer, before staging or before publishing,
  the run fails and no reference changes. When nothing changed or the run fails, no reference
  changes either.
\<close>

theorem commit_publishes_overlay:
  assumes "index_add_ok lib" and "commits_ok lib" and "scratch_ok wt" and "wt_index wt = Some ix"
    and "tree_of_index lib (overlay lib wt (drop_keys wt ix) (wt_files wt))"
    and "commit_all_with_progress lib wt message n interfere repo = (repo', r)"
    and "interfered = interfere (add_blobs (map (blob_of lib) (wt_files wt)) repo)"
  shows "case r of
      Inr True \<Rightarrow> map_option cm_id (map_of (rp_refs interfered) (wt_branch wt)) = map_option cm_id (wt_base wt)
        \<and> repo' = interfered\<lparr>rp_refs := rp_refs repo'\<rparr>
        \<and> (\<exists>c. map_of (rp_refs repo') = (map_of (rp_refs interfered))(wt_branch wt \<mapsto> c)
             \<and> cm_parents c = (case wt_base wt of None \<Rightarrow> [] | Some p \<Rightarrow> [p])
             \<and> file_at (Some (cm_tree c)) = index_files (overlay lib wt (drop_keys wt ix) (wt_files wt)))
    | Inr False \<Rightarrow> repo' = interfered
        \<and> map_option (\<lambda>p. tree_id (cm_tree p)) (wt_base wt)
            = Some (tree_id (gl_write_tree lib (overlay lib wt (drop_keys wt ix) (wt_files wt))))
    | Inl (BranchChanged b) \<Rightarrow> b = wt_branch wt \<and> (\<exists>repo0 \<in> {repo, interfered}. repo' = repo0
        \<and> map_option cm_id (map_of (rp_refs repo0) b) \<noteq> map_option cm_id (wt_base wt))
    | Inl _ \<Rightarrow> repo' = repo"
  by (rule publish_cases [OF assms])

subsection \<open>A concrete library\<close>

definition sample_tree :: git_tree where
  "sample_tree = GTree ''t1'' [(''a.json'', EBlob 33188 ''{}'')]"

definition sample_lib :: git_lib where
  "sample_lib = \<lparr>gl_add = \<lambda>p e ix q. if q = p then Some e else if path_conflict p q then None else ix q,
     gl_read_tree = \<lambda>t q. map_option (\<lambda>(i, m). (m, i)) (file_at (Some t) q),
     gl_write_tree = \<lambda>_. sample_tree, gl_hash = id,
     gl_commit = \<lambda>t p m. GCommit ''c'' t 0 (Some m) (case p of None \<Rightarrow> [] | Some c \<Rightarrow> [c]),
     gl_ref_matching = \<lambda>refs b c base. if map_option cm_id (map_of refs b) = map_option cm_id base
       then Some ((b, c) # refs) else None,
     gl_init = \<lparr>rp_head = Some ''refs/heads/main'', rp_refs = [], rp_blobs = Map.empty\<rparr>,
     gl_unzstd = Some\<rparr>"

definition sample_worktree :: worktree where
  "sample_worktree = \<lparr>wt_branch = ''refs/heads/main'', wt_base = None, wt_index = Some Map.empty,
     wt_files = [\<lparr>sf_path = ''a.json'', sf_mode = 33188, sf_content = ''{}''\<rparr>], wt_dirs = []\<rparr>"

lemma sample_lib_ok: "index_add_ok sample_lib" "commits_ok sample_lib"
  by (auto simp: index_add_ok_def commits_ok_def sample_lib_def)

lemma walk_path_None [simp]: "walk_path None ps = None"
  by (induction "None :: git_tree option" ps rule: walk_path.induct)
    (simp_all add: get_name_def entries_of_def subtree_def)

lemma split_on_single: "split_on c s = [x] \<Longrightarrow> s = x"
  using join_split_on [of c s] by (simp add: join_on_def)

lemma sample_tree_files: "file_at (Some sample_tree) q = (if q = ''a.json'' then Some (''{}'', 33188) else None)"
proof (cases "split_on (CHR ''/'') q")
  case Nil
  then show ?thesis by simp
next
  case (Cons n ns)
  show ?thesis
  proof (cases ns)
    case Nil
    then have "q = n" using Cons split_on_single [of "CHR ''/''" q n] by simp
    then show ?thesis
      using Cons Nil by (simp add: file_at_def as_file_def get_name_def entries_of_def sample_tree_def is_tree_def)
  next
    case (Cons m ms)
    have "split_on (CHR ''/'') ''a.json'' = [''a.json'']" by simp
    then have "q \<noteq> ''a.json''" using \<open>split_on (CHR ''/'') q = n # ns\<close> Cons by auto
    then show ?thesis
      using \<open>split_on (CHR ''/'') q = n # ns\<close> Cons
      by (simp add: file_at_def as_file_def subtree_def get_name_def entries_of_def sample_tree_def)
  qed
qed

lemma sample_scratch_ok: "scratch_ok sample_worktree"
proof -
  have no: "\<not> starts_with ''a.json'' (d @ ''/'')" for d :: string
  proof
    assume "starts_with ''a.json'' (d @ ''/'')"
    then obtain r where "''a.json'' = d @ ''/'' @ r" by (auto simp: starts_with_iff)
    then have "CHR ''/'' \<in> set ''a.json''" by (metis in_set_conv_decomp append.assoc append_Cons append_Nil)
    then show False by simp
  qed
  then show ?thesis
    using no [of "''a.json''"] by (simp add: scratch_ok_def sample_worktree_def path_conflict_def)
qed

lemma sample_logical: "logical_path ''a.json'' = ''a.json''"
  by (simp add: logical_path_def ends_with_def starts_with_def)

lemma sample_overlay:
  "overlay sample_lib sample_worktree (drop_keys sample_worktree Map.empty) (wt_files sample_worktree)
    = (\<lambda>q. if q = ''a.json'' then Some (33188, ''{}'') else None)"
  by (simp add: fun_eq_iff overlay_def sample_worktree_def file_entry_def scratch_content_def sample_logical
      staged_mode_def sample_lib_def drop_keys_def)

lemma sample_tree_of_index: "tree_of_index sample_lib
    (overlay sample_lib sample_worktree (drop_keys sample_worktree Map.empty) (wt_files sample_worktree))"
  unfolding sample_overlay
  by (simp add: tree_of_index_def fun_eq_iff index_files_def sample_lib_def sample_tree_files)

theorem commit_publishes_overlay_witness:
  "\<exists>repo'. commit_all_with_progress sample_lib sample_worktree ''sync'' 10 id (gl_init sample_lib)
       = (repo', Inr True)
     \<and> (\<exists>c. map_of (rp_refs repo') ''refs/heads/main'' = Some c
          \<and> file_at (Some (cm_tree c)) ''a.json'' = Some (''{}'', 33188))"
proof -
  have ix: "wt_index sample_worktree = Some Map.empty" by (simp add: sample_worktree_def)
  obtain repo' where r: "commit_all_with_progress sample_lib sample_worktree ''sync'' 10 id (gl_init sample_lib)
       = (repo', Inr True)"
    by (simp add: commit_all_with_progress_def sample_worktree_def stage_all_def stage_file_def sample_logical
        scratch_content_def Let_def sample_lib_def flush_mempack_def add_blobs_def)
  have "wt_branch sample_worktree = ''refs/heads/main''" by (simp add: sample_worktree_def)
  with commit_publishes_overlay [OF sample_lib_ok sample_scratch_ok ix sample_tree_of_index r refl]
  have "\<exists>c. map_of (rp_refs repo') ''refs/heads/main'' = Some c
      \<and> file_at (Some (cm_tree c)) = index_files (\<lambda>q. if q = ''a.json'' then Some (33188, ''{}'') else None)"
    unfolding sample_overlay by (auto simp only: sum.case bool.case fun_upd_same)
  with r show ?thesis by (auto simp: index_files_def)
qed

theorem packs_complete_bounded_witness:
  "\<exists>st. stage_all sample_lib sample_worktree 10 Map.empty = Inr st
     \<and> concat (st_packs st) = [(''{}'', ''{}'')]"
proof -
  obtain st where "stage_all sample_lib sample_worktree 10 Map.empty = Inr st"
    by (simp add: stage_all_def stage_file_def sample_logical scratch_content_def Let_def
        sample_lib_def sample_worktree_def flush_mempack_def)
  with packs_complete_bounded [OF this] show ?thesis
    by (simp add: sample_worktree_def blob_of_def scratch_content_def sample_logical sample_lib_def)
qed

end
