(* ===== verification/Git_Readback.thy ===== *)
theory Git_Readback
  imports Git_Publish
begin

section \<open>From a download to a committed file and back\<close>

text \<open>
  The composition of \<open>prepare_worktree\<close>, \<open>commit_snapshot_with_progress\<close> and
  \<open>with_head_blob\<close> of \<open>server/src/storage/git_repo.rs\<close>: what was placed in the scratch directory
  is what a reader of the branch's head gets, also when the run finds nothing to commit.
\<close>

lemma resolve_branch_facts:
  assumes "resolve_branch repo = Inr ((b, base), repo')"
  shows "rp_head repo' = Some b \<and> map_of (rp_refs repo') b = base \<and> is_local_branch b
    \<and> rp_refs repo' = rp_refs repo \<and> rp_blobs repo' = rp_blobs repo"
proof (cases "rp_head repo")
  case (Some h)
  have local: "is_local_branch h" using assms Some by (auto simp: resolve_branch_def split: if_splits)
  show ?thesis
  proof (cases "map_of (rp_refs repo) h")
    case m: None
    show ?thesis
    proof (cases "filter (\<lambda>(n, _). is_local_branch n) (rp_refs repo)")
      case Nil
      then show ?thesis using assms Some local m by (auto simp: resolve_branch_def)
    next
      case (Cons e es)
      obtain n c where e: "e = (n, c)" by force
      have first: "filter (\<lambda>(n, _). is_local_branch n) refs = (n, c) # es \<Longrightarrow>
          is_local_branch n \<and> map_of refs n = Some c" for refs :: git_refs
        by (induction refs) (auto split: if_splits)
      show ?thesis using assms Some local m Cons first [of "rp_refs repo"] e by (auto simp: resolve_branch_def)
    qed
  qed (use assms Some local in \<open>auto simp: resolve_branch_def\<close>)
qed (use assms in \<open>simp add: resolve_branch_def\<close>)

lemma prepare_facts:
  assumes "prepare_worktree lib repo0 = Inr (wt, repo)"
  shows "rp_head repo = Some (wt_branch wt) \<and> map_of (rp_refs repo) (wt_branch wt) = wt_base wt
    \<and> wt_index wt = Some (case wt_base wt of Some c \<Rightarrow> gl_read_tree lib (cm_tree c) | None \<Rightarrow> Map.empty)"
proof -
  obtain b base where r: "resolve_branch (init_bare lib repo0) = Inr ((b, base), repo)"
    and wt: "wt_branch wt = b" "wt_base wt = base"
      "wt_index wt = Some (case base of Some c \<Rightarrow> gl_read_tree lib (cm_tree c) | None \<Rightarrow> Map.empty)"
    using assms by (auto simp: prepare_worktree_def split: sum.splits)
  have f: "rp_head repo = Some b" "map_of (rp_refs repo) b = base"
    using resolve_branch_facts [OF r] by blast+
  show ?thesis unfolding wt f by (intro conjI refl)
qed

lemma fold_blobs_other:
  "(\<And>j d. (j, d) \<in> set objects \<Longrightarrow> j = i \<Longrightarrow> d = data) \<Longrightarrow> m i = Some data \<Longrightarrow>
    fold (\<lambda>(j, d) m. m(j \<mapsto> d)) objects m i = Some data"
  by (induction objects arbitrary: m) auto

lemma fold_blobs:
  "(i, data) \<in> set objects \<Longrightarrow> (\<And>j d. (j, d) \<in> set objects \<Longrightarrow> j = i \<Longrightarrow> d = data) \<Longrightarrow>
    fold (\<lambda>(j, d) m. m(j \<mapsto> d)) objects m i = Some data"
proof (induction objects arbitrary: m)
  case (Cons e es)
  obtain j d where e: "e = (j, d)" by force
  have same: "d' = data" if "(j', d') \<in> set es" "j' = i" for j' d'
    by (rule Cons.prems(2) [OF _ that(2)]) (use that(1) in simp)
  show ?case
  proof (cases "(i, data) \<in> set es")
    case True
    show ?thesis unfolding fold_Cons comp_apply by (rule Cons.IH [OF True same])
  next
    case False
    then have "j = i \<and> d = data" using Cons.prems(1) e by simp
    moreover have "fold (\<lambda>(j, d) m. m(j \<mapsto> d)) es (m(i \<mapsto> data)) i = Some data"
      by (rule fold_blobs_other) (use same in \<open>blast, simp\<close>)
    ultimately show ?thesis by (simp only: e fold_Cons comp_apply prod.case)
  qed
qed simp

lemma blob_at_file:
  "file_at (Some t) p = Some (i, m) \<Longrightarrow> blob_oid_at_path t p = Some i"
  by (auto simp: file_at_def as_file_def blob_oid_at_path_def get_path_def split: option.splits if_splits)

lemma object_store_ids: "object_store U \<Longrightarrow> s \<in> U \<Longrightarrow> t \<in> U \<Longrightarrow> tree_id s = tree_id t \<Longrightarrow> s = t"
  by (auto simp: object_store_def dest: inj_onD)

lemma overlay_file:
  assumes "logical_ok wt" "f \<in> set (wt_files wt)" "scratch_content lib f = Some data"
  shows "overlay lib wt keyed (wt_files wt) (logical_path (sf_path f))
    = Some (staged_mode keyed f, gl_hash lib data)"
  using find_distinct [of "\<lambda>f. logical_path (sf_path f)" "wt_files wt" f] assms
  by (simp add: overlay_def logical_ok_def file_entry_def)

text \<open>After a commit, or a run with nothing to commit, the head has exactly the files of the overlay.\<close>

lemma head_is_overlay:
  assumes lib: "index_add_ok lib" "commits_ok lib" and ok: "scratch_ok wt"
    and head: "rp_head repo = Some (wt_branch wt)" "map_of (rp_refs repo) (wt_branch wt) = wt_base wt"
    and ix: "wt_index wt = Some ix"
    and tree: "tree_of_index lib (overlay lib wt (drop_keys wt ix) (wt_files wt))"
    and U: "object_store U" "gl_write_tree lib (overlay lib wt (drop_keys wt ix) (wt_files wt)) \<in> U"
      "cm_tree ` set_option (wt_base wt) \<subseteq> U"
    and run: "commit_all_with_progress lib wt message n id repo = (repo', Inr b)"
  shows "\<exists>c. head_commit repo' = Some c
    \<and> file_at (Some (cm_tree c)) = index_files (overlay lib wt (drop_keys wt ix) (wt_files wt))
    \<and> rp_blobs repo' = rp_blobs (add_blobs (map (blob_of lib) (wt_files wt)) repo)"
proof -
  let ?over = "overlay lib wt (drop_keys wt ix) (wt_files wt)"
  let ?repo1 = "add_blobs (map (blob_of lib) (wt_files wt)) repo"
  have r1: "rp_head ?repo1 = rp_head repo" "rp_refs ?repo1 = rp_refs repo" by (simp_all add: add_blobs_def)
  note cases = publish_cases [OF lib ok ix tree run, of "?repo1"]
  show ?thesis
  proof (cases b)
    case True
    then have p: "repo' = ?repo1\<lparr>rp_refs := rp_refs repo'\<rparr>"
      "\<exists>c. map_of (rp_refs repo') = (map_of (rp_refs ?repo1))(wt_branch wt \<mapsto> c)
        \<and> file_at (Some (cm_tree c)) = index_files ?over"
      using cases by (simp_all only: id_apply sum.case bool.case) blast+
    have "rp_head repo' = Some (wt_branch wt)" "rp_blobs repo' = rp_blobs ?repo1"
      using arg_cong [OF p(1), of rp_head] arg_cong [OF p(1), of rp_blobs] by (simp_all add: r1 head)
    moreover obtain c where "map_of (rp_refs repo') (wt_branch wt) = Some c"
      "file_at (Some (cm_tree c)) = index_files ?over"
      using p(2) by (metis fun_upd_same)
    ultimately show ?thesis by (auto simp: head_commit_def)
  next
    case False
    then have p: "repo' = ?repo1"
      "map_option (\<lambda>p. tree_id (cm_tree p)) (wt_base wt) = Some (tree_id (gl_write_tree lib ?over))"
      using cases by simp_all
    then obtain c where c: "wt_base wt = Some c" "tree_id (cm_tree c) = tree_id (gl_write_tree lib ?over)"
      by auto
    then have "cm_tree c = gl_write_tree lib ?over"
      using object_store_ids [OF U(1) _ U(2)] U(3) by simp
    then show ?thesis
      using p(1) tree c(1) head by (auto simp: head_commit_def r1 tree_of_index_def)
  qed
qed

lemma snapshot_reads_back:
  assumes lib: "index_add_ok lib" "commits_ok lib" and ok: "scratch_ok wt"
    and head: "rp_head repo = Some (wt_branch wt)" "map_of (rp_refs repo) (wt_branch wt) = wt_base wt"
    and ix: "wt_index wt = Some ix"
    and tree: "tree_of_index lib (overlay lib wt (drop_keys wt ix) (wt_files wt))"
    and U: "object_store U" "gl_write_tree lib (overlay lib wt (drop_keys wt ix) (wt_files wt)) \<in> U"
      "cm_tree ` set_option (wt_base wt) \<subseteq> U"
    and hash: "inj_on (gl_hash lib) (set (map snd (map (blob_of lib) (wt_files wt))))"
    and run: "commit_all_with_progress lib wt message n id repo = (repo', Inr b)"
    and f: "f \<in> set (wt_files wt)"
  shows "\<exists>c data. head_commit repo' = Some c \<and> scratch_content lib f = Some data
    \<and> with_head_blob repo' (logical_path (sf_path f)) g = Inr (Some (g data))"
proof -
  let ?over = "overlay lib wt (drop_keys wt ix) (wt_files wt)"
  let ?repo1 = "add_blobs (map (blob_of lib) (wt_files wt)) repo"
  obtain c where c: "head_commit repo' = Some c" "file_at (Some (cm_tree c)) = index_files ?over"
    and blobs: "rp_blobs repo' = rp_blobs ?repo1"
    using head_is_overlay [OF lib ok head ix tree U run] by blast
  obtain st where st: "stage_all lib wt n ix = Inr st"
    using run ix by (cases "stage_all lib wt n ix") (auto simp: commit_all_with_progress_def head)
  obtain st0 where "staged_state lib wt n (wt_files wt) st0" using stage_all_cases [OF st] by blast
  then have all: "\<forall>f \<in> set (wt_files wt). guarded wt f \<and> scratch_content lib f \<noteq> None"
    by (simp add: staged_state_def)
  then obtain data where data: "scratch_content lib f = Some data" using f by blast
  have lok: "logical_ok wt" using all by (intro logical_ok_intro [OF ok]) blast
  have "file_at (Some (cm_tree c)) (logical_path (sf_path f))
      = Some (gl_hash lib data, staged_mode (drop_keys wt ix) f)"
    using overlay_file [OF lok f data] by (simp add: c(2) index_files_def)
  then have oid: "blob_oid_at_path (cm_tree c) (logical_path (sf_path f)) = Some (gl_hash lib data)"
    by (rule blob_at_file)
  have b: "blob_of lib f = (gl_hash lib data, data)" by (simp add: blob_of_def data)
  have "rp_blobs repo' (gl_hash lib data) = Some data"
    unfolding blobs add_blobs_def git_repo.select_convs git_repo.update_convs
  proof (simp, rule fold_blobs)
    show "(gl_hash lib data, data) \<in> set (map (blob_of lib) (wt_files wt))" using f b by (metis image_eqI set_map)
    fix j d assume jd: "(j, d) \<in> set (map (blob_of lib) (wt_files wt))" "j = gl_hash lib data"
    then obtain h where h: "h \<in> set (wt_files wt)" "blob_of lib h = (j, d)" by auto
    then have "j = gl_hash lib d" using all by (auto simp: blob_of_def)
    moreover have "d \<in> set (map snd (map (blob_of lib) (wt_files wt)))" using h by force
    moreover have "data \<in> set (map snd (map (blob_of lib) (wt_files wt)))" using f b by force
    ultimately show "d = data" using inj_onD [OF hash] jd(2) by metis
  qed
  then show ?thesis using c(1) oid data by (simp add: with_head_blob_def)
qed

text \<open>
  C9. A sync round trip: after a worktree was prepared, filled and committed without interference,
  the reported snapshot is the head commit of the repository, and reading the logical path of any
  scratch file from the head gives the downloaded bytes, decompressed where the scratch file was
  compressed. This holds for initial runs, changed and unchanged runs, and after a missing branch
  was repaired; downloaded contents are assumed not to collide in the hash.
\<close>

theorem sync_roundtrip:
  assumes "index_add_ok lib" and "commits_ok lib"
    and "prepare_worktree lib repo0 = Inr (wt0, repo)"
    and "wt = wt0\<lparr>wt_files := files, wt_dirs := dirs\<rparr>" and "scratch_ok wt"
    and "over = overlay lib wt (drop_keys wt (the (wt_index wt0))) files"
    and "tree_of_index lib over" and "object_store U"
    and "insert (gl_write_tree lib over) (cm_tree ` set_option (wt_base wt0)) \<subseteq> U"
    and "inj_on (gl_hash lib) (set (map snd (map (blob_of lib) files)))"
    and "commit_snapshot_with_progress lib wt message n id repo = (repo', Inr i)"
    and "f \<in> set files"
  shows "\<exists>c data. head_commit repo' = Some c \<and> cm_id c = i \<and> scratch_content lib f = Some data
    \<and> with_head_blob repo' (logical_path (sf_path f)) g = Inr (Some (g data))"
proof -
  obtain b where run: "commit_all_with_progress lib wt message n id repo = (repo', Inr b)"
    and i: "map_option cm_id (head_commit repo') = Some i"
    using assms(11) by (auto simp: commit_snapshot_with_progress_def split: prod.splits sum.splits option.splits)
  note p = prepare_facts [OF assms(3)]
  have ix: "wt_index wt = Some (the (wt_index wt0))" using p assms(4) by simp
  have "\<exists>c data. head_commit repo' = Some c \<and> scratch_content lib f = Some data
    \<and> with_head_blob repo' (logical_path (sf_path f)) g = Inr (Some (g data))"
    by (rule snapshot_reads_back [OF assms(1,2,5) _ _ ix _ assms(8) _ _ _ run])
      (use p assms(4,6,7,9,10,12) in simp_all)
  then show ?thesis using i by auto
qed

theorem sync_roundtrip_witness:
  "\<exists>repo'. commit_snapshot_with_progress sample_lib sample_worktree ''sync'' 10 id (gl_init sample_lib)
       = (repo', Inr ''c'')
     \<and> with_head_blob repo' ''a.json'' length = Inr (Some 2)"
proof -
  let ?wt0 = "sample_worktree\<lparr>wt_files := [], wt_dirs := []\<rparr>"
  have prep: "prepare_worktree sample_lib None = Inr (?wt0, gl_init sample_lib)"
    by (simp add: prepare_worktree_def init_bare_def resolve_branch_def sample_lib_def is_local_branch_def
        starts_with_def sample_worktree_def)
  have wt: "sample_worktree = ?wt0\<lparr>wt_files := wt_files sample_worktree, wt_dirs := []\<rparr>"
    by (simp add: sample_worktree_def)
  let ?over = "overlay sample_lib sample_worktree (drop_keys sample_worktree (the (wt_index ?wt0))) (wt_files sample_worktree)"
  have ix: "the (wt_index ?wt0) = Map.empty" by (simp add: sample_worktree_def)
  have tree: "tree_of_index sample_lib ?over" unfolding ix by (rule sample_tree_of_index)
  have store: "object_store {sample_tree}" by (simp add: object_store_def sample_tree_def)
  have sub: "insert (gl_write_tree sample_lib ?over) (cm_tree ` set_option (wt_base ?wt0)) \<subseteq> {sample_tree}"
    by (simp add: sample_lib_def sample_worktree_def)
  have inj: "inj_on (gl_hash sample_lib) (set (map snd (map (blob_of sample_lib) (wt_files sample_worktree))))"
    by (simp add: sample_worktree_def)
  obtain repo' where r: "commit_snapshot_with_progress sample_lib sample_worktree ''sync'' 10 id (gl_init sample_lib)
       = (repo', Inr ''c'')"
    by (simp add: commit_snapshot_with_progress_def commit_all_with_progress_def sample_worktree_def stage_all_def
        stage_file_def sample_logical scratch_content_def Let_def sample_lib_def flush_mempack_def add_blobs_def
        head_commit_def)
  let ?f = "\<lparr>sf_path = ''a.json'', sf_mode = 33188, sf_content = ''{}''\<rparr>"
  have f: "?f \<in> set (wt_files sample_worktree)" by (simp add: sample_worktree_def)
  from sync_roundtrip [OF sample_lib_ok prep wt sample_scratch_ok refl tree store sub inj r f, of length] r
  show ?thesis by (auto simp: scratch_content_def sample_logical)
qed

end
