(* ===== verification/Distribution_Membership.thy ===== *)
theory Distribution_Membership
  imports Provider_Db
begin

section \<open>Distribution membership\<close>

text \<open>
  \<open>server/src/pipeline/membership.rs\<close> captures the complete index of every distribution that was
  listed successfully, before the incremental filter drops advisories that need no download;
  \<open>server/src/storage/membership.rs\<close> replaces the stored rows of exactly these distributions. A
  \<open>BTreeSet\<close> is its sorted list of elements, a \<open>BTreeMap\<close> the list of its entries sorted by key.
\<close>

subsection \<open>Ordered maps and sets\<close>

definition btree_set :: "'a::linorder list \<Rightarrow> 'a list" where
  "btree_set xs = sort (remdups xs)"

fun btree_insert :: "'k::linorder \<Rightarrow> 'v \<Rightarrow> ('k \<times> 'v) list \<Rightarrow> ('k \<times> 'v) list" where
  "btree_insert k v [] = [(k, v)]"
| "btree_insert k v ((k', v') # m) =
     (if k < k' then (k, v) # (k', v') # m
      else if k = k' then (k, v) # m
      else (k', v') # btree_insert k v m)"

definition btree_ok :: "('k::linorder \<times> 'v) list \<Rightarrow> bool" where
  "btree_ok m \<longleftrightarrow> sorted_wrt (<) (map fst m)"

lemma set_btree_set [simp]: "set (btree_set xs) = set xs"
  by (simp add: btree_set_def)

lemma distinct_btree_set [simp]: "distinct (btree_set xs)"
  by (simp add: btree_set_def)

lemma keys_btree_insert [simp]: "fst ` set (btree_insert k v m) = insert k (fst ` set m)"
  by (induction k v m rule: btree_insert.induct) (simp_all add: insert_commute)

lemma btree_insert_ok: "btree_ok m \<Longrightarrow> btree_ok (btree_insert k v m)"
proof (induction m)
  case (Cons e m)
  obtain k' v' where e: "e = (k', v')" by force
  have keys: "\<And>x. x \<in> set (map fst (btree_insert k v m)) \<longleftrightarrow> x = k \<or> x \<in> set (map fst m)"
    using keys_btree_insert [of k v m] by (metis insert_iff set_map)
  show ?case
    using Cons by (auto simp: btree_ok_def e keys simp del: set_map)
qed (simp add: btree_ok_def)

lemma map_of_btree_insert [simp]: "btree_ok m \<Longrightarrow> map_of (btree_insert k v m) = (map_of m)(k \<mapsto> v)"
proof (induction m)
  case (Cons e m)
  then show ?case by (cases e) (auto simp: btree_ok_def fun_eq_iff)
qed simp

lemma btree_distinct: "btree_ok m \<Longrightarrow> distinct (map fst m)"
  unfolding btree_ok_def by (simp add: strict_sorted_iff)

subsection \<open>Capturing an index\<close>

type_synonym membership_index = "(string \<times> string list) list"

record discovered_advisory =
  da_url :: string
  da_modified :: int

record membership_source =
  ms_since :: "int option"
  ms_retry :: "string list"

text \<open>
  \<open>index\<close> is what the wrapped source lists for the distribution (\<open>csaf_walker\<close>), or its error.
  The answer is paired with the shared snapshot after the call.
\<close>

definition needs_download :: "membership_source \<Rightarrow> discovered_advisory \<Rightarrow> bool" where
  "needs_download src a = (case ms_since src of None \<Rightarrow> True
     | Some since \<Rightarrow> since \<le> da_modified a \<or> da_url a \<in> set (ms_retry src))"

definition load_index :: "membership_source \<Rightarrow> string \<Rightarrow> 'e + discovered_advisory list
    \<Rightarrow> membership_index \<Rightarrow> ('e + discovered_advisory list) \<times> membership_index" where
  "load_index src url index m = (case index of
     Inl e \<Rightarrow> (Inl e, m)
   | Inr advisories \<Rightarrow> (Inr (filter (needs_download src) advisories),
       btree_insert url (btree_set (map da_url advisories)) m))"

subsection \<open>Storing the captured indexes\<close>

definition MEMBER_CHUNK :: nat where
  "MEMBER_CHUNK = 400"

definition delete_members :: "string \<Rightarrow> string list \<Rightarrow> provider_db \<Rightarrow> provider_db" where
  "delete_members distribution urls db = db\<lparr>db_membership :=
     filter (\<lambda>(d, u). \<not> (d = distribution \<and> u \<in> set urls)) (db_membership db)\<rparr>"

text \<open>The rows have the primary key (distribution, document), so a duplicate fails the statement.\<close>

definition insert_members :: "string \<Rightarrow> string list \<Rightarrow> provider_db \<Rightarrow> string + provider_db" where
  "insert_members distribution urls db =
     (if distinct urls \<and> (\<forall>u \<in> set urls. (distribution, u) \<notin> set (db_membership db))
      then Inr (db\<lparr>db_membership := db_membership db @ map (Pair distribution) urls\<rparr>)
      else Inl ''UNIQUE constraint failed'')"

definition members :: "provider_db \<Rightarrow> string \<Rightarrow> string list" where
  "members db distribution = map snd (filter (\<lambda>(d, u). d = distribution) (db_membership db))"

definition save_distribution :: "string \<times> string list \<Rightarrow> provider_db \<Rightarrow> string + provider_db" where
  "save_distribution entry db = (case entry of (distribution, documents) \<Rightarrow>
     (let previous = btree_set (members db distribution);
          removed = filter (\<lambda>u. u \<notin> set documents) previous;
          added = filter (\<lambda>u. u \<notin> set previous) documents in
      fold_res (insert_members distribution) (chunks MEMBER_CHUNK added)
        (fold (delete_members distribution) (chunks MEMBER_CHUNK removed) db)))"

text \<open>The whole save is one transaction: an error leaves the database as it was.\<close>

definition save_distribution_membership :: "membership_index \<Rightarrow> provider_db \<Rightarrow> string + provider_db" where
  "save_distribution_membership m db = fold_res save_distribution m db"

subsection \<open>The stored membership as a map\<close>

definition member_set :: "provider_db \<Rightarrow> string \<Rightarrow> string set" where
  "member_set db d = {u. (d, u) \<in> set (db_membership db)}"

definition other_tables :: "provider_db \<Rightarrow> provider_db" where
  "other_tables db = db\<lparr>db_membership := []\<rparr>"

lemma set_members [simp]: "set (members db d) = member_set db d"
  by (force simp: members_def member_set_def)

lemma delete_members_append:
  "delete_members d (xs @ ys) db = delete_members d ys (delete_members d xs db)"
  by (simp add: delete_members_def) (auto intro!: arg_cong [where f = "\<lambda>ms. db\<lparr>db_membership := ms\<rparr>"] filter_cong)

lemma delete_chunks: "fold (delete_members d) (chunks MEMBER_CHUNK us) db = delete_members d us db"
  by (rule fold_chunks) (auto simp: delete_members_append, auto simp: delete_members_def MEMBER_CHUNK_def)

lemma insert_members_append: "insert_members d (xs @ ys) db
    = (case insert_members d xs db of Inl e \<Rightarrow> Inl e | Inr db' \<Rightarrow> insert_members d ys db')"
  by (auto simp: insert_members_def)

lemma insert_chunks: "fold_res (insert_members d) (chunks MEMBER_CHUNK us) db = insert_members d us db"
  by (rule fold_res_chunks) (auto simp: insert_members_append, auto simp: insert_members_def MEMBER_CHUNK_def)

lemma save_one:
  assumes "distinct us"
  shows "\<exists>db'. save_distribution (d, us) db = Inr db' \<and> member_set db' = (member_set db)(d := set us)
    \<and> (distinct (db_membership db) \<longrightarrow> distinct (db_membership db')) \<and> other_tables db' = other_tables db"
proof -
  let ?removed = "filter (\<lambda>u. u \<notin> set us) (btree_set (members db d))"
  let ?added = "filter (\<lambda>u. u \<notin> set (btree_set (members db d))) us"
  let ?db = "delete_members d ?removed db"
  have new: "\<forall>u \<in> set ?added. (d, u) \<notin> set (db_membership ?db)"
    by (auto simp: delete_members_def member_set_def)
  then have ins: "insert_members d ?added ?db
      = Inr (?db\<lparr>db_membership := db_membership ?db @ map (Pair d) ?added\<rparr>)"
    using assms unfolding insert_members_def by simp
  have "save_distribution (d, us) db = Inr (?db\<lparr>db_membership := db_membership ?db @ map (Pair d) ?added\<rparr>)"
    unfolding save_distribution_def Let_def prod.case delete_chunks insert_chunks by (rule ins)
  moreover have "member_set (?db\<lparr>db_membership := db_membership ?db @ map (Pair d) ?added\<rparr>)
      = (member_set db)(d := set us)"
    by (auto simp: member_set_def delete_members_def fun_eq_iff)
  moreover have "distinct (db_membership ?db @ map (Pair d) ?added)" if "distinct (db_membership db)"
    using that new assms by (auto simp: distinct_map inj_on_def delete_members_def)
  ultimately show ?thesis by (auto simp: other_tables_def delete_members_def)
qed

lemma save_all:
  assumes "distinct (map fst m)" "\<forall>(d, us) \<in> set m. distinct us"
  shows "\<exists>db'. save_distribution_membership m db = Inr db'
    \<and> member_set db' = (\<lambda>d. case map_of m d of Some us \<Rightarrow> set us | None \<Rightarrow> member_set db d)
    \<and> (distinct (db_membership db) \<longrightarrow> distinct (db_membership db')) \<and> other_tables db' = other_tables db"
  using assms
proof (induction m arbitrary: db)
  case (Cons e m)
  obtain d us where e: "e = (d, us)" by force
  obtain db1 where one: "save_distribution (d, us) db = Inr db1"
    "member_set db1 = (member_set db)(d := set us)"
    "distinct (db_membership db) \<longrightarrow> distinct (db_membership db1)" "other_tables db1 = other_tables db"
    using save_one [of us d db] Cons.prems(2) e by auto
  have "d \<notin> fst ` set m" using Cons.prems(1) e by simp
  then have "map_of m d = None" by (simp add: map_of_eq_None_iff)
  then show ?case
    using Cons.IH [of db1] Cons.prems one
    by (fastforce simp: save_distribution_membership_def e fun_eq_iff split: option.splits)
qed (simp add: save_distribution_membership_def)

subsection \<open>Capturing all distributions of a sync\<close>

text \<open>What a sync sees: the distributions it lists, in order, with the answer of each.\<close>

definition capture :: "membership_source \<Rightarrow> (string \<times> ('e + discovered_advisory list)) list \<Rightarrow> membership_index" where
  "capture src listings = fold (\<lambda>(url, index) m. snd (load_index src url index m)) listings []"

definition last_listing :: "(string \<times> ('e + discovered_advisory list)) list \<Rightarrow> string \<Rightarrow> discovered_advisory list option" where
  "last_listing listings = map_of (rev (List.map_filter
     (\<lambda>(url, index). case index of Inl _ \<Rightarrow> None | Inr advisories \<Rightarrow> Some (url, advisories)) listings))"

lemma capture_fold:
  "btree_ok m \<Longrightarrow> \<forall>(d, us) \<in> set m. distinct us \<Longrightarrow>
    (let m' = fold (\<lambda>(url, index) m. snd (load_index src url index m)) listings m in
     btree_ok m' \<and> (\<forall>(d, us) \<in> set m'. distinct us)
     \<and> map_of m' = map_of m ++ (\<lambda>d. map_option (\<lambda>as. btree_set (map da_url as)) (last_listing listings d)))"
proof (induction listings arbitrary: m)
  case Nil
  then show ?case by (simp add: last_listing_def List.map_filter_simps map_add_def)
next
  case (Cons l listings)
  obtain url index where l: "l = (url, index)" by force
  show ?case
  proof (cases index)
    case (Inl e)
    then show ?thesis
      using Cons.IH [OF Cons.prems] by (simp add: l load_index_def last_listing_def List.map_filter_simps)
  next
    case (Inr as)
    let ?m = "btree_insert url (btree_set (map da_url as)) m"
    have mem: "x \<in> set (btree_insert k v m') \<Longrightarrow> x = (k, v) \<or> x \<in> set m'" for x k v and m' :: membership_index
      by (induction m') (auto split: if_splits)
    have "\<forall>(d, us) \<in> set ?m. distinct us"
      using Cons.prems(2) mem [where k = url and v = "btree_set (map da_url as)"] by fastforce
    from Cons.IH [OF btree_insert_ok [OF Cons.prems(1)] this] Cons.prems(1)
    show ?thesis
      by (auto simp: l Inr load_index_def last_listing_def List.map_filter_simps Let_def map_add_def
          fun_eq_iff split: option.splits)
  qed
qed

text \<open>
  C12. The stored membership is exact although incremental passes download only part of an index:
  after a sync, every distribution that was listed has exactly the documents of its last successful
  listing, also those not downloaded; every other distribution keeps what was known, no statement
  fails, rows stay unique and no other table changes. An advisory the filter drops was last
  modified before the pass's start and has no failed retrieval to repeat.
\<close>

theorem membership_exact:
  assumes "distinct (db_membership db)"
  shows "\<exists>db'. save_distribution_membership (capture src listings) db = Inr db'
    \<and> member_set db' = (\<lambda>d. case last_listing listings d of
         Some advisories \<Rightarrow> da_url ` set advisories | None \<Rightarrow> member_set db d)
    \<and> distinct (db_membership db') \<and> other_tables db' = other_tables db
    \<and> (\<forall>(url, index) \<in> set listings. case (index, fst (load_index src url index [])) of
         (Inr advisories, Inr kept) \<Rightarrow> set kept = {a \<in> set advisories. needs_download src a}
       | (Inl e, r) \<Rightarrow> r = Inl e | _ \<Rightarrow> False)"
proof -
  let ?m = "capture src listings"
  have m: "btree_ok ?m" "\<forall>(d, us) \<in> set ?m. distinct us"
    "map_of ?m = (\<lambda>d. map_option (\<lambda>as. btree_set (map da_url as)) (last_listing listings d))"
    using capture_fold [of "[]" src listings]
    by (simp_all add: capture_def Let_def btree_ok_def map_add_def fun_eq_iff split: option.splits)
  obtain db' where s: "save_distribution_membership ?m db = Inr db'"
    "member_set db' = (\<lambda>d. case map_of ?m d of Some us \<Rightarrow> set us | None \<Rightarrow> member_set db d)"
    "distinct (db_membership db')" "other_tables db' = other_tables db"
    using save_all [OF btree_distinct [OF m(1)] m(2), of db] assms by auto
  have "member_set db' = (\<lambda>d. case last_listing listings d of
      Some advisories \<Rightarrow> da_url ` set advisories | None \<Rightarrow> member_set db d)"
    unfolding s(2) m(3) by (auto simp: fun_eq_iff split: option.splits)
  then show ?thesis using s(1,3,4) by (auto simp: load_index_def split: sum.splits)
qed

theorem membership_exact_witness:
  "\<exists>db'. save_distribution_membership (capture \<lparr>ms_since = Some 5, ms_retry = []\<rparr>
       [(''d'', Inr [\<lparr>da_url = ''a'', da_modified = 1\<rparr>]), (''e'', Inl ())]) db_empty = Inr db'
     \<and> member_set db' ''d'' = {''a''} \<and> member_set db' ''e'' = {}"
proof -
  let ?listings = "[(''d'', Inr [\<lparr>da_url = ''a'', da_modified = 1\<rparr>]), (''e'', Inl ())]"
  have d: "distinct (db_membership db_empty)" by simp
  obtain db' where r: "save_distribution_membership
        (capture \<lparr>ms_since = Some 5, ms_retry = []\<rparr> ?listings) db_empty = Inr db'"
    and m: "member_set db' = (\<lambda>d. case last_listing ?listings d of
         Some advisories \<Rightarrow> da_url ` set advisories | None \<Rightarrow> member_set db_empty d)"
    using membership_exact [OF d, of "\<lparr>ms_since = Some 5, ms_retry = []\<rparr>" ?listings]
    by (elim exE conjE) (rule that)
  have "member_set db' ''d'' = {''a''} \<and> member_set db' ''e'' = {}"
    unfolding m by (simp add: last_listing_def List.map_filter_simps member_set_def)
  with r show ?thesis by blast
qed

end
