(* ===== verification/Document_Validation.thy ===== *)
theory Document_Validation
  imports Document_Invariants Json_Content Advisory_Paths
begin

section \<open>Validating a directory of advisories\<close>

text \<open>
  \<open>server/src/pipeline/validate.rs\<close> with the directory source of
  \<open>server/src/pipeline/source.rs\<close>: every advisory of a prepared directory is read, verified by
  \<open>csaf_walker\<close>, turned into a result row with its integrity, signature and profile outcomes, and
  saved one by one. The libraries (file URLs, sidecar files, the CSAF parser and its tests, digest
  comparison, OpenPGP) are the fields of \<open>validator_lib\<close>; keys and validation options are fixed in
  them. Logging and memory samples are left out.
\<close>

subsection \<open>Results of the libraries\<close>

datatype csaf_version_tag = V2_0 | V2_1

record csaf_metadata =
  cs_category :: string
  cs_publisher :: string
  cs_initial_release_date :: string
  cs_current_release_date :: string
  cs_status :: string
  cs_version :: string
  cs_aggregate_severity :: "string option"
  cs_revision_history :: "revision_entry list"

text \<open>The parsed document; a version unknown to the server is \<open>CsafOther\<close>.\<close>

datatype csaf = Csaf20 csaf_metadata | Csaf21 csaf_metadata | CsafOther

record check_error =
  ce_id :: string
  ce_message :: string

type_synonym profile_errors = "string \<Rightarrow> check_error list option"

record retrieved_digest =
  dg_expected :: string
  dg_actual :: string

record verified_csaf =
  vc_tracking_id :: string
  vc_title :: string
  vc_csaf :: csaf
  vc_errors :: profile_errors
  vc_warnings :: profile_errors
  vc_infos :: profile_errors
  vc_successes :: "string list"

datatype verification = Verified verified_csaf | ParsingError string | CheckFailed string

record validation_dir =
  vd_files :: "string list"
  vd_dirs :: "string list"
  vd_read :: "string \<Rightarrow> string option"

record sidecars =
  sc_signature :: "string option"
  sc_sha256 :: "retrieved_digest option"
  sc_sha512 :: "retrieved_digest option"

text \<open>
  \<open>vl_base\<close> is the canonical directory, \<open>vl_verify\<close> parses a document and runs the checks of the
  three profiles, \<open>vl_tests\<close> is \<open>tests_in_preset\<close>.
\<close>

record validator_lib =
  vl_base :: string
  vl_file_url :: "string \<Rightarrow> string"
  vl_file_path :: "string \<Rightarrow> string option"
  vl_metadata :: "validation_dir \<Rightarrow> bool"
  vl_sidecars :: "validation_dir \<Rightarrow> string \<Rightarrow> string \<Rightarrow> sidecars option"
  vl_verify :: "string \<Rightarrow> verification"
  vl_digest :: "retrieved_digest \<Rightarrow> (string \<times> string) option"
  vl_signature :: "string \<Rightarrow> string \<Rightarrow> string option"
  vl_upstream :: "string \<Rightarrow> string"
  vl_tests :: "csaf_version_tag \<Rightarrow> string \<Rightarrow> nat option"
  vl_parse :: "string \<Rightarrow> json option"
  vl_upper :: "string \<Rightarrow> string"
  vl_lower :: "string \<Rightarrow> string"

subsection \<open>Digest and signature\<close>

record integrity_result =
  ig_present :: bool
  ig_error :: "string option"
  ig_warning :: "string option"

text \<open>A check is absent, passed (\<open>Some None\<close>) or failed with a message.\<close>

type_synonym supplied_check = "string option option"

definition join_with :: "string \<Rightarrow> string list \<Rightarrow> string" where
  "join_with sep xs = (case xs of [] \<Rightarrow> [] | y # ys \<Rightarrow> y @ concat (map (\<lambda>z. sep @ z) ys))"

definition assess_integrity :: "supplied_check list \<Rightarrow> integrity_result" where
  "assess_integrity checks =
     (let supplied = List.map_filter id checks;
          passed = (None \<in> set supplied);
          failures = List.map_filter id supplied;
          message = (if failures = [] then None else Some (join_with ''; '' failures)) in
      \<lparr>ig_present = (supplied \<noteq> []), ig_error = (if passed then None else message),
       ig_warning = (if passed then message else None)\<rparr>)"

definition digest_check :: "validator_lib \<Rightarrow> string \<Rightarrow> retrieved_digest option \<Rightarrow> supplied_check" where
  "digest_check lib algorithm digest = map_option (\<lambda>d. map_option (\<lambda>(expected, actual).
     algorithm @ '' mismatch: expected '' @ expected @ '', got '' @ actual) (vl_digest lib d)) digest"

definition middle_dot :: string where
  "middle_dot = [CHR 0xC2, CHR 0xB7]"

definition digest_details :: "string \<Rightarrow> retrieved_digest option \<Rightarrow> check_detail list" where
  "digest_details algorithm digest = (case digest of
     Some d \<Rightarrow> [\<lparr>cd_label = algorithm @ '' '' @ middle_dot @ '' Published'', cd_value = dg_expected d\<rparr>,
        \<lparr>cd_label = algorithm @ '' '' @ middle_dot @ '' Computed'', cd_value = dg_actual d\<rparr>]
   | None \<Rightarrow> [\<lparr>cd_label = algorithm, cd_value = ''Not supplied''\<rparr>])"

definition digest_outcome :: "integrity_result \<Rightarrow> sidecars \<Rightarrow> check_outcome" where
  "digest_outcome ig sc = \<lparr>
     co_status = (if ig_error ig \<noteq> None then Failed else if ig_warning ig \<noteq> None then Warning
       else if ig_present ig then Passed else Missing),
     co_message = (case ig_error ig of Some e \<Rightarrow> Some e | None \<Rightarrow> ig_warning ig),
     co_details = digest_details ''SHA-256'' (sc_sha256 sc) @ digest_details ''SHA-512'' (sc_sha512 sc)\<rparr>"

text \<open>The OpenPGP outcome, and the integrity summary with the signature taken into account.\<close>

definition signature_step :: "validator_lib \<Rightarrow> string option \<Rightarrow> string \<Rightarrow> integrity_result
    \<Rightarrow> check_outcome \<times> integrity_result" where
  "signature_step lib signature data ig = (case signature of
     None \<Rightarrow> (outcome_new Missing, ig)
   | Some s \<Rightarrow>
       (let details = [\<lparr>cd_label = ''OpenPGP signature'', cd_value = s\<rparr>];
            ig1 = ig\<lparr>ig_present := True\<rparr> in
        case vl_signature lib s data of
          None \<Rightarrow> ((outcome_new Passed)\<lparr>co_details := details\<rparr>, ig1)
        | Some error \<Rightarrow>
            (let message = ''Invalid signature: '' @ error in
             ((outcome_failed message)\<lparr>co_details := details\<rparr>,
              ig1\<lparr>ig_error := Some (case ig_error ig of
                Some digest_error \<Rightarrow> message @ ''; '' @ digest_error | None \<Rightarrow> message)\<rparr>))))"

subsection \<open>Profiles\<close>

definition csaf_version_tag :: "csaf \<Rightarrow> csaf_version_tag" where
  "csaf_version_tag c = (case c of Csaf20 _ \<Rightarrow> V2_0 | _ \<Rightarrow> V2_1)"

definition total_tests_for_profile :: "validator_lib \<Rightarrow> csaf_version_tag \<Rightarrow> string \<Rightarrow> nat" where
  "total_tests_for_profile lib version profile = (case vl_tests lib version profile of Some n \<Rightarrow> n | None \<Rightarrow> 0)"

definition issue_rows :: "string \<Rightarrow> check_error list option \<Rightarrow> check_failure list" where
  "issue_rows severity errs = (case errs of None \<Rightarrow> []
     | Some es \<Rightarrow> map (\<lambda>e. \<lparr>cf_test_id = ce_id e, cf_message = ce_message e, cf_severity = severity\<rparr>) es)"

definition issue_count :: "check_error list option \<Rightarrow> nat" where
  "issue_count errs = (case errs of None \<Rightarrow> 0 | Some es \<Rightarrow> length es)"

record document_result =
  rs_checks :: doc_checks
  rs_tracking_id :: string
  rs_title :: string
  rs_url :: string
  rs_failures :: profile_errors
  rs_warnings :: profile_errors
  rs_infos :: profile_errors
  rs_successes :: "string list"
  rs_version_tag :: "csaf_version_tag option"
  rs_signature_error :: "string option"
  rs_signature_warning :: "string option"
  rs_signature_present :: bool
  rs_category :: "string option"
  rs_publisher_name :: "string option"
  rs_initial_release_date :: "string option"
  rs_current_release_date :: "string option"
  rs_status :: "string option"
  rs_revision :: "string option"
  rs_aggregate_severity :: "string option"
  rs_csaf_version :: "string option"
  rs_revision_history :: "revision_entry list"
  rs_vulnerabilities :: "vulnerability_entry list"

definition build_doc_profile_detail :: "validator_lib \<Rightarrow> document_result \<Rightarrow> string \<Rightarrow> profile_detail option" where
  "build_doc_profile_detail lib doc profile =
     (let errors = rs_failures doc profile; warnings = rs_warnings doc profile; infos = rs_infos doc profile;
          total_tests = (case rs_version_tag doc of Some v \<Rightarrow> total_tests_for_profile lib v profile | None \<Rightarrow> 0) in
      if errors \<noteq> None \<or> warnings \<noteq> None \<or> infos \<noteq> None then
        (let failing_tests = issue_rows ''error'' errors @ issue_rows ''warning'' warnings
               @ issue_rows ''info'' infos in
         Some \<lparr>pd_passed = False, pd_error_count = issue_count errors, pd_warning_count = issue_count warnings,
           pd_info_count = issue_count infos, pd_total_tests = total_tests,
           pd_failing_test_count = length (remdups (map cf_test_id failing_tests)),
           pd_failing_tests = failing_tests\<rparr>)
      else if profile \<in> set (rs_successes doc) then
        Some \<lparr>pd_passed = True, pd_error_count = 0, pd_warning_count = 0, pd_info_count = 0,
          pd_total_tests = total_tests, pd_failing_test_count = 0, pd_failing_tests = []\<rparr>
      else None)"

definition build_document_validation :: "validator_lib \<Rightarrow> document_result \<Rightarrow> document_validation" where
  "build_document_validation lib doc = \<lparr>dv_checks = rs_checks doc, dv_tracking_id = rs_tracking_id doc,
     dv_title = rs_title doc, dv_url = rs_url doc,
     dv_profiles = \<lparr>pf_basic = build_doc_profile_detail lib doc ''basic'',
       pf_extended = build_doc_profile_detail lib doc ''extended'',
       pf_full = build_doc_profile_detail lib doc ''full''\<rparr>,
     dv_signature_error = rs_signature_error doc, dv_signature_warning = rs_signature_warning doc,
     dv_signature_present = rs_signature_present doc, dv_category = rs_category doc,
     dv_publisher_name = rs_publisher_name doc, dv_initial_release_date = rs_initial_release_date doc,
     dv_current_release_date = rs_current_release_date doc, dv_status = rs_status doc,
     dv_revision = rs_revision doc, dv_aggregate_severity = rs_aggregate_severity doc,
     dv_csaf_version = rs_csaf_version doc, dv_revision_history = rs_revision_history doc,
     dv_vulnerabilities = rs_vulnerabilities doc, dv_version_count = 1,
     dv_retrieval_error = (if co_status (dc_retrieval (rs_checks doc)) \<in> {Failed, Missing}
       then co_message (dc_retrieval (rs_checks doc)) else None)\<rparr>"

subsection \<open>URLs\<close>

text \<open>\<open>Path::components\<close> of a normal path: empty and \<open>.\<close> components disappear.\<close>

definition path_components :: "string \<Rightarrow> string list" where
  "path_components p = filter (\<lambda>c. c \<noteq> [] \<and> c \<noteq> ''.'') (split_on (CHR ''/'') p)"

definition try_reconstruct_url :: "validator_lib \<Rightarrow> string \<Rightarrow> string option" where
  "try_reconstruct_url lib file_url = Option.bind (vl_file_path lib file_url) (\<lambda>path.
     Option.bind (strip_prefix (path_components (vl_base lib)) (path_components path)) (\<lambda>relative.
       case relative of [] \<Rightarrow> None
       | domain # remaining \<Rightarrow>
           (if domain = ''metadata'' \<or> remaining = [] then None
            else Some (''https://'' @ domain @ ''/'' @ join_on (CHR ''/'') remaining))))"

definition reconstruct_original_url :: "validator_lib \<Rightarrow> string \<Rightarrow> string" where
  "reconstruct_original_url lib file_url =
     (case try_reconstruct_url lib file_url of Some u \<Rightarrow> u | None \<Rightarrow> file_url)"

subsection \<open>One document\<close>

definition extract_metadata :: "csaf \<Rightarrow> document_result \<Rightarrow> document_result" where
  "extract_metadata c r = (case c of
     Csaf20 m \<Rightarrow> r\<lparr>rs_category := Some (cs_category m), rs_publisher_name := Some (cs_publisher m),
       rs_initial_release_date := Some (cs_initial_release_date m),
       rs_current_release_date := Some (cs_current_release_date m), rs_status := Some (cs_status m),
       rs_revision := Some (cs_version m), rs_aggregate_severity := cs_aggregate_severity m,
       rs_csaf_version := Some ''2.0'', rs_revision_history := cs_revision_history m\<rparr>
   | Csaf21 m \<Rightarrow> r\<lparr>rs_category := Some (cs_category m), rs_publisher_name := Some (cs_publisher m),
       rs_initial_release_date := Some (cs_initial_release_date m),
       rs_current_release_date := Some (cs_current_release_date m), rs_status := Some (cs_status m),
       rs_revision := Some (cs_version m), rs_aggregate_severity := cs_aggregate_severity m,
       rs_csaf_version := Some ''2.1'', rs_revision_history := cs_revision_history m\<rparr>
   | CsafOther \<Rightarrow> r)"

definition empty_result :: document_result where
  "empty_result = \<lparr>rs_checks = checks_default, rs_tracking_id = [], rs_title = [], rs_url = [],
     rs_failures = Map.empty, rs_warnings = Map.empty, rs_infos = Map.empty, rs_successes = [],
     rs_version_tag = None, rs_signature_error = None, rs_signature_warning = None,
     rs_signature_present = False, rs_category = None, rs_publisher_name = None,
     rs_initial_release_date = None, rs_current_release_date = None, rs_status = None,
     rs_revision = None, rs_aggregate_severity = None, rs_csaf_version = None,
     rs_revision_history = [], rs_vulnerabilities = []\<rparr>"

definition verified_result :: "validator_lib \<Rightarrow> string \<Rightarrow> string \<Rightarrow> sidecars \<Rightarrow> verified_csaf \<Rightarrow> document_result" where
  "verified_result lib file_url data sc v =
     (let ig0 = assess_integrity [digest_check lib ''SHA-256'' (sc_sha256 sc),
            digest_check lib ''SHA-512'' (sc_sha512 sc)];
          (signature, ig) = signature_step lib (sc_signature sc) data ig0 in
      extract_metadata (vc_csaf v) (empty_result\<lparr>
        rs_checks := \<lparr>dc_retrieval = outcome_new Passed, dc_parsing = outcome_new Passed,
          dc_signature = signature, dc_digest = digest_outcome ig0 sc\<rparr>,
        rs_tracking_id := vc_tracking_id v, rs_title := vc_title v,
        rs_url := reconstruct_original_url lib file_url,
        rs_failures := vc_errors v, rs_warnings := vc_warnings v, rs_infos := vc_infos v,
        rs_successes := vc_successes v, rs_version_tag := Some (csaf_version_tag (vc_csaf v)),
        rs_signature_error := ig_error ig, rs_signature_warning := ig_warning ig,
        rs_signature_present := ig_present ig,
        rs_vulnerabilities := (case extract_vulnerability_index (vl_upper lib) (vl_parse lib) data of
          Some vs \<Rightarrow> vs | None \<Rightarrow> [])\<rparr>))"

definition failed_result :: "validator_lib \<Rightarrow> string \<Rightarrow> bool \<Rightarrow> string \<Rightarrow> document_result" where
  "failed_result lib file_url parsing e =
     (let url = reconstruct_original_url lib file_url in
      empty_result\<lparr>
        rs_checks := (if parsing
          then checks_default\<lparr>dc_retrieval := outcome_new Passed, dc_parsing := outcome_failed e\<rparr>
          else checks_default\<lparr>dc_retrieval := outcome_failed e\<rparr>),
        rs_tracking_id := trim_end_str ''.json'' (after_last (CHR ''/'') url),
        rs_title := (if parsing then ''Parse error: '' @ e else ''Retrieval failed''),
        rs_url := url,
        rs_signature_error := (if parsing then Some (''Document error: '' @ e) else None)\<rparr>)"

subsection \<open>The directory\<close>

definition vd_exists :: "validation_dir \<Rightarrow> string \<Rightarrow> bool" where
  "vd_exists dir p \<longleftrightarrow> p \<in> set (vd_files dir) \<or> p \<in> set (vd_dirs dir)"

text \<open>\<open>load_advisory\<close>: the compressed file is preferred; \<open>None\<close> is a retrieval error.\<close>

definition load_advisory :: "validator_lib \<Rightarrow> validation_dir \<Rightarrow> string \<Rightarrow> (string \<times> sidecars) option" where
  "load_advisory lib dir path =
     (let physical = (if vd_exists dir (compressed_path path) then compressed_path path else path) in
      Option.bind (vd_read dir physical) (\<lambda>data. map_option (Pair data) (vl_sidecars lib dir path data)))"

definition document_of :: "validator_lib \<Rightarrow> validation_dir \<Rightarrow> string \<Rightarrow> string + document_result" where
  "document_of lib dir path =
     (let file_url = vl_file_url lib (vl_base lib @ ''/'' @ path) in
      case load_advisory lib dir path of
        None \<Rightarrow> Inr (failed_result lib file_url False (vl_upstream lib path))
      | Some (data, sc) \<Rightarrow> (case vl_verify lib data of
          Verified v \<Rightarrow> Inr (verified_result lib file_url data sc v)
        | ParsingError e \<Rightarrow> Inr (failed_result lib file_url True e)
        | CheckFailed e \<Rightarrow> Inl (''Validation could not complete for '' @ reconstruct_original_url lib file_url
            @ '': '' @ e)))"

text \<open>State of a pass: the database and the number of documents processed.\<close>

type_synonym pass_state = "provider_db \<times> nat"

definition visit_document :: "validator_lib \<Rightarrow> validation_dir \<Rightarrow> string \<Rightarrow> pass_state \<Rightarrow> pass_state \<times> string option" where
  "visit_document lib dir path st = (case st of (db, n) \<Rightarrow> (case document_of lib dir path of
     Inl e \<Rightarrow> ((db, n), Some e)
   | Inr doc \<Rightarrow> ((fst (save_documents (vl_lower lib) [build_document_validation lib doc] db), Suc n), None)))"

definition visit_entry :: "validator_lib \<Rightarrow> validation_dir \<Rightarrow> string \<Rightarrow> pass_state \<Rightarrow> pass_state \<times> string option" where
  "visit_entry lib dir physical st =
     (let path = logical_path physical in
      if path \<noteq> physical \<and> vd_exists dir path then (st, Some ''Both plain and compressed scratch files exist'')
      else visit_document lib dir path st)"

text \<open>The advisories of the directory outside \<open>metadata\<close>, in walk order.\<close>

definition walk_distribution :: "validation_dir \<Rightarrow> string list" where
  "walk_distribution dir = filter (\<lambda>p. \<not> in_metadata p \<and> is_advisory p) (vd_files dir)"

definition walk_prepared :: "validator_lib \<Rightarrow> validation_dir \<Rightarrow> pass_state \<Rightarrow> pass_state \<times> string option" where
  "walk_prepared lib dir st = (if \<not> vl_metadata lib dir then (st, Some ''Failed to read metadata'')
     else fold_try (visit_entry lib dir) (walk_distribution dir) st)"

definition validate_provider :: "validator_lib \<Rightarrow> validation_dir \<Rightarrow> nat \<Rightarrow> provider_db
    \<Rightarrow> provider_db \<times> (string + nat)" where
  "validate_provider lib dir expected_count db = (case walk_prepared lib dir (db, 0) of
     ((db', _), Some e) \<Rightarrow> (db', Inl e)
   | ((db', total_count), None) \<Rightarrow>
       (if total_count \<noteq> expected_count then (db', Inl ''Validation processed too few or too many documents'')
        else (db', Inr (document_count db'))))"

end
