(* ===== verification/Validation_Facts.thy ===== *)
theory Validation_Facts
  imports Document_Validation
begin

section \<open>What validation promises\<close>

text \<open>
  The facts about \<open>server/src/pipeline/validate.rs\<close>: the policy that combines digests and
  signature, the profile details, and the completeness of a pass over a directory.
\<close>

subsection \<open>Integrity policy\<close>

definition supplied_digests :: "sidecars \<Rightarrow> retrieved_digest list" where
  "supplied_digests sc = List.map_filter id [sc_sha256 sc, sc_sha512 sc]"

definition matching_digests :: "validator_lib \<Rightarrow> sidecars \<Rightarrow> retrieved_digest list" where
  "matching_digests lib sc = filter (\<lambda>d. vl_digest lib d = None) (supplied_digests sc)"

definition digest_policy :: "validator_lib \<Rightarrow> sidecars \<Rightarrow> check_status" where
  "digest_policy lib sc = (if supplied_digests sc = [] then Missing
     else if matching_digests lib sc = supplied_digests sc then Passed
     else if matching_digests lib sc = [] then Failed else Warning)"

definition signature_policy :: "validator_lib \<Rightarrow> sidecars \<Rightarrow> string \<Rightarrow> check_status" where
  "signature_policy lib sc data = (case sc_signature sc of None \<Rightarrow> Missing
     | Some s \<Rightarrow> if vl_signature lib s data = None then Passed else Failed)"

lemma extract_metadata_keeps [simp]:
  "rs_checks (extract_metadata c r) = rs_checks r"
  "rs_signature_error (extract_metadata c r) = rs_signature_error r"
  "rs_signature_warning (extract_metadata c r) = rs_signature_warning r"
  "rs_signature_present (extract_metadata c r) = rs_signature_present r"
  "rs_url (extract_metadata c r) = rs_url r"
  "rs_tracking_id (extract_metadata c r) = rs_tracking_id r"
  by (simp_all add: extract_metadata_def split: csaf.split)

lemma digest_cases:
  obtains "digest = None" "digest_check lib a digest = None"
  | d where "digest = Some d" "vl_digest lib d = None" "digest_check lib a digest = Some None"
  | d m where "digest = Some d" "vl_digest lib d \<noteq> None" "digest_check lib a digest = Some (Some m)"
  by (cases digest; cases "vl_digest lib (the digest)") (auto simp: digest_check_def)

lemma assess_policy:
  fixes lib :: validator_lib and sc :: sidecars
  defines "ig \<equiv> assess_integrity [digest_check lib ''SHA-256'' (sc_sha256 sc),
    digest_check lib ''SHA-512'' (sc_sha512 sc)]"
  shows "(ig_present ig \<longleftrightarrow> supplied_digests sc \<noteq> [])
    \<and> (ig_error ig \<noteq> None \<longleftrightarrow> digest_policy lib sc = Failed)
    \<and> (ig_warning ig \<noteq> None \<longleftrightarrow> digest_policy lib sc = Warning)
    \<and> co_status (digest_outcome ig sc) = digest_policy lib sc"
  unfolding ig_def
  by (rule digest_cases [of "sc_sha256 sc" lib "''SHA-256''"];
      rule digest_cases [of "sc_sha512 sc" lib "''SHA-512''"])
    (simp_all add: assess_integrity_def List.map_filter_simps supplied_digests_def matching_digests_def
      digest_policy_def digest_outcome_def)

text \<open>
  C15. The integrity outcomes follow one policy: the digest check is missing without digests, passed
  when all supplied digests match, a warning when only one does, and failed when none does; the
  signature check is judged on its own; the document has a signature error exactly when one of the
  two failed, a warning exactly when the digests disagree, and counts as signed when any of them
  was supplied. A verified document was retrieved and parsed.
\<close>

theorem integrity_policy:
  "let r = verified_result lib file_url data sc v in
     co_status (dc_digest (rs_checks r)) = digest_policy lib sc
     \<and> co_status (dc_signature (rs_checks r)) = signature_policy lib sc data
     \<and> (rs_signature_error r \<noteq> None) = (Failed \<in> {digest_policy lib sc, signature_policy lib sc data})
     \<and> (rs_signature_warning r \<noteq> None) = (digest_policy lib sc = Warning)
     \<and> rs_signature_present r = ({digest_policy lib sc, signature_policy lib sc data} \<noteq> {Missing})
     \<and> co_status (dc_retrieval (rs_checks r)) = Passed \<and> co_status (dc_parsing (rs_checks r)) = Passed"
proof -
  let ?ig = "assess_integrity [digest_check lib ''SHA-256'' (sc_sha256 sc),
    digest_check lib ''SHA-512'' (sc_sha512 sc)]"
  have present: "supplied_digests sc \<noteq> [] \<longleftrightarrow> digest_policy lib sc \<noteq> Missing"
    by (simp add: digest_policy_def)
  show ?thesis
  proof (cases "sc_signature sc")
    case None
    then show ?thesis
      using assess_policy [of lib sc] present
      by (auto simp: Let_def verified_result_def signature_step_def signature_policy_def outcome_new_def)
  next
    case (Some s)
    then show ?thesis
      using assess_policy [of lib sc] present
      by (cases "vl_signature lib s data")
        (auto simp: Let_def verified_result_def signature_step_def signature_policy_def outcome_new_def
          outcome_failed_def)
  qed
qed

subsection \<open>Profile details\<close>

lemma issue_rows_facts [simp]:
  "length (issue_rows s errs) = issue_count errs"
  "filter (\<lambda>f. cf_severity f = t) (issue_rows s errs) = (if s = t then issue_rows s errs else [])"
  by (auto simp: issue_rows_def issue_count_def split: option.split)

text \<open>
  The detail stored for a profile is consistent: without a failing test or success report there
  is none; the profile counts as passed exactly when no error, warning or information was reported
  for it; the three counts are the numbers of stored tests of their severity, and the number of
  distinct failing tests is at most their sum and zero only when there are none.
\<close>

theorem profile_detail_consistent:
  assumes "build_doc_profile_detail lib doc profile = Some d"
  shows "(pd_passed d \<longleftrightarrow> rs_failures doc profile = None \<and> rs_warnings doc profile = None
        \<and> rs_infos doc profile = None)
    \<and> (pd_passed d \<longrightarrow> profile \<in> set (rs_successes doc) \<and> pd_failing_tests d = [])
    \<and> pd_error_count d = length (filter (\<lambda>f. cf_severity f = ''error'') (pd_failing_tests d))
    \<and> pd_warning_count d = length (filter (\<lambda>f. cf_severity f = ''warning'') (pd_failing_tests d))
    \<and> pd_info_count d = length (filter (\<lambda>f. cf_severity f = ''info'') (pd_failing_tests d))
    \<and> pd_failing_test_count d = card (set (map cf_test_id (pd_failing_tests d)))
    \<and> pd_failing_test_count d \<le> pd_error_count d + pd_warning_count d + pd_info_count d
    \<and> (pd_failing_test_count d = 0 \<longleftrightarrow> pd_failing_tests d = [])"
proof (cases "rs_failures doc profile \<noteq> None \<or> rs_warnings doc profile \<noteq> None \<or> rs_infos doc profile \<noteq> None")
  case True
  let ?tests = "issue_rows ''error'' (rs_failures doc profile) @ issue_rows ''warning'' (rs_warnings doc profile)
    @ issue_rows ''info'' (rs_infos doc profile)"
  have "length (remdups (map cf_test_id ?tests)) \<le> length ?tests"
    using length_remdups_leq [of "map cf_test_id ?tests"] by (simp only: length_map)
  moreover have "length (remdups (map cf_test_id ?tests)) = card (set (map cf_test_id ?tests))"
    by (rule length_remdups_card_conv)
  moreover have "d = \<lparr>pd_passed = False, pd_error_count = issue_count (rs_failures doc profile),
      pd_warning_count = issue_count (rs_warnings doc profile), pd_info_count = issue_count (rs_infos doc profile),
      pd_total_tests = pd_total_tests d, pd_failing_test_count = length (remdups (map cf_test_id ?tests)),
      pd_failing_tests = ?tests\<rparr>"
    using assms True by (auto simp: build_doc_profile_detail_def Let_def)
  ultimately show ?thesis
    using True by (cases d) (simp add: remdups_eq_nil_iff)
next
  case False
  then show ?thesis
    using assms by (auto simp: build_doc_profile_detail_def Let_def split: if_splits)
qed

definition sample_validator :: validator_lib where
  "sample_validator = \<lparr>vl_base = ''/w'', vl_file_url = (\<lambda>p. ''file://'' @ p),
     vl_file_path = (\<lambda>u. strip_prefix ''file://'' u), vl_metadata = (\<lambda>_. True),
     vl_sidecars = (\<lambda>_ _ _. Some \<lparr>sc_signature = None, sc_sha256 = None, sc_sha512 = None\<rparr>),
     vl_verify = (\<lambda>data. Verified \<lparr>vc_tracking_id = data, vc_title = data, vc_csaf = CsafOther,
       vc_errors = [''basic'' \<mapsto> [\<lparr>ce_id = ''6.1.1'', ce_message = ''m''\<rparr>]], vc_warnings = Map.empty,
       vc_infos = Map.empty, vc_successes = []\<rparr>),
     vl_digest = (\<lambda>_. None), vl_signature = (\<lambda>_ _. None), vl_upstream = id, vl_tests = (\<lambda>_ _. Some 7),
     vl_parse = (\<lambda>_. None), vl_upper = id, vl_lower = id\<rparr>"

theorem profile_detail_consistent_witness:
  "\<exists>d. build_doc_profile_detail sample_validator
       (empty_result\<lparr>rs_failures := [''basic'' \<mapsto> [\<lparr>ce_id = ''6.1.1'', ce_message = ''m''\<rparr>]]\<rparr>) ''basic'' = Some d
     \<and> pd_error_count d = 1 \<and> \<not> pd_passed d"
proof -
  let ?doc = "empty_result\<lparr>rs_failures := [''basic'' \<mapsto> [\<lparr>ce_id = ''6.1.1'', ce_message = ''m''\<rparr>]]\<rparr>"
  obtain d where d: "build_doc_profile_detail sample_validator ?doc ''basic'' = Some d" "pd_error_count d = 1"
    by (simp add: build_doc_profile_detail_def issue_count_def Let_def)
  from profile_detail_consistent [OF d(1)] d show ?thesis by auto
qed

subsection \<open>URLs of validated files\<close>





lemma strip_prefix_append [simp]: "strip_prefix p (p @ r) = Some r"
  by (simp add: strip_prefix_def)


subsection \<open>A complete pass\<close>

















end
