(* ===== verification/Job_Tracking.thy ===== *)
theory Job_Tracking
  imports Trove_Prelude
begin

section \<open>Job status and progress\<close>

text \<open>
  The status of provider jobs: \<open>JobStatus\<close> and \<open>SyncState\<close> of \<open>server/src/models/state.rs\<close>, the
  updates of \<open>AppState\<close> in \<open>server/src/main.rs\<close>, the progress bridge \<open>BlockingProgress\<close> and the
  start and end of a job in \<open>server/src/scheduler/runner.rs\<close>, and the computed fields of
  \<open>server/src/api/sync.rs\<close>. Counters are 64-bit words; times are nanoseconds; the notification of
  WebSocket clients and logging are left out. An update of a domain without a job does nothing.
\<close>

subsection \<open>Phases\<close>

datatype pipeline_phase = Maintenance | Checkout | Discover | SyncPhase | Commit | CleanSelection
  | SelectInputs | ScanHistory | ResolveChanges | CheckRecoveredDownloads | CleanValidationFiles
  | CountValidationFiles | ExtractValidationFiles | CleanResults | Validate | VersionCounts
  | Summary | Report

text \<open>The phases in the order of the enumeration.\<close>

fun phase_index :: "pipeline_phase \<Rightarrow> nat" where
  "phase_index Maintenance = 0" | "phase_index Checkout = 1" | "phase_index Discover = 2"
| "phase_index SyncPhase = 3" | "phase_index Commit = 4" | "phase_index CleanSelection = 5"
| "phase_index SelectInputs = 6" | "phase_index ScanHistory = 7" | "phase_index ResolveChanges = 8"
| "phase_index CheckRecoveredDownloads = 9" | "phase_index CleanValidationFiles = 10"
| "phase_index CountValidationFiles = 11" | "phase_index ExtractValidationFiles = 12"
| "phase_index CleanResults = 13" | "phase_index Validate = 14" | "phase_index VersionCounts = 15"
| "phase_index Summary = 16" | "phase_index Report = 17"

lemma phase_index_inj: "phase_index p = phase_index q \<Longrightarrow> p = q"
  by (cases p; cases q) simp_all

instantiation pipeline_phase :: linorder
begin

definition less_eq_pipeline_phase :: "pipeline_phase \<Rightarrow> pipeline_phase \<Rightarrow> bool" where
  "less_eq_pipeline_phase p q \<longleftrightarrow> phase_index p \<le> phase_index q"

definition less_pipeline_phase :: "pipeline_phase \<Rightarrow> pipeline_phase \<Rightarrow> bool" where
  "less_pipeline_phase p q \<longleftrightarrow> phase_index p < phase_index q"

instance
  by standard (auto simp: less_eq_pipeline_phase_def less_pipeline_phase_def dest: phase_index_inj)

end

subsection \<open>Jobs\<close>

type_synonym u64 = "64 word"

datatype job_phase = JPending | JRunning | JCompleted | JFailed

record job_status =
  jb_status :: job_phase
  jb_started_at :: int
  jb_completed_at :: "int option"
  jb_phase :: "pipeline_phase option"
  jb_documents_synced :: u64
  jb_documents_validated :: u64
  jb_documents_missing :: u64
  jb_documents_total :: u64
  jb_distributions_total :: u64
  jb_distribution_index :: u64
  jb_distribution_documents_current :: u64
  jb_distribution_documents_total :: u64
  jb_phase_current :: u64
  jb_phase_total :: u64
  jb_error :: "string option"
  jb_completed_phases :: "pipeline_phase list"
  jb_last_completed_at :: "int option"
  jb_phase_started_at :: "int option"

definition new_job :: "job_phase \<Rightarrow> int \<Rightarrow> job_status" where
  "new_job st now = \<lparr>jb_status = st, jb_started_at = now, jb_completed_at = None, jb_phase = None,
     jb_documents_synced = 0, jb_documents_validated = 0, jb_documents_missing = 0,
     jb_documents_total = 0, jb_distributions_total = 0, jb_distribution_index = 0,
     jb_distribution_documents_current = 0, jb_distribution_documents_total = 0,
     jb_phase_current = 0, jb_phase_total = 0, jb_error = None, jb_completed_phases = [],
     jb_last_completed_at = None, jb_phase_started_at = None\<rparr>"

type_synonym jobs = "string \<Rightarrow> job_status option"

definition update_job :: "string \<Rightarrow> job_status \<Rightarrow> jobs \<Rightarrow> jobs" where
  "update_job domain status jobs = jobs(domain \<mapsto> status)"

text \<open>\<open>get_mut\<close>: change the job of a domain if there is one.\<close>

definition modify_job :: "string \<Rightarrow> (job_status \<Rightarrow> job_status) \<Rightarrow> jobs \<Rightarrow> jobs" where
  "modify_job domain f jobs = (case jobs domain of None \<Rightarrow> jobs | Some job \<Rightarrow> jobs(domain \<mapsto> f job))"

definition enter_phase :: "int \<Rightarrow> pipeline_phase \<Rightarrow> job_status \<Rightarrow> job_status" where
  "enter_phase now phase job = job\<lparr>
     jb_completed_phases := (case jb_phase job of Some old \<Rightarrow> jb_completed_phases job @ [old]
       | None \<Rightarrow> jb_completed_phases job),
     jb_phase := Some phase, jb_phase_started_at := Some now, jb_documents_total := 0,
     jb_distributions_total := 0, jb_distribution_index := 0,
     jb_distribution_documents_current := 0, jb_distribution_documents_total := 0\<rparr>"

definition phase_work :: "int \<Rightarrow> pipeline_phase option \<Rightarrow> u64 \<Rightarrow> u64 \<Rightarrow> job_status \<Rightarrow> job_status" where
  "phase_work now phase current count job =
     (case phase of Some p \<Rightarrow> if jb_phase job \<noteq> Some p then enter_phase now p job else job | None \<Rightarrow> job)
       \<lparr>jb_phase_current := current, jb_phase_total := count\<rparr>"

definition set_phase_work :: "int \<Rightarrow> string \<Rightarrow> pipeline_phase option \<Rightarrow> u64 \<Rightarrow> u64 \<Rightarrow> jobs \<Rightarrow> jobs" where
  "set_phase_work now domain phase current count = modify_job domain (phase_work now phase current count)"

definition update_job_phase :: "int \<Rightarrow> string \<Rightarrow> pipeline_phase \<Rightarrow> jobs \<Rightarrow> jobs" where
  "update_job_phase now domain phase = set_phase_work now domain (Some phase) 0 0"

definition distribution_started :: "u64 \<Rightarrow> u64 \<Rightarrow> job_status \<Rightarrow> job_status" where
  "distribution_started doc_count distributions_total job =
     (let job1 = (if jb_phase job = Some Discover
        then job\<lparr>jb_completed_phases := jb_completed_phases job @ [Discover], jb_phase := Some SyncPhase\<rparr>
        else job) in
      job1\<lparr>jb_documents_total := jb_documents_total job1 + doc_count,
        jb_distributions_total := distributions_total,
        jb_distribution_index := jb_distribution_index job1 + 1,
        jb_distribution_documents_total := doc_count, jb_distribution_documents_current := 0\<rparr>)"

definition start_distribution :: "string \<Rightarrow> u64 \<Rightarrow> u64 \<Rightarrow> jobs \<Rightarrow> jobs" where
  "start_distribution domain doc_count distributions_total =
     modify_job domain (distribution_started doc_count distributions_total)"

definition set_phase_progress :: "string \<Rightarrow> u64 \<Rightarrow> u64 \<Rightarrow> jobs \<Rightarrow> jobs" where
  "set_phase_progress domain current count =
     modify_job domain (\<lambda>job. job\<lparr>jb_phase_current := current, jb_phase_total := count\<rparr>)"

definition increment_job_synced :: "string \<Rightarrow> jobs \<Rightarrow> jobs" where
  "increment_job_synced domain = modify_job domain (\<lambda>job. job\<lparr>
     jb_documents_synced := jb_documents_synced job + 1,
     jb_distribution_documents_current := jb_distribution_documents_current job + 1\<rparr>)"

definition increment_job_validated :: "string \<Rightarrow> jobs \<Rightarrow> jobs" where
  "increment_job_validated domain = modify_job domain (\<lambda>job. job\<lparr>
     jb_documents_validated := jb_documents_validated job + 1,
     jb_distribution_documents_current := jb_distribution_documents_current job + 1\<rparr>)"

subsection \<open>Progress of blocking work\<close>

record progress_sample =
  sp_phase :: "pipeline_phase option"
  sp_current :: u64
  sp_total :: u64

text \<open>The queue of samples waiting to be published, oldest first.\<close>

definition record_sample :: "progress_sample \<Rightarrow> progress_sample list \<Rightarrow> progress_sample list" where
  "record_sample sample samples = (if samples \<noteq> [] \<and> sp_phase (last samples) = sp_phase sample
     then butlast samples @ [sample] else samples @ [sample])"

definition publish_sample :: "int \<Rightarrow> string \<Rightarrow> progress_sample \<Rightarrow> jobs \<Rightarrow> jobs" where
  "publish_sample now domain s = set_phase_work now domain (sp_phase s) (sp_current s) (sp_total s)"

text \<open>The callback records a sample; the polling loop publishes and drains the queue.\<close>

datatype progress_event = Record progress_sample | Publish

definition progress_step :: "int \<Rightarrow> string \<Rightarrow> progress_event \<Rightarrow> progress_sample list \<times> jobs
    \<Rightarrow> progress_sample list \<times> jobs" where
  "progress_step now domain e st = (case st of (samples, jobs) \<Rightarrow> (case e of
     Record s \<Rightarrow> (record_sample s samples, jobs)
   | Publish \<Rightarrow> ([], fold (publish_sample now domain) samples jobs)))"

text \<open>\<open>BlockingProgress::run\<close>: whatever was published on the way, the rest is published at the end.\<close>

definition run_with_progress :: "int \<Rightarrow> string \<Rightarrow> progress_event list \<Rightarrow> jobs \<Rightarrow> jobs" where
  "run_with_progress now domain events jobs =
     snd (progress_step now domain Publish (fold (progress_step now domain) events ([], jobs)))"

subsection \<open>Start and end of a job\<close>

datatype job_kind = KSync | KRevalidate

definition started_job :: "job_kind \<Rightarrow> int \<Rightarrow> job_status option \<Rightarrow> job_status" where
  "started_job kind now previous = (new_job JRunning now)\<lparr>
     jb_phase := Some (case kind of KSync \<Rightarrow> Maintenance | KRevalidate \<Rightarrow> Checkout),
     jb_last_completed_at := Option.bind previous jb_completed_at, jb_phase_started_at := Some now\<rparr>"

definition completed_job :: "int \<Rightarrow> job_status option \<Rightarrow> job_status" where
  "completed_job now job =
     (let j = (case job of Some j \<Rightarrow> j | None \<Rightarrow> (new_job JCompleted now)\<lparr>jb_completed_at := Some now\<rparr>) in
      j\<lparr>jb_status := JCompleted, jb_completed_at := Some now, jb_phase := None,
        jb_completed_phases := jb_completed_phases j @ (case jb_phase j of Some p \<Rightarrow> [p] | None \<Rightarrow> [])\<rparr>)"

definition failed_job :: "int \<Rightarrow> string \<Rightarrow> job_status option \<Rightarrow> job_status" where
  "failed_job now e job =
     (let j = (case job of Some j \<Rightarrow> j | None \<Rightarrow> (new_job JFailed now)\<lparr>jb_completed_at := Some now\<rparr>) in
      j\<lparr>jb_status := JFailed, jb_completed_at := Some now, jb_error := Some e\<rparr>)"

record sync_state =
  sy_domain :: string
  sy_last_sync :: "int option"
  sy_since_token :: "int option"
  sy_documents_synced :: u64
  sy_documents_validated :: u64
  sy_documents_missing :: u64
  sy_documents_total :: u64

definition sync_state_new :: "string \<Rightarrow> sync_state" where
  "sync_state_new domain = \<lparr>sy_domain = domain, sy_last_sync = None, sy_since_token = None,
     sy_documents_synced = 0, sy_documents_validated = 0, sy_documents_missing = 0, sy_documents_total = 0\<rparr>"

text \<open>The counts of a completed job in the persisted state (\<open>persist_job_counts\<close>).\<close>

definition with_job_counts :: "job_status \<Rightarrow> sync_state \<Rightarrow> sync_state" where
  "with_job_counts job s = s\<lparr>sy_documents_synced := jb_documents_synced job,
     sy_documents_validated := jb_documents_validated job,
     sy_documents_missing := jb_documents_missing job, sy_documents_total := jb_documents_total job\<rparr>"

subsection \<open>Computed fields\<close>

fun format_nat :: "nat \<Rightarrow> string" where
  "format_nat n = (if n < 10 then [char_of (48 + n)] else format_nat (n div 10) @ [char_of (48 + n mod 10)])"

declare format_nat.simps [simp del]

definition format_duration_hms :: "nat \<Rightarrow> bool \<Rightarrow> string" where
  "format_duration_hms total_secs truncate_seconds =
     (let hours = total_secs div 3600; minutes = (total_secs mod 3600) div 60; secs = total_secs mod 60 in
      if hours > 0 then
        (if truncate_seconds then format_nat hours @ ''h '' @ format_nat minutes @ ''m''
         else format_nat hours @ ''h '' @ format_nat minutes @ ''m '' @ format_nat secs @ ''s'')
      else if minutes > 0 then
        (if truncate_seconds then format_nat minutes @ ''m''
         else format_nat minutes @ ''m '' @ format_nat secs @ ''s'')
      else format_nat secs @ ''s'')"

definition format_eta :: "nat \<Rightarrow> string" where
  "format_eta eta_secs = ''~'' @ format_duration_hms eta_secs True"

definition seconds :: "int \<Rightarrow> real" where
  "seconds d = real_of_int d / 1000000000"

definition eta_work :: "job_status \<Rightarrow> (nat \<times> nat) option" where
  "eta_work job = (if jb_phase job = Some SyncPhase
       then Some (unat (jb_documents_synced job), unat (jb_documents_total job))
     else if jb_phase job = Some Validate
       then Some (unat (jb_documents_validated job), unat (jb_documents_total job))
     else if jb_phase_total job > 0 then Some (unat (jb_phase_current job), unat (jb_phase_total job))
     else None)"

text \<open>The documents still expected; the subtractions saturate or are guarded.\<close>

definition eta_remaining :: "job_status \<Rightarrow> nat \<Rightarrow> nat \<Rightarrow> real" where
  "eta_remaining job current count =
     real (count - current)
     + (if jb_phase job = Some SyncPhase \<and> jb_distributions_total job > 0
          \<and> jb_distribution_index job < jb_distributions_total job
        then real (unat (jb_distributions_total job - jb_distribution_index job))
          * (real count / real (max (unat (jb_distribution_index job)) 1))
        else 0)"

text \<open>\<open>as u64\<close> of a non-negative float truncates and saturates.\<close>

definition real_as_u64 :: "real \<Rightarrow> nat" where
  "real_as_u64 x = min (nat \<lfloor>x\<rfloor>) (2 ^ 64 - 1)"

definition eta_seconds :: "job_status \<Rightarrow> int \<Rightarrow> nat option" where
  "eta_seconds job now = Option.bind (jb_phase_started_at job) (\<lambda>phase_start.
     let elapsed = seconds (now - phase_start) in
     if elapsed \<le> 0 then None
     else Option.bind (eta_work job) (\<lambda>(current, count).
       if current = 0 \<or> count = 0 then None
       else Some (real_as_u64 (eta_remaining job current count / (real current / elapsed)))))"

definition compute_eta :: "job_status \<Rightarrow> int \<Rightarrow> string option" where
  "compute_eta job now = map_option format_eta (eta_seconds job now)"

record sync_status_entry =
  se_job :: job_status
  se_duration_seconds :: "real option"
  se_phase_elapsed_seconds :: "real option"
  se_eta :: "string option"
  se_last_run :: "int option"

definition status_entry :: "int \<Rightarrow> job_status \<Rightarrow> sync_status_entry" where
  "status_entry now job = \<lparr>se_job = job,
     se_duration_seconds = (if jb_status job \<in> {JRunning, JPending} then Some (seconds (now - jb_started_at job))
       else map_option (\<lambda>finish. seconds (finish - jb_started_at job)) (jb_completed_at job)),
     se_phase_elapsed_seconds = (if jb_status job = JRunning
       then map_option (\<lambda>start. seconds (now - start)) (jb_phase_started_at job) else None),
     se_eta = (if jb_status job = JRunning then compute_eta job now else None),
     se_last_run = (if jb_status job \<in> {JCompleted, JFailed} then jb_completed_at job
       else jb_last_completed_at job)\<rparr>"

text \<open>Jobs, and a pending entry for every enabled source without one.\<close>

definition build_status_entries :: "int \<Rightarrow> (string \<Rightarrow> bool) \<Rightarrow> jobs \<Rightarrow> string \<Rightarrow> sync_status_entry option" where
  "build_status_entries now enabled_source jobs domain = (case jobs domain of
     Some job \<Rightarrow> Some (status_entry now job)
   | None \<Rightarrow> if enabled_source domain then Some \<lparr>se_job = new_job JPending now, se_duration_seconds = None,
       se_phase_elapsed_seconds = None, se_eta = None, se_last_run = None\<rparr> else None)"

subsection \<open>The scheduler\<close>

text \<open>
  What the running jobs and requests do to the shared state, as a transition per event. The lock of
  a provider is held from the start to the end of its job; a start finding it held is skipped. A
  started distribution is reported by a detached task, so that update may come at any time, the
  others come from the job. Requests for a full synchronization clear the token and then start.
\<close>

datatype job_work = WPhase int "pipeline_phase option" u64 u64 | WProgress u64 u64 | WSynced | WValidated
  | WMissing u64 | WTotal u64

definition apply_work :: "string \<Rightarrow> job_work \<Rightarrow> jobs \<Rightarrow> jobs" where
  "apply_work domain w = (case w of
     WPhase now p c n \<Rightarrow> set_phase_work now domain p c n
   | WProgress c n \<Rightarrow> set_phase_progress domain c n
   | WSynced \<Rightarrow> increment_job_synced domain
   | WValidated \<Rightarrow> increment_job_validated domain
   | WMissing n \<Rightarrow> modify_job domain (\<lambda>job. job\<lparr>jb_documents_missing := n\<rparr>)
   | WTotal n \<Rightarrow> modify_job domain (\<lambda>job. job\<lparr>jb_documents_total := n\<rparr>))"

record scheduler =
  sc_locks :: "string \<Rightarrow> job_kind option"
  sc_jobs :: jobs
  sc_sync :: "string \<Rightarrow> sync_state"
  sc_hooks :: "(string \<times> job_kind \<times> bool) list"

definition scheduler_start :: scheduler where
  "scheduler_start = \<lparr>sc_locks = Map.empty, sc_jobs = Map.empty, sc_sync = sync_state_new, sc_hooks = []\<rparr>"

definition begin_job :: "string \<Rightarrow> job_kind \<Rightarrow> int \<Rightarrow> scheduler \<Rightarrow> scheduler" where
  "begin_job domain kind now s = (if sc_locks s domain \<noteq> None then s
     else s\<lparr>sc_locks := (sc_locks s)(domain \<mapsto> kind),
            sc_jobs := update_job domain (started_job kind now (sc_jobs s domain)) (sc_jobs s)\<rparr>)"

definition finish_job :: "string \<Rightarrow> int \<Rightarrow> string option \<Rightarrow> scheduler \<Rightarrow> scheduler" where
  "finish_job domain now error s = (case sc_locks s domain of None \<Rightarrow> s
     | Some kind \<Rightarrow>
         (let job = (case error of None \<Rightarrow> completed_job now (sc_jobs s domain)
                | Some e \<Rightarrow> failed_job now e (sc_jobs s domain)) in
          s\<lparr>sc_locks := (sc_locks s)(domain := None), sc_jobs := update_job domain job (sc_jobs s),
            sc_sync := (if error = None
              then (sc_sync s)(domain := with_job_counts job (sc_sync s domain)) else sc_sync s),
            sc_hooks := sc_hooks s @ [(domain, kind, error = None)]\<rparr>))"

text \<open>The token is advanced at the end of a successful pipeline, before the job is completed.\<close>

definition advance_token :: "string \<Rightarrow> int \<Rightarrow> int \<Rightarrow> scheduler \<Rightarrow> scheduler" where
  "advance_token domain now started_at s = s\<lparr>sc_sync := (sc_sync s)(domain := (sc_sync s domain)
     \<lparr>sy_last_sync := Some now, sy_since_token := Some started_at\<rparr>)\<rparr>"

definition trigger_full :: "string \<Rightarrow> int \<Rightarrow> scheduler \<Rightarrow> scheduler" where
  "trigger_full domain now s = begin_job domain KSync now
     (s\<lparr>sc_sync := (sc_sync s)(domain := (sc_sync s domain)\<lparr>sy_since_token := None\<rparr>)\<rparr>)"

inductive sched_step :: "scheduler \<Rightarrow> scheduler \<Rightarrow> bool" where
  start: "sched_step s (begin_job domain kind now s)"
| full: "sched_step s (trigger_full domain now s)"
| work: "sc_locks s domain \<noteq> None \<Longrightarrow> sched_step s (s\<lparr>sc_jobs := apply_work domain w (sc_jobs s)\<rparr>)"
| distribution: "sched_step s (s\<lparr>sc_jobs := start_distribution domain n k (sc_jobs s)\<rparr>)"
| token: "sc_locks s domain = Some KSync \<Longrightarrow> sched_step s (advance_token domain now started_at s)"
| finish: "sc_locks s domain \<noteq> None \<Longrightarrow> sched_step s (finish_job domain now error s)"

inductive_cases sched_stepE: "sched_step s t"

inductive sched_reachable :: "scheduler \<Rightarrow> bool" where
  initial: "sched_reachable scheduler_start"
| next_step: "sched_reachable s \<Longrightarrow> sched_step s t \<Longrightarrow> sched_reachable t"

end
