(* ===== verification/Provider_Programs.thy ===== *)
theory Provider_Programs
  imports Trove_Prelude
begin

section \<open>Fallible programs on a state\<close>

text \<open>
  The pipeline of a provider is a sequence of fallible steps on persistent state: a step that fails
  keeps what was written before it. A program maps a state to the resulting state with an error or
  a value; \<open>None\<close> is a run that does not end.
\<close>

type_synonym ('s, 'a) prog = "'s \<Rightarrow> ((string \<times> 's) + ('a \<times> 's)) option"

definition returning :: "'a \<Rightarrow> ('s, 'a) prog" where
  "returning x s = Some (Inr (x, s))"

definition failing :: "string \<Rightarrow> ('s, 'a) prog" where
  "failing e s = Some (Inl (e, s))"

definition reading :: "('s \<Rightarrow> 'a) \<Rightarrow> ('s, 'a) prog" where
  "reading f s = Some (Inr (f s, s))"

definition updating :: "('s \<Rightarrow> 's) \<Rightarrow> ('s, unit) prog" where
  "updating f s = Some (Inr ((), f s))"

text \<open>\<open>?\<close> on a result.\<close>

definition lifting :: "string + 'a \<Rightarrow> ('s, 'a) prog" where
  "lifting r = (case r of Inl e \<Rightarrow> failing e | Inr x \<Rightarrow> returning x)"

definition and_then :: "('s, 'a) prog \<Rightarrow> ('a \<Rightarrow> ('s, 'b) prog) \<Rightarrow> ('s, 'b) prog" where
  "and_then p f s = (case p s of None \<Rightarrow> None
     | Some (Inl x) \<Rightarrow> Some (Inl x) | Some (Inr (x, s')) \<Rightarrow> f x s')"

text \<open>A result computed from the state by code that may not end.\<close>

definition computing :: "('s \<Rightarrow> (string + 'a) option) \<Rightarrow> ('s, 'a) prog" where
  "computing f s = map_option (\<lambda>r. case r of Inl e \<Rightarrow> Inl (e, s) | Inr x \<Rightarrow> Inr (x, s)) (f s)"

text \<open>A cursor loop whose body is a program; \<open>body\<close> must end.\<close>

definition paging :: "('s \<Rightarrow> 'k \<Rightarrow> 'k list) \<Rightarrow> ('k list \<Rightarrow> 's \<Rightarrow> (string \<times> 's) + 's) \<Rightarrow> 'k \<Rightarrow> ('s, unit) prog" where
  "paging batch body c s = map_option (\<lambda>r. case r of Inl x \<Rightarrow> Inl x | Inr s' \<Rightarrow> Inr ((), s'))
     (page_loop (batch s) body c s)"

lemmas prog_defs = returning_def failing_def reading_def updating_def lifting_def and_then_def computing_def

lemma and_then_simps [simp]:
  "and_then (returning x) f = f x" "and_then (failing e) f = failing e"
  by (simp_all add: fun_eq_iff prog_defs)

lemma and_then_assoc: "and_then (and_then p f) g = and_then p (\<lambda>x. and_then (f x) g)"
  by (simp add: fun_eq_iff and_then_def split: option.split sum.split prod.split)

subsection \<open>Triples\<close>

text \<open>
  Partial correctness with a postcondition for each way out: \<open>Q\<close> for a value, \<open>E\<close> for an error.
\<close>

definition triple :: "('s \<Rightarrow> bool) \<Rightarrow> ('s, 'a) prog \<Rightarrow> ('a \<Rightarrow> 's \<Rightarrow> bool) \<Rightarrow> ('s \<Rightarrow> bool) \<Rightarrow> bool" where
  "triple P p Q E \<longleftrightarrow> (\<forall>s. P s \<longrightarrow> (case p s of None \<Rightarrow> True
     | Some (Inl (e, s')) \<Rightarrow> E s' | Some (Inr (x, s')) \<Rightarrow> Q x s'))"

lemma tripleI:
  assumes "\<And>s e s'. P s \<Longrightarrow> p s = Some (Inl (e, s')) \<Longrightarrow> E s'"
    and "\<And>s x s'. P s \<Longrightarrow> p s = Some (Inr (x, s')) \<Longrightarrow> Q x s'"
  shows "triple P p Q E"
  using assms by (auto simp: triple_def split: option.split sum.split)

lemma tripleD:
  "triple P p Q E \<Longrightarrow> P s \<Longrightarrow> p s = Some (Inr (x, s')) \<Longrightarrow> Q x s'"
  "triple P p Q E \<Longrightarrow> P s \<Longrightarrow> p s = Some (Inl (e, s')) \<Longrightarrow> E s'"
  by (auto simp: triple_def)

lemma triple_weaken:
  "triple P p Q E \<Longrightarrow> (\<And>s. P' s \<Longrightarrow> P s) \<Longrightarrow> (\<And>x s. Q x s \<Longrightarrow> Q' x s) \<Longrightarrow> (\<And>s. E s \<Longrightarrow> E' s)
    \<Longrightarrow> triple P' p Q' E'"
  unfolding triple_def by (fastforce split: option.splits sum.splits)

lemma triple_then:
  assumes p: "triple P p Q E" and f: "\<And>x. triple (Q x) (f x) R E"
  shows "triple P (and_then p f) R E"
proof (rule tripleI)
  fix s e s'
  assume P: "P s" and r: "and_then p f s = Some (Inl (e, s'))"
  show "E s'"
  proof (cases "p s")
    case (Some q)
    then show ?thesis
      using r tripleD [OF p P] tripleD [OF f] by (cases q) (auto simp: and_then_def)
  qed (use r in \<open>simp add: and_then_def\<close>)
next
  fix s x s'
  assume P: "P s" and r: "and_then p f s = Some (Inr (x, s'))"
  show "R x s'"
  proof (cases "p s")
    case (Some q)
    then show ?thesis
      using r tripleD [OF p P] tripleD [OF f] by (cases q) (auto simp: and_then_def)
  qed (use r in \<open>simp add: and_then_def\<close>)
qed

lemma triple_returning [simp]: "triple P (returning x) Q E \<longleftrightarrow> (\<forall>s. P s \<longrightarrow> Q x s)"
  by (simp add: triple_def prog_defs)

lemma triple_failing [simp]: "triple P (failing e) Q E \<longleftrightarrow> (\<forall>s. P s \<longrightarrow> E s)"
  by (simp add: triple_def prog_defs)

lemma triple_reading [simp]: "triple P (reading f) Q E \<longleftrightarrow> (\<forall>s. P s \<longrightarrow> Q (f s) s)"
  by (simp add: triple_def prog_defs)

lemma triple_updating [simp]: "triple P (updating g) Q E \<longleftrightarrow> (\<forall>s. P s \<longrightarrow> Q () (g s))"
  by (simp add: triple_def prog_defs)

lemma triple_lifting: "(\<And>s. P s \<Longrightarrow> E s) \<Longrightarrow> (\<And>x s. r = Inr x \<Longrightarrow> P s \<Longrightarrow> Q x s) \<Longrightarrow> triple P (lifting r) Q E"
  by (cases r) (simp_all add: lifting_def)

lemma triple_computing:
  assumes "\<And>s. P s \<Longrightarrow> E s" and "\<And>x s. f s = Some (Inr x) \<Longrightarrow> P s \<Longrightarrow> Q x s"
  shows "triple P (computing f) Q E"
  unfolding triple_def computing_def using assms by (auto split: option.split sum.split)

text \<open>A step that fails before it starts, if an error is given, and else does its work.\<close>

definition unless :: "string option \<Rightarrow> ('s, 'a) prog \<Rightarrow> ('s, 'a) prog" where
  "unless err p = (case err of Some e \<Rightarrow> failing e | None \<Rightarrow> p)"

lemma triple_unless: "triple P p Q E \<Longrightarrow> (\<And>s. P s \<Longrightarrow> E s) \<Longrightarrow> triple P (unless err p) Q E"
  by (simp add: unless_def split: option.split)

lemma triple_if: "(b \<Longrightarrow> triple P p Q E) \<Longrightarrow> (\<not> b \<Longrightarrow> triple P q Q E) \<Longrightarrow> triple P (if b then p else q) Q E"
  by simp

text \<open>Paging keeps what every page keeps.\<close>

lemma page_loop_inv:
  assumes step: "\<And>ks s. I s \<Longrightarrow> (case body ks s of Inl x \<Rightarrow> E x | Inr s' \<Rightarrow> I s')"
    and run: "page_loop batch body c s = Some r" and start: "I s"
  shows "case r of Inl x \<Rightarrow> E x | Inr s' \<Rightarrow> I s'"
proof -
  have "bo = body \<longrightarrow> I s \<longrightarrow> (case r of Inl x \<Rightarrow> E x | Inr s' \<Rightarrow> I s')"
    if "page_loop ba bo c s = Some r" for ba bo c s r
    using that
  proof (rule page_loop.raw_induct [rotated])
    fix f ba bo c s r
    assume IH: "\<And>ba bo c s r. f ba bo c s = Some r \<Longrightarrow>
        bo = body \<longrightarrow> I s \<longrightarrow> (case r of Inl x \<Rightarrow> E x | Inr s' \<Rightarrow> I s')"
      and r: "(case ba c of [] \<Rightarrow> Some (Inr s) | p # ps \<Rightarrow> (case bo (p # ps) s of Inl e \<Rightarrow> Some (Inl e)
        | Inr s' \<Rightarrow> f ba bo (last (p # ps)) s')) = Some r"
    show "bo = body \<longrightarrow> I s \<longrightarrow> (case r of Inl x \<Rightarrow> E x | Inr s' \<Rightarrow> I s')"
    proof (intro impI)
      assume b: "bo = body" and i: "I s"
      show "case r of Inl x \<Rightarrow> E x | Inr s' \<Rightarrow> I s'"
      proof (cases "ba c")
        case Nil
        then show ?thesis using r i by auto
      next
        case (Cons p ps)
        show ?thesis
        proof (cases "body (p # ps) s")
          case (Inl x)
          then show ?thesis using r step [OF i, of "p # ps"] Cons b by auto
        next
          case (Inr s')
          then have "f ba body (last (p # ps)) s' = Some r" "I s'"
            using r step [OF i, of "p # ps"] Cons b by (simp_all del: last.simps)
          then show ?thesis using IH by blast
        qed
      qed
    qed
  qed
  then show ?thesis using run start by blast
qed

lemma triple_paging:
  assumes "\<And>ks s. I s \<Longrightarrow> (case body ks s of Inl (e, s') \<Rightarrow> E s' | Inr s' \<Rightarrow> I s')"
  shows "triple I (paging batch body c) (\<lambda>_. I) E"
proof -
  have step: "case body ks s of Inl x \<Rightarrow> E (snd x) | Inr s' \<Rightarrow> I s'" if "I s" for ks s
    using assms [OF that, of ks] by (auto split: sum.splits prod.splits)
  show ?thesis
    using page_loop_inv [where I = I and body = body and E = "\<lambda>x. E (snd x)", OF step]
    by (intro tripleI) (fastforce simp: paging_def split: sum.splits)+
qed

end
