(* ===== verification/Provider_Metrics.thy ===== *)
theory Provider_Metrics
  imports Document_Summary
begin

section \<open>The metrics history of a provider\<close>

text \<open>
  \<open>server/src/models/metrics.rs\<close>, the entry that \<open>server/src/pipeline/report.rs\<close> appends after a
  processing pass, and the selection of trend baselines in \<open>server/src/storage/overview.rs\<close>. Dates
  are \<open>YYYY-MM-DD\<close> strings, so their order is the order of the days.
\<close>

record metrics_profile_entry =
  mp_valid :: nat
  mp_invalid :: nat
  mp_pass_rate :: real

record metrics_signature_entry =
  mg_valid :: nat
  mg_invalid :: nat
  mg_missing :: nat

record metrics_entry =
  me_checks :: "check_summary option"
  me_date :: string
  me_document_count :: nat
  me_basic :: "metrics_profile_entry option"
  me_extended :: "metrics_profile_entry option"
  me_full :: "metrics_profile_entry option"
  me_signatures :: "metrics_signature_entry option"
  me_retrieval_errors :: nat

record metrics_series =
  mt_provider :: string
  mt_entries :: "metrics_entry list"

definition metrics_new :: "string \<Rightarrow> metrics_series" where
  "metrics_new provider = \<lparr>mt_provider = provider, mt_entries = []\<rparr>"

definition metrics_trim :: "nat \<Rightarrow> metrics_series \<Rightarrow> metrics_series" where
  "metrics_trim max_entries m = (if length (mt_entries m) > max_entries
     then m\<lparr>mt_entries := drop (length (mt_entries m) - max_entries) (mt_entries m)\<rparr> else m)"

definition metrics_append :: "metrics_entry \<Rightarrow> metrics_series \<Rightarrow> metrics_series" where
  "metrics_append entry m = metrics_trim 365 (m\<lparr>mt_entries := mt_entries m @ [entry]\<rparr>)"

definition metrics_profile :: "profile_summary \<Rightarrow> metrics_profile_entry" where
  "metrics_profile p = \<lparr>mp_valid = psum_valid p, mp_invalid = psum_invalid p, mp_pass_rate = psum_pass_rate p\<rparr>"

definition metrics_entry_of :: "string \<Rightarrow> provider_summary \<Rightarrow> metrics_entry" where
  "metrics_entry_of date summary = \<lparr>me_checks = sm_checks summary, me_date = date,
     me_document_count = sm_document_count summary,
     me_basic = map_option metrics_profile (pr_basic (sm_profiles summary)),
     me_extended = map_option metrics_profile (pr_extended (sm_profiles summary)),
     me_full = map_option metrics_profile (pr_full (sm_profiles summary)),
     me_signatures = map_option (\<lambda>s. \<lparr>mg_valid = ss_valid s, mg_invalid = ss_invalid s,
       mg_missing = ss_missing s\<rparr>) (sm_signatures summary),
     me_retrieval_errors = sm_retrieval_errors summary\<rparr>"

text \<open>The stored series after a report; without a summary nothing is written.\<close>

definition generate_report :: "string \<Rightarrow> string \<Rightarrow> provider_summary option \<Rightarrow> metrics_series option
    \<Rightarrow> metrics_series option" where
  "generate_report domain date summary metrics = (case summary of None \<Rightarrow> metrics
     | Some s \<Rightarrow> Some (metrics_append (metrics_entry_of date s)
         (case metrics of Some m \<Rightarrow> m | None \<Rightarrow> metrics_new domain)))"

subsection \<open>Trend baselines\<close>

record trend_baselines =
  tb_week :: "metrics_entry option"
  tb_month :: "metrics_entry option"

text \<open>\<open>cutoff\<close> formats the day a number of days before today; it is \<open>None\<close> outside the calendar.\<close>

definition baseline :: "metrics_series \<Rightarrow> (nat \<Rightarrow> string option) \<Rightarrow> nat \<Rightarrow> metrics_entry option" where
  "baseline series cutoff days = Option.bind (cutoff days) (\<lambda>c.
     find (\<lambda>e. me_date e \<le> c) (rev (mt_entries series)))"

text \<open>The metrics files in directory order, \<open>None\<close> for one that cannot be read.\<close>

definition load_baselines :: "metrics_series option list \<Rightarrow> (nat \<Rightarrow> string option) \<Rightarrow> string \<Rightarrow> trend_baselines option" where
  "load_baselines files cutoff = map_of (rev (map (\<lambda>series.
     (mt_provider series, \<lparr>tb_week = baseline series cutoff 7, tb_month = baseline series cutoff 30\<rparr>))
     (List.map_filter (\<lambda>f. f) files)))"

subsection \<open>Facts\<close>

definition dates_sorted :: "metrics_series \<Rightarrow> bool" where
  "dates_sorted m \<longleftrightarrow> sorted (map me_date (mt_entries m))"

lemma append_entries: "mt_entries (metrics_append e m) =
    drop (Suc (length (mt_entries m)) - 365) (mt_entries m @ [e])"
  by (simp add: metrics_append_def metrics_trim_def)

lemma metrics_append_bound:
  "length (mt_entries (metrics_append e m)) = min 365 (Suc (length (mt_entries m)))"
  "last (mt_entries (metrics_append e m)) = e" "mt_provider (metrics_append e m) = mt_provider m"
  by (auto simp: append_entries, simp add: metrics_append_def metrics_trim_def)

lemma sorted_drop_append:
  "sorted (map f xs) \<Longrightarrow> \<forall>x \<in> set xs. f x \<le> f y \<Longrightarrow> sorted (map f (drop n (xs @ [y])))"
  unfolding drop_map [symmetric] by (rule sorted_wrt_drop) (simp add: sorted_append)

lemma metrics_append_sorted:
  "dates_sorted m \<Longrightarrow> \<forall>e' \<in> set (mt_entries m). me_date e' \<le> me_date e \<Longrightarrow> dates_sorted (metrics_append e m)"
  unfolding dates_sorted_def append_entries by (rule sorted_drop_append) auto

lemma find_rev_last:
  "find P (rev xs) = Some x \<Longrightarrow> \<exists>ys zs. xs = ys @ x # zs \<and> P x \<and> (\<forall>z \<in> set zs. \<not> P z)"
proof (induction xs rule: rev_induct)
  case (snoc y xs)
  show ?case
  proof (cases "P y")
    case True
    then have "x = y" using snoc.prems by simp
    then show ?thesis using True by (intro exI [of _ xs] exI [of _ "[]"]) simp
  next
    case False
    then obtain ys zs where "xs = ys @ x # zs" "P x" "\<forall>z \<in> set zs. \<not> P z"
      using snoc by auto
    then show ?thesis using False by (intro exI [of _ ys] exI [of _ "zs @ [y]"]) auto
  qed
qed simp

text \<open>A baseline is old enough, and no entry of a later day is.\<close>

lemma baseline_latest:
  assumes "dates_sorted m" "baseline m cutoff days = Some e" "cutoff days = Some c"
  shows "e \<in> set (mt_entries m) \<and> me_date e \<le> c \<and> (\<forall>e' \<in> set (mt_entries m). me_date e' \<le> c \<longrightarrow> me_date e' \<le> me_date e)"
proof -
  obtain ys zs where s: "mt_entries m = ys @ e # zs" "me_date e \<le> c" "\<forall>z \<in> set zs. \<not> me_date z \<le> c"
    using assms(2,3) find_rev_last [of "\<lambda>e. me_date e \<le> c" "mt_entries m" e] by (auto simp: baseline_def)
  then have "\<forall>y \<in> set ys. me_date y \<le> me_date e"
    using assms(1) by (simp add: dates_sorted_def sorted_append)
  then show ?thesis using s by auto
qed

lemma baseline_none:
  "baseline m cutoff days = None \<longleftrightarrow> (\<forall>c. cutoff days = Some c \<longrightarrow> (\<forall>e \<in> set (mt_entries m). c < me_date e))"
  by (cases "cutoff days") (auto simp: baseline_def find_None not_le)

end
