(* ===== verification/Provider_Store.thy ===== *)
theory Provider_Store
  imports Provider_Metrics Json_Content Job_Tracking Git_Worktree
begin

section \<open>The persistent state of one provider\<close>

text \<open>
  What \<open>Storage\<close> (\<open>server/src/storage/mod.rs\<close>) keeps for one provider: its database, its bare Git
  repository, the files \<open>summary.json\<close>, \<open>distributions.json\<close>, \<open>sync.json\<close>,
  \<open>distribution-errors.json\<close> and its metrics file, an absent file being \<open>None\<close>; and the job statuses
  of \<open>AppState\<close>. The database has been created, files that exist can be parsed.
\<close>

record health_entry =
  dh_label :: string
  dh_kind :: string
  dh_url :: string
  dh_tlp_labels :: "string list"
  dh_document_count :: nat
  dh_check_issues :: nat
  dh_skipped :: bool
  dh_distribution_error :: "string option"
  dh_basic_pass_rate :: "real option"
  dh_extended_pass_rate :: "real option"
  dh_full_pass_rate :: "real option"

record provider_store =
  st_db :: provider_db
  st_repo :: "git_repo option"
  st_summary :: "provider_summary option"
  st_metrics :: "metrics_series option"
  st_sync :: "sync_state option"
  st_dist_errors :: "retrieval_failure list option"
  st_health :: "health_entry list option"
  st_jobs :: jobs

subsection \<open>Files\<close>

definition load_sync_state :: "string \<Rightarrow> provider_store \<Rightarrow> sync_state" where
  "load_sync_state domain s = (case st_sync s of Some x \<Rightarrow> x | None \<Rightarrow> sync_state_new domain)"

definition save_sync_state :: "sync_state \<Rightarrow> provider_store \<Rightarrow> provider_store" where
  "save_sync_state x s = s\<lparr>st_sync := Some x\<rparr>"

definition load_distribution_errors :: "provider_store \<Rightarrow> retrieval_failure list" where
  "load_distribution_errors s = (case st_dist_errors s of Some es \<Rightarrow> es | None \<Rightarrow> [])"

definition save_distribution_errors :: "retrieval_failure list \<Rightarrow> provider_store \<Rightarrow> provider_store" where
  "save_distribution_errors es s = s\<lparr>st_dist_errors := Some es\<rparr>"

definition load_metrics :: "string \<Rightarrow> provider_store \<Rightarrow> metrics_series" where
  "load_metrics domain s = (case st_metrics s of Some m \<Rightarrow> m | None \<Rightarrow> metrics_new domain)"

text \<open>
  \<open>refresh_summary\<close>: rebuild the aggregates, keeping the time of validation and the note.
\<close>

definition refresh_summary :: "string \<Rightarrow> int \<Rightarrow> provider_store \<Rightarrow> string + provider_store" where
  "refresh_summary domain now s = (case st_summary s of
     None \<Rightarrow> Inl (''No cached summary for '' @ domain)
   | Some previous \<Rightarrow> Inr (s\<lparr>st_summary := Some ((build_summary_from_db (st_db s) domain now)
       \<lparr>sm_validated_at := sm_validated_at previous, sm_note := sm_note previous\<rparr>)\<rparr>))"

subsection \<open>Distribution health\<close>

definition health_row :: "provider_db \<Rightarrow> retrieval_failure list \<Rightarrow> string list \<Rightarrow> distribution_entry \<Rightarrow> health_entry" where
  "health_row db dist_errors skip_directories entry =
     (case distribution_health db (de_url entry) of (n, k, basic, extended, full) \<Rightarrow>
       \<lparr>dh_label = de_label entry, dh_kind = de_kind entry, dh_url = de_url entry,
        dh_tlp_labels = de_tlp_labels entry, dh_document_count = n,
        dh_check_issues = k,
        dh_skipped = (de_kind entry = ''directory'' \<and> de_url entry \<in> set skip_directories),
        dh_distribution_error = map_option rf_error (find (\<lambda>e. rf_url e = de_url entry) dist_errors),
        dh_basic_pass_rate = basic, dh_extended_pass_rate = extended, dh_full_pass_rate = full\<rparr>)"

text \<open>
  \<open>mv_upper\<close>, \<open>mv_url_path\<close> and \<open>mv_parse\<close> are \<open>str::to_uppercase\<close>, the path of a parsed URL and
  the JSON parser.
\<close>

record metadata_env =
  mv_upper :: "string \<Rightarrow> string"
  mv_url_path :: "string \<Rightarrow> string option"
  mv_parse :: "string \<Rightarrow> json option"

fun worktree_error_text :: "worktree_error \<Rightarrow> string" where
  "worktree_error_text InvalidHead = ''Provider repository HEAD must point to a local branch''"
| "worktree_error_text (BranchChanged branch) =
     ''Provider branch '' @ branch @ '' changed during sync; refusing to overwrite it''"
| "worktree_error_text (WorktreeFailed e) = e"

definition metadata_distributions :: "json \<Rightarrow> json list" where
  "metadata_distributions v = (case Option.bind (jget ''distributions'' v) as_array of
     None \<Rightarrow> [] | Some dist_array \<Rightarrow> dist_array)"

text \<open>From the metadata of the committed head.\<close>

definition compute_distribution_health :: "metadata_env \<Rightarrow> string list \<Rightarrow> provider_store
    \<Rightarrow> string + health_entry list" where
  "compute_distribution_health env skip_directories s = (case st_repo s of
     None \<Rightarrow> Inr []
   | Some repo \<Rightarrow> (case with_head_blob repo ''metadata/provider-metadata.json'' (mv_parse env) of
       Inl e \<Rightarrow> Inl (worktree_error_text e)
     | Inr None \<Rightarrow> Inr []
     | Inr (Some None) \<Rightarrow> Inl ''invalid JSON''
     | Inr (Some (Some v)) \<Rightarrow> Inr (map (health_row (st_db s) (load_distribution_errors s) skip_directories)
         (extract_distribution_entries (mv_upper env) (mv_url_path env) (metadata_distributions v)))))"

definition refresh_distribution_health :: "metadata_env \<Rightarrow> provider_store
    \<Rightarrow> string + (health_entry list \<times> provider_store)" where
  "refresh_distribution_health env s =
     map_sum (\<lambda>e. e) (\<lambda>d. (d, s\<lparr>st_health := Some d\<rparr>)) (compute_distribution_health env [] s)"

text \<open>The health shown to clients: cached, with the skipping of directories from the current source.\<close>

definition with_skipped :: "string list \<Rightarrow> health_entry \<Rightarrow> health_entry" where
  "with_skipped skip_directories d =
     d\<lparr>dh_skipped := (dh_kind d = ''directory'' \<and> dh_url d \<in> set skip_directories)\<rparr>"

definition cached_distribution_health :: "metadata_env \<Rightarrow> string list \<Rightarrow> provider_store
    \<Rightarrow> string + (health_entry list \<times> provider_store)" where
  "cached_distribution_health env skip_directories s =
     map_sum (\<lambda>e. e) (\<lambda>(d, s'). (map (with_skipped skip_directories) d, s'))
       (case st_health s of Some d \<Rightarrow> Inr (d, s) | None \<Rightarrow> refresh_distribution_health env s)"

subsection \<open>The detail view\<close>

record provider_detail =
  pt_summary :: provider_summary
  pt_metrics :: "metrics_series option"
  pt_history :: "commit_info list"
  pt_distributions :: "health_entry list"
  pt_note :: "string option"

definition provider_history :: "provider_store \<Rightarrow> commit_info list option" where
  "provider_history s = (let runs = load_sync_runs (st_db s) 50 in if runs = [] then None else Some runs)"

definition provider_detail :: "metadata_env \<Rightarrow> string \<Rightarrow> string list \<Rightarrow> provider_store
    \<Rightarrow> provider_detail option" where
  "provider_detail env domain skip_directories s = map_option (\<lambda>summary.
     \<lparr>pt_summary = summary, pt_metrics = Some (load_metrics domain s),
      pt_history = (case provider_history s of Some h \<Rightarrow> h | None \<Rightarrow> []),
      pt_distributions = (case cached_distribution_health env skip_directories s of
        Inl _ \<Rightarrow> [] | Inr (d, _) \<Rightarrow> d), pt_note = None\<rparr>) (st_summary s)"

subsection \<open>Facts\<close>

text \<open>Reading the cached health gives what computing it for the current source would give.\<close>

lemma cached_health_current:
  assumes "refresh_distribution_health env s = Inr (d, s')"
  shows "compute_distribution_health env skip s = Inr (map (with_skipped skip) d)
    \<and> cached_distribution_health env skip s' = Inr (map (with_skipped skip) d, s')"
proof -
  have row: "with_skipped skip (health_row db es [] e) = health_row db es skip e" for db es e
    by (cases "distribution_health db (de_url e)") (simp add: health_row_def with_skipped_def)
  have d: "compute_distribution_health env [] s = Inr d" "s' = s\<lparr>st_health := Some d\<rparr>"
    using assms by (auto simp: refresh_distribution_health_def map_sum_def split: sum.splits)
  then have "compute_distribution_health env skip s = Inr (map (with_skipped skip) d)"
    by (auto simp: compute_distribution_health_def row split: option.splits sum.splits)
  then show ?thesis using d by (simp add: cached_distribution_health_def)
qed

end
