(* ===== verification/Download_Store.thy ===== *)
theory Download_Store
  imports Git_Worktree Distribution_Membership Json_Content Job_Tracking
begin

section \<open>Storing a download\<close>

text \<open>
  \<open>server/src/pipeline/store.rs\<close> (the visitor that writes advisories, sidecars, metadata and keys
  into the worktree) and the callbacks of \<open>sync_provider\<close> in \<open>server/src/pipeline/sync.rs\<close>. The
  worktree is a directory tree with the file operations of the standard library; paths are relative
  to its root, without empty components. \<open>csaf_walker\<close> decides which callback comes when: a walk
  is the sequence of its calls. \<open>store_document\<close> of \<open>walker_common\<close>, zstd and the JSON
  serializer are the fields of \<open>download_lib\<close>.
\<close>

subsection \<open>The directory\<close>

record scratch_dir =
  sd_files :: "scratch_file list"
  sd_dirs :: "string list"

datatype io_error = NotFound | AlreadyExists | OtherIo string

fun io_text :: "io_error \<Rightarrow> string" where
  "io_text NotFound = ''entity not found''"
| "io_text AlreadyExists = ''entity already exists''"
| "io_text (OtherIo e) = e"

definition file_content :: "scratch_dir \<Rightarrow> string \<Rightarrow> string option" where
  "file_content d p = map_option sf_content (find (\<lambda>f. sf_path f = p) (sd_files d))"

definition is_dir :: "scratch_dir \<Rightarrow> string \<Rightarrow> bool" where
  "is_dir d p \<longleftrightarrow> p = [] \<or> p \<in> set (sd_dirs d)"

definition parent_path :: "string \<Rightarrow> string" where
  "parent_path p = take (length p - Suc (length (file_name p))) p"

text \<open>Why the last component of a path cannot be looked up.\<close>

definition missing_parent :: "scratch_dir \<Rightarrow> string \<Rightarrow> io_error option" where
  "missing_parent d p = (if is_dir d (parent_path p) then None
     else if \<exists>f \<in> set (sd_files d). starts_with p (sf_path f @ ''/'') then Some (OtherIo ''not a directory'')
     else Some NotFound)"

definition create_dir :: "string \<Rightarrow> scratch_dir \<Rightarrow> io_error + scratch_dir" where
  "create_dir p d = (case missing_parent d p of Some e \<Rightarrow> Inl e
     | None \<Rightarrow> if is_dir d p \<or> file_content d p \<noteq> None then Inl AlreadyExists
         else Inr (d\<lparr>sd_dirs := sd_dirs d @ [p]\<rparr>))"

definition below :: "string \<Rightarrow> string \<Rightarrow> bool" where
  "below p q \<longleftrightarrow> q = p \<or> starts_with q (p @ ''/'')"

definition remove_dir_all :: "string \<Rightarrow> scratch_dir \<Rightarrow> io_error + scratch_dir" where
  "remove_dir_all p d = (if is_dir d p
     then Inr \<lparr>sd_files = filter (\<lambda>f. \<not> below p (sf_path f)) (sd_files d),
       sd_dirs = filter (\<lambda>q. \<not> below p q) (sd_dirs d)\<rparr>
     else Inl (if file_content d p \<noteq> None then OtherIo ''not a directory'' else NotFound))"

definition remove_file :: "string \<Rightarrow> scratch_dir \<Rightarrow> io_error + scratch_dir" where
  "remove_file p d = (case missing_parent d p of Some e \<Rightarrow> Inl e
     | None \<Rightarrow> if is_dir d p then Inl (OtherIo ''is a directory'')
         else if file_content d p = None then Inl NotFound
         else Inr (d\<lparr>sd_files := filter (\<lambda>f. sf_path f \<noteq> p) (sd_files d)\<rparr>))"

text \<open>A file that exists keeps its mode, a new one gets the default.\<close>

definition write_file :: "string \<Rightarrow> string \<Rightarrow> scratch_dir \<Rightarrow> io_error + scratch_dir" where
  "write_file p data d = (case missing_parent d p of Some e \<Rightarrow> Inl e
     | None \<Rightarrow> if is_dir d p then Inl (OtherIo ''is a directory'')
         else if file_content d p = None
         then Inr (d\<lparr>sd_files := sd_files d @ [\<lparr>sf_path = p, sf_mode = DEFAULT_MODE, sf_content = data\<rparr>]\<rparr>)
         else Inr (d\<lparr>sd_files := map (\<lambda>f. if sf_path f = p then f\<lparr>sf_content := data\<rparr> else f) (sd_files d)\<rparr>))"

definition rename_file :: "string \<Rightarrow> string \<Rightarrow> scratch_dir \<Rightarrow> io_error + scratch_dir" where
  "rename_file p q d = (case missing_parent d q of Some e \<Rightarrow> Inl e
     | None \<Rightarrow> if file_content d p = None then Inl NotFound
         else if is_dir d q then Inl (OtherIo ''is a directory'')
         else if p = q then Inr d
         else Inr (d\<lparr>sd_files := map (\<lambda>f. if sf_path f = p then f\<lparr>sf_path := q\<rparr> else f)
           (filter (\<lambda>f. sf_path f \<noteq> q) (sd_files d))\<rparr>))"

subsection \<open>The visitor\<close>

record retrieved_advisory =
  ra_url :: string
  ra_host :: "string option"
  ra_url_path :: string
  ra_data :: string
  ra_modified :: int
  ra_signature :: "string option"
  ra_sha256 :: "string option"
  ra_sha512 :: "string option"

record download_lib =
  dl_compress :: "string \<Rightarrow> string option"
  dl_store_document :: "string \<Rightarrow> string \<Rightarrow> retrieved_advisory \<Rightarrow> scratch_dir \<Rightarrow> string + scratch_dir"
  dl_to_vec_pretty :: "json \<Rightarrow> string option"

definition DIR_METADATA :: string where
  "DIR_METADATA = ''metadata''"

text \<open>\<open>TroveStoreVisitor::advisory_path\<close>.\<close>

definition advisory_file :: "retrieved_advisory \<Rightarrow> string option" where
  "advisory_file a = (case ra_host a of None \<Rightarrow> None
     | Some domain \<Rightarrow> (let path = trim_start_char (CHR ''/'') (ra_url_path a) in
         if path = [] then None else Some (domain @ ''/'' @ path)))"

definition create_dir_if_missing :: "string \<Rightarrow> scratch_dir \<Rightarrow> io_error + scratch_dir" where
  "create_dir_if_missing p d = (case create_dir p d of Inl AlreadyExists \<Rightarrow> Inr d | r \<Rightarrow> r)"

definition store_provider_metadata :: "download_lib \<Rightarrow> json \<Rightarrow> scratch_dir \<Rightarrow> string + scratch_dir" where
  "store_provider_metadata lib metadata d = (case create_dir_if_missing DIR_METADATA d of
     Inl _ \<Rightarrow> Inl ''Failed to create metadata directory''
   | Inr d1 \<Rightarrow> (case dl_to_vec_pretty lib metadata of
       None \<Rightarrow> Inl ''Failed to serialize provider metadata''
     | Some data \<Rightarrow> (case write_file (DIR_METADATA @ ''/provider-metadata.json'') data d1 of
         Inl _ \<Rightarrow> Inl ''Failed to write provider metadata''
       | Inr d2 \<Rightarrow> Inr d2)))"

definition key_file :: "string \<Rightarrow> nat \<Rightarrow> string" where
  "key_file dir i = dir @ ''/'' @ format_nat i @ ''.key''"

definition write_key :: "string \<Rightarrow> nat \<times> string \<Rightarrow> scratch_dir \<Rightarrow> string + scratch_dir" where
  "write_key dir key d = (case write_file (key_file dir (fst key)) (snd key) d of
     Inl _ \<Rightarrow> Inl ''Failed to write key'' | Inr d' \<Rightarrow> Inr d')"

definition store_keys :: "string list \<Rightarrow> scratch_dir \<Rightarrow> string + scratch_dir" where
  "store_keys keys d =
     (let dir = DIR_METADATA @ ''/keys'' in
      case (if is_dir d dir \<or> file_content d dir \<noteq> None then remove_dir_all dir d else Inr d) of
        Inl e \<Rightarrow> Inl (io_text e)
      | Inr d1 \<Rightarrow> (case create_dir_if_missing dir d1 of
          Inl _ \<Rightarrow> Inl ''Failed to create keys directory''
        | Inr d2 \<Rightarrow> fold_res (write_key dir) (enumerate 0 keys) d2))"

definition visit_context :: "download_lib \<Rightarrow> json \<Rightarrow> string list \<Rightarrow> scratch_dir \<Rightarrow> string + scratch_dir" where
  "visit_context lib metadata keys d = (case store_provider_metadata lib metadata d of
     Inl e \<Rightarrow> Inl e | Inr d1 \<Rightarrow> store_keys keys d1)"

definition remove_sidecar :: "string \<Rightarrow> string \<Rightarrow> scratch_dir \<Rightarrow> string + scratch_dir" where
  "remove_sidecar file suffix d = (case remove_file (file @ ''.'' @ suffix) d of
     Inr d' \<Rightarrow> Inr d' | Inl NotFound \<Rightarrow> Inr d | Inl e \<Rightarrow> Inl (io_text e))"

definition visit_advisory :: "download_lib \<Rightarrow> retrieved_advisory \<Rightarrow> scratch_dir \<Rightarrow> string + scratch_dir" where
  "visit_advisory lib a d = (case advisory_file a of
     None \<Rightarrow> Inl ''Cannot derive file path from URL''
   | Some file \<Rightarrow>
       (case (if extension file = Some ''json'' then map_option Some (dl_compress lib (ra_data a)) else Some None) of
          None \<Rightarrow> Inl ''Failed to compress scratch advisory''
        | Some compressed \<Rightarrow>
            (case fold_res (remove_sidecar file) [''asc'', ''sha256'', ''sha512''] d of
               Inl e \<Rightarrow> Inl e
             | Inr d1 \<Rightarrow>
                 (case dl_store_document lib file (case compressed of Some z \<Rightarrow> z | None \<Rightarrow> ra_data a) a d1 of
                    Inl e \<Rightarrow> Inl e
                  | Inr d2 \<Rightarrow> if compressed = None then Inr d2
                      else (case rename_file file (compressed_path file) d2 of
                        Inl _ \<Rightarrow> Inl ''Failed to publish compressed advisory''
                      | Inr d3 \<Rightarrow> Inr d3)))))"

subsection \<open>The walk\<close>

datatype http_source_error = FetcherClientError nat | OtherSourceError

fun is_not_found :: "http_source_error \<Rightarrow> bool" where
  "is_not_found (FetcherClientError status) = (status = 404)"
| "is_not_found OtherSourceError = False"

datatype tlp_label = TlpClear | TlpOther string

datatype distribution_context = Directory string | Feed string tlp_label

fun context_url :: "distribution_context \<Rightarrow> string" where
  "context_url (Directory url) = url"
| "context_url (Feed url _) = url"

record retrieval_error =
  re_url :: string
  re_text :: string
  re_source :: http_source_error

datatype walk_event =
  VisitContext json "string list"
  | OfferDistribution distribution_context
  | LoadIndex distribution_context "string + discovered_advisory list"
  | DistributionError distribution_context string
  | StartProgress nat
  | VisitAdvisory "retrieval_error + retrieved_advisory"

record walk_state =
  wk_dir :: scratch_dir
  wk_membership :: membership_index
  wk_retrieval_errors :: "retrieval_failure list"
  wk_distribution_errors :: "retrieval_failure list"
  wk_distributions_total :: u64
  wk_jobs :: jobs

text \<open>\<open>CountingStoreVisitor::visit_advisory\<close>: every call that does not abort the walk is counted.\<close>

definition count_advisory :: "download_lib \<Rightarrow> string \<Rightarrow> retrieval_error + retrieved_advisory
    \<Rightarrow> walk_state \<Rightarrow> walk_state \<times> string option" where
  "count_advisory lib domain result w =
     (let counted = (\<lambda>w. w\<lparr>wk_jobs := increment_job_synced domain (wk_jobs w)\<rparr>) in
      case result of
        Inl err \<Rightarrow> (counted (w\<lparr>wk_retrieval_errors := wk_retrieval_errors w
          @ [\<lparr>rf_url = re_url err, rf_error = re_text err, rf_missing = is_not_found (re_source err)\<rparr>]\<rparr>), None)
      | Inr advisory \<Rightarrow> (case visit_advisory lib advisory (wk_dir w) of
          Inl e \<Rightarrow> (w, Some e)
        | Inr d \<Rightarrow> (counted (w\<lparr>wk_dir := d\<rparr>), None)))"

definition distribution_filter :: "string list \<Rightarrow> distribution_context \<Rightarrow> bool" where
  "distribution_filter skip_dirs ctx = (case ctx of
     Directory url \<Rightarrow> url \<notin> set skip_dirs | Feed _ _ \<Rightarrow> True)"

function trim_start_matches :: "string \<Rightarrow> string \<Rightarrow> string" where
  "trim_start_matches p s = (if p = [] then s
     else (case strip_prefix p s of None \<Rightarrow> s | Some r \<Rightarrow> trim_start_matches p r))"
  by auto

termination
  by (relation "measure (\<lambda>(p, s). length s)")
    (auto simp: strip_prefix_def starts_with_iff split: if_splits)

text \<open>An index of a public feed must load, others may be skipped.\<close>

definition distribution_error :: "distribution_context \<Rightarrow> string \<Rightarrow> walk_state \<Rightarrow> walk_state \<times> string option" where
  "distribution_error ctx error w = (case ctx of
     Feed _ TlpClear \<Rightarrow> (w, Some error)
   | _ \<Rightarrow> (w\<lparr>wk_distributions_total := wk_distributions_total w - 1,
       wk_distribution_errors := wk_distribution_errors w @ [\<lparr>rf_url = context_url ctx,
         rf_error = ''Skipped: '' @ trim_start_matches ''Client error: '' (trim_start_matches ''Fetch error: '' error),
         rf_missing = False\<rparr>]\<rparr>, None))"

definition walk_step :: "download_lib \<Rightarrow> string \<Rightarrow> string list \<Rightarrow> membership_source \<Rightarrow> walk_event
    \<Rightarrow> walk_state \<Rightarrow> walk_state \<times> string option" where
  "walk_step lib domain skip_dirs src event w = (case event of
     VisitContext metadata keys \<Rightarrow> (case visit_context lib metadata keys (wk_dir w) of
       Inl e \<Rightarrow> (w, Some e) | Inr d \<Rightarrow> (w\<lparr>wk_dir := d\<rparr>, None))
   | OfferDistribution ctx \<Rightarrow> (if distribution_filter skip_dirs ctx
       then w\<lparr>wk_distributions_total := wk_distributions_total w + 1\<rparr> else w, None)
   | LoadIndex ctx index \<Rightarrow>
       (w\<lparr>wk_membership := snd (load_index src (context_url ctx) index (wk_membership w))\<rparr>, None)
   | DistributionError ctx error \<Rightarrow> distribution_error ctx error w
   | StartProgress work \<Rightarrow> (w\<lparr>wk_jobs := start_distribution domain (of_nat work)
       (wk_distributions_total w) (wk_jobs w)\<rparr>, None)
   | VisitAdvisory result \<Rightarrow> count_advisory lib domain result w)"

text \<open>The calls of a walk and the error it ends with on its own, over a prepared directory.\<close>

definition walk_start :: "scratch_dir \<Rightarrow> jobs \<Rightarrow> walk_state" where
  "walk_start d jobs = \<lparr>wk_dir = d, wk_membership = [], wk_retrieval_errors = [],
     wk_distribution_errors = [], wk_distributions_total = 0, wk_jobs = jobs\<rparr>"

definition run_walk :: "download_lib \<Rightarrow> string \<Rightarrow> string list \<Rightarrow> membership_source
    \<Rightarrow> walk_event list \<times> string option \<Rightarrow> scratch_dir \<Rightarrow> jobs \<Rightarrow> walk_state \<times> string option" where
  "run_walk lib domain skip_dirs src walk d jobs =
     (case fold_try (walk_step lib domain skip_dirs src) (fst walk) (walk_start d jobs) of
        (w, Some e) \<Rightarrow> (w, Some e) | (w, None) \<Rightarrow> (w, snd walk))"

end
