(* ===== verification/Snapshot_Processing.thy ===== *)
theory Snapshot_Processing
  imports Provider_Programs Provider_Store Git_Materialize Version_Records Document_Validation
    Download_Store
begin

section \<open>Processing a snapshot\<close>

text \<open>
  The pipeline of \<open>server/src/scheduler/runner.rs\<close>: selection, extraction, validation, versions,
  summary and report of a committed snapshot, around it the worktree, the provider sync and the
  commit, and the job around both. The environment holds the libraries, the clock at the entry of
  each phase, and for every fallible storage step whether it fails (\<open>sn_fault\<close>), so that every \<open>?\<close> of
  the code is a branch here. Of the progress callbacks only the phase transitions of successful
  work are kept; the counters, the removal of temporary directories, Git maintenance (whose failures
  are only logged) and logging are left out.
\<close>

datatype pass_step = AtLoadCheckpoint | AtClearCheckpoint | AtPrepareSelection | AtRetrievalUrls | AtCleanFiles
  | AtDeleteAll | AtDeletePage string | AtCheckVersions | AtRecordVersions | AtSaveErrors | AtLoadSummary
  | AtBuildSummary | AtSaveSummary | AtWriteReport | AtCountDocuments | AtSaveCheckpoint
  | AtPrepareWorktree | AtLoadSyncState | AtCountStored | AtLoadFailures | AtCommitSnapshot | AtSaveProviderInfo
  | AtSaveDistributionErrors | AtSaveMembership | AtRefreshHealth | AtReloadSyncState | AtSaveSyncState
  | AtPersistCounts | AtSaveSyncRun

record sync_result =
  sn_membership :: membership_index
  sn_retrieval_errors :: "retrieval_failure list"
  sn_distribution_errors :: "retrieval_failure list"
  sn_started_at :: int

record snapshot_env =
  sn_domain :: string
  sn_git :: git_env
  sn_identity :: "string + string"
  sn_lib :: validator_lib
  sn_dir :: "scratch \<Rightarrow> validation_dir"
  sn_parse_url :: "string \<Rightarrow> (string option \<times> string) option"
  sn_clock :: "pipeline_phase \<Rightarrow> int"
  sn_today :: string
  sn_fault :: "pass_step \<Rightarrow> string option"

text \<open>
  A run opens the repository: the environment of the Git operations with its blobs, and the commit
  its HEAD resolves to.
\<close>

record snapshot_view =
  vw_git :: git_env
  vw_head :: git_commit

definition open_snapshot :: "snapshot_env \<Rightarrow> provider_store \<Rightarrow> string + snapshot_view" where
  "open_snapshot env s = (case st_repo s of
     None \<Rightarrow> Inl ''failed to open the repository''
   | Some repo \<Rightarrow> (case head_commit repo of
       None \<Rightarrow> Inl ''reference not found''
     | Some c \<Rightarrow> Inr \<lparr>vw_git = (sn_git env)\<lparr>ge_blob := rp_blobs repo\<rparr>, vw_head = c\<rparr>))"

type_synonym 'a provider_prog = "(provider_store, 'a) prog"

definition step :: "snapshot_env \<Rightarrow> pass_step \<Rightarrow> 'a provider_prog \<Rightarrow> 'a provider_prog" where
  "step env st p = unless (sn_fault env st) p"

definition update_db :: "(provider_db \<Rightarrow> provider_db) \<Rightarrow> unit provider_prog" where
  "update_db f = updating (\<lambda>s. s\<lparr>st_db := f (st_db s)\<rparr>)"

definition update_jobs :: "(jobs \<Rightarrow> jobs) \<Rightarrow> unit provider_prog" where
  "update_jobs f = updating (\<lambda>s. s\<lparr>st_jobs := f (st_jobs s)\<rparr>)"

definition enter :: "snapshot_env \<Rightarrow> pipeline_phase \<Rightarrow> unit provider_prog" where
  "enter env p = update_jobs (update_job_phase (sn_clock env p) (sn_domain env) p)"

subsection \<open>One pass\<close>

definition start_pass :: "snapshot_env \<Rightarrow> bool \<Rightarrow> processing_checkpoint option provider_prog" where
  "start_pass env force_full =
     and_then (step env AtLoadCheckpoint (reading (\<lambda>s. processing_checkpoint_row (st_db s)))) (\<lambda>previous.
     and_then (if force_full then step env AtClearCheckpoint (update_db clear_processing_checkpoint)
       else returning ()) (\<lambda>_. returning previous))"

definition select_inputs :: "snapshot_env \<Rightarrow> bool \<Rightarrow> processing_checkpoint option
    \<Rightarrow> (snapshot_view \<times> processing_selection) provider_prog" where
  "select_inputs env force_full previous =
     and_then (lifting (sn_identity env)) (\<lambda>identity.
     and_then (enter env CleanSelection) (\<lambda>_.
     and_then (step env AtPrepareSelection (returning ())) (\<lambda>_.
     and_then (enter env SelectInputs) (\<lambda>_.
     and_then (computing (\<lambda>s. Some (open_snapshot env s))) (\<lambda>view.
     and_then (computing (\<lambda>s. select_processing (vw_git view) (vw_head view) previous identity force_full)) (\<lambda>sel.
     and_then (enter env ScanHistory) (\<lambda>_.
     and_then (enter env ResolveChanges) (\<lambda>_. returning (view, sel)))))))))"

text \<open>\<open>downloaded\<close> tells which files exist in the download directory.\<close>

definition recover_downloads :: "snapshot_env \<Rightarrow> (string \<Rightarrow> bool) \<Rightarrow> processing_selection
    \<Rightarrow> processing_selection provider_prog" where
  "recover_downloads env downloaded sel =
     and_then (enter env CheckRecoveredDownloads) (\<lambda>_.
       if sel_full sel then returning sel
       else step env AtRetrievalUrls (computing (\<lambda>s. page_loop (retrieval_error_urls (st_db s))
         (include_recovered_downloads (sn_parse_url env) downloaded) [] sel)))"

text \<open>The number of extracted documents and the directory they are in.\<close>

definition extract_inputs :: "snapshot_env \<Rightarrow> snapshot_view \<Rightarrow> processing_selection
    \<Rightarrow> (nat \<times> scratch) provider_prog" where
  "extract_inputs env view sel =
     and_then (enter env CleanValidationFiles) (\<lambda>_.
     and_then (step env AtCleanFiles (returning ())) (\<lambda>_.
     and_then (enter env CountValidationFiles) (\<lambda>_.
       if sel_full sel \<or> \<not> path_is_empty (sel_advisories sel)
       then and_then (computing (\<lambda>s. materialize (vw_git view) (cm_tree (vw_head view)) sel Map.empty))
         (\<lambda>(_, ex). and_then (enter env ExtractValidationFiles)
           (\<lambda>_. returning (ex_documents ex, ex_scratch ex)))
       else returning (0, Map.empty))))"

definition delete_page :: "snapshot_env \<Rightarrow> string list \<Rightarrow> provider_store \<Rightarrow> (string \<times> provider_store) + provider_store" where
  "delete_page env urls s = (case sn_fault env (AtDeletePage (last urls)) of
     Some e \<Rightarrow> Inl (e, s)
   | None \<Rightarrow> Inr (s\<lparr>st_db := delete_document_urls urls (st_db s)\<rparr>))"

definition clean_results :: "snapshot_env \<Rightarrow> processing_selection \<Rightarrow> unit provider_prog" where
  "clean_results env sel =
     and_then (enter env CleanResults) (\<lambda>_.
       if sel_baseline sel then step env AtDeleteAll (update_db delete_all_documents)
       else paging (\<lambda>_. path_batch (sel_deleted sel)) (delete_page env) [])"

definition run_validation :: "snapshot_env \<Rightarrow> scratch \<Rightarrow> nat \<Rightarrow> nat provider_prog" where
  "run_validation env dir expected s =
     (case validate_provider (sn_lib env) (sn_dir env dir) expected (st_db s) of
        (db, Inl e) \<Rightarrow> Some (Inl (e, s\<lparr>st_db := db\<rparr>))
      | (db, Inr n) \<Rightarrow> Some (Inr (n, s\<lparr>st_db := db\<rparr>)))"

definition set_total :: "snapshot_env \<Rightarrow> nat \<Rightarrow> unit provider_prog" where
  "set_total env n = update_jobs (modify_job (sn_domain env) (\<lambda>job. job\<lparr>jb_documents_total := of_nat n\<rparr>))"

definition validate_inputs :: "snapshot_env \<Rightarrow> nat \<times> scratch \<Rightarrow> unit provider_prog" where
  "validate_inputs env extracted = (case extracted of (selected_count, dir) \<Rightarrow>
     (if selected_count > 0
      then and_then (enter env Validate) (\<lambda>_.
        and_then (set_total env selected_count) (\<lambda>_.
        and_then (run_validation env dir selected_count) (\<lambda>_. returning ())))
      else returning ()))"

definition record_pass :: "snapshot_view \<Rightarrow> string option \<Rightarrow> unit provider_prog" where
  "record_pass view since = and_then (computing (\<lambda>s. Some (record_versions (ge_native (vw_git view))
       (ge_utf8 (vw_git view)) (ge_blob (vw_git view)) (ge_parse (vw_git view))
       (ge_oid_from_str (vw_git view)) True (Some (vw_head view)) since (st_db s))))
     (\<lambda>db. update_db (\<lambda>_. db))"

definition update_versions :: "snapshot_env \<Rightarrow> snapshot_view \<Rightarrow> processing_checkpoint option \<Rightarrow> processing_selection
    \<Rightarrow> unit provider_prog" where
  "update_versions env view previous sel =
     and_then (if sel_baseline sel then returning False
       else step env AtCheckVersions (reading (\<lambda>s. versions_missing (st_db s)))) (\<lambda>backfill.
       if sel_baseline sel \<or> backfill \<or> \<not> path_is_empty (sel_history sel)
       then and_then (enter env VersionCounts) (\<lambda>_. step env AtRecordVersions
         (record_pass view (if sel_baseline sel \<or> backfill then None else map_option pk_commit_id previous)))
       else returning ())"

definition record_errors :: "snapshot_env \<Rightarrow> retrieval_failure list \<Rightarrow> bool \<Rightarrow> bool provider_prog" where
  "record_errors env errors changed =
     (if errors = [] then returning changed
      else step env AtSaveErrors (\<lambda>s. case save_retrieval_errors errors (st_db s) of
        (db, c) \<Rightarrow> Some (Inr (changed \<or> c, s\<lparr>st_db := db\<rparr>))))"

definition refresh_cached_summary :: "snapshot_env \<Rightarrow> unit provider_prog" where
  "refresh_cached_summary env =
     and_then (enter env Summary) (\<lambda>_.
     and_then (step env AtBuildSummary
       (reading (\<lambda>s. build_summary_from_db (st_db s) (sn_domain env) (sn_clock env Summary)))) (\<lambda>summary.
     step env AtSaveSummary (updating (\<lambda>s. s\<lparr>st_summary := Some summary\<rparr>))))"

definition update_summary :: "snapshot_env \<Rightarrow> bool \<Rightarrow> unit provider_prog" where
  "update_summary env changed =
     and_then (if changed then returning True
       else step env AtLoadSummary (reading (\<lambda>s. st_summary s = None))) (\<lambda>needed.
     if needed then refresh_cached_summary env else returning ())"

definition write_report :: "snapshot_env \<Rightarrow> unit provider_prog" where
  "write_report env =
     and_then (enter env Report) (\<lambda>_.
     and_then (step env AtWriteReport (updating (\<lambda>s. s\<lparr>st_metrics :=
       generate_report (sn_domain env) (sn_today env) (st_summary s) (st_metrics s)\<rparr>))) (\<lambda>_.
     and_then (step env AtCountDocuments (reading (\<lambda>s. document_count (st_db s)))) (set_total env)))"

definition process_inputs :: "snapshot_env \<Rightarrow> (string \<Rightarrow> bool) \<Rightarrow> bool \<Rightarrow> retrieval_failure list
    \<Rightarrow> processing_checkpoint option \<Rightarrow> processing_checkpoint provider_prog" where
  "process_inputs env downloaded force_full retrieval_errors previous =
     and_then (select_inputs env force_full previous) (\<lambda>(view, selected).
     and_then (recover_downloads env downloaded selected) (\<lambda>sel.
     and_then (extract_inputs env view sel) (\<lambda>extracted.
     and_then (clean_results env sel) (\<lambda>_.
     and_then (validate_inputs env extracted) (\<lambda>_.
     and_then (update_versions env view previous sel) (\<lambda>_.
     and_then (record_errors env retrieval_errors
       ((case previous of Some c \<Rightarrow> pk_summary_dirty c | None \<Rightarrow> False) \<or> sel_full sel
         \<or> fst extracted > 0 \<or> \<not> path_is_empty (sel_deleted sel))) (\<lambda>changed.
     and_then (update_summary env changed) (\<lambda>_.
     and_then (write_report env) (\<lambda>_. returning (sel_checkpoint sel))))))))))"

definition process_snapshot :: "snapshot_env \<Rightarrow> (string \<Rightarrow> bool) \<Rightarrow> bool \<Rightarrow> retrieval_failure list \<Rightarrow> unit provider_prog" where
  "process_snapshot env downloaded force_full retrieval_errors =
     and_then (start_pass env force_full) (\<lambda>previous.
     and_then (process_inputs env downloaded force_full retrieval_errors previous) (\<lambda>checkpoint.
     step env AtSaveCheckpoint (update_db (save_processing_checkpoint checkpoint))))"

subsection \<open>Synchronization\<close>

definition missing_count :: "sync_result \<Rightarrow> nat" where
  "missing_count r = length (filter rf_missing (sn_retrieval_errors r))"

text \<open>
  What \<open>sync_provider\<close> takes from its surroundings: the storage helpers, the directories the source
  skips, the clock at its start, and the walk \<open>csaf_walker\<close> makes, for the token and the URLs to
  retry, as the sequence of its callbacks. Jobs started by a spawned task are updated at once.
\<close>

record walk_env =
  wv_lib :: download_lib
  wv_skip_directories :: "string list"
  wv_started_at :: int
  wv_walk :: "membership_source \<Rightarrow> walk_event list \<times> string option"

definition walk_provider :: "snapshot_env \<Rightarrow> walk_env \<Rightarrow> scratch_dir \<Rightarrow> membership_source
    \<Rightarrow> (sync_result \<times> scratch_dir) provider_prog" where
  "walk_provider env wv dir src s =
     (case run_walk (wv_lib wv) (sn_domain env) (wv_skip_directories wv) src (wv_walk wv src) dir (st_jobs s) of
        (w, Some e) \<Rightarrow> Some (Inl (e, s\<lparr>st_jobs := wk_jobs w\<rparr>))
      | (w, None) \<Rightarrow> Some (Inr ((\<lparr>sn_membership = wk_membership w, sn_retrieval_errors = wk_retrieval_errors w,
          sn_distribution_errors = wk_distribution_errors w, sn_started_at = wv_started_at wv\<rparr>, wk_dir w),
          s\<lparr>st_jobs := wk_jobs w\<rparr>)))"

definition sync_provider :: "snapshot_env \<Rightarrow> walk_env \<Rightarrow> scratch_dir
    \<Rightarrow> (sync_result \<times> scratch_dir) provider_prog" where
  "sync_provider env wv dir =
     and_then (step env AtLoadSyncState (reading (load_sync_state (sn_domain env)))) (\<lambda>state.
     and_then (if sy_since_token state = None then returning None
       else step env AtCountStored (reading (\<lambda>s. if document_count (st_db s) = 0 then None
         else sy_since_token state))) (\<lambda>since.
     and_then (if since = None then returning []
       else step env AtLoadFailures (reading (\<lambda>s. map rf_url (retrieval_failures (st_db s))))) (\<lambda>retry.
     walk_provider env wv dir \<lparr>ms_since = since, ms_retry = retry\<rparr>)))"

text \<open>The provider metadata that was downloaded, as \<open>csaf_walker\<close> parses it.\<close>

datatype provider_role = Publisher | Provider | TrustedProvider

fun role_str :: "provider_role \<Rightarrow> string" where
  "role_str Publisher = ''csaf_publisher''"
| "role_str Provider = ''csaf_provider''"
| "role_str TrustedProvider = ''csaf_trusted_provider''"

record provider_metadata =
  pm_canonical_url :: string
  pm_publisher_name :: string
  pm_publisher_category :: "string option"
  pm_publisher_namespace :: string
  pm_role :: provider_role
  pm_list_on_aggregators :: bool
  pm_mirror_on_aggregators :: bool
  pm_last_updated :: string

definition metadata_info :: "provider_metadata \<Rightarrow> provider_info" where
  "metadata_info m = \<lparr>pi_canonical_url = pm_canonical_url m, pi_publisher_name = pm_publisher_name m,
     pi_publisher_category = (case pm_publisher_category m of Some c \<Rightarrow> c | None \<Rightarrow> ''other''),
     pi_publisher_namespace = pm_publisher_namespace m, pi_role = Some (role_str (pm_role m)),
     pi_list_on_aggregators = pm_list_on_aggregators m,
     pi_mirror_on_aggregators = pm_mirror_on_aggregators m, pi_last_updated = pm_last_updated m\<rparr>"

text \<open>Missing, unreadable or unsaved metadata is only logged; \<open>parse\<close> reads the downloaded file.\<close>

definition persist_provider_metadata :: "snapshot_env \<Rightarrow> (string \<Rightarrow> provider_metadata option)
    \<Rightarrow> scratch_file list \<Rightarrow> unit provider_prog" where
  "persist_provider_metadata env parse files =
     (case find (\<lambda>f. sf_path f = ''metadata/provider-metadata.json'') files of
       None \<Rightarrow> returning ()
     | Some f \<Rightarrow> (case parse (sf_content f) of
         None \<Rightarrow> returning ()
       | Some m \<Rightarrow> if sn_fault env AtSaveProviderInfo = None
           then update_db (save_provider_info (metadata_info m)) else returning ()))"

definition refresh_health :: "snapshot_env \<Rightarrow> metadata_env \<Rightarrow> unit provider_prog" where
  "refresh_health env menv = step env AtRefreshHealth (\<lambda>s. case refresh_distribution_health menv s of
     Inl e \<Rightarrow> Some (Inl (e, s)) | Inr (_, s') \<Rightarrow> Some (Inr ((), s')))"

text \<open>
  The environment of a run: besides that of the processing the walk, the parser of the provider
  metadata, the libraries of the repository, the commit message, the pack threshold, what other
  writers do to the repository meanwhile, and the time the sync state is saved.
\<close>

record pipeline_env =
  pn_snapshot :: snapshot_env
  pn_walk :: walk_env
  pn_parse_metadata :: "string \<Rightarrow> provider_metadata option"
  pn_metadata_env :: metadata_env
  pn_lib :: git_lib
  pn_message :: string
  pn_pack_threshold :: nat
  pn_interfere :: "git_repo \<Rightarrow> git_repo"
  pn_now :: int

definition open_worktree :: "pipeline_env \<Rightarrow> worktree provider_prog" where
  "open_worktree pn s = (case prepare_worktree (pn_lib pn) (st_repo s) of
     Inl e \<Rightarrow> Some (Inl (worktree_error_text e, s\<lparr>st_repo := Some (init_bare (pn_lib pn) (st_repo s))\<rparr>))
   | Inr (wt, repo) \<Rightarrow> Some (Inr (wt, s\<lparr>st_repo := Some repo\<rparr>)))"

definition commit_worktree :: "pipeline_env \<Rightarrow> worktree \<Rightarrow> unit provider_prog" where
  "commit_worktree pn wt s = (case st_repo s of
     None \<Rightarrow> Some (Inl (''failed to open the repository'', s))
   | Some repo \<Rightarrow> (case commit_snapshot_with_progress (pn_lib pn) wt (pn_message pn) (pn_pack_threshold pn)
         (pn_interfere pn) repo of
       (repo', Inl e) \<Rightarrow> Some (Inl (worktree_error_text e, s\<lparr>st_repo := Some repo'\<rparr>))
     | (repo', Inr _) \<Rightarrow> Some (Inr ((), s\<lparr>st_repo := Some repo'\<rparr>))))"

definition save_members :: "snapshot_env \<Rightarrow> membership_index \<Rightarrow> unit provider_prog" where
  "save_members env m = step env AtSaveMembership (and_then
     (computing (\<lambda>s. Some (save_distribution_membership m (st_db s)))) (\<lambda>db. update_db (\<lambda>_. db)))"

definition advance_sync_state :: "snapshot_env \<Rightarrow> int \<Rightarrow> sync_result \<Rightarrow> unit provider_prog" where
  "advance_sync_state env now r =
     and_then (step env AtReloadSyncState (reading (load_sync_state (sn_domain env)))) (\<lambda>state.
     step env AtSaveSyncState (updating (save_sync_state
       (state\<lparr>sy_last_sync := Some now, sy_since_token := Some (sn_started_at r)\<rparr>))))"

text \<open>Checkout, download and commit: the result of the sync and the filled worktree.\<close>

definition fetch_snapshot :: "pipeline_env \<Rightarrow> (sync_result \<times> worktree) provider_prog" where
  "fetch_snapshot pn = (let env = pn_snapshot pn in
     and_then (enter env Checkout) (\<lambda>_.
     and_then (step env AtPrepareWorktree (open_worktree pn)) (\<lambda>prepared.
     and_then (enter env Discover) (\<lambda>_.
     and_then (sync_provider env (pn_walk pn) \<lparr>sd_files = wt_files prepared, sd_dirs = wt_dirs prepared\<rparr>) (\<lambda>(result, dir).
     (let wt = prepared\<lparr>wt_files := sd_files dir, wt_dirs := sd_dirs dir\<rparr> in
     and_then (update_jobs (modify_job (sn_domain env)
       (\<lambda>job. job\<lparr>jb_documents_missing := of_nat (missing_count result)\<rparr>))) (\<lambda>_.
     and_then (enter env Commit) (\<lambda>_.
     and_then (step env AtCommitSnapshot (commit_worktree pn wt)) (\<lambda>_.
     returning (result, wt))))))))))"

definition run_pipeline :: "pipeline_env \<Rightarrow> unit provider_prog" where
  "run_pipeline pn = (let env = pn_snapshot pn in
     and_then (fetch_snapshot pn) (\<lambda>(result, wt).
     and_then (persist_provider_metadata env (pn_parse_metadata pn) (wt_files wt)) (\<lambda>_.
     and_then (step env AtSaveDistributionErrors (updating (save_distribution_errors (sn_distribution_errors result)))) (\<lambda>_.
     and_then (process_snapshot env (in_scratch wt) False (sn_retrieval_errors result)) (\<lambda>_.
     and_then (save_members env (sn_membership result)) (\<lambda>_.
     and_then (refresh_health env (pn_metadata_env pn)) (\<lambda>_.
     advance_sync_state env (pn_now pn) result)))))))"

definition run_revalidation :: "pipeline_env \<Rightarrow> unit provider_prog" where
  "run_revalidation pn = (let env = pn_snapshot pn in
     and_then (step env AtLoadFailures (reading (\<lambda>s. retrieval_failures (st_db s)))) (\<lambda>failures.
     and_then (process_snapshot env (\<lambda>_. False) True failures) (\<lambda>_.
     refresh_health env (pn_metadata_env pn))))"

subsection \<open>The job around a run\<close>

text \<open>
  \<open>run_job\<close> once the lock is taken: the status, the run, and at the end the counts and the sync run;
  errors of the latter are only logged. \<open>begin\<close> and \<open>finish\<close> are the times around the run.
\<close>

definition whole_milliseconds :: "int \<Rightarrow> int" where
  "whole_milliseconds d = sgn d * (\<bar>d\<bar> div 1000000)"

definition persist_job_counts :: "snapshot_env \<Rightarrow> int \<Rightarrow> job_status \<Rightarrow> provider_store \<Rightarrow> provider_store" where
  "persist_job_counts env now job s =
     (let s1 = (if sn_fault env AtPersistCounts = None
            then save_sync_state (with_job_counts job (load_sync_state (sn_domain env) s)) s else s);
          finish = (case jb_completed_at job of Some t \<Rightarrow> t | None \<Rightarrow> now) in
      if sn_fault env AtSaveSyncRun = None then s1\<lparr>st_db := save_sync_run now (unat (jb_documents_synced job))
        (unat (jb_documents_missing job)) (whole_milliseconds (finish - jb_started_at job)) (st_db s1)\<rparr>
      else s1)"

definition run_job :: "pipeline_env \<Rightarrow> job_kind \<Rightarrow> int \<Rightarrow> int \<Rightarrow> unit provider_prog" where
  "run_job pn kind begin finish s =
     (let domain = sn_domain (pn_snapshot pn);
          s0 = s\<lparr>st_jobs := update_job domain (started_job kind begin (st_jobs s domain)) (st_jobs s)\<rparr> in
      case (case kind of KSync \<Rightarrow> run_pipeline pn s0 | KRevalidate \<Rightarrow> run_revalidation pn s0) of
        None \<Rightarrow> None
      | Some (Inl (e, s1)) \<Rightarrow> Some (Inl (e,
          s1\<lparr>st_jobs := update_job domain (failed_job finish e (st_jobs s1 domain)) (st_jobs s1)\<rparr>))
      | Some (Inr (_, s1)) \<Rightarrow>
          (let job = completed_job finish (st_jobs s1 domain) in
           Some (Inr ((), persist_job_counts (pn_snapshot pn) finish job
             (s1\<lparr>st_jobs := update_job domain job (st_jobs s1)\<rparr>)))))"

end
