(* ===== verification/Snapshot_Facts.thy ===== *)
theory Snapshot_Facts
  imports Snapshot_Processing Validation_Facts Git_Readback
begin

section \<open>What a pass promises\<close>

text \<open>
  Facts about the pipeline of \<open>server/src/scheduler/runner.rs\<close>. What every database write of a pass
  keeps, the pass keeps (locale \<open>pass_invariant\<close>); the checkpoint and the token are published last,
  and the cached summary is that of the stored results.
\<close>

subsection \<open>Keeping a predicate\<close>

definition keeps :: "('s \<Rightarrow> bool) \<Rightarrow> ('s, 'a) prog \<Rightarrow> bool" where
  "keeps I p \<longleftrightarrow> triple I p (\<lambda>_. I) I"

named_theorems keeps_intro

lemma keeps_simps [keeps_intro]:
  "keeps I (returning x)" "keeps I (failing e)" "keeps I (reading f)"
  by (simp_all add: keeps_def)

lemma keeps_lifting [keeps_intro]: "keeps I (lifting r)"
  unfolding keeps_def by (rule triple_lifting)

lemma keeps_computing [keeps_intro]: "keeps I (computing f)"
  unfolding keeps_def by (rule triple_computing)

lemma keeps_then [keeps_intro]: "keeps I p \<Longrightarrow> (\<And>x. keeps I (f x)) \<Longrightarrow> keeps I (and_then p f)"
  unfolding keeps_def by (rule triple_then)

lemma keeps_step [keeps_intro]: "keeps I p \<Longrightarrow> keeps I (step env st p)"
  unfolding keeps_def step_def by (rule triple_unless)

lemma keeps_if [keeps_intro]: "(b \<Longrightarrow> keeps I p) \<Longrightarrow> (\<not> b \<Longrightarrow> keeps I q) \<Longrightarrow> keeps I (if b then p else q)"
  by simp

lemma keeps_updating: "(\<And>s. I s \<Longrightarrow> I (f s)) \<Longrightarrow> keeps I (updating f)"
  by (simp add: keeps_def)

lemma triple_keeps:
  assumes "triple P p Q E" "keeps I p"
  shows "triple (\<lambda>s. P s \<and> I s) p (\<lambda>x s. Q x s \<and> I s) (\<lambda>s. E s \<and> I s)"
  by (rule tripleI) (use assms in \<open>auto simp: keeps_def dest: tripleD\<close>)

subsection \<open>Invariants of the writes\<close>

text \<open>
  A predicate on the store that the writes of results between the two updates of the checkpoint
  keep, and one that a new summary and the deletion of all results at a new baseline keep as well.
\<close>

locale pass_results =
  fixes I :: "provider_store \<Rightarrow> bool"
  assumes jobs: "I s \<Longrightarrow> I (s\<lparr>st_jobs := j\<rparr>)"
    and metrics: "I s \<Longrightarrow> I (s\<lparr>st_metrics := m\<rparr>)"
    and save: "I s \<Longrightarrow> I (s\<lparr>st_db := fst (save_documents lower docs (st_db s))\<rparr>)"
    and delete_urls: "I s \<Longrightarrow> I (s\<lparr>st_db := delete_document_urls urls (st_db s)\<rparr>)"
    and errors: "I s \<Longrightarrow> I (s\<lparr>st_db := fst (save_retrieval_errors es (st_db s))\<rparr>)"
    and versions: "I s \<Longrightarrow> record_versions native utf8 blob parse oid True head since (st_db s) = Inr db
      \<Longrightarrow> I (s\<lparr>st_db := db\<rparr>)"
begin

lemma enter_keeps [keeps_intro]: "keeps I (enter env p)"
  unfolding enter_def update_jobs_def by (rule keeps_updating) (rule jobs)

lemma total_keeps [keeps_intro]: "keeps I (set_total env n)"
  unfolding set_total_def update_jobs_def by (rule keeps_updating) (rule jobs)

lemma select_keeps: "keeps I (select_inputs env force previous)"
  unfolding select_inputs_def by (intro keeps_intro)

lemma recover_keeps: "keeps I (recover_downloads env downloaded sel)"
  unfolding recover_downloads_def by (intro keeps_intro)

lemma extract_keeps: "keeps I (extract_inputs env view sel)"
  unfolding extract_inputs_def case_prod_beta by (intro keeps_intro)

lemma delete_pages_keep: "keeps I (paging (\<lambda>_. path_batch (sel_deleted sel)) (delete_page env) [])"
  unfolding keeps_def
  by (rule triple_paging) (simp add: delete_page_def delete_urls split: option.split)

lemma visit_keeps:
  assumes "I (s\<lparr>st_db := fst st\<rparr>)"
  shows "I (s\<lparr>st_db := fst (fst (visit_entry lib dir f st))\<rparr>)"
proof -
  obtain db n where st: "st = (db, n)" by force
  have "I (s\<lparr>st_db := fst (save_documents (vl_lower lib) docs db)\<rparr>)" for docs
    using save [of "s\<lparr>st_db := db\<rparr>"] assms by (simp add: st)
  then show ?thesis
    using assms by (simp add: st visit_entry_def visit_document_def Let_def split: sum.split)
qed

lemma validation_keeps: "keeps I (run_validation env dir n)"
proof -
  have "I (s\<lparr>st_db := fst (fst (walk_prepared lib d (st_db s, 0)))\<rparr>)" if "I s" for s lib d
  proof -
    have "I (s\<lparr>st_db := fst (fst (fold_try (visit_entry lib d) (walk_distribution d) (st_db s, 0)))\<rparr>)"
      by (rule fold_try_inv [where P = "\<lambda>st. I (s\<lparr>st_db := fst st\<rparr>)"]) (use that visit_keeps in auto)
    then show ?thesis using that by (simp add: walk_prepared_def)
  qed
  note walk = this
  show ?thesis
    unfolding keeps_def
    by (rule tripleI; use walk [of _ "sn_lib env" "sn_dir env dir"] in
        \<open>fastforce simp: run_validation_def validate_provider_def split: prod.splits option.splits if_splits sum.splits\<close>)
qed

lemma validate_keeps: "keeps I (validate_inputs env extracted)"
  unfolding validate_inputs_def case_prod_beta by (intro keeps_intro validation_keeps)

lemma versions_keeps: "keeps I (update_versions env view previous sel)"
proof -
  have "keeps I (record_pass view since)" for since
    unfolding keeps_def record_pass_def
    by (rule triple_then [where Q = "\<lambda>db s. I (s\<lparr>st_db := db\<rparr>)"], rule triple_computing)
      (auto simp: update_db_def intro: versions)
  then show ?thesis unfolding update_versions_def by (intro keeps_intro)
qed

lemma errors_keeps: "keeps I (record_errors env es changed)"
proof -
  have "keeps I (\<lambda>s. case save_retrieval_errors es (st_db s) of
      (db, c) \<Rightarrow> Some (Inr (changed \<or> c, s\<lparr>st_db := db\<rparr>)))"
    unfolding keeps_def using errors [of _ es] by (auto simp: triple_def case_prod_beta)
  then show ?thesis unfolding record_errors_def by (intro keeps_intro)
qed

lemma report_keeps: "keeps I (write_report env)"
  unfolding write_report_def by (intro keeps_intro keeps_updating metrics)

text \<open>A pass keeps the predicate if cleaning the results and updating the summary do.\<close>

lemma inputs_keep_if:
  assumes "\<And>sel. keeps I (clean_results env sel)" and "\<And>changed. keeps I (update_summary env changed)"
  shows "keeps I (process_inputs env downloaded force es previous)"
  unfolding process_inputs_def case_prod_beta
  by (intro keeps_intro select_keeps recover_keeps extract_keeps assms validate_keeps versions_keeps
      errors_keeps report_keeps)

end

locale pass_invariant = pass_results +
  assumes summary: "I s \<Longrightarrow> I (s\<lparr>st_summary := x\<rparr>)"
    and delete_all: "I s \<Longrightarrow> I (s\<lparr>st_db := delete_all_documents (st_db s)\<rparr>)"
begin

lemma clean_keeps: "keeps I (clean_results env sel)"
proof -
  have "keeps I (update_db delete_all_documents)"
    unfolding update_db_def by (rule keeps_updating) (rule delete_all)
  then show ?thesis unfolding clean_results_def by (intro keeps_intro delete_pages_keep)
qed

lemma summary_keeps: "keeps I (update_summary env changed)"
  unfolding update_summary_def refresh_cached_summary_def
  by (intro keeps_intro keeps_updating summary)

lemma inputs_keep: "keeps I (process_inputs env downloaded force es previous)"
  by (rule inputs_keep_if) (rule clean_keeps summary_keeps)+

end

subsection \<open>Recording versions leaves the results alone\<close>

text \<open>The database without what recording versions may change.\<close>

definition results_of :: "provider_db \<Rightarrow> provider_db" where
  "results_of db = db\<lparr>db_versions := [], db_next_version_id := 0,
     db_documents := map (\<lambda>d. d\<lparr>dr_version_count := 0\<rparr>) (db_documents db)\<rparr>"

lemma fold_res_inv:
  "(\<And>x s s'. P s \<Longrightarrow> f x s = Inr s' \<Longrightarrow> P s') \<Longrightarrow> P s \<Longrightarrow> fold_res f xs s = Inr s' \<Longrightarrow> P s'"
  by (induction xs arbitrary: s) (auto split: sum.splits)

lemma collect_versions_inv:
  assumes emit: "\<And>c s s'. P s \<Longrightarrow> emit c s = Inr s' \<Longrightarrow> P s'"
    and start: "P s" and run: "collect_versions native utf8 blob parse oid head since emit s = Inr s'"
  shows "P s'"
proof -
  have commit: "P (snd cs')" if "P (snd cs)" "collect_commit native utf8 blob parse emit c cs = Inr cs'" for c cs cs'
    using that emit by (auto simp: collect_commit_def split: prod.splits sum.splits if_splits)
  have "P s'" if h: "map_sum (\<lambda>e. e) snd (fold_res (collect_commit native utf8 blob parse emit) cs (ca, s)) = Inr s'" for cs ca
  proof -
    obtain r where r: "fold_res (collect_commit native utf8 blob parse emit) cs (ca, s) = Inr r" "s' = snd r"
      using h by (cases "fold_res (collect_commit native utf8 blob parse emit) cs (ca, s)") auto
    have "P (snd r)"
      by (rule fold_res_inv [where P = "\<lambda>x. P (snd x)", OF _ _ r(1)]) (use commit start in auto)
    then show ?thesis by (simp add: r(2))
  qed
  then show ?thesis using run start by (auto simp: collect_versions_def split: option.splits)
qed

lemma results_simps:
  "results_of (db\<lparr>db_versions := vs\<rparr>) = results_of db"
  "results_of (insert_version c d db) = results_of db"
  "results_of (refresh_version_counts us db) = results_of db"
  by (auto simp: results_of_def insert_version_def refresh_version_counts_def Let_def comp_def
      intro!: arg_cong [where f = "\<lambda>ds. db\<lparr>db_documents := ds, db_versions := [], db_next_version_id := 0\<rparr>"])

lemma record_versions_results:
  assumes "record_versions native utf8 blob parse oid r head since db = Inr db'"
  shows "results_of db' = results_of db"
proof (cases r)
  case False
  then show ?thesis using assms by (simp add: record_versions_def)
next
  case True
  let ?db1 = "if since = None then db\<lparr>db_versions := []\<rparr> else db"
  have ins: "results_of (fold (insert_version c) ds x) = results_of x" for c ds x
    by (induction ds arbitrary: x) (simp_all add: results_simps)
  have chunks: "results_of (fst (fold (insert_versions c) cs x)) = results_of (fst x)" for c cs x
    by (induction cs arbitrary: x) (simp_all add: insert_versions_def ins case_prod_beta)
  have refresh: "results_of (fold (\<lambda>u. refresh_version_counts (Some u)) us x) = results_of x" for us x
    by (induction us arbitrary: x) (simp_all add: results_simps)
  obtain db2 touched where c: "collect_versions native utf8 blob parse oid head since store_commit (?db1, [])
      = Inr (db2, touched)"
    and d: "db' = (if since = None then refresh_version_counts None db2
      else fold (\<lambda>chunk. refresh_version_counts (Some chunk)) (chunks URL_CHUNK (sort (remdups touched))) db2)"
    using assms True by (auto simp: record_versions_def Let_def split: sum.splits if_splits)
  have emit: "results_of (fst x') = results_of (fst x)" if "store_commit c x = Inr x'" for c x x'
    using that by (auto simp: store_commit_def chunks)
  have "results_of (fst (db2, touched)) = results_of db"
    by (rule collect_versions_inv [where P = "\<lambda>x. results_of (fst x) = results_of db", OF _ _ c])
      (simp_all add: emit results_simps)
  then show ?thesis unfolding d by (simp add: refresh results_simps)
qed

lemma results_eqD:
  assumes "results_of db = results_of db'"
  shows "db_checkpoint db = db_checkpoint db'" "db_failures db = db_failures db'"
    "db_revisions db = db_revisions db'" "db_vulnerabilities db = db_vulnerabilities db'"
    "db_next_id db = db_next_id db'" "db_membership db = db_membership db'"
    "map (\<lambda>d. d\<lparr>dr_version_count := 0\<rparr>) (db_documents db) = map (\<lambda>d. d\<lparr>dr_version_count := 0\<rparr>) (db_documents db')"
  using arg_cong [OF assms, of db_checkpoint] arg_cong [OF assms, of db_failures]
    arg_cong [OF assms, of db_revisions] arg_cong [OF assms, of db_vulnerabilities]
    arg_cong [OF assms, of db_next_id] arg_cong [OF assms, of db_membership]
    arg_cong [OF assms, of db_documents]
  by (simp_all add: results_of_def)

lemma results_map:
  assumes "results_of db = results_of db'" and "\<And>d n. f (d\<lparr>dr_version_count := n\<rparr>) = f d"
  shows "map f (db_documents db) = map f (db_documents db')"
proof -
  have "map f ds = map f (map (\<lambda>d. d\<lparr>dr_version_count := 0\<rparr>) ds)" for ds
    by (simp add: assms(2) comp_def)
  then show ?thesis using results_eqD(7) [OF assms(1)] by metis
qed

lemma record_versions_inv:
  assumes "record_versions native utf8 blob parse oid r head since db = Inr db'"
  shows "db_inv db' = db_inv db"
proof -
  note r = record_versions_results [OF assms]
  have "document_ids db' = document_ids db" "document_urls db' = document_urls db"
    unfolding document_ids_def document_urls_def by (rule results_map [OF r], simp)+
  then show ?thesis by (simp add: db_inv_def results_eqD [OF r])
qed

subsection \<open>The checkpoint and the other files\<close>

definition checkpoint_key :: "provider_db \<Rightarrow> (string \<times> string) option" where
  "checkpoint_key db = map_option (\<lambda>c. (pk_commit_id c, pk_fingerprint c)) (db_checkpoint db)"

lemma checkpoint_dirty [simp]: "checkpoint_key (mark_summary_dirty db) = checkpoint_key db"
  by (simp add: checkpoint_key_def mark_summary_dirty_def option.map_comp comp_def)

lemma save_document_checkpoint [simp]: "db_checkpoint (save_document lower doc db) = db_checkpoint db"
  by (simp add: save_document_def Let_def insert_document_def delete_ids_def)

lemma delete_url_checkpoint [simp]: "checkpoint_key (delete_document_url u db) = checkpoint_key db"
  by (simp add: delete_document_url_def Let_def) (simp add: checkpoint_key_def delete_ids_def)

lemma error_checkpoint [simp]: "db_checkpoint (fst (save_retrieval_error f x)) = db_checkpoint (fst x)"
  by (cases x) (simp add: save_retrieval_error_def update_row_def split: option.split)

lemma checkpoint_folds:
  "db_checkpoint (fold (save_document lower) docs db) = db_checkpoint db"
  "checkpoint_key (fold delete_document_url urls db) = checkpoint_key db"
  "db_checkpoint (fst (fold save_retrieval_error es x)) = db_checkpoint (fst x)"
  by (induction docs arbitrary: db, simp_all)
    (induction urls arbitrary: db, simp_all, induction es arbitrary: x, simp_all)

lemma checkpoint_writes [simp]:
  "checkpoint_key (fst (save_documents lower docs db)) = checkpoint_key db"
  "checkpoint_key (delete_document_urls urls db) = checkpoint_key db"
  "checkpoint_key (delete_all_documents db) = checkpoint_key db"
  "checkpoint_key (fst (save_retrieval_errors es db)) = checkpoint_key db"
proof -
  have "checkpoint_key (fold (save_document lower) docs db) = checkpoint_key db"
    by (simp add: checkpoint_key_def checkpoint_folds)
  then show "checkpoint_key (fst (save_documents lower docs db)) = checkpoint_key db"
    by (simp add: save_documents_def Let_def)
  show "checkpoint_key (delete_document_urls urls db) = checkpoint_key db"
    by (simp add: delete_document_urls_fold checkpoint_folds)
  show "checkpoint_key (delete_all_documents db) = checkpoint_key db"
    by (simp add: checkpoint_key_def delete_all_documents_def)
  have "checkpoint_key (fst (fold save_retrieval_error es (db, False))) = checkpoint_key db"
    by (simp add: checkpoint_key_def checkpoint_folds)
  then show "checkpoint_key (fst (save_retrieval_errors es db)) = checkpoint_key db"
    by (simp add: save_retrieval_errors_def case_prod_beta)
qed

lemma checkpoint_versions:
  "record_versions native utf8 blob parse oid r head since db = Inr db' \<Longrightarrow> checkpoint_key db' = checkpoint_key db"
  using results_eqD(1) [OF record_versions_results] by (simp add: checkpoint_key_def)

interpretation stored_key: pass_invariant "\<lambda>s. checkpoint_key (st_db s) = k" for k
  by unfold_locales (auto dest: checkpoint_versions)

interpretation stored_files: pass_invariant
  "\<lambda>s. st_sync s = x \<and> st_dist_errors s = y \<and> st_health s = z \<and> st_repo s = r" for x y z r
  by unfold_locales auto

interpretation stored_rows: pass_invariant "\<lambda>s. db_inv (st_db s)"
  by unfold_locales (auto simp: save_documents_inv delete_all_documents_inv delete_urls_inv
      save_retrieval_errors_inv dest: record_versions_inv)

subsection \<open>The selection that is processed\<close>

lemma triple_fact: "(b \<Longrightarrow> triple P p Q E) \<Longrightarrow> triple (\<lambda>s. P s \<and> b) p Q E"
  by (cases b) (auto simp: triple_def)

text \<open>The checkpoint that a pass over the head of the repository publishes.\<close>

definition checkpoint_of :: "snapshot_env \<Rightarrow> git_repo option \<Rightarrow> processing_checkpoint \<Rightarrow> bool" where
  "checkpoint_of env repo c \<longleftrightarrow> \<not> pk_summary_dirty c
     \<and> (\<exists>rp head identity. repo = Some rp \<and> head_commit rp = Some head \<and> pk_commit_id c = cm_id head
         \<and> sn_identity env = Inr identity
         \<and> fingerprint_of ((sn_git env)\<lparr>ge_blob := rp_blobs rp\<rparr>) identity (cm_tree head) = Inr (pk_fingerprint c))"

lemma map_sum_Inr: "map_sum f g z = Inr y \<longleftrightarrow> (\<exists>x. z = Inr x \<and> y = g x)"
  by (cases z) auto

lemma select_checkpoint:
  assumes "select_processing env head previous ident force = Some (Inr sel)"
  shows "pk_commit_id (sel_checkpoint sel) = cm_id head \<and> \<not> pk_summary_dirty (sel_checkpoint sel)
    \<and> fingerprint_of env ident (cm_tree head) = Inr (pk_fingerprint (sel_checkpoint sel))"
  using assms by (auto simp: select_processing_def Let_def map_sum_Inr split: sum.splits prod.splits)

lemma and_then_Inr: "and_then p f s = Some (Inr r) \<longleftrightarrow> (\<exists>x t. p s = Some (Inr (x, t)) \<and> f x t = Some (Inr r))"
  by (auto simp: and_then_def split: option.splits sum.splits)

lemma step_Inr: "step env st p s = Some (Inr r) \<longleftrightarrow> sn_fault env st = None \<and> p s = Some (Inr r)"
  by (auto simp: step_def unless_def failing_def split: option.split)

lemma basic_Inr:
  "returning x s = Some (Inr r) \<longleftrightarrow> r = (x, s)"
  "reading f s = Some (Inr r') \<longleftrightarrow> r' = (f s, s)"
  "updating g s = Some (Inr r'') \<longleftrightarrow> r'' = ((), g s)"
  "lifting res s = Some (Inr q) \<longleftrightarrow> (\<exists>y. res = Inr y \<and> q = (y, s))"
  by (auto simp: prog_defs split: sum.splits)

lemma computing_Inr: "computing h s = Some (Inr q) \<longleftrightarrow> (\<exists>y. h s = Some (Inr y) \<and> q = (y, s))"
proof (cases "h s")
  case (Some r)
  then show ?thesis by (cases r) (auto simp: computing_def)
qed (simp add: computing_def)

lemmas prog_Inr = and_then_Inr step_Inr basic_Inr computing_Inr

lemma open_snapshot_Inr:
  "open_snapshot env s = Inr view \<longleftrightarrow> (\<exists>rp head. st_repo s = Some rp \<and> head_commit rp = Some head
     \<and> view = \<lparr>vw_git = (sn_git env)\<lparr>ge_blob := rp_blobs rp\<rparr>, vw_head = head\<rparr>)"
  by (auto simp: open_snapshot_def split: option.splits)

lemma enter_keeps_repo:
  "enter env p s = Some (Inr (x, t)) \<Longrightarrow> st_repo t = st_repo s \<and> st_db t = st_db s"
  by (auto simp: enter_def update_jobs_def updating_def)

lemma select_inputs_Inr:
  assumes "select_inputs env force previous s = Some (Inr ((view, sel), t))"
  shows "open_snapshot env s = Inr view \<and> (\<exists>ident. sn_identity env = Inr ident
      \<and> select_processing (vw_git view) (vw_head view) previous ident force = Some (Inr sel))
    \<and> st_db t = st_db s \<and> st_repo t = st_repo s"
  using assms by (auto simp: select_inputs_def prog_Inr open_snapshot_Inr dest!: enter_keeps_repo sym [of "Some _"])

lemma select_inputs_checkpoint:
  assumes "select_inputs env force previous s = Some (Inr ((view, sel), t))"
  shows "checkpoint_of env (st_repo s) (sel_checkpoint sel)"
  using select_inputs_Inr [OF assms] select_checkpoint [of "vw_git view" "vw_head view" previous _ force sel]
  by (auto simp: checkpoint_of_def open_snapshot_Inr)

lemma recovered_selection:
  assumes "page_loop batch (include_recovered_downloads parse ex) c sel = Some (Inr sel')"
  shows "\<exists>a. sel' = sel\<lparr>sel_advisories := a\<rparr>"
proof -
  have one: "\<exists>a. y = x\<lparr>sel_advisories := a\<rparr>" if "include_recovered parse ex u x = Inr y" for u x y
    using that by (auto simp: include_recovered_def split: sum.splits option.splits if_splits
        intro: exI [of _ "sel_advisories x"])
  have many: "\<exists>a. y = x\<lparr>sel_advisories := a\<rparr>" if "include_recovered_downloads parse ex us x = Inr y" for us x y
  proof (cases "sel_full x")
    case True
    then show ?thesis using that by (auto simp: include_recovered_downloads_def intro: exI [of _ "sel_advisories x"])
  next
    case False
    have "fold_res (include_recovered parse ex) us x = Inr y" using that False by (simp add: include_recovered_downloads_def)
    then show ?thesis
      by (rule fold_res_inv [where P = "\<lambda>y. \<exists>a. y = x\<lparr>sel_advisories := a\<rparr>", rotated 2])
        (auto dest!: one intro: exI [of _ "sel_advisories x"])
  qed
  have "case Inr sel' :: string + processing_selection of Inl _ \<Rightarrow> True | Inr y \<Rightarrow> \<exists>a. y = sel\<lparr>sel_advisories := a\<rparr>"
    by (rule page_loop_inv [OF _ assms]) (auto split: sum.split dest!: many intro: exI [of _ "sel_advisories sel"])
  then show ?thesis by simp
qed

lemma recover_Inr:
  assumes "recover_downloads env downloaded sel s = Some (Inr (sel', t))"
  shows "\<exists>a. sel' = sel\<lparr>sel_advisories := a\<rparr>"
  using assms recovered_selection
  by (auto simp: recover_downloads_def prog_Inr split: if_splits intro: exI [of _ "sel_advisories sel"])

lemma summary_present:
  "update_summary env changed s = Some (Inr (u, t)) \<Longrightarrow> st_summary t \<noteq> None"
  by (auto simp: update_summary_def refresh_cached_summary_def prog_Inr split: if_splits)

lemma and_then_Inl:
  "and_then p f s = Some (Inl x) \<longleftrightarrow>
     p s = Some (Inl x) \<or> (\<exists>y t. p s = Some (Inr (y, t)) \<and> f y t = Some (Inl x))"
  by (auto simp: and_then_def split: option.splits sum.splits)

lemma step_Inl:
  "step env st p s = Some (Inl x) \<longleftrightarrow> (case sn_fault env st of Some e \<Rightarrow> x = (e, s) | None \<Rightarrow> p s = Some (Inl x))"
  by (auto simp: step_def unless_def failing_def split: option.split)

lemma basic_Inl:
  "returning x s \<noteq> Some (Inl r)" "reading f s \<noteq> Some (Inl r')" "updating g s \<noteq> Some (Inl r'')"
  "lifting res s = Some (Inl q) \<longleftrightarrow> (\<exists>e. res = Inl e \<and> q = (e, s))"
  by (auto simp: prog_defs split: sum.splits)

lemma and_then_run:
  "p s = Some (Inr (x, t)) \<Longrightarrow> and_then p f s = f x t"
  "p s = Some (Inl z) \<Longrightarrow> and_then p f s = Some (Inl z)"
  by (simp_all add: and_then_def)

lemmas prog_Inl = and_then_Inl step_Inl basic_Inl

lemma keepsD:
  "keeps I p \<Longrightarrow> I s \<Longrightarrow> p s = Some (Inr (x, t)) \<Longrightarrow> I t"
  "keeps I p \<Longrightarrow> I s \<Longrightarrow> p s = Some (Inl (e, t)) \<Longrightarrow> I t"
  unfolding keeps_def by (auto dest: tripleD)

text \<open>What a pass starts from: the stored checkpoint, cleared when the pass is forced.\<close>

definition started :: "bool \<Rightarrow> provider_store \<Rightarrow> provider_store" where
  "started force s = (if force then s\<lparr>st_db := clear_processing_checkpoint (st_db s)\<rparr> else s)"

lemma start_Inr: "start_pass env force s = Some (Inr (previous, t)) \<Longrightarrow>
    previous = db_checkpoint (st_db s) \<and> t = started force s"
  by (auto simp: start_pass_def prog_Inr processing_checkpoint_row_def update_db_def started_def split: if_splits)

lemma start_Inl: "start_pass env force s = Some (Inl (e, t)) \<Longrightarrow> t = s"
  by (auto simp: start_pass_def prog_Inr prog_Inl update_db_def split: if_splits option.splits)

lemma process_snapshot_cases:
  assumes "process_snapshot env downloaded force es s = Some r"
  obtains e t where "r = Inl (e, t)" "t = s"
  | e t where "r = Inl (e, t)" "process_inputs env downloaded force es (db_checkpoint (st_db s)) (started force s) = Some (Inl (e, t))"
  | c e t where "r = Inl (e, t)" "process_inputs env downloaded force es (db_checkpoint (st_db s)) (started force s) = Some (Inr (c, t))"
  | c t u where "r = Inr ((), u)" "process_inputs env downloaded force es (db_checkpoint (st_db s)) (started force s) = Some (Inr (c, t))"
      "u = t\<lparr>st_db := save_processing_checkpoint c (st_db t)\<rparr>"
proof (cases r)
  case (Inl x)
  then show ?thesis
    using assms that(1-3)
    by (cases x) (auto simp: process_snapshot_def prog_Inl update_db_def dest!: start_Inr start_Inl split: option.splits)
next
  case (Inr x)
  then show ?thesis
    using assms that(4)
    by (cases x) (auto simp: process_snapshot_def prog_Inr update_db_def dest!: start_Inr)
qed

lemma inputs_Inr:
  assumes "process_inputs env downloaded force es previous s = Some (Inr (c, t))"
  shows "checkpoint_of env (st_repo s) c \<and> st_summary t \<noteq> None"
proof -
  obtain view selected s1 sel s2 s3 s4 changed where
    sel: "select_inputs env force previous s = Some (Inr ((view, selected), s1))"
    and rec: "recover_downloads env downloaded selected s1 = Some (Inr (sel, s2))"
    and sum: "update_summary env changed s3 = Some (Inr ((), s4))"
    and rep: "write_report env s4 = Some (Inr ((), t))" and c: "c = sel_checkpoint sel"
    using assms unfolding process_inputs_def prog_Inr case_prod_beta by (elim exE conjE) auto
  have "sel_checkpoint sel = sel_checkpoint selected" using recover_Inr [OF rec] by auto
  moreover have "st_summary t = st_summary s4"
    using rep by (auto simp: write_report_def prog_Inr enter_def update_jobs_def set_total_def)
  ultimately show ?thesis using select_inputs_checkpoint [OF sel] summary_present [OF sum] c by simp
qed

subsection \<open>The pipeline around a pass\<close>

lemma members_other_tables:
  assumes "save_distribution_membership m db = Inr db'"
  shows "other_tables db' = other_tables db"
proof -
  have del: "other_tables (fold (delete_members d) us x) = other_tables x" for d us x
    by (induction us arbitrary: x) (simp_all add: delete_members_def other_tables_def)
  have ins: "other_tables y = other_tables x" if "fold_res (insert_members d) us x = Inr y" for d us x y
    using that by (rule fold_res_inv [where P = "\<lambda>y. other_tables y = other_tables x", rotated 2])
      (auto simp: insert_members_def other_tables_def split: if_splits)
  have "other_tables y = other_tables x" if "save_distribution e x = Inr y" for e x y
    using that by (auto simp: save_distribution_def Let_def del dest!: ins split: prod.splits)
  then show ?thesis
    using assms unfolding save_distribution_membership_def
    by (auto elim!: fold_res_inv [where P = "\<lambda>y. other_tables y = other_tables db", rotated 2])
qed

lemma members_key: "save_distribution_membership m db = Inr db' \<Longrightarrow> db_checkpoint db' = db_checkpoint db"
  using arg_cong [OF members_other_tables, of m db db' db_checkpoint] by (simp add: other_tables_def)

definition snapshot_done :: "snapshot_env \<Rightarrow> provider_store \<Rightarrow> bool" where
  "snapshot_done env s \<longleftrightarrow> st_summary s \<noteq> None
     \<and> (\<exists>c. db_checkpoint (st_db s) = Some c \<and> checkpoint_of env (st_repo s) c)"

lemma inputs_keep_repo:
  assumes "process_inputs env downloaded force es previous s = Some (Inr (c, t))"
  shows "st_repo t = st_repo s"
  using keepsD(1) [OF stored_files.inputs_keep [of "st_sync s" "st_dist_errors s" "st_health s" "st_repo s"] _ assms]
  by simp

lemma started_repo [simp]: "st_repo (started force s) = st_repo s"
  by (simp add: started_def)

lemma snapshot_Inr:
  assumes "process_snapshot env downloaded force es s = Some (Inr (x, t))"
  shows "snapshot_done env t"
  using assms
proof (cases rule: process_snapshot_cases)
  case (4 c u v)
  then show ?thesis
    using inputs_Inr [OF 4(2)] inputs_keep_repo [OF 4(2)]
    by (auto simp: snapshot_done_def save_processing_checkpoint_def checkpoint_of_def)
qed auto

lemma snapshot_Inl:
  assumes "process_snapshot env downloaded force es s = Some (Inl (e, t))"
  shows "checkpoint_key (st_db t) = checkpoint_key (st_db s) \<or> (force \<and> db_checkpoint (st_db t) = None)"
proof -
  let ?k = "if force then None else checkpoint_key (st_db s)"
  have start: "checkpoint_key (st_db (started force s)) = ?k"
    by (simp add: started_def clear_processing_checkpoint_def checkpoint_key_def)
  have "t = s \<or> checkpoint_key (st_db t) = ?k"
    using assms
  proof (cases rule: process_snapshot_cases)
    case (2 e' t')
    then show ?thesis using keepsD(2) [OF stored_key.inputs_keep start] by simp
  next
    case (3 c e' t')
    then show ?thesis using keepsD(1) [OF stored_key.inputs_keep start] by simp
  qed auto
  then show ?thesis by (auto simp: checkpoint_key_def split: if_splits)
qed

lemma snapshot_files:
  "keeps (\<lambda>s. st_sync s = x \<and> st_dist_errors s = y \<and> st_health s = z \<and> st_repo s = r)
     (process_snapshot env downloaded force es)"
  unfolding process_snapshot_def start_pass_def update_db_def
  by (intro keeps_intro stored_files.inputs_keep keeps_updating) auto

lemma walk_provider_keeps:
  "(\<And>s jobs. Q s \<Longrightarrow> Q (s\<lparr>st_jobs := jobs\<rparr>)) \<Longrightarrow> keeps Q (walk_provider env wv dir src)"
  unfolding keeps_def by (rule tripleI) (auto simp: walk_provider_def split: prod.splits option.splits)

lemma sync_keeps: "(\<And>s jobs. Q s \<Longrightarrow> Q (s\<lparr>st_jobs := jobs\<rparr>)) \<Longrightarrow> keeps Q (sync_provider env wv dir)"
  unfolding sync_provider_def by (intro keeps_intro walk_provider_keeps)

text \<open>Whatever \<open>Q\<close> says about the checkpoint, the sync state and the repository, these steps keep it.\<close>

lemma before_keeps:
  fixes Q :: "processing_checkpoint option \<Rightarrow> sync_state option \<Rightarrow> git_repo option \<Rightarrow> bool"
  shows "keeps (\<lambda>s. Q (db_checkpoint (st_db s)) (st_sync s) (st_repo s)) (enter env p)"
    "keeps (\<lambda>s. Q (db_checkpoint (st_db s)) (st_sync s) (st_repo s)) (update_jobs f)"
    "keeps (\<lambda>s. Q (db_checkpoint (st_db s)) (st_sync s) (st_repo s)) (persist_provider_metadata env parse files)"
    "keeps (\<lambda>s. Q (db_checkpoint (st_db s)) (st_sync s) (st_repo s)) (updating (save_distribution_errors es))"
    "keeps (\<lambda>s. Q (db_checkpoint (st_db s)) (st_sync s) (st_repo s)) (save_members env ms)"
    "keeps (\<lambda>s. Q (db_checkpoint (st_db s)) (st_sync s) (st_repo s)) (refresh_health env menv)"
proof -
  let ?I = "\<lambda>s. Q (db_checkpoint (st_db s)) (st_sync s) (st_repo s)"
  show "keeps ?I (enter env p)" "keeps ?I (update_jobs f)" "keeps ?I (updating (save_distribution_errors es))"
    by (simp_all add: enter_def update_jobs_def keeps_def save_distribution_errors_def)
  show "keeps ?I (persist_provider_metadata env parse files)"
    by (simp add: persist_provider_metadata_def keeps_def update_db_def save_provider_info_def split: option.split)
  have "keeps ?I (and_then (computing (\<lambda>s. Some (save_distribution_membership ms (st_db s)))) (\<lambda>db. update_db (\<lambda>_. db)))"
    unfolding keeps_def
    by (rule triple_then [where Q = "\<lambda>db s. Q (db_checkpoint db) (st_sync s) (st_repo s)"], rule triple_computing)
      (auto simp: update_db_def dest: members_key)
  then show "keeps ?I (save_members env ms)" unfolding save_members_def by (rule keeps_intro)
  have "keeps ?I (\<lambda>s. case refresh_distribution_health menv s of
      Inl e \<Rightarrow> Some (Inl (e, s)) | Inr (_, s') \<Rightarrow> Some (Inr ((), s')))"
    unfolding keeps_def
    by (rule tripleI) (auto simp: refresh_distribution_health_def map_sum_Inr split: sum.splits)
  then show "keeps ?I (refresh_health env menv)" unfolding refresh_health_def by (rule keeps_intro)
qed

lemma fetch_keeps: "keeps (\<lambda>s. Q (db_checkpoint (st_db s)) (st_sync s)) (fetch_snapshot pn)"
proof -
  have prepare: "keeps (\<lambda>s. Q (db_checkpoint (st_db s)) (st_sync s)) (open_worktree pn)"
    unfolding keeps_def by (rule tripleI) (auto simp: open_worktree_def split: sum.splits)
  have commit: "keeps (\<lambda>s. Q (db_checkpoint (st_db s)) (st_sync s)) (commit_worktree pn wt)" for wt
    unfolding keeps_def by (rule tripleI) (auto simp: commit_worktree_def split: sum.splits option.splits prod.splits)
  note steps = before_keeps(1,2) [of "\<lambda>c x r. Q c x"]
  show ?thesis
    unfolding fetch_snapshot_def Let_def case_prod_beta
    by (intro keeps_intro steps sync_keeps prepare commit) simp_all
qed

text \<open>The result of a download that was made: it carries the time the download started.\<close>

lemma fetched_start:
  assumes "fetch_snapshot pn s = Some (Inr ((result, wt), t))"
  shows "sn_started_at result = wv_started_at (pn_walk pn)"
  using assms
  by (auto simp: fetch_snapshot_def Let_def prog_Inr sync_provider_def walk_provider_def case_prod_beta
      split: if_splits option.splits prod.splits)

definition walked :: "pipeline_env \<Rightarrow> sync_result \<Rightarrow> bool" where
  "walked pn result \<longleftrightarrow> sn_started_at result = wv_started_at (pn_walk pn)"

definition head_processed :: "pipeline_env \<Rightarrow> provider_store \<Rightarrow> bool" where
  "head_processed pn s \<longleftrightarrow> (\<exists>c. db_checkpoint (st_db s) = Some c \<and> checkpoint_of (pn_snapshot pn) (st_repo s) c)"

definition token_advanced :: "pipeline_env \<Rightarrow> provider_store \<Rightarrow> bool" where
  "token_advanced pn s \<longleftrightarrow>
     sy_since_token (load_sync_state (sn_domain (pn_snapshot pn)) s) = Some (wv_started_at (pn_walk pn))"

lemma advance_token_triple:
  assumes "walked pn result"
  shows "triple (\<lambda>t. st_sync t = x \<and> head_processed pn t) (advance_sync_state (pn_snapshot pn) now result)
    (\<lambda>_ t. head_processed pn t \<and> token_advanced pn t) (\<lambda>t. st_sync t = x \<and> head_processed pn t)"
proof (rule tripleI)
  fix s e t
  assume s: "st_sync s = x \<and> head_processed pn s"
    and r: "advance_sync_state (pn_snapshot pn) now result s = Some (Inl (e, t))"
  from r have "t = s" by (auto simp: advance_sync_state_def prog_Inl prog_Inr split: option.splits)
  then show "st_sync t = x \<and> head_processed pn t" using s by simp
next
  fix s y t
  assume s: "st_sync s = x \<and> head_processed pn s"
    and r: "advance_sync_state (pn_snapshot pn) now result s = Some (Inr (y, t))"
  obtain z where t: "t = save_sync_state (z\<lparr>sy_last_sync := Some now, sy_since_token := Some (sn_started_at result)\<rparr>) s"
    using r by (auto simp: advance_sync_state_def prog_Inr)
  have "head_processed pn t" using s by (simp add: t head_processed_def save_sync_state_def)
  moreover have "token_advanced pn t"
    using assms by (simp add: t token_advanced_def save_sync_state_def load_sync_state_def walked_def)
  ultimately show "head_processed pn t \<and> token_advanced pn t" by blast
qed

lemma pipeline_published:
  "triple (\<lambda>t. st_sync t = x \<and> checkpoint_key (st_db t) = k) (run_pipeline pn)
    (\<lambda>_ t. head_processed pn t \<and> token_advanced pn t)
    (\<lambda>t. st_sync t = x \<and> (checkpoint_key (st_db t) = k \<or> head_processed pn t))"
proof -
  let ?env = "pn_snapshot pn"
  let ?before = "\<lambda>t. st_sync t = x \<and> checkpoint_key (st_db t) = k"
  let ?done = "\<lambda>t. st_sync t = x \<and> head_processed pn t"
  let ?any = "\<lambda>t. st_sync t = x \<and> (checkpoint_key (st_db t) = k \<or> head_processed pn t)"
  note old = before_keeps(3,4) [of "\<lambda>c y r. y = x \<and> map_option (\<lambda>c. (pk_commit_id c, pk_fingerprint c)) c = k",
      folded checkpoint_key_def]
  note fk = fetch_keeps [of "\<lambda>c y. y = x \<and> map_option (\<lambda>c. (pk_commit_id c, pk_fingerprint c)) c = k" pn,
      folded checkpoint_key_def]
  have fetch: "triple ?before (fetch_snapshot pn) (\<lambda>(result, wt) t. ?before t \<and> walked pn result) ?any"
  proof (rule tripleI)
    fix u e v assume b: "?before u" and r: "fetch_snapshot pn u = Some (Inl (e, v))"
    show "?any v" using keepsD(2) [OF fk b r] by simp
  next
    fix u y v assume b: "?before u" and r: "fetch_snapshot pn u = Some (Inr (y, v))"
    obtain result wt where y: "y = (result, wt)" by force
    have "walked pn result" using fetched_start r unfolding walked_def y by blast
    then show "(case y of (result, wt) \<Rightarrow> \<lambda>t. ?before t \<and> walked pn result) v"
      using keepsD(1) [OF fk b r] by (simp add: y)
  qed
  have pass: "triple ?before (process_snapshot ?env dl False es) (\<lambda>_. ?done) ?any" for dl es
  proof (rule tripleI)
    fix u e v
    assume b: "?before u" and r: "process_snapshot ?env dl False es u = Some (Inl (e, v))"
    have "st_sync v = st_sync u" using keepsD(2) [OF snapshot_files _ r] by simp
    moreover have "checkpoint_key (st_db v) = checkpoint_key (st_db u)" using snapshot_Inl [OF r] by simp
    ultimately show "?any v" using b by simp
  next
    fix u y v
    assume b: "?before u" and r: "process_snapshot ?env dl False es u = Some (Inr (y, v))"
    have "st_sync v = st_sync u" using keepsD(1) [OF snapshot_files _ r] by simp
    then show "?done v" using snapshot_Inr [OF r] b by (simp add: snapshot_done_def head_processed_def)
  qed
  note new = before_keeps(5,6) [of "\<lambda>c y r. y = x \<and> (\<exists>k. c = Some k \<and> checkpoint_of ?env r k)",
      folded head_processed_def, unfolded keeps_def]
  have members: "triple ?done (save_members ?env ms) (\<lambda>_. ?done) ?any" for ms
    by (rule triple_weaken [OF new(1)]; simp)
  have health: "triple ?done (refresh_health ?env menv) (\<lambda>_. ?done) ?any" for menv
    by (rule triple_weaken [OF new(2)]; simp)
  have meta: "triple ?before (persist_provider_metadata ?env parse files) (\<lambda>_. ?before) ?any" for parse files
    by (rule triple_weaken [OF old(1) [unfolded keeps_def]]; simp)
  have errs: "triple ?before (step ?env st (updating (save_distribution_errors es))) (\<lambda>_. ?before) ?any" for st es
    by (rule triple_weaken [OF keeps_step [OF old(2), unfolded keeps_def]]; simp)
  show ?thesis
    unfolding run_pipeline_def Let_def
  proof (rule triple_then [OF fetch])
    fix y :: "sync_result \<times> worktree"
    obtain result wt where y: "y = (result, wt)" by force
    show "triple ((\<lambda>(result, wt) t. ?before t \<and> walked pn result) y)
       (case y of (result, wt) \<Rightarrow>
      and_then (persist_provider_metadata ?env (pn_parse_metadata pn) (wt_files wt)) (\<lambda>_.
      and_then (step ?env AtSaveDistributionErrors (updating (save_distribution_errors (sn_distribution_errors result)))) (\<lambda>_.
      and_then (process_snapshot ?env (in_scratch wt) False (sn_retrieval_errors result)) (\<lambda>_.
      and_then (save_members ?env (sn_membership result)) (\<lambda>_.
      and_then (refresh_health ?env (pn_metadata_env pn)) (\<lambda>_.
      advance_sync_state ?env (pn_now pn) result))))))
        (\<lambda>_ t. head_processed pn t \<and> token_advanced pn t) ?any"
      unfolding y prod.case conj_assoc [symmetric]
    proof (rule triple_fact)
      assume w: "walked pn result"
      note last = triple_weaken [OF advance_token_triple [OF w], where E' = ?any]
      show "triple ?before
      (and_then (persist_provider_metadata ?env (pn_parse_metadata pn) (wt_files wt)) (\<lambda>_.
      and_then (step ?env AtSaveDistributionErrors (updating (save_distribution_errors (sn_distribution_errors result)))) (\<lambda>_.
      and_then (process_snapshot ?env (in_scratch wt) False (sn_retrieval_errors result)) (\<lambda>_.
      and_then (save_members ?env (sn_membership result)) (\<lambda>_.
      and_then (refresh_health ?env (pn_metadata_env pn)) (\<lambda>_.
      advance_sync_state ?env (pn_now pn) result))))))
        (\<lambda>_ t. head_processed pn t \<and> token_advanced pn t) ?any"
        by (intro triple_then [OF meta] triple_then [OF errs] triple_then [OF pass] triple_then [OF members]
            triple_then [OF health], rule last) blast+
    qed
  qed
qed

text \<open>An environment for examples: an incremental pass over the head of the sample history.\<close>

definition sample_repo :: git_repo where
  "sample_repo = \<lparr>rp_head = Some ''refs/heads/main'', rp_refs = [(''refs/heads/main'', commit_b)],
     rp_blobs = ge_blob sample_env\<rparr>"

definition sample_snapshot :: snapshot_env where
  "sample_snapshot = \<lparr>sn_domain = ''p'', sn_git = sample_env, sn_identity = Inr ''v1'',
     sn_lib = sample_validator, sn_dir = (\<lambda>files. \<lparr>vd_files = [''d/x.json.zst''], vd_dirs = [], vd_read = files\<rparr>),
     sn_parse_url = (\<lambda>_. None), sn_clock = (\<lambda>_. 5), sn_today = ''2026-01-01'',
     sn_fault = (\<lambda>_. None)\<rparr>"

definition sample_walk_env :: walk_env where
  "sample_walk_env = \<lparr>wv_lib = \<lparr>dl_compress = Some, dl_store_document = (\<lambda>_ _ _ d. Inr d), dl_to_vec_pretty = (\<lambda>_. None)\<rparr>,
     wv_skip_directories = [], wv_started_at = 7, wv_walk = (\<lambda>_. ([], Some ''unreachable''))\<rparr>"

definition sample_pipeline :: pipeline_env where
  "sample_pipeline = \<lparr>pn_snapshot = sample_snapshot, pn_walk = sample_walk_env,
     pn_parse_metadata = (\<lambda>_. None),
     pn_metadata_env = \<lparr>mv_upper = (\<lambda>x. x), mv_url_path = (\<lambda>_. None), mv_parse = (\<lambda>_. None)\<rparr>,
     pn_lib = sample_lib, pn_message = ''sync'', pn_pack_threshold = 10, pn_interfere = id, pn_now = 9\<rparr>"

definition sample_store_state :: provider_store where
  "sample_store_state = \<lparr>st_db = db_empty\<lparr>db_checkpoint := Some checkpoint_a\<rparr>, st_repo = Some sample_repo,
     st_summary = None, st_metrics = None, st_sync = None, st_dist_errors = None, st_health = None,
     st_jobs = Map.empty\<rparr>"

text \<open>
  C2. Progress is published last. A synchronization that fails anywhere, in any storage step or
  library, leaves the sync state with its token untouched, and the processing checkpoint either
  untouched or moved to the repository's head after that was processed completely; so what it
  downloaded is considered again by the next run. One that succeeds has moved the checkpoint to the
  repository's head, with the fingerprint of its validation inputs, and the token to the start of
  its own download.
\<close>

theorem progress_published_last:
  assumes "run_pipeline pn s = Some r"
  shows "case r of
      Inl (e, t) \<Rightarrow> st_sync t = st_sync s
        \<and> (checkpoint_key (st_db t) = checkpoint_key (st_db s) \<or> head_processed pn t)
    | Inr (_, t) \<Rightarrow> head_processed pn t \<and> token_advanced pn t"
proof (cases r)
  case (Inl x)
  obtain e t where x: "x = (e, t)" by force
  have "run_pipeline pn s = Some (Inl (e, t))" using assms Inl x by simp
  from tripleD(2) [OF pipeline_published conjI [OF refl refl] this] show ?thesis
    by (simp only: Inl x sum.case prod.case)
next
  case (Inr x)
  obtain t where x: "x = ((), t)" by (cases x) simp
  have "run_pipeline pn s = Some (Inr ((), t))" using assms Inr x by simp
  from tripleD(1) [OF pipeline_published conjI [OF refl refl] this] show ?thesis
    by (simp only: Inr x sum.case prod.case)
qed

theorem progress_published_last_witness:
  "\<exists>e t. run_pipeline sample_pipeline sample_store_state = Some (Inl (e, t)) \<and> st_sync t = None"
proof -
  let ?s = "sample_store_state"
  define s1 where "s1 = ?s\<lparr>st_jobs := update_job_phase 5 ''p'' Checkout (st_jobs ?s)\<rparr>"
  define s2 where "s2 = s1\<lparr>st_jobs := update_job_phase 5 ''p'' Discover (st_jobs s1)\<rparr>"
  have s: "st_sync ?s = None" "st_repo s1 = Some sample_repo" "st_sync s2 = None"
    by (simp_all add: s2_def s1_def sample_store_state_def)
  have enter: "enter sample_snapshot Checkout ?s = Some (Inr ((), s1))" "enter sample_snapshot Discover s1 = Some (Inr ((), s2))"
    by (simp_all add: s1_def s2_def enter_def update_jobs_def updating_def sample_snapshot_def)
  have ok: "step sample_snapshot st p = p" for st and p :: "'a provider_prog"
    by (simp add: step_def unless_def sample_snapshot_def)
  have walk: "sync_provider sample_snapshot sample_walk_env dir s2 = Some (Inl (''unreachable'', s2))" for dir
    by (simp add: sync_provider_def ok prog_Inl prog_Inr s load_sync_state_def sync_state_new_def walk_provider_def
        run_walk_def sample_walk_env_def walk_start_def)
  obtain wt where wt: "open_worktree sample_pipeline s1 = Some (Inr (wt, s1))"
    by (simp add: open_worktree_def prepare_worktree_def init_bare_def resolve_branch_def s sample_repo_def
        is_local_branch_def starts_with_def)
  have pn: "pn_snapshot sample_pipeline = sample_snapshot" "pn_walk sample_pipeline = sample_walk_env"
    by (simp_all add: sample_pipeline_def)
  have "fetch_snapshot sample_pipeline ?s = Some (Inl (''unreachable'', s2))"
    unfolding fetch_snapshot_def Let_def pn ok
    by (simp add: and_then_run enter wt walk)
  then have r: "run_pipeline sample_pipeline ?s = Some (Inl (''unreachable'', s2))"
    unfolding run_pipeline_def Let_def by (rule and_then_run(2))
  show ?thesis using progress_published_last [OF r] r s by simp
qed

end
