(* ===== verification/Pipeline_Facts.thy ===== *)
theory Pipeline_Facts
  imports Snapshot_Facts
begin

section \<open>Jobs end, and leave a current summary\<close>

text \<open>
  Facts about whole passes and jobs of \<open>server/src/scheduler/runner.rs\<close>: every job ends and leaves a
  final status, the phases of a job are entered in their order, and the cached summary of a provider
  is that of its stored results.
\<close>

subsection \<open>Termination\<close>

text \<open>A program that ends in every state; the collection has a rule per combinator.\<close>

definition ends :: "('s, 'a) prog \<Rightarrow> bool" where
  "ends p \<longleftrightarrow> (\<forall>s. p s \<noteq> None)"

named_theorems ends_intro

lemma ends_simps [ends_intro]:
  "ends (returning x)" "ends (failing e)" "ends (reading f)" "ends (updating g)"
  by (simp_all add: ends_def prog_defs)

lemma ends_lifting [ends_intro]: "ends (lifting r)"
  by (cases r) (simp_all add: lifting_def ends_intro)

lemma ends_step [ends_intro]: "ends p \<Longrightarrow> ends (step env st p)"
  by (simp add: step_def unless_def ends_intro split: option.split)

lemma ends_if [ends_intro]: "(b \<Longrightarrow> ends p) \<Longrightarrow> (\<not> b \<Longrightarrow> ends q) \<Longrightarrow> ends (if b then p else q)"
  by simp

lemma ends_then [ends_intro]:
  assumes "ends p" "\<And>x. ends (f x)"
  shows "ends (and_then p f)"
  unfolding ends_def
proof
  fix s
  obtain r where r: "p s = Some r" using assms(1) by (auto simp: ends_def)
  then show "and_then p f s \<noteq> None"
    using assms(2) by (cases r) (auto simp: and_then_def ends_def)
qed

lemma ends_computing: "(\<And>s. f s \<noteq> None) \<Longrightarrow> ends (computing f)"
  by (simp add: ends_def computing_def)

text \<open>
  A cursor loop over pages of keys beyond the cursor, out of finitely many, ends: the keys beyond
  the last one of a page are fewer.
\<close>

lemma page_loop_ends:
  fixes K :: "'k::linorder set"
  assumes fin: "finite K" and page: "\<And>c k. k \<in> set (batch c) \<Longrightarrow> c < k \<and> k \<in> K"
  shows "page_loop batch body c s \<noteq> None"
proof (induction "card {k \<in> K. c < k}" arbitrary: c s rule: less_induct)
  case less
  show ?case
  proof (cases "batch c")
    case (Cons p ps)
    obtain l where l: "l = last (p # ps)" by blast
    have "l \<in> set (batch c)" unfolding Cons l by (rule last_in_set) simp
    then have "c < l" "l \<in> K" using page by blast+
    then have "{k \<in> K. l < k} \<subseteq> {k \<in> K. c < k}" "l \<in> {k \<in> K. c < k} - {k \<in> K. l < k}"
      by (auto intro: less_trans)
    then have "{k \<in> K. last (p # ps) < k} \<subset> {k \<in> K. c < k}"
      unfolding l [symmetric] by blast
    then have "card {k \<in> K. last (p # ps) < k} < card {k \<in> K. c < k}"
      by (rule psubset_card_mono [rotated]) (simp add: fin)
    then have IH: "page_loop batch body (last (p # ps)) s' \<noteq> None" for s'
      by (rule less)
    show ?thesis
      using IH by (subst page_loop.simps) (simp add: Cons del: last.simps split: sum.split)
  qed (subst page_loop.simps, simp)
qed

lemma path_loop_ends: "\<exists>r. page_loop (path_batch ps) body c s = Some r"
  unfolding not_None_eq [symmetric]
  by (rule page_loop_ends [of "set (ps_paths ps)"]) (auto simp: path_batch_def dest: in_set_takeD)

lemma ends_paging [ends_intro]: "ends (paging (\<lambda>_. path_batch ps) body c)"
  by (simp add: path_loop_ends ends_def paging_def)

lemma select_ends: "select_processing env head previous ident force \<noteq> None"
  by (simp add: path_loop_ends select_processing_def Let_def split: sum.split prod.split)

lemma visit_ends: "\<exists>r. visit_processing_files env tree sel visitor s = Some r"
  by (simp add: path_loop_ends visit_processing_files_def split: sum.split)

lemma materialize_ends: "materialize env tree sel out \<noteq> None"
proof -
  obtain r where r: "visit_processing_files env tree sel (\<lambda>_ _ n. Inr (Suc n)) 0 = Some r"
    by (rule exE [OF visit_ends])
  obtain q where q: "visit_processing_files env tree sel (extract_file env)
      \<lparr>ex_files = 0, ex_documents = 0, ex_scratch = out\<rparr> = Some q"
    by (rule exE [OF visit_ends])
  show ?thesis by (simp add: materialize_def r q split: sum.split)
qed

lemma error_pages_end: "page_loop (retrieval_error_urls db) body c s \<noteq> None"
  by (rule page_loop_ends [of "set (error_urls db)"]) (auto simp: retrieval_error_urls_def dest: in_set_takeD)

lemma basic_ends [ends_intro]: "ends (enter env p)" "ends (update_jobs f)" "ends (update_db g)"
  by (simp_all add: enter_def update_jobs_def update_db_def ends_intro)

lemma inputs_end: "ends (process_inputs env downloaded force es previous)"
proof -
  have validation: "ends (run_validation env dir n)" for dir n
    by (simp add: ends_def run_validation_def split: prod.split sum.split)
  have errors: "ends (\<lambda>s. case save_retrieval_errors es (st_db s) of
      (db, c) \<Rightarrow> Some (Inr (changed \<or> c, s\<lparr>st_db := db\<rparr>)))" for changed
    by (simp add: ends_def split: prod.split)
  show ?thesis
    unfolding process_inputs_def select_inputs_def recover_downloads_def extract_inputs_def clean_results_def
      validate_inputs_def update_versions_def record_errors_def update_summary_def write_report_def
      refresh_cached_summary_def record_pass_def set_total_def case_prod_beta
    by (intro ends_intro ends_computing validation errors [unfolded case_prod_beta] select_ends materialize_ends
        error_pages_end) simp_all
qed

lemma snapshot_ends [ends_intro]: "ends (process_snapshot env downloaded force es)"
  unfolding process_snapshot_def start_pass_def by (intro ends_intro inputs_end)

lemma run_ends: "ends (run_pipeline pn)" "ends (run_revalidation pn)"
proof -
  have walk: "ends (walk_provider env wv dir src)" for env wv dir src
    by (simp add: ends_def walk_provider_def split: prod.split option.split)
  have prepare: "ends (open_worktree pn)" and commit: "ends (commit_worktree pn wt)" for wt
    by (simp_all add: ends_def open_worktree_def commit_worktree_def split: sum.split option.split prod.split)
  have health: "ends (refresh_health env menv)" for env menv
    unfolding refresh_health_def by (rule ends_step) (simp add: ends_def split: sum.split)
  have members: "ends (save_members env ms)" for env ms
    unfolding save_members_def by (intro ends_intro ends_computing) simp
  have meta: "ends (persist_provider_metadata env parse files)" for env parse files
    by (simp add: persist_provider_metadata_def ends_intro split: option.split)
  show "ends (run_pipeline pn)" "ends (run_revalidation pn)"
    unfolding run_pipeline_def run_revalidation_def fetch_snapshot_def sync_provider_def advance_sync_state_def
      Let_def case_prod_beta
    by (intro ends_intro walk prepare commit health members meta)+
qed

subsection \<open>The cached summary\<close>

text \<open>The summary is that of the stored results, up to its time and note.\<close>

definition summary_agrees :: "string \<Rightarrow> provider_db \<Rightarrow> provider_summary \<Rightarrow> bool" where
  "summary_agrees domain db sm \<longleftrightarrow>
     sm = (build_summary_from_db db domain (sm_validated_at sm))\<lparr>sm_note := sm_note sm\<rparr>"

text \<open>While the checkpoint is not marked dirty, a cached summary agrees.\<close>

definition clean_current :: "string \<Rightarrow> provider_store \<Rightarrow> bool" where
  "clean_current domain s \<longleftrightarrow> (\<forall>c sm. db_checkpoint (st_db s) = Some c \<and> \<not> pk_summary_dirty c
     \<and> st_summary s = Some sm \<longrightarrow> summary_agrees domain (st_db s) sm)"

lemma count_rows_image: "count_rows P (map g xs) = count_rows (\<lambda>x. P (g x)) xs"
  by (simp add: count_rows_def filter_map comp_def)

lemma build_results: "build_summary_from_db (results_of db) domain now = build_summary_from_db db domain now"
proof -
  let ?g = "\<lambda>d. d\<lparr>dr_version_count := 0\<rparr>"
  have pub: "common_publisher (map ?g rows) = common_publisher rows" for rows
    by (simp add: common_publisher_def List.map_filter_def filter_map comp_def)
  have vers: "csaf_version_counts (map ?g rows) = csaf_version_counts rows" for rows
    by (rule ext) (simp add: csaf_version_counts_def count_rows_image)
  have prof: "profile_summary_of dr_basic (map ?g rows) = profile_summary_of dr_basic rows"
    "profile_summary_of dr_extended (map ?g rows) = profile_summary_of dr_extended rows"
    "profile_summary_of dr_full (map ?g rows) = profile_summary_of dr_full rows" for rows
    by (simp_all add: profile_summary_of_def sum_valid_def sum_invalid_def comp_def cong: if_cong)
  have top: "top_failing_tests (results_of db) = top_failing_tests db"
    by (simp add: top_failing_tests_def results_of_def)
  have checks: "document_check_summary (results_of db) = document_check_summary db"
    by (simp add: document_check_summary_def results_of_def comp_def)
  have docs: "db_documents (results_of db) = map ?g (db_documents db)" by (simp add: results_of_def)
  show ?thesis
    unfolding build_summary_from_db_def Let_def top checks docs pub vers prof
    by (simp add: count_rows_image)
qed

lemma agrees_results:
  "results_of db = results_of db' \<Longrightarrow> summary_agrees domain db sm = summary_agrees domain db' sm"
  unfolding summary_agrees_def by (metis build_results)

text \<open>What a write of results does: nothing to them, or it marks the summary dirty.\<close>

definition marked :: "provider_db \<Rightarrow> provider_db \<Rightarrow> bool" where
  "marked db db' \<longleftrightarrow> (results_of db' = results_of db \<and> db_checkpoint db' = db_checkpoint db)
     \<or> (\<forall>c. db_checkpoint db' = Some c \<longrightarrow> pk_summary_dirty c)"

lemma marked_refl: "marked db db"
  by (simp add: marked_def)

lemma marked_trans: "marked a b \<Longrightarrow> marked b c \<Longrightarrow> marked a c"
  unfolding marked_def by metis

lemma marked_dirty: "marked a (mark_summary_dirty b)"
  by (auto simp: marked_def mark_summary_dirty_def)

lemma marked_writes:
  "marked db (fst (save_documents lower docs db))"
  "marked db (delete_document_urls urls db)"
  "marked db (fst (save_retrieval_errors es db))"
proof -
  show "marked db (fst (save_documents lower docs db))"
    by (cases docs) (simp_all add: save_documents_def Let_def marked_dirty marked_refl)
  have "marked db (delete_document_url u db)" for u db
    by (simp add: delete_document_url_def Let_def marked_dirty marked_refl)
  then have "marked db (fold delete_document_url urls db)"
    by (induction urls arbitrary: db) (auto intro: marked_refl marked_trans)
  then show "marked db (delete_document_urls urls db)" by (simp add: delete_document_urls_fold)
  have "snd x \<Longrightarrow> snd (save_retrieval_error f x)"
    "\<not> snd (save_retrieval_error f x) \<Longrightarrow> save_retrieval_error f x = x" for f x
    by (cases x, auto simp: save_retrieval_error_def split: option.splits if_splits)+
  then have "\<not> snd (fold save_retrieval_error es x) \<Longrightarrow> fold save_retrieval_error es x = x" for x
    by (induction es arbitrary: x) (simp, metis fold_simps(2))
  from this [of "(db, False)"] show "marked db (fst (save_retrieval_errors es db))"
    by (cases "fold save_retrieval_error es (db, False)")
      (auto simp: save_retrieval_errors_def marked_dirty marked_refl)
qed

lemma clean_write:
  "clean_current domain s \<Longrightarrow> marked (st_db s) db \<Longrightarrow> clean_current domain (s\<lparr>st_db := db\<rparr>)"
  using agrees_results [of db "st_db s" domain] by (auto simp: clean_current_def marked_def)

lemma marked_versions:
  "record_versions native utf8 blob parse oid r head since db = Inr db' \<Longrightarrow> marked db db'"
  using record_versions_results results_eqD(1) [OF record_versions_results] by (simp add: marked_def)

text \<open>\<open>B\<close> is a fact that excuses a stale summary.\<close>

interpretation current: pass_results "\<lambda>s. B \<or> clean_current domain s" for B domain
  by unfold_locales
    (auto intro: clean_write marked_writes dest: marked_versions clean_write, auto simp: clean_current_def)

lemma select_kind:
  assumes "select_processing env head previous ident force = Some (Inr sel)"
  shows "path_set_inv (sel_advisories sel) \<and> path_set_inv (sel_history sel) \<and> path_set_inv (sel_deleted sel)
    \<and> (sel_baseline sel \<longrightarrow> sel_full sel) \<and> (force \<or> previous = None \<longrightarrow> sel_full sel)"
proof -
  obtain fp changes baseline where g: "gather_changes env head (previous_oid env previous) = Inr (changes, baseline)"
    and fp: "fingerprint_of env ident (cm_tree head) = Inr fp"
    using assms by (auto simp: select_processing_def Let_def previous_oid_def split: sum.splits prod.splits)
  have inv: "path_set_inv changes"
    using g gathered [OF path_set_new_inv(1)] by (auto simp: gather_changes_def split: if_splits sum.splits prod.splits)
  let ?full = "baseline \<or> force \<or> (case previous of None \<Rightarrow> True | Some p \<Rightarrow> pk_fingerprint p \<noteq> fp)"
  obtain a h d where loop: "page_loop (path_batch changes) (\<lambda>paths sets. Inr (resolve_page ?full (cm_tree head) paths sets)) []
      (path_set_new, path_set_new, path_set_new) = Some (Inr (a, h, d) :: string + _)"
    and s: "sets_for ?full (cm_tree head) (set (ps_paths changes) - {[]}) (a, h, d)"
    using resolve_loop [OF inv, of ?full "cm_tree head"] by (metis prod_cases3)
  have "sel = \<lparr>sel_checkpoint = \<lparr>pk_commit_id = cm_id head, pk_fingerprint = fp, pk_summary_dirty = False\<rparr>,
      sel_full = ?full, sel_baseline = baseline, sel_advisories = a, sel_history = h, sel_deleted = d\<rparr>"
    using assms g loop by (simp add: select_processing_def fp previous_oid_def [symmetric] Let_def)
  then show ?thesis using s by (auto simp: sets_for_def)
qed

text \<open>The pass deletes all results first: there is no checkpoint on the history of the head.\<close>

definition baseline_selected :: "snapshot_env \<Rightarrow> bool \<Rightarrow> provider_store \<Rightarrow> bool" where
  "baseline_selected env force s \<longleftrightarrow> (\<exists>view ident sel. open_snapshot env s = Inr view \<and> sn_identity env = Inr ident
     \<and> select_processing (vw_git view) (vw_head view) (db_checkpoint (st_db s)) ident force = Some (Inr sel)
     \<and> sel_baseline sel)"

lemma summary_stays_current:
  "keeps (\<lambda>s. B \<or> clean_current (sn_domain env) s) (update_summary env changed)"
proof -
  let ?P = "\<lambda>s. B \<or> clean_current (sn_domain env) s"
  let ?build = "\<lambda>s. build_summary_from_db (st_db s) (sn_domain env) (sn_clock env Summary)"
  have load: "triple ?P (step env AtBuildSummary (reading ?build))
      (\<lambda>sm s. ?P s \<and> sm = ?build s) ?P"
    unfolding step_def by (rule triple_unless) simp_all
  have save: "triple (\<lambda>s. ?P s \<and> sm = ?build s)
      (step env AtSaveSummary (updating (\<lambda>s. s\<lparr>st_summary := Some sm\<rparr>))) (\<lambda>_. ?P) ?P" for sm
    unfolding step_def
    by (rule triple_unless) (auto simp: clean_current_def summary_agrees_def build_summary_from_db_def Let_def)
  have "keeps ?P (refresh_cached_summary env)"
    unfolding refresh_cached_summary_def
    by (rule keeps_then, rule current.enter_keeps) (unfold keeps_def, rule triple_then [OF load save])
  then show ?thesis unfolding update_summary_def by (intro keeps_intro)
qed

lemma clean_keeps_current:
  assumes "sel_baseline sel \<Longrightarrow> B"
  shows "keeps (\<lambda>s. B \<or> clean_current domain s) (clean_results env sel)"
proof (cases "sel_baseline sel")
  case True
  then show ?thesis using assms by (simp add: keeps_def triple_def split: option.split sum.split)
next
  case False
  have "keeps (\<lambda>s. B \<or> clean_current domain s)
      (and_then (enter env CleanResults) (\<lambda>_. paging (\<lambda>_. path_batch (sel_deleted sel)) (delete_page env) []))"
    by (intro keeps_intro current.enter_keeps current.delete_pages_keep)
  then show ?thesis using False by (simp add: clean_results_def)
qed

lemma inputs_stay_current:
  assumes B: "\<And>view selected s1. select_inputs env force previous s = Some (Inr ((view, selected), s1))
      \<Longrightarrow> sel_baseline selected \<Longrightarrow> B"
    and s: "clean_current (sn_domain env) s"
    and run: "process_inputs env downloaded force es previous s = Some r"
  shows "case r of Inl (_, t) \<Rightarrow> B \<or> clean_current (sn_domain env) t
    | Inr (_, t) \<Rightarrow> B \<or> clean_current (sn_domain env) t"
proof -
  let ?P = "\<lambda>u. B \<or> clean_current (sn_domain env) u"
  have sel: "triple (\<lambda>u. u = s) (select_inputs env force previous)
      (\<lambda>(view, selected) u. ?P u \<and> (sel_baseline selected \<longrightarrow> B)) ?P"
  proof (rule tripleI)
    fix u e v assume "u = s" "select_inputs env force previous u = Some (Inl (e, v))"
    then show "?P v" using keepsD(2) [OF current.select_keeps, of B "sn_domain env" u] s by blast
  next
    fix u y v assume u: "u = s" and r: "select_inputs env force previous u = Some (Inr (y, v))"
    obtain view selected where y: "y = (view, selected)" by force
    show "(case y of (view, selected) \<Rightarrow> \<lambda>u. ?P u \<and> (sel_baseline selected \<longrightarrow> B)) v"
      using keepsD(1) [OF current.select_keeps, of B "sn_domain env" u] s B [of view selected v] r u
      by (simp add: y)
  qed
  have rec: "triple (\<lambda>u. ?P u \<and> (sel_baseline selected \<longrightarrow> B)) (recover_downloads env downloaded selected)
      (\<lambda>sel u. ?P u \<and> (sel_baseline sel \<longrightarrow> B)) ?P" for selected
  proof (rule tripleI)
    fix u e v assume u: "?P u \<and> (sel_baseline selected \<longrightarrow> B)"
      and r: "recover_downloads env downloaded selected u = Some (Inl (e, v))"
    show "?P v" by (rule keepsD(2) [OF current.recover_keeps conjunct1 [OF u] r])
  next
    fix u sel v assume u: "?P u \<and> (sel_baseline selected \<longrightarrow> B)"
      and r: "recover_downloads env downloaded selected u = Some (Inr (sel, v))"
    have "?P v" by (rule keepsD(1) [OF current.recover_keeps conjunct1 [OF u] r])
    then show "?P v \<and> (sel_baseline sel \<longrightarrow> B)" using recover_Inr [OF r] u by auto
  qed
  have rest: "triple (\<lambda>u. ?P u \<and> (sel_baseline sel \<longrightarrow> B)) (and_then (extract_inputs env view sel) (\<lambda>extracted.
      and_then (clean_results env sel) (\<lambda>_.
      and_then (validate_inputs env extracted) (\<lambda>_.
      and_then (update_versions env view previous sel) (\<lambda>_.
      and_then (record_errors env es (f extracted)) (\<lambda>changed.
      and_then (update_summary env changed) (\<lambda>_.
      and_then (write_report env) (\<lambda>_. returning (sel_checkpoint sel))))))))) (\<lambda>_. ?P) ?P" for view sel f
  proof (rule triple_fact)
    assume "sel_baseline sel \<longrightarrow> B"
    then have clean: "keeps ?P (clean_results env sel)" by (intro clean_keeps_current) blast
    show "triple ?P (and_then (extract_inputs env view sel) (\<lambda>extracted.
      and_then (clean_results env sel) (\<lambda>_.
      and_then (validate_inputs env extracted) (\<lambda>_.
      and_then (update_versions env view previous sel) (\<lambda>_.
      and_then (record_errors env es (f extracted)) (\<lambda>changed.
      and_then (update_summary env changed) (\<lambda>_.
      and_then (write_report env) (\<lambda>_. returning (sel_checkpoint sel))))))))) (\<lambda>_. ?P) ?P"
      unfolding keeps_def [symmetric]
      by (intro keeps_intro current.extract_keeps clean current.validate_keeps current.versions_keeps
          current.errors_keeps summary_stays_current current.report_keeps)
  qed
  have "triple (\<lambda>u. u = s) (process_inputs env downloaded force es previous) (\<lambda>_. ?P) ?P"
    unfolding process_inputs_def
  proof (rule triple_then [OF sel])
    fix y :: "snapshot_view \<times> processing_selection"
    show "triple ((\<lambda>(view, selected) u. ?P u \<and> (sel_baseline selected \<longrightarrow> B)) y)
      ((\<lambda>(view, selected). and_then (recover_downloads env downloaded selected) (\<lambda>sel.
         and_then (extract_inputs env view sel) (\<lambda>extracted.
         and_then (clean_results env sel) (\<lambda>_.
         and_then (validate_inputs env extracted) (\<lambda>_.
         and_then (update_versions env view previous sel) (\<lambda>_.
         and_then (record_errors env es
           ((case previous of Some c \<Rightarrow> pk_summary_dirty c | None \<Rightarrow> False) \<or> sel_full sel
             \<or> fst extracted > 0 \<or> \<not> path_is_empty (sel_deleted sel))) (\<lambda>changed.
         and_then (update_summary env changed) (\<lambda>_.
         and_then (write_report env) (\<lambda>_. returning (sel_checkpoint sel)))))))))) y) (\<lambda>_. ?P) ?P"
      unfolding case_prod_beta by (rule triple_then [OF rec rest])
  qed
  from tripleD [OF this refl] run show ?thesis by (cases r) auto
qed

text \<open>The steps up to the deletion only touch the jobs.\<close>

lemma prefix_keeps:
  "keeps (\<lambda>u. st_db u = x \<and> st_summary u = y) (enter env p)"
  "keeps (\<lambda>u. st_db u = x \<and> st_summary u = y) (select_inputs env force previous)"
  "keeps (\<lambda>u. st_db u = x \<and> st_summary u = y) (recover_downloads env downloaded sel)"
  "keeps (\<lambda>u. st_db u = x \<and> st_summary u = y) (extract_inputs env view sel)"
proof -
  show e: "keeps (\<lambda>u. st_db u = x \<and> st_summary u = y) (enter env p)" for p
    by (simp add: enter_def update_jobs_def keeps_def)
  show "keeps (\<lambda>u. st_db u = x \<and> st_summary u = y) (select_inputs env force previous)"
    "keeps (\<lambda>u. st_db u = x \<and> st_summary u = y) (recover_downloads env downloaded sel)"
    "keeps (\<lambda>u. st_db u = x \<and> st_summary u = y) (extract_inputs env view sel)"
    unfolding select_inputs_def recover_downloads_def extract_inputs_def case_prod_beta
    by (intro keeps_intro e)+
qed

lemma empty_paging:
  assumes "path_set_inv ps" "path_is_empty ps"
  shows "paging (\<lambda>_. path_batch ps) body c s = Some (Inr ((), s))"
proof -
  have "path_batch ps c = []" using assms by (simp add: path_is_empty_iff path_batch_def)
  then show ?thesis by (simp add: paging_def page_loop.simps)
qed

lemma clean_nothing:
  assumes "clean_results env sel s = Some (Inr ((), t))" "\<not> sel_baseline sel"
    "path_set_inv (sel_deleted sel)" "path_is_empty (sel_deleted sel)"
  shows "st_db t = st_db s \<and> st_summary t = st_summary s"
  using assms by (auto simp: clean_results_def prog_Inr empty_paging enter_def update_jobs_def)

lemma versions_results:
  assumes "update_versions env view previous sel s = Some (Inr ((), t))"
  shows "results_of (st_db t) = results_of (st_db s) \<and> db_checkpoint (st_db t) = db_checkpoint (st_db s)
    \<and> st_summary t = st_summary s"
proof -
  have "t = s \<or> (\<exists>native utf8 blob parse oid head since db j.
      record_versions native utf8 blob parse oid True head since (st_db s) = Inr db
      \<and> t = s\<lparr>st_jobs := j, st_db := db\<rparr>)"
    using assms by (auto simp: update_versions_def prog_Inr enter_def update_jobs_def record_pass_def update_db_def
        split: if_splits; blast)
  then show ?thesis
    using record_versions_results results_eqD(1) [OF record_versions_results] by auto
qed

lemma errors_unchanged:
  assumes "record_errors env es b s = Some (Inr (False, t))"
  shows "\<not> b \<and> (t = s \<or> (\<exists>db. save_retrieval_errors es (st_db s) = (db, False) \<and> t = s\<lparr>st_db := db\<rparr>))"
  using assms by (auto simp: record_errors_def prog_Inr split: if_splits prod.splits)

lemma unchanged_errors: "save_retrieval_errors es db = (db', False) \<Longrightarrow> db' = db"
proof -
  have "snd x \<Longrightarrow> snd (save_retrieval_error f x)"
    "\<not> snd (save_retrieval_error f x) \<Longrightarrow> save_retrieval_error f x = x" for f x
    by (cases x, auto simp: save_retrieval_error_def split: option.splits if_splits)+
  then have "\<not> snd (fold save_retrieval_error es x) \<Longrightarrow> fold save_retrieval_error es x = x" for x
    by (induction es arbitrary: x) (simp, metis fold_simps(2))
  from this [of "(db, False)"] show "save_retrieval_errors es db = (db', False) \<Longrightarrow> db' = db"
    by (cases "fold save_retrieval_error es (db, False)")
      (auto simp: save_retrieval_errors_def)
qed

lemma report_keeps_summary:
  "write_report env s = Some (Inr ((), t)) \<Longrightarrow> st_db t = st_db s \<and> st_summary t = st_summary s"
  by (auto simp: write_report_def prog_Inr enter_def update_jobs_def set_total_def)

lemma updated_summary:
  assumes "update_summary env changed s = Some (Inr ((), t))"
  shows "st_db t = st_db s \<and> (if changed \<or> st_summary s = None
    then \<exists>now. st_summary t = Some (build_summary_from_db (st_db s) (sn_domain env) now)
    else st_summary t = st_summary s)"
proof (cases "changed \<or> st_summary s = None")
  case True
  then have "refresh_cached_summary env s = Some (Inr ((), t))"
    using assms by (auto simp: update_summary_def prog_Inr split: if_splits)
  then have "st_db t = st_db s \<and> st_summary t = Some (build_summary_from_db (st_db s) (sn_domain env) (sn_clock env Summary))"
    by (auto simp: refresh_cached_summary_def prog_Inr enter_def update_jobs_def)
  then show ?thesis using True by auto
next
  case False
  then have "t = s" using assms by (auto simp: update_summary_def prog_Inr)
  then show ?thesis using False by simp
qed

lemma built_agrees: "summary_agrees domain db (build_summary_from_db db domain now)"
  by (simp add: summary_agrees_def build_summary_from_db_def Let_def)

lemma inputs_fresh:
  assumes run: "process_inputs env downloaded force es previous s = Some (Inr (c, t))"
    and cur: "clean_current (sn_domain env) s" and prev: "\<not> force \<Longrightarrow> previous = db_checkpoint (st_db s)"
  shows "\<exists>sm. st_summary t = Some sm \<and> summary_agrees (sn_domain env) (st_db t) sm"
proof -
  obtain view selected s1 sel s2 extracted s3 s4 s5 s6 changed s7 s8 where
    a: "select_inputs env force previous s = Some (Inr ((view, selected), s1))"
      "recover_downloads env downloaded selected s1 = Some (Inr (sel, s2))"
      "extract_inputs env view sel s2 = Some (Inr (extracted, s3))"
      "clean_results env sel s3 = Some (Inr ((), s4))"
      "validate_inputs env extracted s4 = Some (Inr ((), s5))"
      "update_versions env view previous sel s5 = Some (Inr ((), s6))"
      "record_errors env es ((case previous of Some c \<Rightarrow> pk_summary_dirty c | None \<Rightarrow> False) \<or> sel_full sel
         \<or> fst extracted > 0 \<or> \<not> path_is_empty (sel_deleted sel)) s6 = Some (Inr (changed, s7))"
    and sum: "update_summary env changed s7 = Some (Inr ((), s8))"
    and rep: "write_report env s8 = Some (Inr ((), t))"
    using run unfolding process_inputs_def prog_Inr case_prod_beta by (elim exE conjE) auto
  note t = report_keeps_summary [OF rep] and u = updated_summary [OF sum]
  show ?thesis
  proof (cases "changed \<or> st_summary s7 = None")
    case True
    then obtain now where "st_summary s8 = Some (build_summary_from_db (st_db s7) (sn_domain env) now)"
      using u by auto
    then show ?thesis using t u built_agrees by metis
  next
    case False
    have ch: "changed = False" using False by blast
    note e = errors_unchanged [OF a(7) [unfolded ch]]
    have flags: "\<not> (case previous of Some c \<Rightarrow> pk_summary_dirty c | None \<Rightarrow> False)" "\<not> sel_full sel"
      "fst extracted = 0" "path_is_empty (sel_deleted sel)"
      using e by auto
    have s7: "st_db s7 = st_db s6" "st_summary s7 = st_summary s6"
      using e unchanged_errors by auto
    obtain ident where "select_processing (vw_git view) (vw_head view) previous ident force = Some (Inr selected)"
      using select_inputs_Inr [OF a(1)] by blast
    note kind = select_kind [OF this]
    obtain x where x: "sel = selected\<lparr>sel_advisories := x\<rparr>" using recover_Inr [OF a(2)] by blast
    have nf: "\<not> force" "previous \<noteq> None" "\<not> sel_baseline sel" "path_set_inv (sel_deleted sel)"
      using kind flags(2) by (auto simp: x)
    obtain k where k: "previous = Some k" "\<not> pk_summary_dirty k" using nf(2) flags(1) by auto
    have s1: "st_db s1 = st_db s" "st_summary s1 = st_summary s"
      using keepsD(1) [OF prefix_keeps(2) conjI [OF refl refl] a(1)] by blast+
    have s2: "st_db s2 = st_db s" "st_summary s2 = st_summary s"
      using keepsD(1) [OF prefix_keeps(3) conjI [OF s1] a(2)] by blast+
    have s3: "st_db s3 = st_db s" "st_summary s3 = st_summary s"
      using keepsD(1) [OF prefix_keeps(4) conjI [OF s2] a(3)] by blast+
    have s4: "st_db s4 = st_db s" "st_summary s4 = st_summary s"
      using clean_nothing [OF a(4) nf(3,4) flags(4)] s3 by simp_all
    have s5: "s5 = s4" using a(5) flags(3) by (simp add: validate_inputs_def case_prod_beta prog_Inr)
    have s6: "results_of (st_db s6) = results_of (st_db s)" "st_summary s6 = st_summary s"
      using versions_results [OF a(6)] s4 by (simp_all add: s5)
    obtain sm where sm: "st_summary s7 = Some sm" using False by blast
    have "summary_agrees (sn_domain env) (st_db s) sm"
      using cur prev [OF nf(1)] k sm s7 s6 unfolding clean_current_def by metis
    then have "summary_agrees (sn_domain env) (st_db t) sm"
      using agrees_results [OF s6(1)] t u s7 by simp
    then show ?thesis using t u False sm by auto
  qed
qed

text \<open>
  C3. The cached summary follows the results. From a store whose summary, if there is one and the
  checkpoint does not mark it dirty, is that of the stored results, a pass that succeeds leaves the
  summary of the results it stored, and a pass that fails leaves such a store again, unless it was
  to rebuild all results.
\<close>

theorem summary_follows_results:
  assumes cur: "clean_current (sn_domain env) s"
    and run: "process_snapshot env downloaded force es s = Some r"
  shows "case r of
      Inl (e, t) \<Rightarrow> clean_current (sn_domain env) t \<or> baseline_selected env force s
    | Inr (_, t) \<Rightarrow> \<exists>sm. st_summary t = Some sm \<and> summary_agrees (sn_domain env) (st_db t) sm"
proof -
  let ?s = "started force s"
  have cur': "clean_current (sn_domain env) ?s"
    using cur by (cases force) (simp_all add: started_def clean_current_def clear_processing_checkpoint_def)
  have prev: "db_checkpoint (st_db s) = db_checkpoint (st_db ?s)" if "\<not> force"
    using that by (simp add: started_def)
  have B: "baseline_selected env force s"
    if r: "select_inputs env force (db_checkpoint (st_db s)) ?s = Some (Inr ((view, selected), s1))"
      and "sel_baseline selected" for view selected s1
  proof -
    have "open_snapshot env ?s = open_snapshot env s" by (simp add: open_snapshot_def)
    then show ?thesis using select_inputs_Inr [OF r] that(2) unfolding baseline_selected_def by metis
  qed
  note stay = inputs_stay_current [where B = "baseline_selected env force s" and force = force
      and previous = "db_checkpoint (st_db s)", OF B cur']
  show ?thesis
    using run
  proof (cases rule: process_snapshot_cases)
    case (1 e t)
    then show ?thesis using cur by simp
  next
    case (2 e t)
    then show ?thesis using stay [OF _ _ 2(2)] by auto
  next
    case (3 c e t)
    then show ?thesis using stay [OF _ _ 3(2)] by auto
  next
    case (4 c t u)
    have "summary_agrees d (st_db u) sm = summary_agrees d (st_db t) sm" for d sm
      by (simp add: 4(3) summary_agrees_def build_summary_from_db_def save_processing_checkpoint_def
          top_failing_tests_def document_check_summary_def Let_def)
    then show ?thesis using inputs_fresh [OF 4(2) cur' prev] by (simp add: 4(1,3))
  qed
qed

text \<open>A store whose checkpoint is at the head of the sample repository.\<close>

definition idle_store :: provider_store where
  "idle_store = sample_store_state\<lparr>st_db := db_empty\<lparr>db_checkpoint := Some (checkpoint_a\<lparr>pk_commit_id := ''cb''\<rparr>)\<rparr>\<rparr>"

lemma idle_selection:
  "select_processing sample_env commit_b (Some (checkpoint_a\<lparr>pk_commit_id := ''cb''\<rparr>)) ''v1'' False
    = Some (Inr \<lparr>sel_checkpoint = \<lparr>pk_commit_id = ''cb'', pk_fingerprint = ''v1'', pk_summary_dirty = False\<rparr>,
        sel_full = False, sel_baseline = False, sel_advisories = path_set_new, sel_history = path_set_new,
        sel_deleted = path_set_new\<rparr>)"
proof -
  have id: "cm_id commit_b = ''cb''" by (simp add: commit_b_def)
  have oid: "ge_oid_from_str sample_env x = Some x" for x by (simp add: sample_env_def)
  have gather: "gather_changes sample_env commit_b (Some ''cb'') = Inr (path_set_new, False)"
    by (simp add: gather_changes_def scan_changes_def scan_loop.simps id)
  have loop: "page_loop (path_batch path_set_new) body [] s = Some (Inr s)" for body and s :: 'c
    by (simp add: page_loop.simps path_batch_def)
  show ?thesis
    by (simp add: select_processing_def sample_fingerprint oid gather loop id Let_def checkpoint_a_def)
qed

lemma idle_pass:
  assumes "st_db s = st_db idle_store" "st_repo s = Some sample_repo" "st_summary s = None"
  shows "\<exists>t. process_snapshot sample_snapshot (\<lambda>_. False) False [] s = Some (Inr ((), t))"
proof -
  let ?view = "\<lparr>vw_git = sample_env, vw_head = commit_b\<rparr>"
  have head: "head_commit sample_repo = Some commit_b" by (simp add: head_commit_def sample_repo_def)
  have git: "sample_env\<lparr>ge_blob := rp_blobs sample_repo\<rparr> = sample_env" by (simp add: sample_repo_def)
  have ok: "step sample_snapshot st p = p" for st and p :: "'a provider_prog"
    by (simp add: step_def unless_def sample_snapshot_def)
  have env: "sn_identity sample_snapshot = Inr ''v1''" "sn_git sample_snapshot = sample_env"
    by (simp_all add: sample_snapshot_def)
  have start: "start_pass sample_snapshot False s
      = Some (Inr (Some (checkpoint_a\<lparr>pk_commit_id := ''cb''\<rparr>), s))"
    by (simp add: start_pass_def ok and_then_def reading_def returning_def processing_checkpoint_row_def assms(1) idle_store_def)
  have "\<exists>t. select_inputs sample_snapshot False (Some (checkpoint_a\<lparr>pk_commit_id := ''cb''\<rparr>)) s = Some (Inr ((?view,
      \<lparr>sel_checkpoint = \<lparr>pk_commit_id = ''cb'', pk_fingerprint = ''v1'', pk_summary_dirty = False\<rparr>,
        sel_full = False, sel_baseline = False, sel_advisories = path_set_new, sel_history = path_set_new,
        sel_deleted = path_set_new\<rparr>), t)) \<and> st_db t = st_db idle_store \<and> st_summary t = None"
    by (simp add: select_inputs_def ok prog_Inr env enter_def update_jobs_def open_snapshot_def assms head git idle_selection)
  then obtain s1 where sel: "select_inputs sample_snapshot False (Some (checkpoint_a\<lparr>pk_commit_id := ''cb''\<rparr>)) s = Some (Inr ((?view,
      \<lparr>sel_checkpoint = \<lparr>pk_commit_id = ''cb'', pk_fingerprint = ''v1'', pk_summary_dirty = False\<rparr>,
        sel_full = False, sel_baseline = False, sel_advisories = path_set_new, sel_history = path_set_new,
        sel_deleted = path_set_new\<rparr>), s1))" and db: "st_db s1 = st_db idle_store" "st_summary s1 = None"
    by blast
  have pages: "page_loop (retrieval_error_urls (st_db idle_store)) body [] s = Some (Inr s)" for body and s :: 'c
    by (simp add: page_loop.simps retrieval_error_urls_def error_urls_def idle_store_def db_empty_def)
  have empty: "path_is_empty path_set_new" by (simp add: path_is_empty_def path_set_new_def)
  have missing: "versions_missing (st_db idle_store) = False"
    by (simp add: versions_missing_def idle_store_def db_empty_def)
  have "\<exists>x. process_inputs sample_snapshot (\<lambda>_. False) False [] (Some (checkpoint_a\<lparr>pk_commit_id := ''cb''\<rparr>)) s
      = Some (Inr x)"
    unfolding process_inputs_def and_then_run(1) [of "select_inputs sample_snapshot False (Some (checkpoint_a\<lparr>pk_commit_id := ''cb''\<rparr>))" s, OF sel]
    by (simp add: recover_downloads_def extract_inputs_def clean_results_def
        validate_inputs_def update_versions_def record_errors_def update_summary_def write_report_def
        refresh_cached_summary_def ok prog_Inr enter_def update_jobs_def set_total_def db pages empty_paging empty missing
        checkpoint_a_def)
  then obtain c t where "process_inputs sample_snapshot (\<lambda>_. False) False [] (Some (checkpoint_a\<lparr>pk_commit_id := ''cb''\<rparr>)) s
      = Some (Inr (c, t))" by (metis surj_pair)
  then show ?thesis
    by (simp add: process_snapshot_def and_then_run start ok update_db_def updating_def)
qed

theorem summary_follows_results_witness:
  "\<exists>t sm. process_snapshot sample_snapshot (\<lambda>_. False) False [] idle_store = Some (Inr ((), t))
     \<and> st_summary t = Some sm \<and> summary_agrees ''p'' (st_db t) sm"
proof -
  obtain t where r: "process_snapshot sample_snapshot (\<lambda>_. False) False [] idle_store = Some (Inr ((), t))"
    using idle_pass [of idle_store] by (auto simp: idle_store_def sample_store_state_def)
  have "clean_current (sn_domain sample_snapshot) idle_store"
    by (simp add: clean_current_def idle_store_def sample_store_state_def)
  from summary_follows_results [OF this r] r show ?thesis by (simp add: sample_snapshot_def)
qed

subsection \<open>The order of the phases\<close>

text \<open>The phases of a job so far, in order, none later than \<open>q\<close>.\<close>

definition phases_until :: "string \<Rightarrow> pipeline_phase \<Rightarrow> provider_store \<Rightarrow> bool" where
  "phases_until domain q s \<longleftrightarrow> (\<exists>job p. st_jobs s domain = Some job \<and> jb_phase job = Some p \<and> p \<le> q
     \<and> sorted_wrt (<) (jb_completed_phases job @ [p]))"

lemma phases_mono: "phases_until domain p s \<Longrightarrow> p \<le> q \<Longrightarrow> phases_until domain q s"
  unfolding phases_until_def by (meson order_trans)

lemma phases_modify:
  "(\<And>job. jb_phase (f job) = jb_phase job \<and> jb_completed_phases (f job) = jb_completed_phases job) \<Longrightarrow>
    phases_until domain q s \<Longrightarrow> phases_until domain q (s\<lparr>st_jobs := modify_job domain f (st_jobs s)\<rparr>)"
  by (auto simp: phases_until_def modify_job_def)

lemma phases_enter:
  assumes "phases_until (sn_domain env) p s" "p < q"
  shows "phases_until (sn_domain env) q
    (s\<lparr>st_jobs := update_job_phase (sn_clock env q) (sn_domain env) q (st_jobs s)\<rparr>)"
proof -
  let ?d = "sn_domain env"
  obtain job x where j: "st_jobs s ?d = Some job" "jb_phase job = Some x" "x \<le> p"
    "sorted_wrt (<) (jb_completed_phases job @ [x])"
    using assms(1) by (auto simp: phases_until_def)
  have lt: "x < q" "x \<noteq> q" using le_less_trans [OF j(3) assms(2)] by auto
  have "\<forall>y \<in> set (jb_completed_phases job @ [x]). y < q"
    using j(4) lt(1) by (auto simp: sorted_wrt_append intro: less_trans)
  then have "sorted_wrt (<) ((jb_completed_phases job @ [x]) @ [q])"
    using j(4) unfolding sorted_wrt_append [of _ "jb_completed_phases job @ [x]" "[q]"] by simp
  then show ?thesis
    using j lt by (simp add: phases_until_def update_job_phase_def set_phase_work_def modify_job_def phase_work_def
        enter_phase_def)
qed

text \<open>The first distribution ends the discovery; a walk enters no other phase.\<close>

lemma phases_distribution:
  assumes "phases_until domain SyncPhase s"
  shows "phases_until domain SyncPhase (s\<lparr>st_jobs := start_distribution domain n k (st_jobs s)\<rparr>)"
proof -
  obtain job x where j: "st_jobs s domain = Some job" "jb_phase job = Some x" "x \<le> SyncPhase"
    "sorted_wrt (<) (jb_completed_phases job @ [x])"
    using assms by (auto simp: phases_until_def)
  show ?thesis
  proof (cases "x = Discover")
    case True
    have "\<forall>y \<in> set (jb_completed_phases job @ [Discover]). y < SyncPhase"
      using j(4) True by (auto simp: sorted_wrt_append less_pipeline_phase_def)
    then have "sorted_wrt (<) ((jb_completed_phases job @ [Discover]) @ [SyncPhase])"
      using j(4) True unfolding sorted_wrt_append [of _ "jb_completed_phases job @ [Discover]" "[SyncPhase]"] by simp
    then show ?thesis
      using j True by (simp add: phases_until_def start_distribution_def modify_job_def distribution_started_def Let_def)
  next
    case False
    then show ?thesis
      using j by (simp add: phases_until_def start_distribution_def modify_job_def distribution_started_def Let_def)
  qed
qed

lemma phases_walk:
  assumes "phases_until domain SyncPhase s"
  shows "phases_until domain SyncPhase (s\<lparr>st_jobs := wk_jobs (fst (run_walk lib domain skip src walk dir (st_jobs s)))\<rparr>)"
proof -
  let ?P = "\<lambda>w. phases_until domain SyncPhase (s\<lparr>st_jobs := wk_jobs w\<rparr>)"
  have count: "?P w \<Longrightarrow> ?P (w\<lparr>wk_jobs := increment_job_synced domain (wk_jobs w)\<rparr>)" for w
    using phases_modify [where s = "s\<lparr>st_jobs := wk_jobs w\<rparr>" and q = SyncPhase and domain = domain]
    by (simp add: increment_job_synced_def)
  have "?P (fst (walk_step lib domain skip src e w))" if w: "?P w" for e w
  proof (cases e)
    case (VisitAdvisory result)
    have same: "?P (w'\<lparr>wk_jobs := increment_job_synced domain (wk_jobs w')\<rparr>)" if "wk_jobs w' = wk_jobs w" for w'
      using count [of w] w that by simp
    show ?thesis
      using w same by (auto simp: walk_step_def VisitAdvisory count_advisory_def Let_def split: sum.splits)
  next
    case (DistributionError ctx err)
    then show ?thesis
      using w by (auto simp: walk_step_def distribution_error_def split: distribution_context.splits tlp_label.splits)
  next
    case (StartProgress n)
    then show ?thesis using phases_distribution [OF w] by (simp add: walk_step_def)
  qed (use w in \<open>auto simp: walk_step_def split: sum.splits\<close>)
  then have "?P (fst (fold_try (walk_step lib domain skip src) (fst walk) (walk_start dir (st_jobs s))))"
    by (rule fold_try_inv) (use assms in \<open>simp_all add: walk_start_def\<close>)
  then show ?thesis by (auto simp: run_walk_def split: prod.splits option.splits)
qed

text \<open>A program that enters only phases after \<open>p\<close> and no later than \<open>q\<close>.\<close>

definition advances :: "string \<Rightarrow> pipeline_phase \<Rightarrow> pipeline_phase \<Rightarrow> 'a provider_prog \<Rightarrow> bool" where
  "advances domain p q prog \<longleftrightarrow> triple (phases_until domain p) prog (\<lambda>_. phases_until domain q) (\<lambda>_. True)"

lemma advances_enter: "p < q \<Longrightarrow> advances (sn_domain env) p q (enter env q)"
  by (simp add: advances_def enter_def update_jobs_def phases_enter)

lemma advances_then:
  "advances d p q prog \<Longrightarrow> (\<And>x. advances d q r (f x)) \<Longrightarrow> advances d p r (and_then prog f)"
  unfolding advances_def by (rule triple_then)

lemma advances_keeps: "keeps (phases_until d p) prog \<Longrightarrow> advances d p p prog"
  unfolding advances_def keeps_def by (erule triple_weaken) simp_all

lemma advances_after: "keeps (phases_until d p) prog \<Longrightarrow> (\<And>x. advances d p q (f x)) \<Longrightarrow> advances d p q (and_then prog f)"
  by (rule advances_then [OF advances_keeps])

lemma advances_mono: "advances d p q prog \<Longrightarrow> q \<le> r \<Longrightarrow> advances d p r prog"
  unfolding advances_def by (erule triple_weaken) (auto intro: phases_mono)

lemma advances_from: "advances d q r prog \<Longrightarrow> p \<le> q \<Longrightarrow> advances d p r prog"
  unfolding advances_def by (erule triple_weaken) (auto intro: phases_mono)

lemma advances_step: "advances d p q prog \<Longrightarrow> advances d p q (step env st prog)"
  unfolding advances_def step_def by (rule triple_unless) simp_all

lemma advances_if: "(b \<Longrightarrow> advances d p q x) \<Longrightarrow> (\<not> b \<Longrightarrow> advances d p q y) \<Longrightarrow> advances d p q (if b then x else y)"
  by simp

lemma advances_return: "p \<le> q \<Longrightarrow> advances d p q (returning x)"
  by (auto simp: advances_def intro: phases_mono)

text \<open>What does not touch the jobs keeps the phases.\<close>

lemma jobs_only: "phases_until d p s \<Longrightarrow> st_jobs t = st_jobs s \<Longrightarrow> phases_until d p t"
  by (simp add: phases_until_def)

lemma update_db_phases: "keeps (phases_until d p) (update_db f)"
  by (simp add: keeps_def update_db_def phases_until_def)

lemma updating_phases: "(\<And>s. st_jobs (f s) = st_jobs s) \<Longrightarrow> keeps (phases_until d p) (updating f)"
  by (simp add: keeps_def phases_until_def)

lemma total_phases: "keeps (phases_until (sn_domain env) p) (set_total env n)"
  by (simp add: keeps_def set_total_def update_jobs_def phases_modify)

lemma phase_order [simp]: "p < q \<longleftrightarrow> phase_index p < phase_index q" "p \<le> q \<longleftrightarrow> phase_index p \<le> phase_index q"
  for p q :: pipeline_phase
  by (simp_all add: less_pipeline_phase_def less_eq_pipeline_phase_def)

lemma select_advances: "advances (sn_domain env) Commit ResolveChanges (select_inputs env force previous)"
  unfolding select_inputs_def
  by (rule advances_after, intro keeps_intro, rule advances_then, rule advances_enter, simp, rule advances_after,
      intro keeps_intro, rule advances_then, rule advances_enter, simp, rule advances_after, intro keeps_intro,
      rule advances_after, intro keeps_intro, rule advances_then, rule advances_enter, simp, rule advances_then,
      rule advances_enter, simp, rule advances_return, simp)

lemma recover_advances:
  "advances (sn_domain env) ResolveChanges CheckRecoveredDownloads (recover_downloads env downloaded sel)"
  unfolding recover_downloads_def
  by (rule advances_then, rule advances_enter, simp, rule advances_if, rule advances_return, simp,
      rule advances_keeps, intro keeps_intro)

lemma extract_advances:
  "advances (sn_domain env) CheckRecoveredDownloads ExtractValidationFiles (extract_inputs env view sel)"
  unfolding extract_inputs_def case_prod_beta
  by (rule advances_then, rule advances_enter, simp, rule advances_after, intro keeps_intro, rule advances_then,
      rule advances_enter, simp, rule advances_if, rule advances_after, intro keeps_intro, rule advances_then,
      rule advances_enter, simp, rule advances_return, simp, rule advances_return, simp)

lemma clean_advances: "advances (sn_domain env) ExtractValidationFiles CleanResults (clean_results env sel)"
proof -
  have page: "keeps (phases_until (sn_domain env) p) (paging (\<lambda>_. path_batch (sel_deleted sel)) (delete_page env) [])" for p
    unfolding keeps_def
    by (rule triple_paging) (simp add: delete_page_def phases_until_def split: option.split)
  show ?thesis
    unfolding clean_results_def
    by (rule advances_then, rule advances_enter, simp, rule advances_if, rule advances_keeps,
        intro keeps_intro update_db_phases, rule advances_keeps, rule page)
qed

lemma validate_advances: "advances (sn_domain env) CleanResults Validate (validate_inputs env extracted)"
proof -
  have run: "keeps (phases_until d p) (run_validation env dir n)" for d p dir n
    unfolding keeps_def by (rule tripleI) (auto simp: run_validation_def phases_until_def split: prod.splits sum.splits)
  show ?thesis
    unfolding validate_inputs_def case_prod_beta
    by (rule advances_if, rule advances_then, rule advances_enter, simp, rule advances_after, rule total_phases,
        rule advances_after, rule run, rule advances_return, simp, rule advances_return, simp)
qed

lemma versions_advances: "advances (sn_domain env) Validate VersionCounts (update_versions env view previous sel)"
proof -
  have recording: "keeps (phases_until d p) (record_pass view since)" for d p since
    unfolding record_pass_def by (intro keeps_intro update_db_phases)
  show ?thesis
    unfolding update_versions_def
    by (rule advances_after, intro keeps_intro, rule advances_if, rule advances_then, rule advances_enter, simp,
        rule advances_keeps, intro keeps_intro recording, rule advances_return, simp)
qed

lemma summary_advances: "advances (sn_domain env) VersionCounts Summary (update_summary env changed)"
  unfolding update_summary_def refresh_cached_summary_def
  by (rule advances_after, intro keeps_intro, rule advances_if, rule advances_then, rule advances_enter, simp,
      rule advances_after, intro keeps_intro, rule advances_keeps, intro keeps_intro updating_phases, simp,
      rule advances_return, simp)

lemma report_advances: "advances (sn_domain env) Summary Report (write_report env)"
  unfolding write_report_def
  by (rule advances_then, rule advances_enter, simp, rule advances_after, intro keeps_intro updating_phases, simp,
      rule advances_after, intro keeps_intro, rule advances_keeps, rule total_phases)

lemma errors_phases: "keeps (phases_until d p) (record_errors env es changed)"
proof -
  have "keeps (phases_until d p) (\<lambda>s. case save_retrieval_errors es (st_db s) of
      (db, c) \<Rightarrow> Some (Inr (changed \<or> c, s\<lparr>st_db := db\<rparr>)))"
    unfolding keeps_def by (rule tripleI) (auto simp: phases_until_def split: prod.splits)
  then show ?thesis unfolding record_errors_def by (intro keeps_intro)
qed

lemma inputs_advances: "advances (sn_domain env) Commit Report (process_inputs env downloaded force es previous)"
  unfolding process_inputs_def case_prod_beta
  by (rule advances_then, rule select_advances, rule advances_then, rule recover_advances,
      rule advances_then, rule extract_advances, rule advances_then, rule clean_advances,
      rule advances_then, rule validate_advances, rule advances_then, rule versions_advances,
      rule advances_after, rule errors_phases, rule advances_then, rule summary_advances,
      rule advances_then, rule report_advances, rule advances_return, simp)

lemma snapshot_advances: "advances (sn_domain env) Commit Report (process_snapshot env downloaded force es)"
  unfolding process_snapshot_def start_pass_def
  by (rule advances_after, intro keeps_intro update_db_phases, rule advances_then, rule inputs_advances,
      rule advances_keeps, intro keeps_intro update_db_phases)

lemma sync_advances: "advances (sn_domain env) Discover SyncPhase (sync_provider env wv dir)"
proof -
  have "triple (phases_until (sn_domain env) Discover) (walk_provider env wv dir src)
      (\<lambda>_. phases_until (sn_domain env) SyncPhase) (\<lambda>_. True)" for src
  proof (rule tripleI)
    fix s x t
    assume "phases_until (sn_domain env) Discover s" and r: "walk_provider env wv dir src s = Some (Inr (x, t))"
    then have "phases_until (sn_domain env) SyncPhase s"
      by (rule_tac phases_mono [where p = Discover]) (simp_all add: less_eq_pipeline_phase_def)
    from phases_walk [OF this, of "wv_lib wv" "wv_skip_directories wv" src "wv_walk wv src" dir]
    show "phases_until (sn_domain env) SyncPhase t"
      using r by (auto simp: walk_provider_def split: prod.splits option.splits)
  qed simp
  then have walk: "advances (sn_domain env) Discover SyncPhase (walk_provider env wv dir src)" for src
    by (simp add: advances_def)
  show ?thesis
    unfolding sync_provider_def
    by (rule advances_after, intro keeps_intro, rule advances_after, intro keeps_intro,
        rule advances_after, intro keeps_intro, rule walk)
qed

lemma fetch_advances: "advances (sn_domain (pn_snapshot pn)) Maintenance Commit (fetch_snapshot pn)"
proof -
  have prepare: "keeps (phases_until d p) (open_worktree pn)" for d p
    unfolding keeps_def by (rule tripleI) (auto simp: open_worktree_def phases_until_def split: sum.splits)
  have commit: "keeps (phases_until d p) (commit_worktree pn wt)" for d p wt
    unfolding keeps_def
    by (rule tripleI) (auto simp: commit_worktree_def phases_until_def split: sum.splits option.splits prod.splits)
  have missing: "keeps (phases_until d p) (update_jobs (modify_job d (\<lambda>job. job\<lparr>jb_documents_missing := n\<rparr>)))" for d p n
    by (simp add: keeps_def update_jobs_def phases_modify)
  show ?thesis
    unfolding fetch_snapshot_def Let_def case_prod_beta
    by (rule advances_then, rule advances_enter, simp, rule advances_after, intro keeps_intro prepare,
        rule advances_then, rule advances_enter, simp, rule advances_then, rule sync_advances,
        rule advances_after, rule missing, rule advances_then, rule advances_enter, simp,
        rule advances_after, intro keeps_intro commit, rule advances_return, simp)
qed

lemma run_advances:
  "advances (sn_domain (pn_snapshot pn)) Maintenance Report (run_pipeline pn)"
  "advances (sn_domain (pn_snapshot pn)) Commit Report (run_revalidation pn)"
proof -
  have meta: "keeps (phases_until d p) (persist_provider_metadata env parse files)" for d p env parse files
    by (simp add: persist_provider_metadata_def keeps_intro update_db_phases split: option.split)
  have dist: "keeps (phases_until d p) (updating (save_distribution_errors es))" for d p es
    by (rule updating_phases) (simp add: save_distribution_errors_def)
  have members: "keeps (phases_until d p) (save_members env ms)" for d p env ms
    unfolding save_members_def by (intro keeps_intro update_db_phases)
  have health: "keeps (phases_until d p) (refresh_health env menv)" for d p env menv
    unfolding refresh_health_def
    by (rule keeps_step, unfold keeps_def, rule tripleI)
      (auto simp: refresh_distribution_health_def map_sum_Inr phases_until_def split: sum.splits)
  have token: "keeps (phases_until d p) (advance_sync_state env now result)" for d p env now result
    unfolding advance_sync_state_def
    by (intro keeps_intro updating_phases) (simp add: save_sync_state_def)
  show "advances (sn_domain (pn_snapshot pn)) Maintenance Report (run_pipeline pn)"
    unfolding run_pipeline_def Let_def case_prod_beta
    by (rule advances_then, rule fetch_advances, rule advances_after, rule meta,
        rule advances_after, intro keeps_intro dist, rule advances_then, rule snapshot_advances,
        rule advances_after, rule members, rule advances_after, rule health, rule advances_keeps, rule token)
  show "advances (sn_domain (pn_snapshot pn)) Commit Report (run_revalidation pn)"
    unfolding run_revalidation_def Let_def
    by (rule advances_after, intro keeps_intro, rule advances_then, rule snapshot_advances,
        rule advances_keeps, rule health)
qed

text \<open>The completed phases of a successful job are in the order of the enumeration, none twice.\<close>

lemma phases_in_order:
  assumes "run_job pn kind begin finish s = Some (Inr (x, t))"
  shows "\<exists>job. st_jobs t (sn_domain (pn_snapshot pn)) = Some job \<and> sorted_wrt (<) (jb_completed_phases job)"
proof -
  let ?d = "sn_domain (pn_snapshot pn)"
  let ?s0 = "s\<lparr>st_jobs := update_job ?d (started_job kind begin (st_jobs s ?d)) (st_jobs s)\<rparr>"
  let ?first = "case kind of KSync \<Rightarrow> Maintenance | KRevalidate \<Rightarrow> Checkout"
  have start: "phases_until ?d ?first ?s0"
    by (simp add: phases_until_def update_job_def started_job_def new_job_def)
  have run: "advances ?d ?first Report (case kind of KSync \<Rightarrow> run_pipeline pn | KRevalidate \<Rightarrow> run_revalidation pn)"
    using run_advances [of pn] by (cases kind) (auto intro: advances_from)
  obtain u where u: "(case kind of KSync \<Rightarrow> run_pipeline pn ?s0 | KRevalidate \<Rightarrow> run_revalidation pn ?s0) = Some (Inr ((), u))"
    and t: "t = persist_job_counts (pn_snapshot pn) finish (completed_job finish (st_jobs u ?d))
      (u\<lparr>st_jobs := update_job ?d (completed_job finish (st_jobs u ?d)) (st_jobs u)\<rparr>)"
    using assms by (auto simp: run_job_def Let_def split: option.splits sum.splits)
  have "phases_until ?d Report u"
    using tripleD(1) [OF run [unfolded advances_def] start] u by (cases kind) auto
  then show ?thesis
    unfolding t by (auto simp: phases_until_def persist_job_counts_def save_sync_state_def Let_def update_job_def
        completed_job_def)
qed

text \<open>
  C4. Every job ends. Whatever storage steps and libraries fail, a synchronization or revalidation
  returns, and its provider's job is then failed with the error, or completed and in no phase, its
  completed phases being in the order of the pipeline, none twice; it finished at the end of the run.
\<close>

theorem run_job_ends:
  "\<exists>r job. run_job pn kind begin finish s = Some r
    \<and> (case r of
        Inl (e, t) \<Rightarrow> st_jobs t (sn_domain (pn_snapshot pn)) = Some job
          \<and> jb_status job = JFailed \<and> jb_error job = Some e
      | Inr (_, t) \<Rightarrow> st_jobs t (sn_domain (pn_snapshot pn)) = Some job
          \<and> jb_status job = JCompleted \<and> jb_phase job = None
          \<and> sorted_wrt (<) (jb_completed_phases job))
    \<and> jb_completed_at job = Some finish"
proof -
  let ?d = "sn_domain (pn_snapshot pn)"
  let ?s0 = "s\<lparr>st_jobs := update_job ?d (started_job kind begin (st_jobs s ?d)) (st_jobs s)\<rparr>"
  let ?run = "case kind of KSync \<Rightarrow> run_pipeline pn ?s0 | KRevalidate \<Rightarrow> run_revalidation pn ?s0"
  obtain r where r: "?run = Some r"
    using run_ends [of pn] by (cases kind) (auto simp: ends_def)
  have jobs: "st_jobs (persist_job_counts env now job x) = st_jobs x" for env now job x
    by (simp add: persist_job_counts_def save_sync_state_def Let_def)
  show ?thesis
  proof (cases r)
    case (Inl x)
    obtain e t where x: "x = (e, t)" by force
    have "run_job pn kind begin finish s = Some (Inl (e,
        t\<lparr>st_jobs := update_job ?d (failed_job finish e (st_jobs t ?d)) (st_jobs t)\<rparr>))"
      using r unfolding run_job_def Let_def Inl x by simp
    then show ?thesis
      by (intro exI [of _ "Inl (e, t\<lparr>st_jobs := update_job ?d (failed_job finish e (st_jobs t ?d)) (st_jobs t)\<rparr>)"]
          exI [of _ "failed_job finish e (st_jobs t ?d)"])
        (simp add: update_job_def failed_job_def Let_def)
  next
    case (Inr x)
    obtain t where x: "x = ((), t)" by (cases x) simp
    let ?job = "completed_job finish (st_jobs t ?d)"
    let ?t = "persist_job_counts (pn_snapshot pn) finish ?job (t\<lparr>st_jobs := update_job ?d ?job (st_jobs t)\<rparr>)"
    have run: "run_job pn kind begin finish s = Some (Inr ((), ?t))"
      using r unfolding run_job_def Let_def Inr x by simp
    have "st_jobs ?t ?d = Some ?job" by (simp add: jobs update_job_def)
    then have "sorted_wrt (<) (jb_completed_phases ?job)"
      using phases_in_order [OF run] by simp
    with run show ?thesis
      by (intro exI [of _ "Inr ((), ?t)"] exI [of _ ?job])
        (simp add: jobs update_job_def completed_job_def Let_def)
  qed
qed

end
