(* ===== verification/Download_Facts.thy ===== *)
theory Download_Facts
  imports Download_Store Git_Readback
begin

section \<open>What a download leaves in the worktree and in the repository\<close>

text \<open>
  The file operations as updates of the map from paths to contents; after a walk every advisory is
  stored as it was last retrieved, with exactly its last sidecars; and the composition with the
  commit of \<open>git_repo.rs\<close>: the head serves the retrieved bytes.
\<close>

subsection \<open>The directory as a map\<close>

definition dir_ok :: "scratch_dir \<Rightarrow> bool" where
  "dir_ok d \<longleftrightarrow> distinct (map sf_path (sd_files d))
     \<and> (\<forall>f \<in> set (sd_files d). sf_path f \<noteq> [] \<and> sf_path f \<notin> set (sd_dirs d))
     \<and> (\<forall>p \<in> sf_path ` set (sd_files d) \<union> set (sd_dirs d). \<forall>q. q \<noteq> [] \<and> starts_with p (q @ ''/'') \<longrightarrow> q \<in> set (sd_dirs d))"

lemma dir_okD:
  assumes "dir_ok d"
  shows "distinct (map sf_path (sd_files d))"
    and "f \<in> set (sd_files d) \<Longrightarrow> sf_path f \<noteq> [] \<and> sf_path f \<notin> set (sd_dirs d)"
    and "f \<in> set (sd_files d) \<Longrightarrow> q \<noteq> [] \<Longrightarrow> starts_with (sf_path f) (q @ ''/'') \<Longrightarrow> q \<in> set (sd_dirs d)"
    and "p \<in> set (sd_dirs d) \<Longrightarrow> q \<noteq> [] \<Longrightarrow> starts_with p (q @ ''/'') \<Longrightarrow> q \<in> set (sd_dirs d)"
  using assms unfolding dir_ok_def by blast+

lemma dir_okI:
  assumes "distinct (map sf_path (sd_files d))"
    and "\<And>f. f \<in> set (sd_files d) \<Longrightarrow> sf_path f \<noteq> [] \<and> sf_path f \<notin> set (sd_dirs d)"
    and "\<And>f q. f \<in> set (sd_files d) \<Longrightarrow> q \<noteq> [] \<Longrightarrow> starts_with (sf_path f) (q @ ''/'') \<Longrightarrow> q \<in> set (sd_dirs d)"
    and "\<And>p q. p \<in> set (sd_dirs d) \<Longrightarrow> q \<noteq> [] \<Longrightarrow> starts_with p (q @ ''/'') \<Longrightarrow> q \<in> set (sd_dirs d)"
  shows "dir_ok d"
  using assms unfolding dir_ok_def by blast

lemma after_last_split: "\<exists>x. s = x @ after_last c s \<and> (x \<noteq> [] \<longrightarrow> last x = c)"
proof -
  let ?t = "takeWhile (\<lambda>x. x \<noteq> c) (rev s)" and ?r = "dropWhile (\<lambda>x. x \<noteq> c) (rev s)"
  have "s = rev (?t @ ?r)" by simp
  then have "s = rev ?r @ after_last c s" unfolding after_last_def rev_append .
  moreover have "rev ?r \<noteq> [] \<longrightarrow> last (rev ?r) = c"
    using hd_dropWhile [of "\<lambda>x. x \<noteq> c" "rev s"] by (simp add: last_rev)
  ultimately show ?thesis by blast
qed

lemma split_file_name: "\<exists>x. p = x @ file_name p \<and> (x \<noteq> [] \<longrightarrow> last x = CHR ''/'') \<and> CHR ''/'' \<notin> set (file_name p)"
  using after_last_split [of p "CHR ''/''"] after_last_no_sep [of "CHR ''/''" p] by (simp add: file_name_def)

lemma parent_is_ancestor:
  assumes "starts_with p (q @ ''/'')"
  shows "q = parent_path p \<or> starts_with (parent_path p) (q @ ''/'')"
proof -
  obtain r where r: "p = (q @ ''/'') @ r" using assms by (auto simp: starts_with_iff)
  obtain x where x: "p = x @ file_name p" "x \<noteq> [] \<longrightarrow> last x = CHR ''/''" "CHR ''/'' \<notin> set (file_name p)"
    using split_file_name by blast
  have "x @ file_name p = (q @ ''/'') @ r" using r x(1) by simp
  then consider us where "x = (q @ ''/'') @ us" "us @ file_name p = r"
    | us where "x @ us = q @ ''/''" "file_name p = us @ r"
    unfolding append_eq_append_conv2 by blast
  then obtain us where us: "x = (q @ ''/'') @ us"
  proof cases
    case (2 us)
    then have "us = []" using x(3) by (cases us rule: rev_cases) auto
    then show ?thesis using 2 that [of "[]"] by simp
  qed (use that in blast)
  then have ne: "x \<noteq> []" by simp
  have par: "parent_path p = butlast x"
  proof -
    have "length p = length x + length (file_name p)" using arg_cong [OF x(1), of length] by simp
    then have "parent_path p = take (length x - 1) (x @ file_name p)" using x(1) by (simp add: parent_path_def)
    then show ?thesis by (simp add: butlast_conv_take)
  qed
  show ?thesis
  proof (cases us rule: rev_cases)
    case Nil
    then show ?thesis by (simp add: par us butlast_append)
  next
    case (snoc ys y)
    then have "parent_path p = (q @ ''/'') @ ys" by (simp add: par us butlast_append)
    then show ?thesis by (auto simp: starts_with_iff)
  qed
qed

lemma parents_there:
  assumes ok: "dir_ok d" and m: "missing_parent d p = None" and q: "q \<noteq> []" "starts_with p (q @ ''/'')"
  shows "q \<in> set (sd_dirs d)"
proof -
  have "is_dir d (parent_path p)" using m by (simp add: missing_parent_def split: if_splits)
  then consider "parent_path p = []" | "parent_path p \<in> set (sd_dirs d)" by (auto simp: is_dir_def)
  then show ?thesis
    using parent_is_ancestor [OF q(2)] q(1) dir_okD(4) [OF ok, of "parent_path p" q]
    by cases (auto simp: starts_with_iff)
qed

lemma find_filter_other:
  "find (\<lambda>f. sf_path f = q) (filter (\<lambda>f. sf_path f \<noteq> p) fs)
    = (if q = p then None else find (\<lambda>f. sf_path f = q) fs)"
  by (induction fs) auto

lemma content_remove:
  "remove_file p d = Inr d' \<Longrightarrow> file_content d' = (file_content d)(p := None)"
  by (auto simp: remove_file_def file_content_def find_filter_other fun_eq_iff split: option.splits if_splits)

lemma find_overwrite:
  "find (\<lambda>f. sf_path f = q) (map (\<lambda>f. if sf_path f = p then f\<lparr>sf_content := data\<rparr> else f) fs)
    = map_option (\<lambda>f. if sf_path f = p then f\<lparr>sf_content := data\<rparr> else f) (find (\<lambda>f. sf_path f = q) fs)"
  by (induction fs) auto

lemma find_path: "find (\<lambda>f. sf_path f = q) fs = Some f \<Longrightarrow> sf_path f = q"
  by (metis (mono_tags, lifting) find_Some_iff)

lemma content_write:
  assumes "write_file p data d = Inr d'"
  shows "file_content d' = (file_content d)(p \<mapsto> data)"
proof (rule ext)
  fix q
  show "file_content d' q = ((file_content d)(p \<mapsto> data)) q"
  proof (cases "file_content d p" rule: option.exhaust)
    case None
    then have "d' = d\<lparr>sd_files := sd_files d @ [\<lparr>sf_path = p, sf_mode = DEFAULT_MODE, sf_content = data\<rparr>]\<rparr>"
      using assms by (simp add: write_file_def split: option.splits if_splits)
    then show ?thesis using None by (auto simp: file_content_def find_append split: option.splits)
  next
    case (Some old)
    then have d': "d' = d\<lparr>sd_files := map (\<lambda>f. if sf_path f = p then f\<lparr>sf_content := data\<rparr> else f) (sd_files d)\<rparr>"
      using assms by (simp add: write_file_def split: option.splits if_splits)
    show ?thesis
    proof (cases "find (\<lambda>f. sf_path f = q) (sd_files d)")
      case None
      then have "q \<noteq> p" using Some by (auto simp: file_content_def)
      then show ?thesis using None by (simp add: d' file_content_def find_overwrite)
    next
      case (Some f)
      then show ?thesis using find_path [OF Some] by (simp add: d' file_content_def find_overwrite)
    qed
  qed
qed

lemma find_renamed:
  "p \<noteq> q \<Longrightarrow> find (\<lambda>f. sf_path f = r) (map (\<lambda>f. if sf_path f = p then f\<lparr>sf_path := q\<rparr> else f)
      (filter (\<lambda>f. sf_path f \<noteq> q) fs))
    = (if r = q then map_option (\<lambda>f. f\<lparr>sf_path := q\<rparr>) (find (\<lambda>f. sf_path f = p) fs)
       else if r = p then None else find (\<lambda>f. sf_path f = r) fs)"
  by (induction fs) auto

lemma content_rename:
  assumes "rename_file p q d = Inr d'" "p \<noteq> q"
  shows "file_content d' = (file_content d)(p := None, q := file_content d p)"
proof -
  have "d' = d\<lparr>sd_files := map (\<lambda>f. if sf_path f = p then f\<lparr>sf_path := q\<rparr> else f)
      (filter (\<lambda>f. sf_path f \<noteq> q) (sd_files d))\<rparr>"
    using assms by (simp add: rename_file_def split: option.splits if_splits)
  then show ?thesis
    using assms(2) by (auto simp: fun_eq_iff file_content_def find_renamed option.map_comp comp_def)
qed

lemma content_None: "file_content d p = None \<longleftrightarrow> p \<notin> sf_path ` set (sd_files d)"
  by (auto simp: file_content_def find_None_iff)

lemma dir_ok_remove:
  assumes ok: "dir_ok d" and r: "remove_file p d = Inr d'"
  shows "dir_ok d'"
proof -
  have d': "d' = d\<lparr>sd_files := filter (\<lambda>f. sf_path f \<noteq> p) (sd_files d)\<rparr>"
    using r by (simp add: remove_file_def split: option.splits if_splits)
  show ?thesis
  proof (rule dir_okI)
    show "distinct (map sf_path (sd_files d'))" using dir_okD(1) [OF ok] by (simp add: d' distinct_map_filter)
  next
    fix f assume "f \<in> set (sd_files d')"
    then show "sf_path f \<noteq> [] \<and> sf_path f \<notin> set (sd_dirs d')" using dir_okD(2) [OF ok, of f] by (simp add: d')
  next
    fix f q assume "f \<in> set (sd_files d')" "q \<noteq> []" "starts_with (sf_path f) (q @ ''/'')"
    then show "q \<in> set (sd_dirs d')" using dir_okD(3) [OF ok, of f q] by (simp add: d')
  next
    fix r q assume "r \<in> set (sd_dirs d')" "q \<noteq> []" "starts_with r (q @ ''/'')"
    then show "q \<in> set (sd_dirs d')" using dir_okD(4) [OF ok, of r q] by (simp add: d')
  qed
qed

lemma dir_ok_new:
  assumes "dir_ok d" "file_content d p = None" "p \<noteq> []" "p \<notin> set (sd_dirs d)" "missing_parent d p = None"
  shows "dir_ok (d\<lparr>sd_files := sd_files d @ [\<lparr>sf_path = p, sf_mode = m, sf_content = data\<rparr>]\<rparr>)"
proof (rule dir_okI)
  let ?d = "d\<lparr>sd_files := sd_files d @ [\<lparr>sf_path = p, sf_mode = m, sf_content = data\<rparr>]\<rparr>"
  show "distinct (map sf_path (sd_files ?d))"
    using dir_okD(1) [OF assms(1)] assms(2) by (simp add: content_None)
  show "sf_path f \<noteq> [] \<and> sf_path f \<notin> set (sd_dirs ?d)" if "f \<in> set (sd_files ?d)" for f
    using that dir_okD(2) [OF assms(1), of f] assms(3,4) by auto
  show "q \<in> set (sd_dirs ?d)" if "f \<in> set (sd_files ?d)" "q \<noteq> []" "starts_with (sf_path f) (q @ ''/'')" for f q
    using that dir_okD(3) [OF assms(1), of f q] parents_there [OF assms(1,5), of q] by auto
  show "q \<in> set (sd_dirs ?d)" if "x \<in> set (sd_dirs ?d)" "q \<noteq> []" "starts_with x (q @ ''/'')" for x q
    using that dir_okD(4) [OF assms(1), of x q] by simp
qed

lemma dir_ok_paths:
  assumes "dir_ok d" "map sf_path fs = map sf_path (sd_files d)"
  shows "dir_ok (d\<lparr>sd_files := fs\<rparr>)"
proof -
  have s: "\<exists>g \<in> set (sd_files d). sf_path g = sf_path f" if "f \<in> set fs" for f
    using arg_cong [OF assms(2), of set] that by (auto simp: set_eq_iff image_iff) metis
  show ?thesis
  proof (rule dir_okI)
    show "distinct (map sf_path (sd_files (d\<lparr>sd_files := fs\<rparr>)))"
      using dir_okD(1) [OF assms(1)] assms(2) by simp
  qed (use s dir_okD(2,3,4) [OF assms(1)] in \<open>fastforce, fastforce, simp\<close>)
qed

lemma dir_ok_write:
  assumes ok: "dir_ok d" and w: "write_file p data d = Inr d'"
  shows "dir_ok d'"
proof (cases "file_content d p")
  case None
  then have "d' = d\<lparr>sd_files := sd_files d @ [\<lparr>sf_path = p, sf_mode = DEFAULT_MODE, sf_content = data\<rparr>]\<rparr>"
    "missing_parent d p = None" "\<not> is_dir d p"
    using w by (simp_all add: write_file_def split: option.splits if_splits)
  then show ?thesis using dir_ok_new [OF ok None] by (simp add: is_dir_def)
next
  case (Some old)
  then have d': "d' = d\<lparr>sd_files := map (\<lambda>f. if sf_path f = p then f\<lparr>sf_content := data\<rparr> else f) (sd_files d)\<rparr>"
    using w by (simp add: write_file_def split: option.splits if_splits)
  show ?thesis unfolding d' by (rule dir_ok_paths [OF ok]) simp
qed

lemma dir_ok_rename:
  assumes ok: "dir_ok d" and r: "rename_file p q d = Inr d'"
  shows "dir_ok d'"
proof (cases "p = q")
  case True
  then show ?thesis using ok r by (simp add: rename_file_def split: option.splits if_splits)
next
  case False
  have m: "missing_parent d q = None" and q: "q \<noteq> []" "q \<notin> set (sd_dirs d)"
    and d': "d' = d\<lparr>sd_files := map (\<lambda>f. if sf_path f = p then f\<lparr>sf_path := q\<rparr> else f)
      (filter (\<lambda>f. sf_path f \<noteq> q) (sd_files d))\<rparr>"
    using r False by (auto simp: rename_file_def is_dir_def split: option.splits if_splits)
  let ?g = "\<lambda>f. if sf_path f = p then f\<lparr>sf_path := q\<rparr> else f" and ?fs = "filter (\<lambda>f. sf_path f \<noteq> q) (sd_files d)"
  have dist: "distinct (map sf_path (sd_files d))" by (rule dir_okD(1) [OF ok])
  have swap: "map sf_path (map ?g fs) = map (\<lambda>x. if x = p then q else x) (map sf_path fs)" for fs by simp
  have renamed: "distinct (map sf_path (map ?g fs))" if "distinct (map sf_path fs)" "q \<notin> sf_path ` set fs" for fs
    unfolding swap distinct_map [of _ "map sf_path fs"] using that by (force simp: inj_on_def)
  have D: "distinct (map sf_path (map ?g ?fs))"
    by (rule renamed [OF distinct_map_filter [OF dist]]) auto
  have F: "sf_path f \<noteq> [] \<and> sf_path f \<notin> set (sd_dirs d)" if "f \<in> set (map ?g ?fs)" for f
    using that q dir_okD(2) [OF ok] by auto
  have A: "r \<in> set (sd_dirs d)" if "f \<in> set (map ?g ?fs)" "r \<noteq> []" "starts_with (sf_path f) (r @ ''/'')" for f r
    using that parents_there [OF ok m] dir_okD(3) [OF ok] by (auto split: if_splits)
  have sel: "sd_files d' = map ?g ?fs" "sd_dirs d' = sd_dirs d" by (simp_all add: d')
  show ?thesis
    by (rule dir_okI; unfold sel) (fact D, erule F, erule A, assumption+, erule dir_okD(4) [OF ok], assumption+)
qed

lemma dir_ok_create: "dir_ok d \<Longrightarrow> create_dir p d = Inr d' \<Longrightarrow> dir_ok d'"
proof -
  assume ok: "dir_ok d" and c: "create_dir p d = Inr d'"
  have d': "d' = d\<lparr>sd_dirs := sd_dirs d @ [p]\<rparr>" and m: "missing_parent d p = None" and n: "file_content d p = None"
    using c by (auto simp: create_dir_def split: option.splits if_splits)
  have old: "dir_ok d" by (rule ok)
  show ?thesis unfolding d'
  proof (rule dir_okI)
    show "distinct (map sf_path (sd_files (d\<lparr>sd_dirs := sd_dirs d @ [p]\<rparr>)))" using dir_okD(1) [OF old] by simp
  next
    fix f assume "f \<in> set (sd_files (d\<lparr>sd_dirs := sd_dirs d @ [p]\<rparr>))"
    then show "sf_path f \<noteq> [] \<and> sf_path f \<notin> set (sd_dirs (d\<lparr>sd_dirs := sd_dirs d @ [p]\<rparr>))"
      using dir_okD(2) [OF old, of f] n by (auto simp: content_None)
  next
    fix f q assume "f \<in> set (sd_files (d\<lparr>sd_dirs := sd_dirs d @ [p]\<rparr>))" "q \<noteq> []" "starts_with (sf_path f) (q @ ''/'')"
    then show "q \<in> set (sd_dirs (d\<lparr>sd_dirs := sd_dirs d @ [p]\<rparr>))"
      using dir_okD(3) [OF old, of f q] by simp
  next
    fix r q assume "r \<in> set (sd_dirs (d\<lparr>sd_dirs := sd_dirs d @ [p]\<rparr>))" "q \<noteq> []" "starts_with r (q @ ''/'')"
    then show "q \<in> set (sd_dirs (d\<lparr>sd_dirs := sd_dirs d @ [p]\<rparr>))"
      using dir_okD(4) [OF old, of r q] parents_there [OF old m, of q] by auto
  qed
qed

subsection \<open>One advisory\<close>

text \<open>What is documented of \<open>store_document\<close>: it writes the document and the sidecars that are given.\<close>

definition put_sidecar :: "string \<Rightarrow> string option \<Rightarrow> (string \<Rightarrow> string option) \<Rightarrow> string \<Rightarrow> string option" where
  "put_sidecar p side m = (case side of None \<Rightarrow> m | Some t \<Rightarrow> m(p \<mapsto> t))"

definition with_sidecars :: "string \<Rightarrow> retrieved_advisory \<Rightarrow> (string \<Rightarrow> string option) \<Rightarrow> string \<Rightarrow> string option" where
  "with_sidecars file a m = put_sidecar (file @ ''.asc'') (ra_signature a)
     (put_sidecar (file @ ''.sha512'') (ra_sha512 a) (put_sidecar (file @ ''.sha256'') (ra_sha256 a) m))"

definition store_document_ok :: "download_lib \<Rightarrow> bool" where
  "store_document_ok lib \<longleftrightarrow> (\<forall>file data a d d'. dir_ok d \<longrightarrow> dl_store_document lib file data a d = Inr d' \<longrightarrow>
     dir_ok d' \<and> file_content d' = with_sidecars file a ((file_content d)(file \<mapsto> data)))"

text \<open>The files of an advisory as the visitor leaves them.\<close>

definition held_as :: "download_lib \<Rightarrow> string \<Rightarrow> retrieved_advisory \<Rightarrow> (string \<Rightarrow> string option) \<Rightarrow> bool" where
  "held_as lib file a m \<longleftrightarrow> m file = None
     \<and> (\<exists>z. dl_compress lib (ra_data a) = Some z \<and> m (file @ ''.zst'') = Some z)
     \<and> m (file @ ''.asc'') = ra_signature a \<and> m (file @ ''.sha256'') = ra_sha256 a
     \<and> m (file @ ''.sha512'') = ra_sha512 a"

definition csaf_path :: "string \<Rightarrow> bool" where
  "csaf_path p \<longleftrightarrow> extension p = Some ''json'' \<and> \<not> starts_with p ''metadata/''"

definition advisory_files :: "string \<Rightarrow> string set" where
  "advisory_files file = {file, file @ ''.zst'', file @ ''.asc'', file @ ''.sha256'', file @ ''.sha512''}"

lemma advisory_files_image:
  "advisory_files p = (@) p ` {[], ''.zst'', ''.asc'', ''.sha256'', ''.sha512''}"
  unfolding advisory_files_def by simp

lemma no_parent_no_file:
  assumes ok: "dir_ok d" and m: "missing_parent d p \<noteq> None"
  shows "file_content d p = None"
proof (rule ccontr)
  assume "file_content d p \<noteq> None"
  then obtain f where f: "f \<in> set (sd_files d)" "sf_path f = p" unfolding content_None by auto
  have np: "parent_path p \<noteq> []" "parent_path p \<notin> set (sd_dirs d)"
    using m by (auto simp: missing_parent_def is_dir_def split: if_splits)
  obtain x where x: "p = x @ file_name p" "x \<noteq> [] \<longrightarrow> last x = CHR ''/''" using split_file_name by blast
  have len: "length p = length x + length (file_name p)" using arg_cong [OF x(1), of length] by simp
  have par: "parent_path p = take (length x - 1) (x @ file_name p)" using x(1) len by (simp add: parent_path_def)
  have xne: "x \<noteq> []" using np(1) unfolding par by auto
  have "parent_path p = butlast x" using xne by (simp add: par butlast_conv_take)
  then have "p = (parent_path p @ ''/'') @ file_name p"
    using x xne append_butlast_last_id [OF xne] by simp
  then have "starts_with (sf_path f) (parent_path p @ ''/'')" unfolding f(2) starts_with_iff by blast
  then show False using dir_okD(3) [OF ok f(1)] np by blast
qed

lemma remove_sidecar_content:
  assumes ok: "dir_ok d" and r: "remove_sidecar file suffix d = Inr d'"
  shows "dir_ok d' \<and> file_content d' = (file_content d)(file @ ''.'' @ suffix := None)"
proof (cases "remove_file (file @ ''.'' @ suffix) d")
  case (Inr x)
  then show ?thesis
    using r dir_ok_remove [OF ok Inr] content_remove [OF Inr] by (simp add: remove_sidecar_def)
next
  case (Inl e)
  let ?p = "file @ ''.'' @ suffix"
  have e: "e = NotFound" "d' = d" using r Inl by (cases e; simp add: remove_sidecar_def)+
  have "file_content d ?p = None"
  proof (cases "missing_parent d ?p")
    case None
    then show ?thesis using Inl e by (simp add: remove_file_def split: if_splits)
  qed (simp add: no_parent_no_file [OF ok])
  then show ?thesis using ok e by (simp add: fun_upd_idem)
qed

lemma remove_sidecars_content:
  assumes "dir_ok d" "fold_res (remove_sidecar file) [''asc'', ''sha256'', ''sha512''] d = Inr d'"
  shows "dir_ok d' \<and> file_content d'
    = (file_content d)(file @ ''.asc'' := None, file @ ''.sha256'' := None, file @ ''.sha512'' := None)"
proof -
  obtain d1 d2 where r: "remove_sidecar file ''asc'' d = Inr d1" "remove_sidecar file ''sha256'' d1 = Inr d2"
    "remove_sidecar file ''sha512'' d2 = Inr d'"
    using assms(2) by (auto split: sum.splits)
  note s1 = remove_sidecar_content [OF assms(1) r(1)]
  note s2 = remove_sidecar_content [OF conjunct1 [OF s1] r(2)]
  note s3 = remove_sidecar_content [OF conjunct1 [OF s2] r(3)]
  show ?thesis using s1 s2 s3 by simp
qed

lemma put_sidecar_apply: "put_sidecar p side m q = (if q = p \<and> side \<noteq> None then side else m q)"
  by (cases side) (simp_all add: put_sidecar_def)

lemma visit_advisory_content:
  assumes lib: "store_document_ok lib" and ok: "dir_ok d" and p: "advisory_file a = Some file" "csaf_path file"
    and v: "visit_advisory lib a d = Inr d'"
  shows "dir_ok d' \<and> held_as lib file a (file_content d')
    \<and> (\<forall>q. q \<notin> advisory_files file \<longrightarrow> file_content d' q = file_content d q)"
proof -
  have json: "extension file = Some ''json''" using p(2) by (simp add: csaf_path_def)
  obtain z d1 d2 where z: "dl_compress lib (ra_data a) = Some z"
    and r1: "fold_res (remove_sidecar file) [''asc'', ''sha256'', ''sha512''] d = Inr d1"
    and r2: "dl_store_document lib file z a d1 = Inr d2"
    and r3: "rename_file file (file @ ''.zst'') d2 = Inr d'"
    using v by (simp add: visit_advisory_def p(1) json compressed_path_def split: option.splits sum.splits del: fold_res.simps)
  note s1 = remove_sidecars_content [OF ok r1]
  have s2: "dir_ok d2" "file_content d2 = with_sidecars file a ((file_content d1)(file \<mapsto> z))"
    using lib s1 r2 unfolding store_document_ok_def by blast+
  have s3: "file_content d' = (file_content d2)(file := None, file @ ''.zst'' := file_content d2 file)"
    by (rule content_rename [OF r3]) simp
  have c2: "file_content d2 file = Some z" "file_content d2 (file @ ''.asc'') = ra_signature a"
    "file_content d2 (file @ ''.sha256'') = ra_sha256 a" "file_content d2 (file @ ''.sha512'') = ra_sha512 a"
    using s1 by (simp_all add: s2 with_sidecars_def put_sidecar_apply)
  have "file_content d2 q = file_content d q" if "q \<notin> advisory_files file" for q
    using that s1 by (simp add: s2 with_sidecars_def put_sidecar_apply advisory_files_def)
  then show ?thesis
    using dir_ok_rename [OF s2(1) r3] z c2 by (simp add: s3 held_as_def advisory_files_def)
qed

subsection \<open>Metadata and keys\<close>

lemma below_ancestor: "below p q \<Longrightarrow> starts_with r (q @ ''/'') \<Longrightarrow> below p r"
  by (auto simp: below_def starts_with_iff)

lemma dir_ok_remove_dir:
  assumes ok: "dir_ok d" and r: "remove_dir_all p d = Inr d'"
  shows "dir_ok d'"
proof -
  have sel: "sd_files d' = filter (\<lambda>f. \<not> below p (sf_path f)) (sd_files d)"
    "sd_dirs d' = filter (\<lambda>q. \<not> below p q) (sd_dirs d)"
    using r by (auto simp: remove_dir_all_def split: if_splits)
  show ?thesis
  proof (rule dir_okI; unfold sel)
    show "distinct (map sf_path (filter (\<lambda>f. \<not> below p (sf_path f)) (sd_files d)))"
      by (rule distinct_map_filter [OF dir_okD(1) [OF ok]])
  qed (use dir_okD(2) [OF ok] dir_okD(3) [OF ok] dir_okD(4) [OF ok] below_ancestor in
      \<open>auto simp only: set_filter mem_Collect_eq\<close>)
qed

lemma content_remove_dir:
  assumes "remove_dir_all p d = Inr d'" "\<not> below p q"
  shows "file_content d' q = file_content d q"
proof -
  have "find (\<lambda>f. sf_path f = q) (filter (\<lambda>f. \<not> below p (sf_path f)) fs) = find (\<lambda>f. sf_path f = q) fs"
    for fs :: "scratch_file list"
    using assms(2) by (induction fs) auto
  moreover have "sd_files d' = filter (\<lambda>f. \<not> below p (sf_path f)) (sd_files d)"
    using assms(1) by (auto simp: remove_dir_all_def split: if_splits)
  ultimately show ?thesis by (simp only: file_content_def)
qed

lemma content_create: "create_dir p d = Inr d' \<Longrightarrow> file_content d' = file_content d"
  by (auto simp: create_dir_def file_content_def split: option.splits if_splits)

lemma create_if_missing:
  assumes "dir_ok d" "create_dir_if_missing p d = Inr d'"
  shows "dir_ok d' \<and> file_content d' = file_content d"
proof (cases "create_dir p d")
  case (Inl e)
  then have "d' = d" using assms(2) by (cases e) (simp_all add: create_dir_if_missing_def)
  then show ?thesis using assms(1) by simp
next
  case (Inr x)
  then have "d' = x" using assms(2) by (simp add: create_dir_if_missing_def)
  then show ?thesis using dir_ok_create [OF assms(1) Inr] content_create [OF Inr] by simp
qed

text \<open>Only files of the metadata directory differ.\<close>

definition same_outside :: "scratch_dir \<Rightarrow> scratch_dir \<Rightarrow> bool" where
  "same_outside d d' \<longleftrightarrow> dir_ok d' \<and> (\<forall>q. \<not> starts_with q ''metadata/'' \<longrightarrow> file_content d' q = file_content d q)"

lemma same_outside_write:
  assumes "same_outside d d1" "write_file p data d1 = Inr d2" "starts_with p ''metadata/''"
  shows "same_outside d d2"
proof -
  have d1: "dir_ok d1" "\<not> starts_with q ''metadata/'' \<Longrightarrow> file_content d1 q = file_content d q" for q
    using assms(1) by (simp_all add: same_outside_def)
  have "q \<noteq> p" if "\<not> starts_with q ''metadata/''" for q using that assms(3) by blast
  then show ?thesis
    using dir_ok_write [OF d1(1) assms(2)] content_write [OF assms(2)] d1(2) by (simp add: same_outside_def)
qed

lemma metadata_path: "starts_with (DIR_METADATA @ ''/'' @ r) ''metadata/''"
proof -
  have "DIR_METADATA @ ''/'' @ r = ''metadata/'' @ r" by (simp add: DIR_METADATA_def)
  then show ?thesis by (simp only: starts_with_append)
qed

lemma below_keys: "below (DIR_METADATA @ ''/keys'') q \<Longrightarrow> starts_with q ''metadata/''"
proof -
  assume "below (DIR_METADATA @ ''/keys'') q"
  then have "q = ''metadata/'' @ ''keys'' \<or> (\<exists>r. q = ''metadata/'' @ ''keys/'' @ r)"
    by (simp add: below_def DIR_METADATA_def starts_with_iff)
  then show ?thesis using starts_with_append by metis
qed

lemma visit_context_outside:
  assumes ok: "dir_ok d" and v: "visit_context lib metadata keys d = Inr d'"
  shows "same_outside d d'"
proof -
  let ?dir = "DIR_METADATA @ ''/keys''"
  obtain d1 where d1: "store_provider_metadata lib metadata d = Inr d1" and k: "store_keys keys d1 = Inr d'"
    using v by (auto simp: visit_context_def split: sum.splits)
  obtain d0 data where d0: "create_dir_if_missing DIR_METADATA d = Inr d0"
    and w: "write_file (DIR_METADATA @ ''/provider-metadata.json'') data d0 = Inr d1"
    using d1 by (auto simp: store_provider_metadata_def split: sum.splits option.splits)
  have "same_outside d d0" using create_if_missing [OF ok d0] by (simp add: same_outside_def)
  then have s1: "same_outside d d1"
    by (rule same_outside_write [OF _ w]) (use metadata_path [of "''provider-metadata.json''"] in simp)
  obtain d2 d3 where d2: "(if is_dir d1 ?dir \<or> file_content d1 ?dir \<noteq> None then remove_dir_all ?dir d1 else Inr d1) = Inr d2"
    and d3: "create_dir_if_missing ?dir d2 = Inr d3"
    and wk: "fold_res (write_key ?dir) (enumerate 0 keys) d3 = Inr d'"
    using k unfolding store_keys_def Let_def by (auto split: sum.splits simp del: fold_res.simps)
  have s2: "same_outside d d2"
  proof (cases "is_dir d1 ?dir \<or> file_content d1 ?dir \<noteq> None")
    case True
    then have r: "remove_dir_all ?dir d1 = Inr d2" using d2 by simp
    have "\<not> below ?dir q" if "\<not> starts_with q ''metadata/''" for q
      using that below_keys by blast
    then show ?thesis
      using s1 dir_ok_remove_dir [OF _ r] content_remove_dir [OF r] by (simp add: same_outside_def)
  next
    case False
    then show ?thesis using d2 s1 by simp
  qed
  then have s3: "same_outside d d3" using create_if_missing [OF _ d3] by (simp add: same_outside_def)
  show ?thesis
  proof (rule fold_res_prefix [OF wk, where P = "\<lambda>_. same_outside d"])
    fix ys x zs s s' assume "same_outside d s" "write_key ?dir x s = Inr s'"
    then show "same_outside d s'"
      using same_outside_write [of d s "key_file ?dir (fst x)" "snd x" s']
        metadata_path [of "''keys/'' @ format_nat (fst x) @ ''.key''"]
      by (auto simp: write_key_def key_file_def split: sum.splits)
  qed (rule s3)
qed

subsection \<open>A whole walk\<close>

definition retrieved :: "walk_event list \<Rightarrow> retrieved_advisory list" where
  "retrieved events = List.map_filter (\<lambda>e. case e of VisitAdvisory (Inr a) \<Rightarrow> Some a | _ \<Rightarrow> None) events"

definition last_retrieved :: "string \<Rightarrow> walk_event list \<Rightarrow> retrieved_advisory option" where
  "last_retrieved p events = find (\<lambda>a. advisory_file a = Some p) (rev (retrieved events))"

definition failed_retrievals :: "walk_event list \<Rightarrow> retrieval_failure list" where
  "failed_retrievals events = List.map_filter (\<lambda>e. case e of
     VisitAdvisory (Inl err) \<Rightarrow> Some \<lparr>rf_url = re_url err, rf_error = re_text err, rf_missing = is_not_found (re_source err)\<rparr>
   | _ \<Rightarrow> None) events"

lemma csaf_json:
  assumes "csaf_path p"
  shows "ends_with p ''.json'' \<and> last p = CHR ''n'' \<and> \<not> starts_with p ''metadata/''"
proof -
  have l: "after_last (CHR ''.'') (file_name p) = ''json''" "length ''json'' + 1 < length (file_name p)"
    using assms by (auto simp: csaf_path_def extension_def Let_def split: if_splits)
  obtain x where x: "p = x @ file_name p" using split_file_name by blast
  obtain y where y: "file_name p = y @ ''json''" "y \<noteq> [] \<longrightarrow> last y = CHR ''.''"
    using after_last_split [of "file_name p" "CHR ''.''"] l(1) by auto
  then have ne: "y \<noteq> []" using l(2) by auto
  then have "y = butlast y @ ''.''" using y(2) append_butlast_last_id [OF ne] by simp
  then have "p = (x @ butlast y) @ ''.json''" using x y(1) by simp
  then have "ends_with p ''.json''" unfolding ends_with_iff by blast
  then show ?thesis using assms ends_with_last [of p "''.json''"] by (simp add: csaf_path_def)
qed

lemma csaf_files_outside:
  assumes "csaf_path p" "q \<in> advisory_files p"
  shows "\<not> starts_with q ''metadata/''"
proof -
  obtain s where s: "q = p @ s" using assms(2) by (auto simp: advisory_files_def)
  obtain x where x: "p = x @ ''.json''" using csaf_json [OF assms(1)] by (auto simp: ends_with_iff)
  have np: "\<not> starts_with p ''metadata/''" using csaf_json [OF assms(1)] by simp
  show ?thesis
  proof
    assume "starts_with q ''metadata/''"
    then obtain r where "p @ s = ''metadata/'' @ r" using s by (auto simp: starts_with_iff)
    then consider us where "p = ''metadata/'' @ us" | us where "p @ us = ''metadata/''"
      unfolding append_eq_append_conv2 by metis
    then show False
    proof cases
      case 1
      have "starts_with p ''metadata/''" unfolding 1 by (rule starts_with_append)
      then show False using np by blast
    next
      case (2 us)
      have "CHR ''.'' \<in> set (p @ us)" unfolding x by simp
      then show False unfolding 2 by simp
    qed
  qed
qed

lemma csaf_files_disjoint:
  assumes "csaf_path p" "csaf_path q" "p \<noteq> q"
  shows "advisory_files p \<inter> advisory_files q = {}"
proof -
  have l: "last p = CHR ''n''" "last q = CHR ''n''" using csaf_json assms by blast+
  have same: "s = t"
    if e: "p @ s = q @ t" and "s \<in> {[], ''.zst'', ''.asc'', ''.sha256'', ''.sha512''}"
      "t \<in> {[], ''.zst'', ''.asc'', ''.sha256'', ''.sha512''}" for s t
    using that(2,3) arg_cong [OF e, of last] l by (elim insertE emptyE) simp_all
  have "False" if xp: "x \<in> advisory_files p" and xq: "x \<in> advisory_files q" for x
  proof -
    obtain s where s: "x = p @ s" "s \<in> {[], ''.zst'', ''.asc'', ''.sha256'', ''.sha512''}"
      using xp unfolding advisory_files_image by (rule imageE)
    obtain t where t: "x = q @ t" "t \<in> {[], ''.zst'', ''.asc'', ''.sha256'', ''.sha512''}"
      using xq unfolding advisory_files_image by (rule imageE)
    have "p @ s = q @ t" using s(1) t(1) by (rule subst)
    then show False using same [OF _ s(2) t(2)] assms(3) by simp
  qed
  then show ?thesis by blast
qed

text \<open>The calls of a walk as updates: failures, the count of the job, the files of an advisory.\<close>

definition synced_count :: "string \<Rightarrow> jobs \<Rightarrow> u64 option" where
  "synced_count domain jobs = map_option jb_documents_synced (jobs domain)"

definition visits :: "walk_event list \<Rightarrow> nat" where
  "visits events = length (filter (\<lambda>e. case e of VisitAdvisory _ \<Rightarrow> True | _ \<Rightarrow> False) events)"

definition walk_holds :: "download_lib \<Rightarrow> (string \<Rightarrow> string option) \<Rightarrow> walk_event list \<Rightarrow> scratch_dir \<Rightarrow> bool" where
  "walk_holds lib before events d \<longleftrightarrow> dir_ok d \<and> (\<forall>p. csaf_path p \<longrightarrow> (case last_retrieved p events of
       None \<Rightarrow> \<forall>q \<in> advisory_files p. file_content d q = before q
     | Some a \<Rightarrow> held_as lib p a (file_content d)))"

lemma held_as_cong: "(\<And>q. q \<in> advisory_files p \<Longrightarrow> m q = m' q) \<Longrightarrow> held_as lib p a m = held_as lib p a m'"
  by (simp add: held_as_def advisory_files_def)

lemma walk_holds_outside:
  assumes "walk_holds lib before ys d" "same_outside d d'" "retrieved zs = retrieved ys"
  shows "walk_holds lib before zs d'"
proof -
  have l: "last_retrieved p zs = last_retrieved p ys" for p using assms(3) by (simp add: last_retrieved_def)
  have same: "file_content d' q = file_content d q" if "csaf_path p" "q \<in> advisory_files p" for p q
    using assms(2) csaf_files_outside [OF that] by (simp add: same_outside_def)
  have "case last_retrieved p zs of
       None \<Rightarrow> \<forall>q \<in> advisory_files p. file_content d' q = before q
     | Some a \<Rightarrow> held_as lib p a (file_content d')" if c: "csaf_path p" for p
  proof (cases "last_retrieved p ys")
    case None
    then have "\<forall>q \<in> advisory_files p. file_content d q = before q" using assms(1) c by (auto simp: walk_holds_def)
    then show ?thesis using None same [OF c] by (simp add: l)
  next
    case (Some a)
    then have "held_as lib p a (file_content d)" using assms(1) c by (auto simp: walk_holds_def)
    then show ?thesis using held_as_cong [of p "file_content d'" "file_content d" lib a] same [OF c] Some by (simp add: l)
  qed
  then show ?thesis using assms(2) by (simp add: walk_holds_def same_outside_def)
qed

lemma walk_holds_visit:
  assumes lib: "store_document_ok lib" and h: "walk_holds lib before ys d"
    and a: "advisory_file a = Some file" "csaf_path file" and v: "visit_advisory lib a d = Inr d'"
  shows "walk_holds lib before (ys @ [VisitAdvisory (Inr a)]) d'"
proof -
  have ok: "dir_ok d" using h by (simp add: walk_holds_def)
  note c = visit_advisory_content [OF lib ok a v]
  have r: "retrieved (ys @ [VisitAdvisory (Inr a)]) = retrieved ys @ [a]"
    by (simp add: retrieved_def List.map_filter_def)
  have l: "last_retrieved p (ys @ [VisitAdvisory (Inr a)])
      = (if p = file then Some a else last_retrieved p ys)" for p
    using a(1) by (simp add: last_retrieved_def r)
  have "case last_retrieved p (ys @ [VisitAdvisory (Inr a)]) of
       None \<Rightarrow> \<forall>q \<in> advisory_files p. file_content d' q = before q
     | Some a \<Rightarrow> held_as lib p a (file_content d')" if p: "csaf_path p" for p
  proof (cases "p = file")
    case True
    then show ?thesis using c by (simp add: l)
  next
    case False
    have same: "file_content d' q = file_content d q" if "q \<in> advisory_files p" for q
      using that c csaf_files_disjoint [OF p a(2) False] by blast
    show ?thesis
    proof (cases "last_retrieved p ys")
      case None
      then have "\<forall>q \<in> advisory_files p. file_content d q = before q" using h p by (auto simp: walk_holds_def)
      then show ?thesis using None same False by (simp add: l)
    next
      case (Some b)
      then have "held_as lib p b (file_content d)" using h p by (auto simp: walk_holds_def)
      then show ?thesis
        using held_as_cong [of p "file_content d'" "file_content d" lib b] same Some False by (simp add: l)
    qed
  qed
  then show ?thesis using c by (simp add: walk_holds_def)
qed

definition all_csaf :: "walk_event list \<Rightarrow> bool" where
  "all_csaf events \<longleftrightarrow> list_all (\<lambda>a. case advisory_file a of None \<Rightarrow> True | Some p \<Rightarrow> csaf_path p) (retrieved events)"

definition walked_so_far :: "download_lib \<Rightarrow> string \<Rightarrow> (string \<Rightarrow> string option) \<Rightarrow> jobs \<Rightarrow> walk_event list \<Rightarrow> walk_state \<Rightarrow> bool" where
  "walked_so_far lib domain before jobs events w \<longleftrightarrow> walk_holds lib before events (wk_dir w)
     \<and> wk_retrieval_errors w = failed_retrievals events
     \<and> synced_count domain (wk_jobs w) = map_option (\<lambda>n. n + of_nat (visits events)) (synced_count domain jobs)"

lemma synced_jobs:
  "synced_count domain (increment_job_synced domain jobs) = map_option (\<lambda>n. n + 1) (synced_count domain jobs)"
  "synced_count domain (start_distribution domain work dists jobs) = synced_count domain jobs"
  by (auto simp: synced_count_def increment_job_synced_def start_distribution_def modify_job_def
      distribution_started_def Let_def split: option.splits)

lemma same_outside_refl: "dir_ok d \<Longrightarrow> same_outside d d"
  by (simp add: same_outside_def)

lemma walk_step_so_far:
  assumes lib: "store_document_ok lib" and w: "walked_so_far lib domain before jobs ys w"
    and csaf: "all_csaf (ys @ [e])" and s: "walk_step lib domain skip src e w = (w', None)"
  shows "walked_so_far lib domain before jobs (ys @ [e]) w'"
proof -
  have ok: "dir_ok (wk_dir w)" and h: "walk_holds lib before ys (wk_dir w)"
    and f: "wk_retrieval_errors w = failed_retrievals ys"
    and n: "synced_count domain (wk_jobs w) = map_option (\<lambda>n. n + of_nat (visits ys)) (synced_count domain jobs)"
    using w by (simp_all add: walked_so_far_def walk_holds_def)
  show ?thesis
  proof (cases e)
    case (VisitContext metadata keys)
    then obtain d where d: "visit_context lib metadata keys (wk_dir w) = Inr d" "w' = w\<lparr>wk_dir := d\<rparr>"
      using s by (auto simp: walk_step_def split: sum.splits)
    show ?thesis
      using walk_holds_outside [OF h visit_context_outside [OF ok d(1)], of "ys @ [e]"] f n
      by (simp add: walked_so_far_def d(2) VisitContext retrieved_def failed_retrievals_def visits_def List.map_filter_def)
  next
    case (VisitAdvisory result)
    show ?thesis
    proof (cases result)
      case (Inl err)
      have e: "e = VisitAdvisory (Inl err)" using VisitAdvisory Inl by simp
      have w': "wk_dir w' = wk_dir w" "wk_jobs w' = increment_job_synced domain (wk_jobs w)"
        "wk_retrieval_errors w' = failed_retrievals ys @ [\<lparr>rf_url = re_url err, rf_error = re_text err, rf_missing = is_not_found (re_source err)\<rparr>]"
        using s f by (auto simp: walk_step_def e count_advisory_def)
      show ?thesis
        using walk_holds_outside [OF h same_outside_refl [OF ok], of "ys @ [e]"] n
        by (cases "synced_count domain jobs")
          (simp_all add: walked_so_far_def w' synced_jobs e retrieved_def failed_retrievals_def visits_def List.map_filter_def)
    next
      case (Inr a)
      have e: "e = VisitAdvisory (Inr a)" using VisitAdvisory Inr by simp
      obtain d where d: "visit_advisory lib a (wk_dir w) = Inr d"
        and w': "wk_dir w' = d" "wk_jobs w' = increment_job_synced domain (wk_jobs w)"
          "wk_retrieval_errors w' = failed_retrievals ys"
        using s f by (auto simp: walk_step_def e count_advisory_def split: sum.splits)
      obtain path where path: "advisory_file a = Some path"
        using d by (auto simp: visit_advisory_def split: option.splits)
      have c: "csaf_path path"
        using csaf by (simp add: all_csaf_def e retrieved_def List.map_filter_def path)
      show ?thesis
        using walk_holds_visit [OF lib h path c d] n
        by (cases "synced_count domain jobs")
          (simp_all add: walked_so_far_def w' synced_jobs e failed_retrievals_def visits_def List.map_filter_def)
    qed
  next
    case (DistributionError ctx err)
    have w': "wk_dir w' = wk_dir w" "wk_jobs w' = wk_jobs w" "wk_retrieval_errors w' = wk_retrieval_errors w"
      using s by (auto simp: walk_step_def DistributionError distribution_error_def
          split: distribution_context.splits tlp_label.splits)
    show ?thesis
      using walk_holds_outside [OF h same_outside_refl [OF ok], of "ys @ [e]"] f n
      by (simp add: walked_so_far_def w' DistributionError retrieved_def failed_retrievals_def visits_def List.map_filter_def)
  next
    case (OfferDistribution ctx)
    have w': "wk_dir w' = wk_dir w" "wk_jobs w' = wk_jobs w" "wk_retrieval_errors w' = wk_retrieval_errors w"
      using s by (auto simp: walk_step_def OfferDistribution split: if_splits)
    show ?thesis
      using walk_holds_outside [OF h same_outside_refl [OF ok], of "ys @ [e]"] f n
      by (simp add: walked_so_far_def w' OfferDistribution retrieved_def failed_retrievals_def visits_def List.map_filter_def)
  next
    case (LoadIndex ctx index)
    have w': "wk_dir w' = wk_dir w" "wk_jobs w' = wk_jobs w" "wk_retrieval_errors w' = wk_retrieval_errors w"
      using s by (auto simp: walk_step_def LoadIndex)
    show ?thesis
      using walk_holds_outside [OF h same_outside_refl [OF ok], of "ys @ [e]"] f n
      by (simp add: walked_so_far_def w' LoadIndex retrieved_def failed_retrievals_def visits_def List.map_filter_def)
  next
    case (StartProgress work)
    have w': "wk_dir w' = wk_dir w" "wk_retrieval_errors w' = wk_retrieval_errors w"
      "synced_count domain (wk_jobs w') = synced_count domain (wk_jobs w)"
      using s by (auto simp: walk_step_def StartProgress synced_jobs)
    show ?thesis
      using walk_holds_outside [OF h same_outside_refl [OF ok], of "ys @ [e]"] f n
      by (simp add: walked_so_far_def w' StartProgress retrieved_def failed_retrievals_def visits_def List.map_filter_def)
  qed
qed

lemma run_walk_so_far:
  assumes lib: "store_document_ok lib" and ok: "dir_ok d0" and csaf: "all_csaf (fst walk)"
    and run: "run_walk lib domain skip src walk d0 jobs = (w, None)"
  shows "walked_so_far lib domain (file_content d0) jobs (fst walk) w"
proof -
  have r: "fold_try (walk_step lib domain skip src) (fst walk) (walk_start d0 jobs) = (w, None)"
    using run by (auto simp: run_walk_def split: prod.splits option.splits)
  show ?thesis
  proof (rule fold_try_prefix [OF r, where P = "walked_so_far lib domain (file_content d0) jobs"])
    show "walked_so_far lib domain (file_content d0) jobs [] (walk_start d0 jobs)"
      using ok by (simp add: walked_so_far_def walk_start_def walk_holds_def last_retrieved_def retrieved_def
          failed_retrievals_def visits_def List.map_filter_def option.map_ident)
  next
    fix ys x zs s s'
    assume e: "fst walk = ys @ x # zs" and p: "walked_so_far lib domain (file_content d0) jobs ys s"
      and s: "walk_step lib domain skip src x s = (s', None)"
    have "retrieved (ys @ x # zs) = retrieved (ys @ [x]) @ retrieved zs"
      by (simp add: retrieved_def List.map_filter_def)
    then have "all_csaf (ys @ [x])" using csaf unfolding e all_csaf_def by simp
    from walk_step_so_far [OF lib p this s] show "walked_so_far lib domain (file_content d0) jobs (ys @ [x]) s'" .
  qed
qed

text \<open>
  C8. What a download leaves behind. When the walk of a provider ends without an error, every
  failed retrieval was recorded in order, with the 404 ones marked missing, the job counted every
  advisory that was visited, and the worktree holds each advisory as it was last retrieved:
  compressed, not under its plain name, and with exactly the signature and digests of that last
  retrieval, none of an earlier one. The files of advisories that were not retrieved are untouched.
\<close>

theorem downloads_stored:
  assumes "store_document_ok lib" and "dir_ok d0" and "all_csaf (fst walk)"
    and "run_walk lib domain skip src walk d0 jobs = (w, None)"
  shows "wk_retrieval_errors w = failed_retrievals (fst walk)
    \<and> synced_count domain (wk_jobs w) = map_option (\<lambda>n. n + of_nat (visits (fst walk))) (synced_count domain jobs)
    \<and> dir_ok (wk_dir w)
    \<and> (\<forall>p. csaf_path p \<longrightarrow> (case last_retrieved p (fst walk) of
         None \<Rightarrow> \<forall>q \<in> advisory_files p. file_content (wk_dir w) q = file_content d0 q
       | Some a \<Rightarrow> held_as lib p a (file_content (wk_dir w))))"
  using run_walk_so_far [OF assms] unfolding walked_so_far_def walk_holds_def by blast

subsection \<open>An example\<close>

definition sample_store_document :: "string \<Rightarrow> string \<Rightarrow> retrieved_advisory \<Rightarrow> scratch_dir \<Rightarrow> string + scratch_dir" where
  "sample_store_document path data a d =
     (case create_dir_if_missing (parent_path path) d of Inl e \<Rightarrow> Inl (io_text e) | Inr d0 \<Rightarrow>
        fold_res (\<lambda>(p, t) d. map_sum io_text (\<lambda>d. d) (write_file p t d))
          ((path, data) # List.map_filter (\<lambda>(s, t). map_option (Pair (path @ s)) t)
            [(''.sha256'', ra_sha256 a), (''.sha512'', ra_sha512 a), (''.asc'', ra_signature a)]) d0)"

definition sample_download :: download_lib where
  "sample_download = \<lparr>dl_compress = Some, dl_store_document = sample_store_document,
     dl_to_vec_pretty = (\<lambda>_. Some ''{}'')\<rparr>"

lemma write_all:
  "dir_ok d \<Longrightarrow> fold_res (\<lambda>(p, t) d. map_sum io_text (\<lambda>d. d) (write_file p t d)) ws d = Inr d' \<Longrightarrow>
    dir_ok d' \<and> file_content d' = fold (\<lambda>(p, t) m. m(p \<mapsto> t)) ws (file_content d)"
proof (induction ws arbitrary: d)
  case (Cons w ws)
  obtain p t where w: "w = (p, t)" by force
  obtain d1 where d1: "write_file p t d = Inr d1"
      "fold_res (\<lambda>(p, t) d. map_sum io_text (\<lambda>d. d) (write_file p t d)) ws d1 = Inr d'"
    using Cons.prems(2) by (cases "write_file p t d") (simp_all add: w)
  show ?case
    using Cons.IH [OF dir_ok_write [OF Cons.prems(1) d1(1)] d1(2)] content_write [OF d1(1)] by (simp add: w)
qed simp

lemma sample_download_ok: "store_document_ok sample_download"
proof -
  have "dir_ok d' \<and> file_content d' = with_sidecars path a ((file_content d)(path \<mapsto> data))"
    if ok: "dir_ok d" and s: "sample_store_document path data a d = Inr d'" for path data a d d'
  proof -
    obtain d0 where c: "create_dir_if_missing (parent_path path) d = Inr d0"
      and w: "fold_res (\<lambda>(p, t) d. map_sum io_text (\<lambda>d. d) (write_file p t d))
          ((path, data) # List.map_filter (\<lambda>(s, t). map_option (Pair (path @ s)) t)
            [(''.sha256'', ra_sha256 a), (''.sha512'', ra_sha512 a), (''.asc'', ra_signature a)]) d0 = Inr d'"
      using s by (auto simp: sample_store_document_def split: sum.splits simp del: fold_res.simps)
    note d0 = create_if_missing [OF ok c]
    show ?thesis
      using write_all [OF conjunct1 [OF d0] w] d0
      by (cases "ra_sha256 a"; cases "ra_sha512 a"; cases "ra_signature a")
        (simp_all add: with_sidecars_def put_sidecar_def List.map_filter_simps)
  qed
  then show ?thesis by (simp add: store_document_ok_def sample_download_def)
qed

definition sample_advisory :: retrieved_advisory where
  "sample_advisory = \<lparr>ra_url = ''https://h/a.json'', ra_host = Some ''h'', ra_url_path = ''/a.json'',
     ra_data = ''{}'', ra_modified = 0, ra_signature = None, ra_sha256 = None, ra_sha512 = None\<rparr>"

definition empty_dir :: scratch_dir where
  "empty_dir = \<lparr>sd_files = [], sd_dirs = []\<rparr>"

definition sample_walk :: "walk_event list \<times> string option" where
  "sample_walk = ([OfferDistribution (Directory ''d''), VisitAdvisory (Inr sample_advisory),
     VisitAdvisory (Inl \<lparr>re_url = ''u'', re_text = ''gone'', re_source = FetcherClientError 404\<rparr>)], None)"

definition filled_dir :: scratch_dir where
  "filled_dir = \<lparr>sd_files = [\<lparr>sf_path = ''h/a.json.zst'', sf_mode = DEFAULT_MODE, sf_content = ''{}''\<rparr>], sd_dirs = [''h'']\<rparr>"

lemma empty_dir_ok: "dir_ok empty_dir"
  by (simp add: dir_ok_def empty_dir_def)

lemma sample_path: "advisory_file sample_advisory = Some ''h/a.json''" "csaf_path ''h/a.json''"
proof -
  have "after_last (CHR ''/'') ''h/a.json'' = ''a.json''" "after_last (CHR ''.'') ''a.json'' = ''json''"
    by (simp_all add: after_last_def)
  then show "csaf_path ''h/a.json''"
    by (simp add: csaf_path_def extension_def file_name_def starts_with_def)
qed (simp add: advisory_file_def sample_advisory_def trim_start_char_def)

lemma sample_visit: "visit_advisory sample_download sample_advisory empty_dir = Inr filled_dir"
proof -
  have parent: "parent_path ''h/a.json'' = ''h''" "parent_path ''h'' = []"
    "parent_path ''h/a.json.asc'' = ''h''" "parent_path ''h/a.json.sha256'' = ''h''"
    "parent_path ''h/a.json.sha512'' = ''h''" "parent_path ''h/a.json.zst'' = ''h''"
    by (simp_all add: parent_path_def file_name_def after_last_def)
  have "extension ''h/a.json'' = Some ''json''" using sample_path(2) by (simp add: csaf_path_def)
  then show ?thesis
    unfolding visit_advisory_def sample_path(1) option.case
    by (simp add: sample_download_def remove_sidecar_def remove_file_def missing_parent_def parent is_dir_def
        empty_dir_def filled_dir_def sample_store_document_def create_dir_if_missing_def create_dir_def
        file_content_def write_file_def rename_file_def compressed_path_def List.map_filter_simps sample_advisory_def)
qed

lemma sample_run: "\<exists>w. run_walk sample_download ''p'' [] \<lparr>ms_since = None, ms_retry = []\<rparr> sample_walk empty_dir jobs
    = (w, None) \<and> wk_dir w = filled_dir"
  by (simp add: run_walk_def sample_walk_def walk_step_def walk_start_def count_advisory_def sample_visit Let_def)

lemma sample_all_csaf: "all_csaf (fst sample_walk)"
  by (simp add: all_csaf_def retrieved_def sample_walk_def List.map_filter_simps sample_path)

theorem downloads_stored_witness:
  "\<exists>w. run_walk sample_download ''p'' [] \<lparr>ms_since = None, ms_retry = []\<rparr> sample_walk empty_dir Map.empty = (w, None)
     \<and> map rf_missing (wk_retrieval_errors w) = [True]
     \<and> held_as sample_download ''h/a.json'' sample_advisory (file_content (wk_dir w))"
proof -
  obtain w where w: "run_walk sample_download ''p'' [] \<lparr>ms_since = None, ms_retry = []\<rparr> sample_walk empty_dir Map.empty = (w, None)"
    using sample_run by blast
  note d = downloads_stored [OF sample_download_ok empty_dir_ok sample_all_csaf w]
  have l: "last_retrieved ''h/a.json'' (fst sample_walk) = Some sample_advisory"
    by (simp add: last_retrieved_def retrieved_def sample_walk_def List.map_filter_simps sample_path)
  have "held_as sample_download ''h/a.json'' sample_advisory (file_content (wk_dir w))"
    using mp [OF spec [OF conjunct2 [OF conjunct2 [OF conjunct2 [OF d]]]] sample_path(2)] by (simp only: l option.case)
  moreover have "map rf_missing (wk_retrieval_errors w) = [True]"
    unfolding conjunct1 [OF d] by (simp add: failed_retrievals_def sample_walk_def List.map_filter_simps)
  ultimately show ?thesis by (intro exI [of _ w] conjI w)
qed

subsection \<open>From the walk to the committed head\<close>

lemma content_file:
  assumes "file_content d p = Some x"
  obtains f where "f \<in> set (sd_files d)" "sf_path f = p" "sf_content f = x"
proof -
  obtain f where "find (\<lambda>f. sf_path f = p) (sd_files d) = Some f" "sf_content f = x"
    using assms by (auto simp: file_content_def)
  then show ?thesis using that [of f] by (auto simp: find_Some_iff)
qed

lemma scratch_of_dir:
  assumes "dir_ok d"
  shows "scratch_ok (wt\<lparr>wt_files := sd_files d, wt_dirs := sd_dirs d\<rparr>)"
proof -
  have "\<not> path_conflict (sf_path f) (sf_path g)" if "f \<in> set (sd_files d)" "g \<in> set (sd_files d)" for f g
    using that dir_okD(2,3) [OF assms] unfolding path_conflict_def by blast
  then show ?thesis using dir_okD(1,3) [OF assms] unfolding scratch_ok_def by simp
qed

lemma in_metadata_cases: "in_metadata p \<Longrightarrow> p = ''metadata'' \<or> starts_with p ''metadata/''"
proof -
  assume "in_metadata p"
  then obtain rest where s: "split_on (CHR ''/'') p = ''metadata'' # rest"
    unfolding in_metadata_def by (cases "split_on (CHR ''/'') p") auto
  show ?thesis
  proof (cases rest)
    case Nil
    then show ?thesis using s split_on_single by fast
  next
    case (Cons r rs)
    have "p = join_on (CHR ''/'') (''metadata'' # r # rs)" using join_split_on [of "CHR ''/''" p] s Cons by simp
    then have "p = ''metadata/'' @ r @ concat (map (\<lambda>z. CHR ''/'' # z) rs)" by (simp add: join_on_def)
    then have "starts_with p ''metadata/''" unfolding starts_with_iff by blast
    then show ?thesis ..
  qed
qed

lemma csaf_not_metadata: "csaf_path p \<Longrightarrow> \<not> in_metadata p"
proof
  assume c: "csaf_path p" and "in_metadata p"
  then have "p = ''metadata''" using in_metadata_cases csaf_json by blast
  then show False using csaf_json [OF c] by simp
qed

lemma csaf_logical:
  assumes "csaf_path p"
  shows "logical_path p = p" "is_advisory p" "logical_path (p @ ''.zst'') = p"
proof -
  show l: "logical_path p = p"
    using csaf_json [OF assms] ends_with_last [of p "''.json.zst''"] by (auto simp: logical_path_def)
  show "is_advisory p" using assms by (simp add: is_advisory_def l csaf_path_def)
  show "logical_path (p @ ''.zst'') = p"
    using logical_compressed csaf_json [OF assms] by (simp add: compressed_path_def)
qed

definition sidecar_texts :: "retrieved_advisory \<Rightarrow> (string \<times> string option) list" where
  "sidecar_texts a = [(''asc'', ra_signature a), (''sha256'', ra_sha256 a), (''sha512'', ra_sha512 a)]"

lemma sidecar_logical:
  assumes "(s, t) \<in> set (sidecar_texts a)"
  shows "logical_path (p @ ''.'' @ s) = p @ ''.'' @ s" "\<not> ends_with (p @ ''.'' @ s) ''.json''"
proof -
  have s: "s \<in> {''asc'', ''sha256'', ''sha512''}" using assms by (auto simp: sidecar_texts_def)
  show "\<not> ends_with (p @ ''.'' @ s) ''.json''" by (rule sidecar_not_json [OF s])
  show "logical_path (p @ ''.'' @ s) = p @ ''.'' @ s"
    using s ends_with_last [of "p @ ''.'' @ s" "''.json.zst''"] by (auto simp: logical_path_def)
qed

lemma sidecar_held:
  "held_as lib p a m \<Longrightarrow> (s, t) \<in> set (sidecar_texts a) \<Longrightarrow> m (p @ ''.'' @ s) = t"
  by (auto simp: held_as_def sidecar_texts_def)

text \<open>A sidecar that was not retrieved is not in the overlay either, whatever the base has.\<close>

lemma absent_sidecar_dropped:
  assumes held: "held_as lib p a (file_content d)" and c: "csaf_path p"
    and s: "(s, None) \<in> set (sidecar_texts a)" and nodir: "p @ ''.'' @ s \<notin> set (sd_dirs d)"
    and wt: "wt_files wt = sd_files d" "wt_dirs wt = sd_dirs d"
  shows "overlay glib wt keyed (wt_files wt) (p @ ''.'' @ s) = None"
proof -
  let ?q = "p @ ''.'' @ s"
  have none: "?q \<notin> sf_path ` set (wt_files wt)"
    using sidecar_held [OF held s] by (simp add: content_None wt)
  have "logical_path (sf_path f) \<noteq> ?q" if f: "f \<in> set (wt_files wt)" for f
  proof
    assume l: "logical_path (sf_path f) = ?q"
    show False
    proof (cases rule: logical_cases [of "sf_path f"])
      case 1
      then show False using none f l by (metis imageI)
    next
      case 2
      then show False using sidecar_logical(2) [OF s, of p] l by simp
    qed
  qed
  then have find: "find (\<lambda>f. logical_path (sf_path f) = ?q) (wt_files wt) = None" by (simp add: find_None_iff)
  obtain z where "file_content d (p @ ''.zst'') = Some z" using held by (auto simp: held_as_def)
  then obtain f where f: "f \<in> set (wt_files wt)" "sf_path f = p @ ''.zst''" unfolding wt by (rule content_file)
  have "\<not> in_scratch wt ?q" using none nodir by (simp add: in_scratch_def wt)
  moreover have "s \<in> {''asc'', ''sha256'', ''sha512''}" using s by (auto simp: sidecar_texts_def)
  ultimately have "?q \<in> set (stale_sidecars wt p)"
    using csaf_logical(2) [OF c] csaf_not_metadata [OF c] by (auto simp: stale_sidecars_def)
  then have "?q \<in> set (stale_sidecars wt (logical_path (sf_path f)))" by (simp add: f(2) csaf_logical(3) [OF c])
  then have "\<exists>f \<in> set (wt_files wt). ?q \<in> set (stale_sidecars wt (logical_path (sf_path f)))
      \<or> path_conflict (logical_path (sf_path f)) ?q" using f(1) by blast
  then show ?thesis unfolding overlay_def find option.case by (rule if_P)
qed

text \<open>
  C6. The sync round trip of an advisory: prepare a worktree, let the walk fill it, commit it
  without interference. Then the reported snapshot is the head of the repository, and the head
  serves exactly what was retrieved last for an advisory: its bytes, decompressed, under its plain
  path; each sidecar that came with it; and no file for a sidecar that did not come with it, even
  if an earlier snapshot had one.
\<close>

theorem download_served:
  assumes "store_document_ok dlib" and "index_add_ok lib" and "commits_ok lib"
    and "\<And>x z. dl_compress dlib x = Some z \<Longrightarrow> gl_unzstd lib z = Some x"
    and "prepare_worktree lib repo0 = Inr (wt0, repo)"
    and "run_walk dlib domain skip src walk \<lparr>sd_files = wt_files wt0, sd_dirs = wt_dirs wt0\<rparr> jobs = (w, None)"
    and "all_csaf (fst walk)"
    and "wt = wt0\<lparr>wt_files := sd_files (wk_dir w), wt_dirs := sd_dirs (wk_dir w)\<rparr>"
    and "over = overlay lib wt (drop_keys wt (the (wt_index wt0))) (wt_files wt)"
    and "tree_of_index lib over" and "object_store U"
    and "insert (gl_write_tree lib over) (cm_tree ` set_option (wt_base wt0)) \<subseteq> U"
    and "inj_on (gl_hash lib) (set (map snd (map (blob_of lib) (wt_files wt))))"
    and "commit_snapshot_with_progress lib wt message n id repo = (repo', Inr i)"
    and "csaf_path p" and "last_retrieved p (fst walk) = Some a"
    and "\<And>s. s \<in> fst ` set (sidecar_texts a) \<Longrightarrow> p @ ''.'' @ s \<notin> set (wt_dirs wt)"
  shows "\<exists>c. head_commit repo' = Some c \<and> cm_id c = i
    \<and> with_head_blob repo' p id = Inr (Some (ra_data a))
    \<and> (\<forall>(s, t) \<in> set (sidecar_texts a). case t of
        Some x \<Rightarrow> with_head_blob repo' (p @ ''.'' @ s) id = Inr (Some x)
      | None \<Rightarrow> file_at (Some (cm_tree c)) (p @ ''.'' @ s) = None)"
proof -
  let ?d = "wk_dir w" and ?start = "\<lparr>sd_files = wt_files wt0, sd_dirs = wt_dirs wt0\<rparr>"
  obtain b where run: "commit_all_with_progress lib wt message n id repo = (repo', Inr b)"
    and i: "map_option cm_id (head_commit repo') = Some i"
    using assms(14) by (auto simp: commit_snapshot_with_progress_def split: prod.splits sum.splits option.splits)
  note pr = prepare_facts [OF assms(5)]
  have "wt_files wt0 = []" "wt_dirs wt0 = []"
    using assms(5) by (auto simp: prepare_worktree_def split: sum.splits)
  then have "dir_ok ?start" by (simp add: dir_ok_def)
  from run_walk_so_far [OF assms(1) this assms(7,6)] have wh: "walk_holds dlib (file_content ?start) (fst walk) ?d"
    by (simp add: walked_so_far_def)
  have ok: "dir_ok ?d" using wh by (simp add: walk_holds_def)
  have held: "held_as dlib p a (file_content ?d)" using wh assms(15,16) by (auto simp: walk_holds_def)
  have wt: "wt_files wt = sd_files ?d" "wt_dirs wt = sd_dirs ?d" "wt_index wt = wt_index wt0"
    "wt_base wt = wt_base wt0" "wt_branch wt = wt_branch wt0" by (simp_all add: assms(8))
  have sok: "scratch_ok wt" unfolding assms(8) by (rule scratch_of_dir [OF ok])
  have ix: "wt_index wt = Some (the (wt_index wt0))" using pr wt by simp
  have head: "rp_head repo = Some (wt_branch wt)" "map_of (rp_refs repo) (wt_branch wt) = wt_base wt"
    using pr wt by simp_all
  have U: "gl_write_tree lib over \<in> U" "cm_tree ` set_option (wt_base wt) \<subseteq> U" using assms(12) wt by simp_all
  obtain c where c: "head_commit repo' = Some c" "file_at (Some (cm_tree c)) = index_files over"
    using head_is_overlay [OF assms(2,3) sok head ix _ assms(11) _ U(2) run] assms(9,10) U(1) by auto
  have reads: "with_head_blob repo' (logical_path (sf_path f)) id = Inr (Some x)"
    if "f \<in> set (wt_files wt)" "scratch_content lib f = Some x" for f x
    using snapshot_reads_back [OF assms(2,3) sok head ix _ assms(11) _ U(2) assms(13) run that(1), of id]
      assms(9,10) U(1) that(2) by auto
  have main: "with_head_blob repo' p id = Inr (Some (ra_data a))"
  proof -
    obtain z where z: "dl_compress dlib (ra_data a) = Some z" "file_content ?d (p @ ''.zst'') = Some z"
      using held by (auto simp: held_as_def)
    obtain f where f: "f \<in> set (sd_files ?d)" "sf_path f = p @ ''.zst''" "sf_content f = z"
      using z(2) by (rule content_file)
    have "scratch_content lib f = Some (ra_data a)"
      using assms(4) [OF z(1)] by (simp add: scratch_content_def f csaf_logical(3) [OF assms(15)])
    then show ?thesis using reads [of f] f(1,2) wt(1) csaf_logical(3) [OF assms(15)] by simp
  qed
  have sides: "case t of Some x \<Rightarrow> with_head_blob repo' (p @ ''.'' @ s) id = Inr (Some x)
      | None \<Rightarrow> file_at (Some (cm_tree c)) (p @ ''.'' @ s) = None"
    if st: "(s, t) \<in> set (sidecar_texts a)" for s t
  proof (cases t)
    case None
    have "p @ ''.'' @ s \<notin> set (sd_dirs ?d)" using assms(17) [of s] st wt(2) by force
    from absent_sidecar_dropped [OF held assms(15) st [unfolded None] this wt(1,2)]
    have "over (p @ ''.'' @ s) = None" by (simp only: assms(9))
    then show ?thesis by (simp only: None option.case c(2) index_files_def option.map)
  next
    case (Some x)
    obtain f where f: "f \<in> set (sd_files ?d)" "sf_path f = p @ ''.'' @ s" "sf_content f = x"
      using sidecar_held [OF held st] unfolding Some by (rule content_file)
    note l = sidecar_logical(1) [OF st, of p]
    have "scratch_content lib f = Some x" unfolding scratch_content_def f l by (simp only: simp_thms if_False)
    then have "with_head_blob repo' (logical_path (sf_path f)) id = Inr (Some x)"
      using reads [of f x] f(1) wt(1) by simp
    then show ?thesis unfolding f(2) l Some option.case .
  qed
  have ci: "cm_id c = i" using c(1) i by simp
  show ?thesis
  proof (intro exI [of _ c] conjI ballI c(1) ci main)
    fix z assume "z \<in> set (sidecar_texts a)"
    moreover obtain s t where z: "z = (s, t)" by force
    ultimately show "case z of (s, t) \<Rightarrow> case t of
        Some x \<Rightarrow> with_head_blob repo' (p @ ''.'' @ s) id = Inr (Some x)
      | None \<Rightarrow> file_at (Some (cm_tree c)) (p @ ''.'' @ s) = None"
      unfolding z prod.case by (intro sides)
  qed
qed

definition served_tree :: git_tree where
  "served_tree = GTree ''t2'' [(''h'', ETree (GTree ''t3'' [(''a.json'', EBlob 33188 ''{}'')]))]"

definition served_lib :: git_lib where
  "served_lib = sample_lib\<lparr>gl_write_tree := \<lambda>_. served_tree\<rparr>"

definition served_worktree :: worktree where
  "served_worktree = \<lparr>wt_branch = ''refs/heads/main'', wt_base = None, wt_index = Some Map.empty,
     wt_files = sd_files filled_dir, wt_dirs = sd_dirs filled_dir\<rparr>"

lemma served_files: "file_at (Some served_tree) q = (if q = ''h/a.json'' then Some (''{}'', 33188) else None)"
proof -
  have j: "q = join_on (CHR ''/'') (split_on (CHR ''/'') q)" by (simp add: join_split_on)
  have s: "split_on (CHR ''/'') ''h/a.json'' = [''h'', ''a.json'']" by simp
  show ?thesis
  proof (cases "split_on (CHR ''/'') q")
    case (Cons n ns)
    show ?thesis
    proof (cases ns)
      case Nil
      then have "q \<noteq> ''h/a.json''" using Cons s by auto
      then show ?thesis
        using Cons Nil by (simp add: file_at_def as_file_def get_name_def entries_of_def served_tree_def is_tree_def)
    next
      case c2: (Cons m ms)
      show ?thesis
      proof (cases ms)
        case Nil
        then have "q = ''h/a.json'' \<longleftrightarrow> n = ''h'' \<and> m = ''a.json''"
          using Cons c2 s j by (auto simp: join_on_def)
        then show ?thesis
          using Cons c2 Nil
          by (simp add: file_at_def as_file_def subtree_def get_name_def entries_of_def served_tree_def is_tree_def)
      next
        case (Cons k ks)
        then have "q \<noteq> ''h/a.json''" using \<open>split_on (CHR ''/'') q = n # ns\<close> c2 s by auto
        then show ?thesis
          using \<open>split_on (CHR ''/'') q = n # ns\<close> c2 Cons
          by (simp add: file_at_def as_file_def subtree_def get_name_def entries_of_def served_tree_def)
      qed
    qed
  qed simp
qed

lemma served_logical: "logical_path ''h/a.json.zst'' = ''h/a.json''" "logical_path ''h/a.json'' = ''h/a.json''"
  using csaf_logical(3) [OF sample_path(2)] csaf_logical(1) [OF sample_path(2)] by simp_all

lemma served_overlay:
  "overlay served_lib served_worktree (drop_keys served_worktree Map.empty) (wt_files served_worktree)
    = (\<lambda>q. if q = ''h/a.json'' then Some (33188, ''{}'') else None)"
  by (simp add: fun_eq_iff overlay_def served_worktree_def filled_dir_def file_entry_def scratch_content_def
      served_logical staged_mode_def served_lib_def sample_lib_def drop_keys_def DEFAULT_MODE_def)

theorem download_served_witness:
  "\<exists>repo'. commit_snapshot_with_progress served_lib served_worktree ''sync'' 10 id (gl_init served_lib)
       = (repo', Inr ''c'')
     \<and> with_head_blob repo' ''h/a.json'' id = Inr (Some ''{}'')"
proof -
  let ?wt0 = "served_worktree\<lparr>wt_files := [], wt_dirs := []\<rparr>"
  have prep: "prepare_worktree served_lib None = Inr (?wt0, gl_init served_lib)"
    by (simp add: prepare_worktree_def init_bare_def resolve_branch_def served_lib_def sample_lib_def
        is_local_branch_def starts_with_def served_worktree_def)
  have start: "\<lparr>sd_files = wt_files ?wt0, sd_dirs = wt_dirs ?wt0\<rparr> = empty_dir" by (simp add: empty_dir_def)
  obtain w where w: "run_walk sample_download ''p'' [] \<lparr>ms_since = None, ms_retry = []\<rparr> sample_walk
      \<lparr>sd_files = wt_files ?wt0, sd_dirs = wt_dirs ?wt0\<rparr> Map.empty = (w, None)" "wk_dir w = filled_dir"
    unfolding start using sample_run by blast
  have wt: "served_worktree = ?wt0\<lparr>wt_files := sd_files (wk_dir w), wt_dirs := sd_dirs (wk_dir w)\<rparr>"
    by (simp add: served_worktree_def w(2))
  let ?over = "overlay served_lib served_worktree (drop_keys served_worktree (the (wt_index ?wt0))) (wt_files served_worktree)"
  have ix: "the (wt_index ?wt0) = Map.empty" by (simp add: served_worktree_def)
  have tree: "tree_of_index served_lib ?over"
    unfolding ix served_overlay by (simp add: tree_of_index_def fun_eq_iff index_files_def served_lib_def served_files)
  let ?trees = "{served_tree, GTree ''t3'' [(''a.json'', EBlob 33188 ''{}'')]}"
  have store: "object_store ?trees" by (simp add: object_store_def served_tree_def)
  have sub: "insert (gl_write_tree served_lib ?over) (cm_tree ` set_option (wt_base ?wt0)) \<subseteq> ?trees"
    by (simp add: served_lib_def served_worktree_def)
  have inj: "inj_on (gl_hash served_lib) (set (map snd (map (blob_of served_lib) (wt_files served_worktree))))"
    by (simp add: served_worktree_def filled_dir_def)
  have libs: "index_add_ok served_lib" "commits_ok served_lib"
    using sample_lib_ok by (simp_all add: index_add_ok_def commits_ok_def served_lib_def)
  have zip: "gl_unzstd served_lib z = Some x" if "dl_compress sample_download x = Some z" for x z
    using that by (simp add: sample_download_def served_lib_def sample_lib_def)
  have last: "last_retrieved ''h/a.json'' (fst sample_walk) = Some sample_advisory"
    by (simp add: last_retrieved_def retrieved_def sample_walk_def List.map_filter_simps sample_path)
  have nodir: "''h/a.json'' @ ''.'' @ s \<notin> set (wt_dirs served_worktree)" for s
    by (simp add: served_worktree_def filled_dir_def)
  obtain repo' where r: "commit_snapshot_with_progress served_lib served_worktree ''sync'' 10 id (gl_init served_lib)
       = (repo', Inr ''c'')"
    by (simp add: commit_snapshot_with_progress_def commit_all_with_progress_def served_worktree_def filled_dir_def
        stage_all_def stage_file_def served_logical in_scratch_def scratch_content_def Let_def served_lib_def
        sample_lib_def flush_mempack_def add_blobs_def head_commit_def)
  from download_served [OF sample_download_ok libs zip prep w(1) sample_all_csaf wt refl tree store sub inj r
      sample_path(2) last nodir] r
  show ?thesis by (simp add: sample_advisory_def) blast
qed

end
