(* ===== verification/Instance_Overview.thy ===== *)
theory Instance_Overview
  imports Provider_Store Provider_Sources "HOL-Library.Option_ord"
begin

section \<open>The instance overview and the list of providers\<close>

text \<open>
  \<open>server/src/api/overview.rs\<close> with its types in \<open>common/src/overview.rs\<close>, the provider list and
  detail of \<open>server/src/api/providers.rs\<close> and the measurement of \<open>server/src/storage/usage.rs\<close>. A
  \<open>HashMap\<close> that is iterated over is an association list in an iteration order, with distinct
  keys; times and durations are nanoseconds, \<open>f64\<close> rates are reals and \<open>u64\<close> sums do not overflow.
\<close>

subsection \<open>Storage usage\<close>

record storage_usage =
  su_repositories :: nat
  su_results :: nat
  su_state :: nat
  su_metrics :: nat

definition usage_total :: "storage_usage \<Rightarrow> nat" where
  "usage_total u = su_repositories u + su_results u + su_state u + su_metrics u"

text \<open>
  What \<open>walkdir\<close> reports for one entry: vanished meanwhile, unreadable, no regular file, or a file
  with its length, which may in turn be vanished or unreadable.
\<close>

datatype walk_entry = EntryVanished | EntryFailed string | NoFile | FileOf "io_result"
  and io_result = Vanished | Unreadable string | FileLength nat

definition add_entry :: "walk_entry \<Rightarrow> nat \<Rightarrow> string + nat" where
  "add_entry e bytes = (case e of
     EntryVanished \<Rightarrow> Inr bytes
   | EntryFailed err \<Rightarrow> Inl err
   | NoFile \<Rightarrow> Inr bytes
   | FileOf r \<Rightarrow> (case r of FileLength n \<Rightarrow> Inr (bytes + n) | Vanished \<Rightarrow> Inr bytes | Unreadable err \<Rightarrow> Inl err))"

definition directory_size :: "walk_entry list \<Rightarrow> string + nat" where
  "directory_size entries = fold_res add_entry entries 0"

definition storage_usage_of :: "walk_entry list \<Rightarrow> walk_entry list \<Rightarrow> walk_entry list \<Rightarrow> walk_entry list
    \<Rightarrow> string + storage_usage" where
  "storage_usage_of repos results state metrics =
     (case directory_size repos of Inl e \<Rightarrow> Inl e | Inr a \<Rightarrow>
     (case directory_size results of Inl e \<Rightarrow> Inl e | Inr b \<Rightarrow>
     (case directory_size state of Inl e \<Rightarrow> Inl e | Inr c \<Rightarrow>
     (case directory_size metrics of Inl e \<Rightarrow> Inl e | Inr d \<Rightarrow>
       Inr \<lparr>su_repositories = a, su_results = b, su_state = c, su_metrics = d\<rparr>))))"

subsection \<open>Aggregates\<close>

definition merge_versions :: "(string \<rightharpoonup> nat) \<Rightarrow> (string \<rightharpoonup> nat) \<Rightarrow> string \<rightharpoonup> nat" where
  "merge_versions versions counts v = (case versions v of
     Some n \<Rightarrow> if v \<noteq> ''Unknown'' \<and> v \<noteq> [] \<and> 0 < n
       then Some ((case counts v of Some k \<Rightarrow> k | None \<Rightarrow> 0) + n) else counts v
   | None \<Rightarrow> counts v)"

definition absorb_versions :: "provider_summary \<Rightarrow> (string \<rightharpoonup> nat) option \<Rightarrow> (string \<rightharpoonup> nat) option" where
  "absorb_versions summary counts = (case sm_csaf_versions summary of
     None \<Rightarrow> counts
   | Some versions \<Rightarrow> Some (merge_versions versions (case counts of Some c \<Rightarrow> c | None \<Rightarrow> Map.empty)))"

definition aggregate_csaf_versions :: "provider_summary list \<Rightarrow> (string \<rightharpoonup> nat) option" where
  "aggregate_csaf_versions summaries = fold absorb_versions summaries None"

record rate_accumulator =
  rc_valid :: nat
  rc_total :: nat

definition rate_default :: rate_accumulator where
  "rate_default = \<lparr>rc_valid = 0, rc_total = 0\<rparr>"

definition rate_add :: "nat \<Rightarrow> nat \<Rightarrow> rate_accumulator \<Rightarrow> rate_accumulator" where
  "rate_add valid invalid acc = \<lparr>rc_valid = rc_valid acc + valid, rc_total = rc_total acc + (valid + invalid)\<rparr>"

definition rate_add_profile :: "profile_summary option \<Rightarrow> rate_accumulator \<Rightarrow> rate_accumulator" where
  "rate_add_profile profile acc = (case profile of None \<Rightarrow> acc
     | Some p \<Rightarrow> rate_add (psum_valid p) (psum_invalid p) acc)"

definition rate_of :: "rate_accumulator \<Rightarrow> real option" where
  "rate_of acc = (if 0 < rc_total acc then Some (real (rc_valid acc) / real (rc_total acc)) else None)"

record validation_overview =
  vo_basic_pass_rate :: "real option"
  vo_extended_pass_rate :: "real option"
  vo_full_pass_rate :: "real option"
  vo_checks :: check_summary

type_synonym validation_acc = "rate_accumulator \<times> rate_accumulator \<times> rate_accumulator \<times> check_summary"

definition absorb_validation :: "provider_summary \<Rightarrow> validation_acc \<Rightarrow> validation_acc" where
  "absorb_validation summary acc = (case acc of (basic, extended, full, checks) \<Rightarrow>
     (rate_add_profile (pr_basic (sm_profiles summary)) basic,
      rate_add_profile (pr_extended (sm_profiles summary)) extended,
      rate_add_profile (pr_full (sm_profiles summary)) full,
      case sm_checks summary of Some c \<Rightarrow> summary_merge checks c | None \<Rightarrow> checks))"

definition aggregate_validation :: "provider_summary list \<Rightarrow> validation_overview" where
  "aggregate_validation summaries =
     (case fold absorb_validation summaries (rate_default, rate_default, rate_default, summary_default) of
        (basic, extended, full, checks) \<Rightarrow> \<lparr>vo_basic_pass_rate = rate_of basic,
          vo_extended_pass_rate = rate_of extended, vo_full_pass_rate = rate_of full, vo_checks = checks\<rparr>)"

record provider_health =
  ph_healthy :: nat
  ph_with_retrieval_errors :: nat
  ph_with_check_issues :: nat
  ph_awaiting_first_sync :: nat
  ph_stale :: nat
  ph_stale_after_seconds :: nat

text \<open>The three problems a provider may have.\<close>

definition is_stale :: "(string \<rightharpoonup> int) \<Rightarrow> nat \<Rightarrow> int \<Rightarrow> provider_summary \<Rightarrow> bool" where
  "is_stale last_syncs stale_after now summary \<longleftrightarrow> int stale_after
     < now - (case last_syncs (sm_provider summary) of Some t \<Rightarrow> t | None \<Rightarrow> sm_validated_at summary)"

definition has_retrieval_errors :: "provider_summary \<Rightarrow> bool" where
  "has_retrieval_errors summary \<longleftrightarrow> 0 < sm_retrieval_errors summary"

definition has_check_issues :: "provider_summary \<Rightarrow> bool" where
  "has_check_issues summary \<longleftrightarrow> (case sm_checks summary of Some c \<Rightarrow> 0 < total_issues c | None \<Rightarrow> False)"

definition absorb_health :: "(string \<rightharpoonup> int) \<Rightarrow> nat \<Rightarrow> int \<Rightarrow> provider_summary \<Rightarrow> provider_health \<Rightarrow> provider_health" where
  "absorb_health last_syncs stale_after now summary h =
     (let stale = is_stale last_syncs stale_after now summary; errors = has_retrieval_errors summary;
          problems = has_check_issues summary in
      h\<lparr>ph_stale := ph_stale h + of_bool stale,
        ph_with_retrieval_errors := ph_with_retrieval_errors h + of_bool errors,
        ph_with_check_issues := ph_with_check_issues h + of_bool problems,
        ph_healthy := ph_healthy h + of_bool (\<not> stale \<and> \<not> errors \<and> \<not> problems)\<rparr>)"

definition provider_health_of :: "provider_summary list \<Rightarrow> (string \<rightharpoonup> int) \<Rightarrow> nat \<Rightarrow> nat \<Rightarrow> int \<Rightarrow> provider_health" where
  "provider_health_of summaries last_syncs awaiting_first_sync stale_after now =
     fold (absorb_health last_syncs stale_after now) summaries
       \<lparr>ph_healthy = 0, ph_with_retrieval_errors = 0, ph_with_check_issues = 0,
        ph_awaiting_first_sync = awaiting_first_sync, ph_stale = 0,
        ph_stale_after_seconds = stale_after div 1000000000\<rparr>"

record sync_activity =
  sa_running :: nat
  sa_failed :: nat
  sa_last_completed_at :: "int option"

definition absorb_job :: "job_status \<Rightarrow> sync_activity \<Rightarrow> sync_activity" where
  "absorb_job job a =
     (let a1 = (case jb_status job of
            JRunning \<Rightarrow> a\<lparr>sa_running := sa_running a + 1\<rparr>
          | JFailed \<Rightarrow> a\<lparr>sa_failed := sa_failed a + 1\<rparr>
          | JPending \<Rightarrow> a | JCompleted \<Rightarrow> a);
          completed = (case jb_completed_at job of Some t \<Rightarrow> Some t | None \<Rightarrow> jb_last_completed_at job) in
      if sa_last_completed_at a1 < completed then a1\<lparr>sa_last_completed_at := completed\<rparr> else a1)"

definition sync_activity_of :: "job_status list \<Rightarrow> sync_activity" where
  "sync_activity_of jobs = fold absorb_job jobs \<lparr>sa_running = 0, sa_failed = 0, sa_last_completed_at = None\<rparr>"

record trend_delta =
  td_providers :: nat
  td_documents :: int
  td_retrieval_errors :: int
  td_basic_pass_rate :: "real option"

type_synonym trend_acc = "trend_delta \<times> rate_accumulator \<times> rate_accumulator"

definition absorb_trend :: "(string \<Rightarrow> metrics_entry option) \<Rightarrow> provider_summary \<Rightarrow> trend_acc \<Rightarrow> trend_acc" where
  "absorb_trend base summary acc = (case base (sm_provider summary) of
     None \<Rightarrow> acc
   | Some past \<Rightarrow> (case acc of (delta, current_rate, past_rate) \<Rightarrow>
       (delta\<lparr>td_providers := td_providers delta + 1,
          td_documents := td_documents delta + (Trove_Prelude.as_i64 (sm_document_count summary) - Trove_Prelude.as_i64 (me_document_count past)),
          td_retrieval_errors := td_retrieval_errors delta
            + (Trove_Prelude.as_i64 (sm_retrieval_errors summary) - Trove_Prelude.as_i64 (me_retrieval_errors past))\<rparr>,
        rate_add_profile (pr_basic (sm_profiles summary)) current_rate,
        case me_basic past of Some b \<Rightarrow> rate_add (mp_valid b) (mp_invalid b) past_rate | None \<Rightarrow> past_rate)))"

definition trend_start :: trend_acc where
  "trend_start = (\<lparr>td_providers = 0, td_documents = 0, td_retrieval_errors = 0, td_basic_pass_rate = None\<rparr>,
     rate_default, rate_default)"

definition trend_delta_of :: "provider_summary list \<Rightarrow> (string \<Rightarrow> metrics_entry option) \<Rightarrow> trend_delta option" where
  "trend_delta_of summaries base = (case fold (absorb_trend base) summaries trend_start of
     (delta, current_rate, past_rate) \<Rightarrow>
       if 0 < td_providers delta
       then Some (delta\<lparr>td_basic_pass_rate := (case (rate_of current_rate, rate_of past_rate) of
           (Some c, Some p) \<Rightarrow> Some (c - p) | _ \<Rightarrow> None)\<rparr>)
       else None)"

subsection \<open>The overview\<close>

record overview =
  ov_csaf_versions :: "(string \<rightharpoonup> nat) option"
  ov_provider_count :: nat
  ov_document_count :: nat
  ov_retrieval_errors :: nat
  ov_storage :: storage_usage
  ov_validation :: validation_overview
  ov_providers :: provider_health
  ov_sync :: sync_activity
  ov_week :: "trend_delta option"
  ov_month :: "trend_delta option"

text \<open>
  What the storage and the shared state provide: summaries, sync states, the overview snapshot, the
  sources and the jobs in iteration order, the sync interval and the time.
\<close>

record overview_input =
  oi_summaries :: "provider_summary list"
  oi_sync_states :: "sync_state list"
  oi_storage :: storage_usage
  oi_baselines :: "string \<Rightarrow> trend_baselines option"
  oi_sources :: "(string \<times> source) list"
  oi_jobs :: "job_status list"
  oi_sync_interval :: nat
  oi_now :: int

definition awaiting_first_sync :: "(string \<times> source) list \<Rightarrow> provider_summary list \<Rightarrow> (string \<times> source) list" where
  "awaiting_first_sync sources summaries =
     filter (\<lambda>(domain, source). src_enabled source \<and> domain \<notin> set (map sm_provider summaries)) sources"

definition last_syncs :: "sync_state list \<Rightarrow> string \<rightharpoonup> int" where
  "last_syncs states = map_of (rev (List.map_filter
     (\<lambda>s. map_option (Pair (sy_domain s)) (sy_last_sync s)) states))"

definition build_overview :: "overview_input \<Rightarrow> overview" where
  "build_overview oi =
     (let summaries = oi_summaries oi;
          awaiting = length (awaiting_first_sync (oi_sources oi) summaries) in
      \<lparr>ov_csaf_versions = aggregate_csaf_versions summaries,
       ov_provider_count = length summaries + awaiting,
       ov_document_count = sum_list (map sm_document_count summaries),
       ov_retrieval_errors = sum_list (map sm_retrieval_errors summaries),
       ov_storage = oi_storage oi,
       ov_validation = aggregate_validation summaries,
       ov_providers = provider_health_of summaries (last_syncs (oi_sync_states oi)) awaiting
         (oi_sync_interval oi * 2) (oi_now oi),
       ov_sync = sync_activity_of (oi_jobs oi),
       ov_week = trend_delta_of summaries (\<lambda>d. Option.bind (oi_baselines oi d) tb_week),
       ov_month = trend_delta_of summaries (\<lambda>d. Option.bind (oi_baselines oi d) tb_month)\<rparr>)"

subsection \<open>The list of providers\<close>

definition pending_summary :: "int \<Rightarrow> string \<Rightarrow> string option \<Rightarrow> provider_summary" where
  "pending_summary now domain note = \<lparr>sm_summary_revision = SUMMARY_REVISION, sm_csaf_versions = None,
     sm_checks = Some summary_default, sm_provider = domain, sm_publisher_name = None,
     sm_validated_at = now, sm_document_count = 0,
     sm_profiles = \<lparr>pr_basic = None, pr_extended = None, pr_full = None\<rparr>, sm_signatures = None,
     sm_top_failing_tests = [], sm_retrieval_errors = 0, sm_note = note\<rparr>"

definition with_note :: "(string \<times> source) list \<Rightarrow> provider_summary \<Rightarrow> provider_summary" where
  "with_note sources p = (if sm_note p = None
     then p\<lparr>sm_note := Option.bind (map_of sources (sm_provider p)) src_note\<rparr> else p)"

definition list_providers :: "int \<Rightarrow> (string \<times> source) list \<Rightarrow> provider_summary list \<Rightarrow> provider_summary list" where
  "list_providers now sources stored = sort_key sm_provider (map (with_note sources)
     (stored @ map (\<lambda>(domain, source). pending_summary now domain (src_note source))
       (awaiting_first_sync sources stored)))"

definition load_detail :: "metadata_env \<Rightarrow> int \<Rightarrow> (string \<times> source) list \<Rightarrow> string \<Rightarrow> provider_store
    \<Rightarrow> provider_detail option" where
  "load_detail env now sources domain store =
     (let source = map_of sources domain;
          skip_directories = (case source of Some s \<Rightarrow> src_skip_directories s | None \<Rightarrow> []);
          note = Option.bind source src_note in
      case provider_detail env domain skip_directories store of
        Some d \<Rightarrow> Some (d\<lparr>pt_note := note\<rparr>)
      | None \<Rightarrow> if source \<noteq> None
          then Some \<lparr>pt_summary = pending_summary now domain None, pt_metrics = None, pt_history = [],
            pt_distributions = [], pt_note = note\<rparr>
          else None)"

end
