(* ===== verification/Overview_Facts.thy ===== *)
theory Overview_Facts
  imports Instance_Overview "HOL-Library.Multiset"
begin

section \<open>What the overview shows\<close>

text \<open>
  The aggregates are folds whose order does not matter; the overview agrees with the list of
  providers, and trends compare the same providers on both sides.
\<close>

subsection \<open>Aggregation in any order\<close>

locale commuting_fold =
  fixes absorb :: "'a \<Rightarrow> 's \<Rightarrow> 's"
  assumes swap: "absorb x (absorb y s) = absorb y (absorb x s)"
begin

lemma any_order: "mset xs = mset ys \<Longrightarrow> fold absorb xs s = fold absorb ys s"
  by (rule fun_cong [OF fold_multiset_equiv]) (simp_all add: fun_eq_iff swap)

lemma neutral: "(\<And>x s. x \<in> set ys \<Longrightarrow> absorb x s = s) \<Longrightarrow> fold absorb (xs @ ys) s = fold absorb xs s"
proof -
  assume "\<And>x s. x \<in> set ys \<Longrightarrow> absorb x s = s"
  then have "fold absorb ys t = t" for t by (induction ys) auto
  then show ?thesis by simp
qed

lemma mapped: "(\<And>x s. absorb (g x) s = absorb x s) \<Longrightarrow> fold absorb (map g xs) s = fold absorb xs s"
  by (induction xs arbitrary: s) auto

end

lemma merge_versions_swap: "merge_versions a (merge_versions b c) = merge_versions b (merge_versions a c)"
  by (auto simp: fun_eq_iff merge_versions_def split: option.split)

interpretation versions: commuting_fold absorb_versions
  by unfold_locales (auto simp: absorb_versions_def merge_versions_swap split: option.split)

lemma rate_add_swap: "rate_add a b (rate_add c d acc) = rate_add c d (rate_add a b acc)"
  by (simp add: rate_add_def)

lemma rate_profile_swap: "rate_add_profile p (rate_add_profile q acc) = rate_add_profile q (rate_add_profile p acc)"
  by (simp add: rate_add_profile_def rate_add_swap split: option.split)

lemma summary_merge_swap: "summary_merge (summary_merge s a) b = summary_merge (summary_merge s b) a"
proof -
  have "counts_merge (counts_merge s a) b = counts_merge (counts_merge s b) a" for s a b
    by (rule counts_eqI) simp
  then show ?thesis by (simp add: summary_merge_def)
qed

lemma absorb_validation_apply:
  "absorb_validation p (b, e, f, c) = (rate_add_profile (pr_basic (sm_profiles p)) b,
     rate_add_profile (pr_extended (sm_profiles p)) e, rate_add_profile (pr_full (sm_profiles p)) f,
     case sm_checks p of Some d \<Rightarrow> summary_merge c d | None \<Rightarrow> c)"
  by (simp add: absorb_validation_def)

interpretation validation: commuting_fold absorb_validation
proof
  fix x y :: provider_summary and s :: validation_acc
  obtain b e f c where s: "s = (b, e, f, c)" by (cases s)
  show "absorb_validation x (absorb_validation y s) = absorb_validation y (absorb_validation x s)"
    unfolding s absorb_validation_apply
    by (cases "sm_checks x"; cases "sm_checks y") (simp_all add: rate_profile_swap summary_merge_swap)
qed

interpretation health: commuting_fold "absorb_health syncs after now"
  by unfold_locales (simp add: absorb_health_def Let_def)

definition finish_time :: "job_status \<Rightarrow> int option" where
  "finish_time job = (case jb_completed_at job of Some t \<Rightarrow> Some t | None \<Rightarrow> jb_last_completed_at job)"

lemma absorb_job_fields:
  "absorb_job job a = \<lparr>sa_running = sa_running a + of_bool (jb_status job = JRunning),
     sa_failed = sa_failed a + of_bool (jb_status job = JFailed),
     sa_last_completed_at = max (sa_last_completed_at a) (finish_time job)\<rparr>"
  by (cases "jb_status job") (auto simp: absorb_job_def Let_def finish_time_def max_def)

interpretation activity: commuting_fold absorb_job
  by unfold_locales (simp add: absorb_job_fields ac_simps max.left_commute max.commute)

interpretation trend: commuting_fold "absorb_trend base"
  by unfold_locales
    (auto simp: absorb_trend_def rate_profile_swap rate_add_swap split: option.split prod.split)

text \<open>Iterating over the jobs and the sources in another order changes nothing.\<close>

lemma overview_order:
  assumes "mset summaries = mset (oi_summaries oi)" "mset jobs = mset (oi_jobs oi)" "mset sources = mset (oi_sources oi)"
  shows "build_overview (oi\<lparr>oi_summaries := summaries, oi_jobs := jobs, oi_sources := sources\<rparr>) = build_overview oi"
proof -
  have same: "sum_list (map f summaries) = sum_list (map f (oi_summaries oi))" for f :: "provider_summary \<Rightarrow> nat"
    using assms(1) by (metis mset_map sum_mset_sum_list)
  have providers: "set (map sm_provider summaries) = set (map sm_provider (oi_summaries oi))"
    using mset_eq_setD [OF assms(1)] by simp
  have "length (filter P sources) = length (filter P (oi_sources oi))" for P
    using assms(3) by (metis mset_filter size_mset)
  then have awaiting: "length (awaiting_first_sync sources summaries)
      = length (awaiting_first_sync (oi_sources oi) (oi_summaries oi))"
    unfolding awaiting_first_sync_def providers .
  show ?thesis
    using mset_eq_length [OF assms(1)] awaiting
    by (simp add: build_overview_def Let_def same aggregate_csaf_versions_def aggregate_validation_def
        provider_health_of_def sync_activity_of_def trend_delta_of_def versions.any_order [OF assms(1)]
        validation.any_order [OF assms(1)] health.any_order [OF assms(1)] trend.any_order [OF assms(1)]
        activity.any_order [OF assms(2)])
qed

subsection \<open>The listed providers\<close>

lemma with_note_fields [simp]:
  "sm_provider (with_note ss p) = sm_provider p" "sm_document_count (with_note ss p) = sm_document_count p"
  "sm_retrieval_errors (with_note ss p) = sm_retrieval_errors p" "sm_checks (with_note ss p) = sm_checks p"
  "sm_profiles (with_note ss p) = sm_profiles p" "sm_csaf_versions (with_note ss p) = sm_csaf_versions p"
  by (simp_all add: with_note_def)

definition pending_of :: "int \<Rightarrow> (string \<times> source) list \<Rightarrow> provider_summary list \<Rightarrow> provider_summary list" where
  "pending_of now sources stored = map (\<lambda>(domain, source). pending_summary now domain (src_note source))
     (awaiting_first_sync sources stored)"

lemma list_providers_pending:
  "list_providers now sources stored = sort_key sm_provider (map (with_note sources) (stored @ pending_of now sources stored))"
  by (simp add: list_providers_def pending_of_def)

lemma listed_mset:
  "mset (list_providers now sources stored) = mset (map (with_note sources) (stored @ pending_of now sources stored))"
  unfolding list_providers_pending by (rule mset_sort)

lemma pending_providers: "map sm_provider (pending_of now sources stored) = map fst (awaiting_first_sync sources stored)"
  by (simp add: pending_of_def pending_summary_def comp_def case_prod_beta)

text \<open>A pending provider adds nothing to an aggregate.\<close>

lemma pending_absorbed:
  assumes "p \<in> set (pending_of now sources stored)"
  shows "absorb_versions p a = a" "absorb_validation p b = b"
proof -
  have "counts_merge c counts_default = c" for c by simp
  then have d: "summary_merge s summary_default = s" for s
    by (simp add: summary_merge_def summary_default_def)
  obtain d n where p: "p = pending_summary now d n" using assms by (auto simp: pending_of_def)
  show "absorb_versions p a = a" "absorb_validation p b = b"
    by (simp_all add: p pending_summary_def absorb_versions_def absorb_validation_def rate_add_profile_def d
        split: prod.split)
qed

lemma pending_counts:
  "sum_list (map sm_document_count (pending_of now sources stored)) = 0"
  "sum_list (map sm_retrieval_errors (pending_of now sources stored)) = 0"
  by (simp_all add: pending_of_def pending_summary_def comp_def case_prod_beta)

lemma listed_sum:
  fixes f :: "provider_summary \<Rightarrow> nat"
  assumes "\<And>ss p. f (with_note ss p) = f p" "sum_list (map f (pending_of now sources stored)) = 0"
  shows "sum_list (map f (list_providers now sources stored)) = sum_list (map f stored)"
proof -
  have "sum_list (map f (list_providers now sources stored))
      = sum_list (map f (map (with_note sources) (stored @ pending_of now sources stored)))"
    using listed_mset [of now sources stored] by (metis mset_map sum_mset_sum_list)
  also have "\<dots> = sum_list (map f (stored @ pending_of now sources stored))"
    by (simp add: assms(1) comp_def)
  finally show ?thesis using assms(2) by simp
qed

text \<open>
  C20. The overview and the providers page agree. The page lists the stored providers and the enabled
  sources without a summary, each once, sorted by domain; the overview counts exactly the listed
  providers, and its document count, retrieval errors, versions and validation results are those of
  the listed providers, in whatever order sources and jobs are iterated.
\<close>

theorem overview_matches_list:
  assumes "distinct (map fst (oi_sources oi))" and "distinct (map sm_provider (oi_summaries oi))"
    and "mset sources = mset (oi_sources oi)" and "mset jobs = mset (oi_jobs oi)"
    and "listed = list_providers now sources (oi_summaries oi)"
    and "ov = build_overview (oi\<lparr>oi_jobs := jobs, oi_sources := sources\<rparr>)"
  shows "sorted_wrt (<) (map sm_provider listed)
    \<and> set (map sm_provider listed) = set (map sm_provider (oi_summaries oi))
        \<union> {d. \<exists>s. (d, s) \<in> set (oi_sources oi) \<and> src_enabled s}
    \<and> ov_provider_count ov = length listed
    \<and> ov_document_count ov = sum_list (map sm_document_count listed)
    \<and> ov_retrieval_errors ov = sum_list (map sm_retrieval_errors listed)
    \<and> ov_csaf_versions ov = aggregate_csaf_versions listed
    \<and> ov_validation ov = aggregate_validation listed
    \<and> ov = build_overview oi"
proof -
  let ?stored = "oi_summaries oi" and ?pending = "pending_of now sources (oi_summaries oi)"
  have m: "mset listed = mset (map (with_note sources) (?stored @ ?pending))"
    unfolding assms(5) by (rule listed_mset)
  have ov: "ov = build_overview oi"
    using overview_order [OF refl assms(4,3)] unfolding assms(6) by simp
  have src: "set sources = set (oi_sources oi)" by (rule mset_eq_setD [OF assms(3)])
  have dsrc: "distinct (map fst sources)"
    using assms(1,3) by (metis mset_eq_imp_distinct_iff mset_map)
  have names: "mset (map sm_provider listed) = mset (map sm_provider (?stored @ ?pending))"
    using arg_cong [OF m, of "image_mset sm_provider"] by (simp add: image_mset.compositionality comp_def)
  have "distinct (map sm_provider ?pending)"
    unfolding pending_providers awaiting_first_sync_def by (rule distinct_map_filter [OF dsrc])
  moreover have "set (map sm_provider ?pending) \<inter> set (map sm_provider ?stored) = {}"
    unfolding pending_providers by (auto simp: awaiting_first_sync_def)
  ultimately have "distinct (map sm_provider (?stored @ ?pending))" using assms(2) by auto
  then have d: "distinct (map sm_provider listed)" using names mset_eq_imp_distinct_iff by blast
  have "sorted (map sm_provider listed)" unfolding assms(5) list_providers_pending by (rule sorted_sort_key)
  then have sorted: "sorted_wrt (<) (map sm_provider listed)" using d by (simp add: strict_sorted_iff)
  have elems: "set (map sm_provider listed) = set (map sm_provider ?stored)
        \<union> {d. \<exists>s. (d, s) \<in> set (oi_sources oi) \<and> src_enabled s}"
  proof -
    have "set (map sm_provider listed) = set (map sm_provider ?stored) \<union> set (map sm_provider ?pending)"
      using mset_eq_setD [OF names] by simp
    then show ?thesis unfolding pending_providers by (force simp: awaiting_first_sync_def src image_iff)
  qed
  have count: "ov_provider_count (build_overview oi) = length listed"
  proof -
    have "length listed = length ?stored + length (awaiting_first_sync sources ?stored)"
      using mset_eq_length [OF m] by (simp add: pending_of_def)
    moreover have "length (awaiting_first_sync sources ?stored) = length (awaiting_first_sync (oi_sources oi) ?stored)"
      unfolding awaiting_first_sync_def by (rule mset_eq_length) (simp add: assms(3))
    ultimately show ?thesis by (simp add: build_overview_def Let_def)
  qed
  have vers: "aggregate_csaf_versions listed = aggregate_csaf_versions ?stored"
    unfolding aggregate_csaf_versions_def versions.any_order [OF m]
    by (subst versions.mapped, simp add: absorb_versions_def, rule versions.neutral, rule pending_absorbed(1))
  have "fold absorb_validation listed a = fold absorb_validation ?stored a" for a
    unfolding validation.any_order [OF m]
    by (subst validation.mapped, simp add: absorb_validation_def, rule validation.neutral, rule pending_absorbed(2))
  then have val: "aggregate_validation listed = aggregate_validation ?stored" by (simp only: aggregate_validation_def)
  note sums = listed_sum [of sm_document_count, OF with_note_fields(2) pending_counts(1)]
    listed_sum [of sm_retrieval_errors, OF with_note_fields(3) pending_counts(2)]
  show ?thesis
    unfolding ov
    by (intro conjI sorted elems count refl) (simp_all add: build_overview_def Let_def vers [unfolded assms(5)] val [unfolded assms(5)] assms(5) sums)
qed

definition sample_source :: source where
  "sample_source = \<lparr>src_domain = ''b'', src_enabled = True, src_accept_v3_signatures = False, src_retries = None,
     src_aggregator_include = None, src_skip_directories = [], src_note = Some ''n'', src_user_agent = None\<rparr>"

definition sample_input :: overview_input where
  "sample_input = \<lparr>oi_summaries = [(pending_summary 0 ''c'' None)\<lparr>sm_document_count := 4\<rparr>], oi_sync_states = [],
     oi_storage = \<lparr>su_repositories = 1, su_results = 2, su_state = 3, su_metrics = 4\<rparr>,
     oi_baselines = (\<lambda>_. None), oi_sources = [(''b'', sample_source), (''c'', sample_source)],
     oi_jobs = [], oi_sync_interval = 10, oi_now = 5\<rparr>"

theorem overview_matches_list_witness:
  "ov_provider_count (build_overview sample_input) = 2
   \<and> length (list_providers 7 [(''c'', sample_source), (''b'', sample_source)] (oi_summaries sample_input)) = 2
   \<and> sorted_wrt (<) (map sm_provider
       (list_providers 7 [(''c'', sample_source), (''b'', sample_source)] (oi_summaries sample_input)))"
proof -
  let ?ss = "[(''c'', sample_source), (''b'', sample_source)]"
  have a: "distinct (map fst (oi_sources sample_input))" "distinct (map sm_provider (oi_summaries sample_input))"
    "mset ?ss = mset (oi_sources sample_input)" "mset [] = mset (oi_jobs sample_input)"
    by (simp_all add: sample_input_def add_mset_commute)
  note t = overview_matches_list [OF a, where now = 7, OF refl refl]
  note e = t [THEN conjunct2, THEN conjunct2, THEN conjunct2, THEN conjunct2, THEN conjunct2, THEN conjunct2, THEN conjunct2]
  have two: "ov_provider_count (build_overview sample_input) = 2"
    by (simp add: build_overview_def Let_def sample_input_def awaiting_first_sync_def sample_source_def pending_summary_def)
  have "ov_provider_count (build_overview sample_input) = length (list_providers 7 ?ss (oi_summaries sample_input))"
    using t [THEN conjunct2, THEN conjunct2, THEN conjunct1] unfolding e .
  then show ?thesis using two conjunct1 [OF t] by (intro conjI) (simp_all only:)
qed

end
