(* ===== verification/Instance_Store.thy ===== *)
theory Instance_Store
  imports Provider_Store Provider_Sources Distribution_Membership "HOL-Library.AList" "HOL-Library.Option_ord"
begin

section \<open>The storage of all providers and its caches\<close>

text \<open>
  \<open>Storage\<close> of \<open>server/src/storage/mod.rs\<close> over all providers, with the pool of database connections
  (\<open>storage/db.rs\<close>), the listing of \<open>storage/results.rs\<close> and \<open>storage/state.rs\<close>, the caches of
  \<open>storage/cache.rs\<close> and the overview snapshot of \<open>storage/overview.rs\<close>. Directories are association
  lists from storage keys in directory order. A database is a file that lives on while a connection
  to it is open: connections and directory entries hold its number. Files are read and written
  completely and stored files can be parsed.
\<close>

record results_dir =
  rd_summary :: "provider_summary option"
  rd_health :: "health_entry list option"
  rd_database :: "nat option"

record state_dir =
  xd_sync :: "sync_state option"
  xd_dist_errors :: "retrieval_failure list option"

record cve_search_result =
  cs_hits :: "cve_hit list"
  cs_truncated :: bool

record storage =
  sg_repos :: "string \<rightharpoonup> git_repo"
  sg_state :: "(string \<times> state_dir) list"
  sg_results :: "(string \<times> results_dir) list"
  sg_metrics :: "string \<rightharpoonup> metrics_series"
  sg_databases :: "nat \<Rightarrow> provider_db"
  sg_next_database :: nat
  sg_pool :: "string \<rightharpoonup> nat"
  sg_index :: "(string \<times> provider_summary) list option"
  sg_cve_search :: "string \<rightharpoonup> cve_search_result"
  sg_max_hits :: nat

definition empty_results_dir :: results_dir where
  "empty_results_dir = \<lparr>rd_summary = None, rd_health = None, rd_database = None\<rparr>"

definition results_of_key :: "storage \<Rightarrow> string \<Rightarrow> results_dir" where
  "results_of_key sg key = (case map_of (sg_results sg) key of Some d \<Rightarrow> d | None \<Rightarrow> empty_results_dir)"

definition update_results :: "string \<Rightarrow> (results_dir \<Rightarrow> results_dir) \<Rightarrow> storage \<Rightarrow> storage" where
  "update_results key f sg = sg\<lparr>sg_results := AList.update key (f (results_of_key sg key)) (sg_results sg)\<rparr>"

subsection \<open>Database connections\<close>

text \<open>The connection of a provider; a missing database is created with an empty schema.\<close>

definition pool_get :: "string \<Rightarrow> storage \<Rightarrow> nat \<times> storage" where
  "pool_get domain sg = (let key = provider_key domain in case sg_pool sg key of
     Some i \<Rightarrow> (i, sg)
   | None \<Rightarrow> (case rd_database (results_of_key sg key) of
       Some i \<Rightarrow> (i, sg\<lparr>sg_pool := (sg_pool sg)(key \<mapsto> i)\<rparr>)
     | None \<Rightarrow> (let i = sg_next_database sg in
         (i, (update_results key (\<lambda>d. d\<lparr>rd_database := Some i\<rparr>) sg)
           \<lparr>sg_pool := (sg_pool sg)(key \<mapsto> i), sg_next_database := Suc i,
            sg_databases := (sg_databases sg)(i := db_empty)\<rparr>))))"

definition pool_get_if_exists :: "string \<Rightarrow> storage \<Rightarrow> nat option \<times> storage" where
  "pool_get_if_exists domain sg = (let key = provider_key domain in case sg_pool sg key of
     Some i \<Rightarrow> (Some i, sg)
   | None \<Rightarrow> (case rd_database (results_of_key sg key) of
       None \<Rightarrow> (None, sg)
     | Some i \<Rightarrow> (Some i, sg\<lparr>sg_pool := (sg_pool sg)(key \<mapsto> i)\<rparr>)))"

text \<open>The database a reader of a provider sees.\<close>

definition database_of :: "storage \<Rightarrow> string \<Rightarrow> provider_db option" where
  "database_of sg domain = map_option (sg_databases sg) (fst (pool_get_if_exists domain sg))"

definition stored_document_count :: "string \<Rightarrow> storage \<Rightarrow> nat" where
  "stored_document_count domain sg = (case database_of sg domain of Some db \<Rightarrow> document_count db | None \<Rightarrow> 0)"

subsection \<open>The summary index\<close>

definition load_summary :: "string \<Rightarrow> storage \<Rightarrow> provider_summary option" where
  "load_summary domain sg = rd_summary (results_of_key sg (provider_key domain))"

text \<open>\<open>results::list_summaries\<close> and its collection into the index.\<close>

definition stored_summaries :: "storage \<Rightarrow> provider_summary list" where
  "stored_summaries sg = sort_key sm_provider (List.map_filter (\<lambda>(_, d). rd_summary d) (sg_results sg))"

definition index_load :: "storage \<Rightarrow> (string \<times> provider_summary) list" where
  "index_load sg = fold (\<lambda>s. btree_insert (sm_provider s) s) (stored_summaries sg) []"

definition index_all :: "storage \<Rightarrow> provider_summary list \<times> storage" where
  "index_all sg = (case sg_index sg of
     Some entries \<Rightarrow> (map snd entries, sg)
   | None \<Rightarrow> (let entries = index_load sg in (map snd entries, sg\<lparr>sg_index := Some entries\<rparr>)))"

definition index_domains :: "storage \<Rightarrow> string list \<times> storage" where
  "index_domains sg = (case index_all sg of (summaries, sg') \<Rightarrow> (map sm_provider summaries, sg'))"

definition index_update :: "string \<Rightarrow> provider_summary \<Rightarrow> storage \<Rightarrow> storage" where
  "index_update domain summary sg = sg\<lparr>sg_index := map_option (btree_insert domain summary) (sg_index sg)\<rparr>"

definition index_remove :: "string \<Rightarrow> storage \<Rightarrow> storage" where
  "index_remove domain sg = sg\<lparr>sg_index := map_option (filter (\<lambda>(d, _). d \<noteq> domain)) (sg_index sg)\<rparr>"

definition index_reload :: "string \<Rightarrow> storage \<Rightarrow> storage" where
  "index_reload domain sg = (case load_summary domain sg of
     Some summary \<Rightarrow> index_update domain summary sg | None \<Rightarrow> index_remove domain sg)"

definition list_summaries :: "storage \<Rightarrow> provider_summary list \<times> storage" where
  "list_summaries sg = index_all sg"

definition write_summary :: "string \<Rightarrow> provider_summary \<Rightarrow> storage \<Rightarrow> storage" where
  "write_summary domain summary = update_results (provider_key domain) (\<lambda>d. d\<lparr>rd_summary := Some summary\<rparr>)"

definition save_summary :: "string \<Rightarrow> provider_summary \<Rightarrow> storage \<Rightarrow> storage" where
  "save_summary domain summary sg = index_update domain summary (write_summary domain summary sg)"

definition refresh_stored_summary :: "string \<Rightarrow> int \<Rightarrow> storage \<Rightarrow> (string + unit) \<times> storage" where
  "refresh_stored_summary domain now sg = (case load_summary domain sg of
     None \<Rightarrow> (Inl (''No cached summary for '' @ domain), sg)
   | Some previous \<Rightarrow> (case pool_get_if_exists domain sg of
       (None, sg1) \<Rightarrow> (Inl (''No stored validation results for '' @ domain), sg1)
     | (Some i, sg1) \<Rightarrow> (Inr (), save_summary domain ((build_summary_from_db (sg_databases sg1 i) domain now)
         \<lparr>sm_validated_at := sm_validated_at previous, sm_note := sm_note previous\<rparr>) sg1)))"

subsection \<open>Deleting a provider\<close>

definition has_provider_data :: "storage \<Rightarrow> string \<Rightarrow> bool" where
  "has_provider_data sg domain \<longleftrightarrow> (let key = provider_key domain in
     sg_repos sg key \<noteq> None \<or> map_of (sg_state sg) key \<noteq> None \<or> map_of (sg_results sg) key \<noteq> None
     \<or> sg_metrics sg key \<noteq> None)"

definition invalidate_searches :: "storage \<Rightarrow> storage" where
  "invalidate_searches sg = sg\<lparr>sg_cve_search := Map.empty\<rparr>"

definition remove_provider_files :: "string \<Rightarrow> storage \<Rightarrow> storage" where
  "remove_provider_files domain sg = (let key = provider_key domain in
     sg\<lparr>sg_repos := (sg_repos sg)(key := None), sg_state := AList.delete key (sg_state sg),
        sg_results := AList.delete key (sg_results sg), sg_metrics := (sg_metrics sg)(key := None)\<rparr>)"

definition delete_provider :: "string \<Rightarrow> storage \<Rightarrow> storage" where
  "delete_provider domain sg = invalidate_searches (index_remove domain (remove_provider_files domain sg))"

definition invalidate_provider_caches :: "string list \<Rightarrow> storage \<Rightarrow> storage" where
  "invalidate_provider_caches domains sg = fold index_reload domains (invalidate_searches sg)"

subsection \<open>Searching all providers\<close>

text \<open>
  \<open>arrival\<close> is the order in which the concurrent queries of the providers answer.
\<close>

definition hit_order :: "cve_hit \<Rightarrow> string option \<times> string \<times> string \<times> string" where
  "hit_order h = (ch_current_release_date h, ch_domain h, ch_tracking_id h, ch_cve h)"

definition sort_hits :: "cve_hit list \<Rightarrow> cve_hit list" where
  "sort_hits hits = sort_key_desc ch_current_release_date
     (sort_key (\<lambda>h. (ch_domain h, ch_tracking_id h, ch_cve h)) hits)"

definition provider_hits :: "string \<Rightarrow> bool \<Rightarrow> nat \<Rightarrow> storage \<Rightarrow> string \<Rightarrow> cve_hit list" where
  "provider_hits cve prefix_mode limit sg domain = (case database_of sg domain of
     None \<Rightarrow> [] | Some db \<Rightarrow> find_by_cve db domain cve prefix_mode limit)"

definition search_cve :: "(string list \<Rightarrow> string list) \<Rightarrow> string \<Rightarrow> bool \<Rightarrow> storage \<Rightarrow> cve_search_result \<times> storage" where
  "search_cve arrival cve prefix_mode sg =
     (case index_domains sg of (domains, sg') \<Rightarrow>
       (let opened = fold (\<lambda>domain sg. snd (pool_get_if_exists domain sg)) (arrival domains) sg';
            hits = sort_hits (concat (map (provider_hits cve prefix_mode (sg_max_hits sg + 1) opened) (arrival domains))) in
        (\<lparr>cs_hits = take (sg_max_hits sg) hits, cs_truncated = (length hits > sg_max_hits sg)\<rparr>, opened)))"

definition search_key :: "string \<Rightarrow> bool \<Rightarrow> string" where
  "search_key cve prefix_mode = (if prefix_mode then ''prefix:'' else ''exact:'') @ cve"

definition find_cve :: "(string \<Rightarrow> string) \<Rightarrow> (string list \<Rightarrow> string list) \<Rightarrow> string \<Rightarrow> bool \<Rightarrow> storage
    \<Rightarrow> cve_search_result \<times> storage" where
  "find_cve upper arrival query prefix_mode sg =
     (let cve = normalize_cve upper query; key = search_key cve prefix_mode in
      case sg_cve_search sg key of
        Some r \<Rightarrow> (r, sg)
      | None \<Rightarrow> (case search_cve arrival cve prefix_mode sg of
          (r, sg') \<Rightarrow> (r, sg'\<lparr>sg_cve_search := (sg_cve_search sg')(key \<mapsto> r)\<rparr>)))"

subsection \<open>Sync states and provider information\<close>

definition list_sync_states :: "storage \<Rightarrow> sync_state list" where
  "list_sync_states sg = List.map_filter (\<lambda>(_, d). xd_sync d) (sg_state sg)"

definition load_all_provider_info :: "storage \<Rightarrow> (string \<times> provider_info) list" where
  "load_all_provider_info sg = List.map_filter (\<lambda>(key, _). case database_of sg key of
     None \<Rightarrow> None | Some db \<Rightarrow> map_option (Pair key) (load_provider_info db)) (sg_results sg)"

end
