(* ===== verification/Instance_Facts.thy ===== *)
theory Instance_Facts
  imports Instance_Store
begin

section \<open>The summary index and the deletion of providers\<close>

text \<open>
  The in-memory index of summaries never contradicts the stored files, under any interleaving of the
  steps that write a file and the steps that publish it, as long as one operation at a time changes
  the files of a provider. Deleting a provider removes its files and nothing of another provider.
\<close>

subsection \<open>The state of the index\<close>

text \<open>The providers use different storage keys; \<open>domains\<close> are the domains in use.\<close>

definition files_ok :: "string set \<Rightarrow> storage \<Rightarrow> bool" where
  "files_ok domains sg \<longleftrightarrow> distinct (map fst (sg_results sg)) \<and> (\<forall>(key, d) \<in> set (sg_results sg).
     \<forall>s. rd_summary d = Some s \<longrightarrow> sm_provider s \<in> domains \<and> provider_key (sm_provider s) = key)"

definition on_disk :: "string set \<Rightarrow> storage \<Rightarrow> string \<rightharpoonup> provider_summary" where
  "on_disk domains sg domain = (if domain \<in> domains then load_summary domain sg else None)"

text \<open>
  \<open>busy\<close> are the operations between writing the files of a provider and publishing the result: the
  summary to publish, or None for a deletion.
\<close>

type_synonym busy = "string \<rightharpoonup> provider_summary option"

definition index_ok :: "string set \<Rightarrow> busy \<Rightarrow> storage \<Rightarrow> bool" where
  "index_ok domains busy sg \<longleftrightarrow> files_ok domains sg
     \<and> (\<forall>domain pending. busy domain = Some pending \<longrightarrow> domain \<in> domains \<and> load_summary domain sg = pending)
     \<and> (\<forall>entries. sg_index sg = Some entries \<longrightarrow> btree_ok entries
         \<and> (\<forall>domain s. map_of entries domain = Some s \<longrightarrow> sm_provider s = domain)
         \<and> (\<forall>domain. busy domain = None \<longrightarrow> map_of entries domain = on_disk domains sg domain))"

text \<open>
  The operations in small steps: a summary is written and then published (\<open>save_summary\<close>), files are
  removed and then the entry (\<open>delete_provider\<close>); in between anything else may happen to other
  providers, and the index may be loaded or reloaded at any time.
\<close>

inductive index_step :: "string set \<Rightarrow> busy \<times> storage \<Rightarrow> busy \<times> storage \<Rightarrow> bool" for domains where
  Write: "domain \<in> domains \<Longrightarrow> busy domain = None \<Longrightarrow> sm_provider summary = domain
    \<Longrightarrow> index_step domains (busy, sg) (busy(domain \<mapsto> Some summary), write_summary domain summary sg)"
| Publish: "busy domain = Some (Some summary)
    \<Longrightarrow> index_step domains (busy, sg) (busy(domain := None), index_update domain summary sg)"
| RemoveFiles: "domain \<in> domains \<Longrightarrow> busy domain = None
    \<Longrightarrow> index_step domains (busy, sg) (busy(domain \<mapsto> None), remove_provider_files domain sg)"
| RemoveEntry: "busy domain = Some None
    \<Longrightarrow> index_step domains (busy, sg) (busy(domain := None), invalidate_searches (index_remove domain sg))"
| Reload: "set ds \<subseteq> domains \<Longrightarrow> index_step domains (busy, sg) (busy, invalidate_provider_caches ds sg)"
| List: "index_step domains (busy, sg) (busy, snd (list_summaries sg))"
| Search: "index_step domains (busy, sg) (busy, snd (find_cve upper arrival query prefix_mode sg))"
| Connect: "index_step domains (busy, sg) (busy, snd (pool_get domain sg))"
| Probe: "index_step domains (busy, sg) (busy, snd (pool_get_if_exists domain sg))"
| Health: "index_step domains (busy, sg)
    (busy, update_results (provider_key domain) (\<lambda>d. d\<lparr>rd_health := health\<rparr>) sg)"
| Other: "index_step domains (busy, sg) (busy, sg\<lparr>sg_repos := repos, sg_state := states,
    sg_metrics := metrics, sg_databases := databases\<rparr>)"

inductive index_reachable :: "string set \<Rightarrow> busy \<times> storage \<Rightarrow> bool" for domains where
  Start: "files_ok domains sg \<Longrightarrow> sg_index sg = None \<Longrightarrow> index_reachable domains (Map.empty, sg)"
| Step: "index_reachable domains s \<Longrightarrow> index_step domains s t \<Longrightarrow> index_reachable domains t"

subsection \<open>Files\<close>

lemma results_of_update:
  "results_of_key (update_results key f sg) k = (if k = key then f (results_of_key sg key) else results_of_key sg k)"
  by (simp add: results_of_key_def update_results_def update_conv')

lemma load_write: "load_summary d (write_summary e s sg)
    = (if provider_key d = provider_key e then Some s else load_summary d sg)"
  by (simp add: load_summary_def write_summary_def results_of_update)

lemma load_remove: "load_summary d (remove_provider_files e sg)
    = (if provider_key d = provider_key e then None else load_summary d sg)"
  by (simp add: load_summary_def remove_provider_files_def Let_def results_of_key_def delete_conv'
      empty_results_dir_def)

lemma in_update: "(k, d) \<in> set (AList.update key v al) \<Longrightarrow> (k, d) = (key, v) \<or> (k, d) \<in> set al"
  by (induction al) (auto split: if_splits)

lemma files_update:
  assumes "files_ok domains sg"
    and "\<And>s. rd_summary (f (results_of_key sg key)) = Some s \<Longrightarrow> sm_provider s \<in> domains \<and> provider_key (sm_provider s) = key"
  shows "files_ok domains (update_results key f sg)"
  using assms unfolding files_ok_def
  by (auto simp: update_results_def distinct_update dest!: in_update)

lemma files_summary:
  assumes "files_ok domains sg" "rd_summary (results_of_key sg key) = Some s"
  shows "sm_provider s \<in> domains \<and> provider_key (sm_provider s) = key"
proof (cases "map_of (sg_results sg) key")
  case (Some d)
  then show ?thesis using assms map_of_SomeD [OF Some] by (auto simp: files_ok_def results_of_key_def)
qed (use assms in \<open>simp add: results_of_key_def empty_results_dir_def\<close>)

lemma load_summary_provider:
  assumes "files_ok domains sg" "load_summary d sg = Some s"
  shows "sm_provider s \<in> domains \<and> provider_key (sm_provider s) = provider_key d"
  using files_summary [OF assms(1)] assms(2) by (simp add: load_summary_def)

lemma files_remove: "files_ok domains sg \<Longrightarrow> files_ok domains (remove_provider_files d sg)"
  by (auto simp: files_ok_def remove_provider_files_def Let_def AList.delete_eq distinct_map_filter)

text \<open>Opening connections changes no database.\<close>

lemma open_database: "database_of (snd (pool_get_if_exists d sg)) e = database_of sg e"
  by (auto simp: database_of_def pool_get_if_exists_def Let_def results_of_key_def split: option.splits)

lemma open_databases: "database_of (fold (\<lambda>d sg. snd (pool_get_if_exists d sg)) ds sg) e = database_of sg e"
  by (induction ds arbitrary: sg) (simp_all add: open_database)

subsection \<open>The loaded index\<close>

lemma fold_insert_map:
  fixes key :: "'a \<Rightarrow> 'k::linorder"
  assumes "btree_ok m" "distinct (map key xs)"
  shows "btree_ok (fold (\<lambda>s. btree_insert (key s) s) xs m)
    \<and> (\<forall>k v. map_of (fold (\<lambda>s. btree_insert (key s) s) xs m) k = Some v
        \<longleftrightarrow> v \<in> set xs \<and> key v = k \<or> k \<notin> key ` set xs \<and> map_of m k = Some v)"
  using assms
proof (induction xs arbitrary: m)
  case (Cons x xs)
  have ok: "btree_ok (btree_insert (key x) x m)" by (rule btree_insert_ok [OF Cons.prems(1)])
  note IH = Cons.IH [OF ok]
  show ?case using Cons.prems IH by (auto simp: map_of_btree_insert [OF Cons.prems(1)])
qed simp

lemma stored_set: "s \<in> set (stored_summaries sg) \<longleftrightarrow> (\<exists>key d. (key, d) \<in> set (sg_results sg) \<and> rd_summary d = Some s)"
  by (force simp: stored_summaries_def List.map_filter_def)

lemma stored_distinct:
  assumes "files_ok domains sg"
  shows "distinct (map sm_provider (stored_summaries sg))"
proof -
  have "distinct (map sm_provider (List.map_filter (\<lambda>(_, d). rd_summary d) xs))"
    if "distinct (map fst xs)" "\<And>key d s. (key, d) \<in> set xs \<Longrightarrow> rd_summary d = Some s \<Longrightarrow> provider_key (sm_provider s) = key"
    for xs :: "(string \<times> results_dir) list"
    using that
  proof (induction xs)
    case (Cons x xs)
    obtain key d where x: "x = (key, d)" by force
    have IH: "distinct (map sm_provider (List.map_filter (\<lambda>(_, d). rd_summary d) xs))"
      using Cons.prems by (intro Cons.IH) auto
    show ?case
    proof (cases "rd_summary d")
      case (Some s)
      have k: "provider_key (sm_provider s) = key" using Cons.prems(2) [of key d s] Some by (simp add: x)
      have "sm_provider s \<noteq> sm_provider s'" if "s' \<in> set (List.map_filter (\<lambda>(_, d). rd_summary d) xs)" for s'
      proof
        assume e: "sm_provider s = sm_provider s'"
        from that obtain k' d' where "(k', d') \<in> set xs" "rd_summary d' = Some s'"
          by (auto simp: List.map_filter_def)
        then have "provider_key (sm_provider s') = k'" "k' \<in> fst ` set xs" using Cons.prems(2) [of k' d' s'] by force+
        then show False using Cons.prems(1) k e by (simp add: x)
      qed
      then show ?thesis using IH Some by (auto simp: x List.map_filter_simps)
    qed (use IH in \<open>simp add: x List.map_filter_simps\<close>)
  qed (simp add: List.map_filter_simps)
  from this [of "sg_results sg"] have "distinct (map sm_provider (List.map_filter (\<lambda>(_, d). rd_summary d) (sg_results sg)))"
    using assms unfolding files_ok_def by fast
  then show ?thesis by (simp add: stored_summaries_def distinct_map)
qed

lemma load_summary_stored:
  assumes "files_ok domains sg" "inj_on provider_key domains" "d \<in> domains"
  shows "load_summary d sg = Some s \<longleftrightarrow> s \<in> set (stored_summaries sg) \<and> sm_provider s = d"
proof
  assume l: "load_summary d sg = Some s"
  have "sm_provider s = d" using load_summary_provider [OF assms(1) l] assms(2,3) by (auto dest: inj_onD)
  moreover have "s \<in> set (stored_summaries sg)"
  proof (cases "map_of (sg_results sg) (provider_key d)")
    case (Some r)
    then show ?thesis using l map_of_SomeD [OF Some] unfolding stored_set by (auto simp: load_summary_def results_of_key_def)
  qed (use l in \<open>simp add: load_summary_def results_of_key_def empty_results_dir_def\<close>)
  ultimately show "s \<in> set (stored_summaries sg) \<and> sm_provider s = d" by simp
next
  assume r: "s \<in> set (stored_summaries sg) \<and> sm_provider s = d"
  then obtain key r where kr: "(key, r) \<in> set (sg_results sg)" "rd_summary r = Some s" unfolding stored_set by blast
  have "key = provider_key d" using assms(1) kr r by (auto simp: files_ok_def)
  moreover have "map_of (sg_results sg) key = Some r" using assms(1) kr(1) by (simp add: files_ok_def)
  ultimately show "load_summary d sg = Some s" using kr(2) by (simp add: load_summary_def results_of_key_def)
qed

lemma load_index_ok:
  assumes "files_ok domains sg" "inj_on provider_key domains"
  shows "btree_ok (index_load sg) \<and> map_of (index_load sg) = on_disk domains sg
    \<and> (\<forall>d s. map_of (index_load sg) d = Some s \<longrightarrow> sm_provider s = d)"
proof -
  have m: "btree_ok (index_load sg)" "map_of (index_load sg) d = Some s \<longleftrightarrow> s \<in> set (stored_summaries sg) \<and> sm_provider s = d" for d s
    using fold_insert_map [of "[]", OF _ stored_distinct [OF assms(1)]]
    by (auto simp: index_load_def btree_ok_def)
  have "map_of (index_load sg) d = on_disk domains sg d" for d
  proof (cases "d \<in> domains")
    case True
    then show ?thesis using m(2) [of d] load_summary_stored [OF assms True]
      by (cases "map_of (index_load sg) d"; cases "load_summary d sg") (auto simp: on_disk_def)
  next
    case False
    have "map_of (index_load sg) d \<noteq> Some s" for s
      using m(2) [of d s] assms(1) False by (auto simp: stored_set files_ok_def)
    then have "map_of (index_load sg) d = None" by (meson not_Some_eq)
    then show ?thesis using False by (simp add: on_disk_def)
  qed
  then show ?thesis using m by auto
qed

subsection \<open>Every step keeps the index\<close>

lemma index_files: "index_ok domains busy sg \<Longrightarrow> files_ok domains sg"
  by (simp add: index_ok_def)

lemma map_of_filter_key: "map_of (filter (\<lambda>(e, _). e \<noteq> d) m) = (map_of m)(d := None)"
  by (induction m) (auto simp: fun_eq_iff)

lemma btree_filter: "btree_ok m \<Longrightarrow> btree_ok (filter P m)"
  unfolding btree_ok_def sorted_wrt_map by (rule sorted_wrt_filter)

lemma index_entries:
  assumes "index_ok domains busy sg" "sg_index sg = Some entries"
  shows "btree_ok entries" "map_of entries d = Some s \<Longrightarrow> sm_provider s = d"
    "busy d = None \<Longrightarrow> map_of entries d = on_disk domains sg d"
  using assms by (simp_all add: index_ok_def)

lemma index_busy:
  "index_ok domains busy sg \<Longrightarrow> busy d = Some p \<Longrightarrow> d \<in> domains"
  "index_ok domains busy sg \<Longrightarrow> busy d = Some p \<Longrightarrow> load_summary d sg = p"
  by (simp_all add: index_ok_def)

text \<open>A step on one entry that leaves the files: the entry becomes what is on disk.\<close>

lemma change_entry:
  assumes ok: "index_ok domains busy sg" and files: "files_ok domains sg'" "\<And>d. load_summary d sg' = load_summary d sg"
    and f: "sg_index sg' = map_option f (sg_index sg)" "\<And>e. btree_ok e \<Longrightarrow> btree_ok (f e)"
      "\<And>e. btree_ok e \<Longrightarrow> map_of (f e) = (map_of e)(domain := x)"
    and x: "x = on_disk domains sg domain" "\<And>s. x = Some s \<Longrightarrow> sm_provider s = domain"
    and b: "\<And>d. d \<noteq> domain \<Longrightarrow> busy' d = busy d" "busy' domain = None \<or> busy' domain = busy domain"
  shows "index_ok domains busy' sg'"
  unfolding index_ok_def
proof (intro conjI allI impI)
  have b': "busy' d = Some p \<Longrightarrow> busy d = Some p" for d p using b(1) [of d] b(2) by (cases "d = domain") auto
  show "d \<in> domains" "load_summary d sg' = p" if "busy' d = Some p" for d p
    using index_busy [OF ok b' [OF that]] files(2) by simp_all
  fix e' assume "sg_index sg' = Some e'"
  then obtain e where e: "sg_index sg = Some e" "e' = f e" unfolding f(1) by auto
  note entries = index_entries [OF ok e(1)]
  show "btree_ok e'" unfolding e(2) by (rule f(2) [OF entries(1)])
  show "sm_provider s = d" if "map_of e' d = Some s" for d s
    using that entries(2) [of d s] x(2) unfolding e(2) f(3) [OF entries(1)] by (simp split: if_splits)
  have same: "on_disk domains sg' = on_disk domains sg" by (simp add: fun_eq_iff on_disk_def files(2))
  show "map_of e' d = on_disk domains sg' d" if "busy' d = None" for d
  proof (cases "d = domain")
    case False
    then show ?thesis using that b(1) [OF False] entries(3) [of d] unfolding e(2) f(3) [OF entries(1)] same by simp
  qed (simp add: e(2) f(3) [OF entries(1)] same x(1))
qed (rule files(1))

text \<open>Publishing what is on disk, whoever is busy.\<close>

lemma update_entries:
  assumes "index_ok domains busy sg" "domain \<in> domains" "load_summary domain sg = Some s" "sm_provider s = domain"
    and "\<And>d. d \<noteq> domain \<Longrightarrow> busy' d = busy d" "busy' domain = None \<or> busy' domain = busy domain"
  shows "index_ok domains busy' (index_update domain s sg)"
proof (rule change_entry [OF assms(1), where f = "btree_insert domain s" and domain = domain and x = "Some s"])
  show "files_ok domains (index_update domain s sg)" using index_files [OF assms(1)] by (simp add: index_update_def files_ok_def)
qed (use assms in \<open>simp_all add: index_update_def load_summary_def results_of_key_def on_disk_def btree_insert_ok\<close>)

lemma remove_entries:
  assumes "index_ok domains busy sg" "domain \<in> domains \<Longrightarrow> load_summary domain sg = None"
    and "\<And>d. d \<noteq> domain \<Longrightarrow> busy' d = busy d" "busy' domain = None \<or> busy' domain = busy domain"
  shows "index_ok domains busy' (index_remove domain sg)"
proof (rule change_entry [OF assms(1), where f = "filter (\<lambda>(e, _). e \<noteq> domain)" and domain = domain and x = None])
  show "files_ok domains (index_remove domain sg)" using index_files [OF assms(1)] by (simp add: index_remove_def files_ok_def)
qed (use assms in \<open>simp_all add: index_remove_def load_summary_def results_of_key_def on_disk_def btree_filter map_of_filter_key\<close>)

text \<open>Steps that change neither summaries nor the index.\<close>

lemma index_ok_same:
  assumes "index_ok domains busy sg" "files_ok domains sg'" "\<And>d. load_summary d sg' = load_summary d sg"
    "sg_index sg' = sg_index sg"
  shows "index_ok domains busy sg'"
  using assms unfolding index_ok_def on_disk_def by simp

lemma index_ok_reload:
  assumes "index_ok domains busy sg" "inj_on provider_key domains" "d \<in> domains"
  shows "index_ok domains busy (index_reload d sg)"
proof (cases "load_summary d sg")
  case None
  then show ?thesis using remove_entries [OF assms(1), of d busy] by (simp add: index_reload_def)
next
  case (Some s)
  have "sm_provider s = d" using load_summary_provider [OF index_files [OF assms(1)] Some] assms(2,3)
    by (auto dest: inj_onD)
  then show ?thesis using update_entries [OF assms(1,3) Some, of busy] Some by (simp add: index_reload_def)
qed

lemma index_ok_searches: "index_ok domains busy sg \<Longrightarrow> index_ok domains busy (invalidate_searches sg)"
  by (frule index_files, erule index_ok_same)
    (simp_all add: invalidate_searches_def files_ok_def load_summary_def results_of_key_def)

lemma index_ok_reloads:
  "index_ok domains busy sg \<Longrightarrow> inj_on provider_key domains \<Longrightarrow> set ds \<subseteq> domains
    \<Longrightarrow> index_ok domains busy (fold index_reload ds sg)"
  by (induction ds arbitrary: sg) (simp_all add: index_ok_reload)

lemma index_ok_list:
  assumes "index_ok domains busy sg" "inj_on provider_key domains"
  shows "index_ok domains busy (snd (index_all sg))"
proof (cases "sg_index sg")
  case None
  have same: "load_summary d (sg\<lparr>sg_index := x\<rparr>) = load_summary d sg" "files_ok domains (sg\<lparr>sg_index := x\<rparr>) = files_ok domains sg" for d x
    by (simp_all add: load_summary_def results_of_key_def files_ok_def)
  show ?thesis
    using load_index_ok [OF index_files [OF assms(1)] assms(2)] assms(1)
    by (simp add: index_all_def None Let_def index_ok_def same on_disk_def)
qed (use assms in \<open>simp add: index_all_def\<close>)

lemma index_ok_connect:
  assumes "index_ok domains busy sg"
  shows "index_ok domains busy (snd (pool_get d sg))" "index_ok domains busy (snd (pool_get_if_exists d sg))"
proof -
  have "index_ok domains busy sg'"
    if "sg_results sg' = sg_results sg" "sg_index sg' = sg_index sg" for sg'
    by (rule index_ok_same [OF assms])
      (use that index_files [OF assms] in \<open>simp_all add: files_ok_def load_summary_def results_of_key_def\<close>)
  moreover have "index_ok domains busy sg'"
    if r: "sg_results sg' = sg_results (update_results k (\<lambda>d. d\<lparr>rd_database := Some i\<rparr>) sg)" "sg_index sg' = sg_index sg" for sg' k i
  proof (rule index_ok_same [OF assms])
    have "files_ok domains (update_results k (\<lambda>d. d\<lparr>rd_database := Some i\<rparr>) sg)"
      by (rule files_update [OF index_files [OF assms]]) (use files_summary [OF index_files [OF assms]] in simp)
    then show "files_ok domains sg'" using r by (simp add: files_ok_def)
    fix d
    show "load_summary d sg' = load_summary d sg"
      using results_of_update [of k "\<lambda>d. d\<lparr>rd_database := Some i\<rparr>" sg "provider_key d"] r(1)
      by (simp add: load_summary_def results_of_key_def)
  qed (rule r)
  ultimately show "index_ok domains busy (snd (pool_get d sg))" "index_ok domains busy (snd (pool_get_if_exists d sg))"
    by (simp_all add: pool_get_def pool_get_if_exists_def Let_def assms update_results_def split: option.split)
qed

text \<open>Changing the files of a provider makes it busy with what was written.\<close>

lemma change_files:
  assumes ok: "index_ok domains busy sg" and inj: "inj_on provider_key domains" and d: "domain \<in> domains" "busy domain = None"
    and files: "files_ok domains sg'" "sg_index sg' = sg_index sg" "load_summary domain sg' = p"
      "\<And>d. provider_key d \<noteq> provider_key domain \<Longrightarrow> load_summary d sg' = load_summary d sg"
  shows "index_ok domains (busy(domain \<mapsto> p)) sg'"
proof -
  have other: "load_summary e sg' = load_summary e sg" if "e \<in> domains" "e \<noteq> domain" for e
    using files(4) that inj d(1) by (auto dest: inj_onD)
  show ?thesis unfolding index_ok_def
  proof (intro conjI allI impI)
    show "e \<in> domains" "load_summary e sg' = q" if "(busy(domain \<mapsto> p)) e = Some q" for e q
      using that index_busy [OF ok, of e q] d(1) files(3) other [of e] by (simp_all split: if_splits)
    fix entries assume "sg_index sg' = Some entries"
    then have "sg_index sg = Some entries" unfolding files(2) .
    note entries = index_entries [OF ok this]
    show "btree_ok entries" "map_of entries e = Some s \<Longrightarrow> sm_provider s = e" for e s by (rule entries(1), erule entries(2))
    show "map_of entries e = on_disk domains sg' e" if "(busy(domain \<mapsto> p)) e = None" for e
      using that entries(3) [of e] other [of e] by (auto simp: on_disk_def split: if_splits)
  qed (rule files(1))
qed

lemma index_ok_find:
  assumes "index_ok domains busy sg" "inj_on provider_key domains"
  shows "index_ok domains busy (snd (find_cve upper arrival query prefix_mode sg))"
proof -
  have opened: "index_ok domains busy (fold (\<lambda>d sg. snd (pool_get_if_exists d sg)) ds s)" if "index_ok domains busy s" for ds s
    using that by (induction ds arbitrary: s) (simp_all add: index_ok_connect)
  have cached: "index_ok domains busy (s\<lparr>sg_cve_search := c\<rparr>)" if "index_ok domains busy s" for s c
    using that by (frule_tac index_files, erule_tac index_ok_same)
      (simp_all add: files_ok_def load_summary_def results_of_key_def)
  obtain ss sg1 where i: "index_all sg = (ss, sg1)" by force
  have "index_ok domains busy sg1" using index_ok_list [OF assms] by (simp add: i)
  note opened = opened [OF this]
  define key where "key = search_key (normalize_cve upper query) prefix_mode"
  obtain r sg2 where s: "search_cve arrival (normalize_cve upper query) prefix_mode sg = (r, sg2)" by force
  have "index_ok domains busy sg2" using opened s by (auto simp: search_cve_def index_domains_def Let_def i)
  then show ?thesis
    by (cases "sg_cve_search sg key") (simp_all add: find_cve_def Let_def key_def [symmetric] s assms(1) cached)
qed

lemma index_ok_step:
  assumes "index_step domains (busy, sg) (busy', sg')" "index_ok domains busy sg" "inj_on provider_key domains"
  shows "index_ok domains busy' sg'"
  using assms(1)
proof cases
  case (Write domain summary)
  have "files_ok domains sg'"
    unfolding Write write_summary_def by (rule files_update [OF index_files [OF assms(2)]]) (use Write in auto)
  then show ?thesis using change_files [OF assms(2,3), of domain sg' "Some summary"] Write load_write [of _ domain summary sg]
    by (simp add: write_summary_def update_results_def)
next
  case (Publish domain summary)
  have l: "load_summary domain sg = Some summary" "domain \<in> domains" using index_busy [OF assms(2) Publish(3)] by simp_all
  have "sm_provider summary = domain" using load_summary_provider [OF index_files [OF assms(2)] l(1)] l(2) assms(3)
    by (auto dest: inj_onD)
  then show ?thesis unfolding Publish by (intro update_entries [OF assms(2) l(2,1)]) simp_all
next
  case (RemoveFiles domain)
  then show ?thesis
    using change_files [OF assms(2,3), of domain sg' None] files_remove [OF index_files [OF assms(2)]] load_remove [of _ domain sg]
    by (simp add: remove_provider_files_def Let_def)
next
  case (RemoveEntry domain)
  have "load_summary domain sg = None" using index_busy [OF assms(2) RemoveEntry(3)] by simp
  then show ?thesis unfolding RemoveEntry by (intro index_ok_searches remove_entries [OF assms(2)]) simp_all
next
  case (Reload ds)
  then show ?thesis using index_ok_reloads [OF index_ok_searches [OF assms(2)] assms(3)]
    by (simp add: invalidate_provider_caches_def)
next
  case List
  then show ?thesis using index_ok_list [OF assms(2,3)] by (simp add: list_summaries_def)
next
  case (Search upper arrival query prefix_mode)
  then show ?thesis using index_ok_find [OF assms(2,3)] by simp
next
  case (Connect domain)
  then show ?thesis using index_ok_connect(1) [OF assms(2)] by simp
next
  case (Probe domain)
  then show ?thesis using index_ok_connect(2) [OF assms(2)] by simp
next
  case (Health domain health)
  have s: "load_summary d sg' = load_summary d sg" for d
    unfolding Health by (simp add: load_summary_def results_of_update)
  have "files_ok domains sg'" unfolding Health
    by (rule files_update [OF index_files [OF assms(2)]]) (use files_summary [OF index_files [OF assms(2)]] in simp)
  from index_ok_same [OF assms(2) this s] show ?thesis by (simp add: Health update_results_def)
next
  case (Other repos states metrics databases)
  show ?thesis unfolding Other
    by (rule index_ok_same [OF assms(2)])
      (use index_files [OF assms(2)] in \<open>simp_all add: files_ok_def load_summary_def results_of_key_def\<close>)
qed

lemma index_ok_reachable:
  assumes "index_reachable domains st" "inj_on provider_key domains"
  shows "index_ok domains (fst st) (snd st)"
  using assms(1)
proof induction
  case (Start sg)
  then show ?case by (simp add: index_ok_def)
next
  case (Step s t)
  then show ?case using index_ok_step [of domains "fst s" "snd s" "fst t" "snd t"] assms(2) by simp
qed

lemma listed_summaries:
  assumes "index_ok domains busy sg" "inj_on provider_key domains"
  shows "\<exists>entries. btree_ok entries \<and> fst (list_summaries sg) = map snd entries
    \<and> (\<forall>d s. map_of entries d = Some s \<longrightarrow> sm_provider s = d)
    \<and> (\<forall>d. busy d = None \<longrightarrow> map_of entries d = on_disk domains sg d)"
proof (cases "sg_index sg")
  case None
  then show ?thesis using load_index_ok [OF index_files [OF assms(1)] assms(2)]
    by (intro exI [of _ "index_load sg"]) (simp add: list_summaries_def index_all_def Let_def)
next
  case (Some entries)
  note e = index_entries [OF assms(1) Some]
  show ?thesis by (rule exI [of _ entries]) (use e in \<open>simp add: list_summaries_def index_all_def Some\<close>)
qed



text \<open>A summary is written, the index is loaded by a reader, and only then the summary is published.\<close>

definition fresh_storage :: storage where
  "fresh_storage = \<lparr>sg_repos = Map.empty, sg_state = [], sg_results = [], sg_metrics = Map.empty,
     sg_databases = (\<lambda>_. db_empty), sg_next_database = 0, sg_pool = Map.empty, sg_index = None,
     sg_cve_search = Map.empty, sg_max_hits = 500\<rparr>"

definition first_summary :: provider_summary where
  "first_summary = build_summary_from_db db_empty ''a'' 0"

definition raced_storage :: storage where
  "raced_storage = index_update ''a'' first_summary (snd (list_summaries (write_summary ''a'' first_summary fresh_storage)))"

lemma sample_keys: "inj_on provider_key {''a'', ''b''}"
  by (simp add: inj_on_def provider_key_def sanitize_domain_def strip_scheme_def strip_prefix_def trim_end_char_def starts_with_def)

lemma raced_reachable: "index_reachable {''a'', ''b''} (Map.empty, raced_storage)"
proof -
  let ?D = "{''a'', ''b''}" and ?s1 = "write_summary ''a'' first_summary fresh_storage"
  have p: "sm_provider first_summary = ''a''" by (simp add: first_summary_def build_summary_from_db_def Let_def)
  have "index_reachable ?D (Map.empty, fresh_storage)" by (rule Start) (simp_all add: files_ok_def fresh_storage_def)
  from Step [OF this Write [of "''a''" ?D Map.empty first_summary]] p
  have "index_reachable ?D (Map.empty(''a'' \<mapsto> Some first_summary), ?s1)" by simp
  from Step [OF this List]
  have "index_reachable ?D (Map.empty(''a'' \<mapsto> Some first_summary), snd (list_summaries ?s1))" .
  from Step [OF this Publish [of _ "''a''" first_summary]] show ?thesis by (simp add: raced_storage_def)
qed


subsection \<open>Deletion\<close>

lemma data_kept:
  assumes "provider_key other \<noteq> provider_key domain"
  shows "sg_repos (delete_provider domain sg) (provider_key other) = sg_repos sg (provider_key other)"
    "map_of (sg_state (delete_provider domain sg)) (provider_key other) = map_of (sg_state sg) (provider_key other)"
    "map_of (sg_results (delete_provider domain sg)) (provider_key other) = map_of (sg_results sg) (provider_key other)"
    "sg_metrics (delete_provider domain sg) (provider_key other) = sg_metrics sg (provider_key other)"
    "database_of (delete_provider domain sg) other = database_of sg other"
  using assms by (auto simp: delete_provider_def remove_provider_files_def Let_def index_remove_def invalidate_searches_def
      delete_conv' database_of_def pool_get_if_exists_def results_of_key_def split: option.split)

lemma delete_steps:
  assumes "index_reachable domains (Map.empty, sg)" "domain \<in> domains"
  shows "index_reachable domains (Map.empty, delete_provider domain sg)"
proof -
  from Step [OF assms(1) RemoveFiles [OF assms(2)]]
  have "index_reachable domains (Map.empty(domain \<mapsto> None), remove_provider_files domain sg)" by simp
  from Step [OF this RemoveEntry [of _ domain]] show ?thesis by (simp add: delete_provider_def)
qed

lemma btree_unique:
  fixes m :: "('k::linorder \<times> 'v) list"
  assumes "btree_ok m" "btree_ok m'" "map_of m = map_of m'"
  shows "m = m'"
proof (rule map_sorted_distinct_set_unique [of fst])
  note d = btree_distinct [OF assms(1)] btree_distinct [OF assms(2)]
  have "(k, v) \<in> set m \<longleftrightarrow> (k, v) \<in> set m'" for k v
    using assms(3) d by (metis map_of_eq_Some_iff)
  then show set: "set m = set m'" by auto
  show "inj_on fst (set m \<union> set m')" using d(1) by (simp add: set [symmetric] distinct_map)
  show "sorted (map fst m)" "sorted (map fst m')"
    using assms(1,2) by (simp_all add: btree_ok_def strict_sorted_iff)
  show "distinct (map fst m)" "distinct (map fst m')" by (rule d)+
qed

text \<open>
  C26. Deleting a provider leaves no file of it, takes it off the list of providers and drops all
  cached searches, and it changes nothing else: the other providers keep their place in the list,
  their repository, state, results, metrics and database.
\<close>

theorem provider_deletion:
  assumes "index_reachable domains (Map.empty, sg)" and "inj_on provider_key domains" and "domain \<in> domains"
    and "after = delete_provider domain sg"
  shows "\<not> has_provider_data after domain \<and> sg_cve_search after = Map.empty
    \<and> fst (list_summaries after) = filter (\<lambda>s. sm_provider s \<noteq> domain) (fst (list_summaries sg))
    \<and> (\<forall>other \<in> domains - {domain}. let key = provider_key other in
        sg_repos after key = sg_repos sg key \<and> map_of (sg_state after) key = map_of (sg_state sg) key
        \<and> map_of (sg_results after) key = map_of (sg_results sg) key
        \<and> sg_metrics after key = sg_metrics sg key \<and> database_of after other = database_of sg other)"
proof -
  have ok: "index_ok domains Map.empty sg" "index_ok domains Map.empty after"
    using index_ok_reachable [OF assms(1,2)] index_ok_reachable [OF delete_steps [OF assms(1,3)] assms(2)]
    by (simp_all add: assms(4))
  obtain e where e: "btree_ok e" "fst (list_summaries sg) = map snd e"
    "\<And>d s. map_of e d = Some s \<Longrightarrow> sm_provider s = d" "map_of e = on_disk domains sg"
    using listed_summaries [OF ok(1) assms(2)] by (auto simp: fun_eq_iff)
  obtain e' where e': "btree_ok e'" "fst (list_summaries after) = map snd e'"
    "\<And>d s. map_of e' d = Some s \<Longrightarrow> sm_provider s = d" "map_of e' = on_disk domains after"
    using listed_summaries [OF ok(2) assms(2)] by (auto simp: fun_eq_iff)
  have "provider_key d = provider_key domain \<longleftrightarrow> d = domain" if "d \<in> domains" for d
    using that assms(2,3) by (auto dest: inj_onD)
  then have "on_disk domains after = (on_disk domains sg)(domain := None)"
    using load_remove [of _ domain sg] unfolding assms(4)
    by (auto simp: fun_eq_iff on_disk_def delete_provider_def index_remove_def invalidate_searches_def load_summary_def results_of_key_def)
  then have "map_of e' = map_of (filter (\<lambda>(d, _). d \<noteq> domain) e)"
    unfolding e'(4) map_of_filter_key e(4) .
  then have "e' = filter (\<lambda>(d, _). d \<noteq> domain) e" by (rule btree_unique [OF e'(1) btree_filter [OF e(1)]])
  moreover have "filter (\<lambda>(d, _). d \<noteq> domain) e = filter (\<lambda>p. sm_provider (snd p) \<noteq> domain) e"
  proof (rule filter_cong [OF refl])
    fix p assume "p \<in> set e"
    then have "sm_provider (snd p) = fst p" using e(3) [of "fst p" "snd p"] btree_distinct [OF e(1)] by simp
    then show "(case p of (d, _) \<Rightarrow> d \<noteq> domain) = (sm_provider (snd p) \<noteq> domain)" by (simp add: case_prod_beta)
  qed
  ultimately have list: "fst (list_summaries after) = filter (\<lambda>s. sm_provider s \<noteq> domain) (fst (list_summaries sg))"
    unfolding e(2) e'(2) filter_map by (simp add: comp_def)
  have none: "\<not> has_provider_data after domain" "sg_cve_search after = Map.empty"
    by (simp_all add: assms(4) has_provider_data_def Let_def delete_provider_def remove_provider_files_def
        index_remove_def invalidate_searches_def delete_conv')
  have "provider_key other \<noteq> provider_key domain" if "other \<in> domains - {domain}" for other
    using that assms(2,3) by (auto dest: inj_onD)
  from data_kept [OF this] show ?thesis
    using none list unfolding assms(4) Let_def by simp
qed

theorem provider_deletion_witness:
  "has_provider_data raced_storage ''a'' \<and> \<not> has_provider_data (delete_provider ''a'' raced_storage) ''a''"
proof -
  have "has_provider_data raced_storage ''a''"
    by (simp add: has_provider_data_def Let_def raced_storage_def list_summaries_def index_all_def write_summary_def
        update_results_def fresh_storage_def index_update_def)
  then show ?thesis using provider_deletion [OF raced_reachable sample_keys _ refl, of "''a''"] by simp
qed

text \<open>
  What a deletion does not reset is the pool of connections: a provider whose database was open keeps
  answering with its deleted documents.
\<close>

lemma deleted_database_served:
  assumes "sg_pool sg (provider_key domain) = Some i"
  shows "stored_document_count domain (delete_provider domain sg) = document_count (sg_databases sg i)"
  using assms by (simp add: stored_document_count_def database_of_def pool_get_if_exists_def Let_def
      delete_provider_def remove_provider_files_def index_remove_def invalidate_searches_def)

end
