(* ===== verification/Search_Facts.thy ===== *)
theory Search_Facts
  imports Instance_Facts Document_Facts "HOL-Library.Multiset"
begin

section \<open>Searching all providers for a CVE\<close>

text \<open>
  Every provider answers with its first hits only and the answers arrive in any order, yet the
  result is the best hits of all providers. The core is a lemma on lists: sorting the sorted prefixes
  of the parts gives a prefix of the whole.
\<close>

definition hit_le :: "cve_hit \<Rightarrow> cve_hit \<Rightarrow> bool" where
  "hit_le a b \<longleftrightarrow> ch_current_release_date b < ch_current_release_date a
     \<or> ch_current_release_date a = ch_current_release_date b
       \<and> (ch_domain a, ch_tracking_id a, ch_cve a) \<le> (ch_domain b, ch_tracking_id b, ch_cve b)"

lemma hit_le_trans: "hit_le a b \<Longrightarrow> hit_le b c \<Longrightarrow> hit_le a c"
  unfolding hit_le_def by (metis (no_types, lifting) less_trans order_trans)

subsection \<open>Best elements of a list in parts\<close>

locale best_of =
  fixes le :: "'a \<Rightarrow> 'a \<Rightarrow> bool" and arrange :: "'a list \<Rightarrow> 'a list"
  assumes trans: "le x y \<Longrightarrow> le y z \<Longrightarrow> le x z"
    and sorted: "sorted_wrt le (arrange xs)"
    and same: "mset (arrange xs) = mset xs"
begin

text \<open>\<open>best\<close> are the \<open>n\<close> first of \<open>all\<close>, in order.\<close>

definition firsts :: "nat \<Rightarrow> 'a list \<Rightarrow> 'a list \<Rightarrow> bool" where
  "firsts n best xs \<longleftrightarrow> sorted_wrt le best \<and> mset best \<subseteq># mset xs \<and> length best = min n (length xs)
     \<and> (\<forall>x \<in> set best. \<forall>y \<in># mset xs - mset best. le x y)"

lemma sorted_take_drop: "sorted_wrt le xs \<Longrightarrow> x \<in> set (take n xs) \<Longrightarrow> y \<in> set (drop n xs) \<Longrightarrow> le x y"
  using sorted_wrt_append [of le "take n xs" "drop n xs"] by simp

lemma split_mset: "mset xs = mset (take n xs) + mset (drop n xs)"
  by (metis append_take_drop_id mset_append)

lemma long_part:
  assumes "p \<in> set parts" "n < length p"
  shows "n < length (concat (map (take (Suc n)) parts))"
proof -
  obtain us vs where "parts = us @ p # vs" using assms(1) by (auto simp: in_set_conv_decomp)
  then show ?thesis using assms(2) by simp
qed

lemma merged_firsts:
  assumes parts: "\<And>p. p \<in> set parts \<Longrightarrow> sorted_wrt le p"
    and all: "mset xs = mset (concat parts)"
  shows "firsts n (take n (arrange (concat (map (take (Suc n)) parts)))) xs
    \<and> (n < length (concat (map (take (Suc n)) parts)) \<longleftrightarrow> n < length xs)"
proof -
  let ?L = "concat (map (take (Suc n)) parts)" and ?R = "concat (map (drop (Suc n)) parts)"
  let ?best = "take n (arrange ?L)" and ?rest = "drop n (arrange ?L)"
  have LR: "mset (concat ps) = mset (concat (map (take (Suc n)) ps)) + mset (concat (map (drop (Suc n)) ps))" for ps :: "'a list list"
    by (induction ps) (simp_all add: split_mset [symmetric] ac_simps, metis split_mset add.assoc add.commute)
  have L: "mset ?L = mset ?best + mset ?rest" using split_mset [of "arrange ?L" n] same [of ?L] by simp
  have X: "mset xs = mset ?best + (mset ?rest + mset ?R)" using LR [of parts] L all by (simp add: add.assoc)
  have dropped: "\<exists>p \<in> set parts. y \<in> set (drop (Suc n) p)" if "y \<in> set ?R" for y using that by auto
  have len: "length xs = length ?L + length ?R" using LR [of parts] all by (metis size_mset size_union)
  have full: "n < length ?L" if R: "?R \<noteq> []"
  proof -
    obtain p where "p \<in> set parts" "drop (Suc n) p \<noteq> []" using R unfolding concat_eq_Nil_conv by auto
    then show ?thesis using long_part [of p parts n] by simp
  qed
  have le: "le x y" if x: "x \<in> set ?best" and y: "y \<in># mset xs - mset ?best" for x y
  proof -
    have "y \<in> set ?rest \<or> y \<in> set ?R" using y by (simp add: X)
    then show ?thesis
    proof
      assume "y \<in> set ?rest"
      then show ?thesis by (rule sorted_take_drop [OF sorted x])
    next
      assume "y \<in> set ?R"
      then obtain p where p: "p \<in> set parts" "y \<in> set (drop (Suc n) p)" using dropped by blast
      have "length (take (Suc n) p) = Suc n" using p(2) by (cases "Suc n \<le> length p") auto
      moreover have sub: "mset (take (Suc n) p) \<subseteq># mset ?best + mset ?rest"
      proof -
        obtain us vs where "parts = us @ p # vs" using p(1) by (auto simp: in_set_conv_decomp)
        then have "mset (take (Suc n) p) \<subseteq># mset ?L" by simp
        then show ?thesis unfolding L .
      qed
      ultimately obtain g where g: "g \<in> set (take (Suc n) p)" "g \<in> set ?rest"
      proof (cases "set (take (Suc n) p) \<inter> set ?rest = {}")
        case True
        have "mset (take (Suc n) p) \<subseteq># mset ?best"
        proof (rule mset_subset_eqI)
          fix a
          show "count (mset (take (Suc n) p)) a \<le> count (mset ?best) a"
          proof (cases "a \<in> set (take (Suc n) p)")
            case a: True
            then have "a \<notin># mset ?rest" using True by auto
            then have z: "count (mset ?rest) a = 0" by (simp only: not_in_iff)
            show ?thesis using mset_subset_eq_count [OF sub, of a] unfolding count_union z by (simp only: add_0_right)
          next
            case False
            then have "a \<notin># mset (take (Suc n) p)" by simp
            then have z: "count (mset (take (Suc n) p)) a = 0" by (simp only: not_in_iff)
            show ?thesis unfolding z by (rule le0)
          qed
        qed
        from size_mset_mono [OF this] show ?thesis using \<open>length (take (Suc n) p) = Suc n\<close> by (simp only: size_mset) simp
      qed (use that in blast)
      have "le x g" by (rule sorted_take_drop [OF sorted x g(2)])
      moreover have "le g y" by (rule sorted_take_drop [OF parts [OF p(1)] g(1) p(2)])
      ultimately show ?thesis by (rule trans)
    qed
  qed
  have lenL: "length (arrange ?L) = length ?L" using same [of ?L] by (metis size_mset)
  have "length ?best = min n (length xs)"
  proof (cases "?R = []")
    case True
    have "length xs = length ?L" using len unfolding True by simp
    then show ?thesis using lenL by simp
  next
    case False
    then show ?thesis using full [OF False] len lenL by simp
  qed
  moreover have "n < length ?L \<longleftrightarrow> n < length xs"
  proof (cases "?R = []")
    case True
    have "length xs = length ?L" using len unfolding True by simp
    then show ?thesis by simp
  next
    case False
    then show ?thesis using full [OF False] len by simp
  qed
  moreover have "sorted_wrt le ?best" by (rule sorted_wrt_take [OF sorted])
  moreover have "mset ?best \<subseteq># mset xs" unfolding X by simp
  ultimately show ?thesis using le unfolding firsts_def by blast
qed

end

subsection \<open>The search\<close>

lemma sorted_by_class:
  fixes f :: "'a \<Rightarrow> 'b::linorder"
  assumes "sorted_wrt (\<lambda>x y. f y \<le> f x) xs" "\<And>c. sorted_wrt Q (filter (\<lambda>x. f x = c) xs)"
  shows "sorted_wrt (\<lambda>x y. f y < f x \<or> f x = f y \<and> Q x y) xs"
  using assms
proof (induction xs)
  case (Cons x xs)
  have q: "Q x y" if "y \<in> set xs" "f x = f y" for y
    using Cons.prems(2) [of "f x"] that by simp
  have "sorted_wrt Q (filter (\<lambda>x. f x = c) xs)" for c
    using Cons.prems(2) [of c] by (cases "f x = c") simp_all
  then have "sorted_wrt (\<lambda>x y. f y < f x \<or> f x = f y \<and> Q x y) xs"
    using Cons.IH Cons.prems(1) by simp
  then show ?case using Cons.prems(1) q by (auto simp: le_less)
qed simp

lemma desc_sorted:
  fixes f :: "'a \<Rightarrow> 'b::linorder"
  shows "sorted_wrt (\<lambda>x y. f y \<le> f x) (sort_key_desc f xs)"
  unfolding sort_key_desc_def sorted_wrt_rev using sorted_sort_key [of f "rev xs"] by (simp add: sorted_map)

lemma desc_stable: "filter (\<lambda>x. f x = c) (sort_key_desc f xs) = filter (\<lambda>x. f x = c) xs"
  unfolding sort_key_desc_def using sort_key_stable [of f c "rev xs"] by (simp add: rev_filter [symmetric])

lemma desc_then_sorted:
  fixes f :: "'a \<Rightarrow> 'b::linorder" and g :: "'a \<Rightarrow> 'c::linorder"
  shows "sorted_wrt (\<lambda>x y. f y < f x \<or> f x = f y \<and> g x \<le> g y) (sort_key_desc f (sort_key g xs))"
proof (rule sorted_by_class [OF desc_sorted])
  fix c
  have "sorted_wrt (\<lambda>x y. g x \<le> g y) (sort_key g xs)" using sorted_sort_key [of g xs] by (simp add: sorted_map)
  then show "sorted_wrt (\<lambda>x y. g x \<le> g y) (filter (\<lambda>x. f x = c) (sort_key_desc f (sort_key g xs)))"
    unfolding desc_stable by (rule sorted_wrt_filter)
qed

lemma mset_desc [simp]: "mset (sort_key_desc f xs) = mset xs"
  by (simp add: sort_key_desc_def)

lemma sort_hits_sorted: "sorted_wrt hit_le (sort_hits xs)"
  unfolding sort_hits_def hit_le_def by (rule desc_then_sorted)

interpretation hits: best_of hit_le sort_hits
  by unfold_locales (erule (1) hit_le_trans, rule sort_hits_sorted, simp add: sort_hits_def)

text \<open>All documents of a provider that match, in the order of its query, without a limit.\<close>

definition all_hits :: "string \<Rightarrow> bool \<Rightarrow> storage \<Rightarrow> string \<Rightarrow> cve_hit list" where
  "all_hits cve prefix_mode sg domain = (case database_of sg domain of None \<Rightarrow> []
     | Some db \<Rightarrow> sort_key_desc ch_current_release_date (sort_key (\<lambda>h. (ch_tracking_id h, ch_cve h))
         (map (cve_hit_of domain) (filter (\<lambda>(v, d). cve_matches prefix_mode cve (vr_cve v)) (cve_join db)))))"

lemma provider_hits_take: "provider_hits cve prefix_mode n sg domain = take n (all_hits cve prefix_mode sg domain)"
  by (simp add: provider_hits_def all_hits_def find_by_cve_def split: option.split)

lemma all_hits_domain: "h \<in> set (all_hits cve prefix_mode sg domain) \<Longrightarrow> ch_domain h = domain"
  by (auto simp: all_hits_def sort_key_desc_def cve_hit_of_def split: option.splits)

lemma all_hits_sorted: "sorted_wrt hit_le (all_hits cve prefix_mode sg domain)"
proof (cases "database_of sg domain")
  case (Some db)
  let ?xs = "all_hits cve prefix_mode sg domain"
  have "sorted_wrt (\<lambda>x y. ch_current_release_date y < ch_current_release_date x
      \<or> ch_current_release_date x = ch_current_release_date y
        \<and> (ch_tracking_id x, ch_cve x) \<le> (ch_tracking_id y, ch_cve y)) ?xs"
    unfolding all_hits_def Some option.case by (rule desc_then_sorted)
  then show ?thesis
    by (rule sorted_wrt_mono_rel [rotated]) (use all_hits_domain in \<open>auto simp: hit_le_def\<close>)
qed (simp add: all_hits_def)

lemma mset_concat_map: "mset xs = mset ys \<Longrightarrow> mset (concat (map f xs)) = mset (concat (map f ys))"
proof -
  have "mset (concat (map f zs)) = sum_mset (image_mset (\<lambda>z. mset (f z)) (mset zs))" for zs
    by (induction zs) auto
  then show "mset xs = mset ys \<Longrightarrow> ?thesis" by simp
qed

text \<open>
  C21. A search over all providers returns the best hits of all of them: newest release first, then
  by provider, tracking identifier and CVE, as many as allowed, although every provider answers with
  a bounded number of hits and the answers arrive in any order. The result is marked truncated
  exactly if something was left out, and nothing that was left out precedes a returned hit.
\<close>

theorem search_finds_best:
  assumes "\<And>ds. mset (arrival ds) = mset ds"
    and "search_cve arrival cve prefix_mode sg = (r, sg')"
    and "everything = concat (map (all_hits cve prefix_mode sg) (fst (index_domains sg)))"
  shows "sorted_wrt hit_le (cs_hits r) \<and> mset (cs_hits r) \<subseteq># mset everything
    \<and> length (cs_hits r) = min (sg_max_hits sg) (length everything)
    \<and> (\<forall>h \<in> set (cs_hits r). \<forall>h' \<in># mset everything - mset (cs_hits r). hit_le h h')
    \<and> (cs_truncated r \<longleftrightarrow> sg_max_hits sg < length everything)"
proof -
  let ?n = "sg_max_hits sg"
  obtain ds sg1 where i: "index_domains sg = (ds, sg1)" by force
  let ?opened = "fold (\<lambda>domain sg. snd (pool_get_if_exists domain sg)) (arrival ds) sg1"
  have "database_of sg1 d = database_of sg d" for d
    using i by (auto simp: index_domains_def index_all_def Let_def database_of_def pool_get_if_exists_def
        results_of_key_def split: option.splits)
  then have same: "all_hits cve prefix_mode ?opened = all_hits cve prefix_mode sg"
    by (simp add: fun_eq_iff all_hits_def open_databases)
  let ?parts = "map (all_hits cve prefix_mode sg) (arrival ds)"
  have L: "map (provider_hits cve prefix_mode (Suc ?n) ?opened) (arrival ds) = map (take (Suc ?n)) ?parts"
    by (simp add: provider_hits_take same)
  have r: "cs_hits r = take ?n (sort_hits (concat (map (take (Suc ?n)) ?parts)))"
    "cs_truncated r \<longleftrightarrow> ?n < length (concat (map (take (Suc ?n)) ?parts))"
  proof -
    have "length (sort_hits xs) = length xs" for xs using hits.same [of xs] by (metis size_mset)
    then show "cs_hits r = take ?n (sort_hits (concat (map (take (Suc ?n)) ?parts)))"
      "cs_truncated r \<longleftrightarrow> ?n < length (concat (map (take (Suc ?n)) ?parts))"
      using assms(2) L by (auto simp: search_cve_def i Let_def)
  qed
  have "mset everything = mset (concat ?parts)"
    using mset_concat_map [OF assms(1) [of ds, symmetric]] by (simp add: assms(3) i)
  from hits.merged_firsts [OF _ this, of ?n] show ?thesis
    using all_hits_sorted by (auto simp: r hits.firsts_def)
qed

text \<open>Two providers that have the same advisory, and room for one hit.\<close>

definition search_sample :: storage where
  "search_sample = \<lparr>sg_repos = Map.empty, sg_state = [], sg_results = [], sg_metrics = Map.empty,
     sg_databases = (\<lambda>_. cve_sample), sg_next_database = 2, sg_pool = (\<lambda>_. Some 0),
     sg_index = Some [(''x'', (build_summary_from_db cve_sample ''x'' 0)), (''y'', (build_summary_from_db cve_sample ''y'' 0))],
     sg_cve_search = Map.empty, sg_max_hits = 1\<rparr>"

lemma sample_hits: "length (all_hits ''CVE-1'' False search_sample d) = 1"
proof -
  have "database_of search_sample d = Some cve_sample"
    by (simp add: database_of_def pool_get_if_exists_def search_sample_def)
  then show ?thesis
    by (simp add: all_hits_def sort_key_desc_def cve_sample_def cve_join_def document_row_of_def cve_matches_def starts_with_def)
qed

theorem search_finds_best_witness:
  "length (cs_hits (fst (search_cve rev ''CVE-1'' False search_sample))) = 1
   \<and> cs_truncated (fst (search_cve rev ''CVE-1'' False search_sample))"
proof -
  obtain r sg where r: "search_cve rev ''CVE-1'' False search_sample = (r, sg)" by force
  have "mset (rev ds) = mset ds" for ds :: "string list" by simp
  note t = search_finds_best [OF this r refl]
  have d: "fst (index_domains search_sample) = [''x'', ''y'']"
    by (simp add: index_domains_def index_all_def search_sample_def build_summary_from_db_def Let_def)
  have "length (concat (map (all_hits ''CVE-1'' False search_sample) [''x'', ''y''])) = 2"
    by (simp add: sample_hits)
  then show ?thesis
    using t [THEN conjunct2, THEN conjunct2, THEN conjunct1]
      t [THEN conjunct2, THEN conjunct2, THEN conjunct2, THEN conjunct2]
    by (simp add: r d) (simp add: search_sample_def)
qed

end
