(* ===== verification/Overview_Cache.thy ===== *)
theory Overview_Cache
  imports Instance_Overview
begin

section \<open>The overview snapshot cache\<close>

text \<open>
  \<open>OverviewCache\<close> of \<open>server/src/storage/overview.rs\<close>: a snapshot of the storage usage and the trend
  baselines, tagged with the generation it was computed for. A computation holds the lock of the
  cache and reads five directories one after the other while jobs go on writing and invalidating.
  \<open>cutoffs\<close> formats the day a number of days before a date (\<open>chrono\<close>). The generation is a \<open>nat\<close>: it
  counts finished jobs and cannot reach \<open>2 ^ 64\<close>.
\<close>

subsection \<open>The cache\<close>

record disk =
  dk_repos :: "walk_entry list"
  dk_results :: "walk_entry list"
  dk_state :: "walk_entry list"
  dk_metrics :: "walk_entry list"
  dk_series :: "metrics_series option list"

record overview_snapshot =
  sn_generation :: nat
  sn_date :: int
  sn_storage :: storage_usage
  sn_baselines :: "string \<rightharpoonup> trend_baselines"

record overview_cache =
  oc_generation :: nat
  oc_snapshot :: "overview_snapshot option"

type_synonym calendar = "int \<Rightarrow> nat \<Rightarrow> string option"

definition overview_cache_default :: overview_cache where
  "overview_cache_default = \<lparr>oc_generation = 0, oc_snapshot = None\<rparr>"

definition lookup_snapshot :: "int \<Rightarrow> overview_cache \<Rightarrow> overview_snapshot option" where
  "lookup_snapshot today c = (case oc_snapshot c of
     Some s \<Rightarrow> if sn_generation s = oc_generation c \<and> sn_date s = today then Some s else None
   | None \<Rightarrow> None)"

text \<open>The computation, with the state of the disk at each of its five reads.\<close>

definition compute_snapshot :: "calendar \<Rightarrow> nat \<Rightarrow> int \<Rightarrow> disk \<Rightarrow> disk \<Rightarrow> disk \<Rightarrow> disk \<Rightarrow> disk
    \<Rightarrow> string + overview_snapshot" where
  "compute_snapshot cutoffs generation today d1 d2 d3 d4 d5 =
     (case storage_usage_of (dk_repos d1) (dk_results d2) (dk_state d3) (dk_metrics d4) of
        Inl e \<Rightarrow> Inl e
      | Inr usage \<Rightarrow> Inr \<lparr>sn_generation = generation, sn_date = today, sn_storage = usage,
          sn_baselines = load_baselines (dk_series d5) (cutoffs today)\<rparr>)"

text \<open>The same for a history of the disk and the times of the reads.\<close>

definition compute_at :: "calendar \<Rightarrow> nat \<Rightarrow> int \<Rightarrow> (nat \<Rightarrow> disk) \<Rightarrow> nat list \<Rightarrow> string + overview_snapshot" where
  "compute_at cutoffs generation today disk ts = compute_snapshot cutoffs generation today
     (disk (ts ! 0)) (disk (ts ! 1)) (disk (ts ! 2)) (disk (ts ! 3)) (disk (ts ! 4))"

lemma compute_at_cong:
  assumes "length ts = 5" "\<And>t. t \<in> set ts \<Longrightarrow> disk' t = disk t"
  shows "compute_at cutoffs g today disk' ts = compute_at cutoffs g today disk ts"
proof -
  have "disk' (ts ! i) = disk (ts ! i)" if "i < 5" for i using assms that by simp
  then show ?thesis by (simp add: compute_at_def)
qed

definition invalidate_overview :: "overview_cache \<Rightarrow> overview_cache" where
  "invalidate_overview c = c\<lparr>oc_generation := Suc (oc_generation c)\<rparr>"

text \<open>A call that nothing interrupts.\<close>

definition overview_snapshot_of :: "calendar \<Rightarrow> int \<Rightarrow> disk \<Rightarrow> overview_cache
    \<Rightarrow> (string + overview_snapshot) \<times> overview_cache" where
  "overview_snapshot_of cutoffs today d c = (case lookup_snapshot today c of
     Some s \<Rightarrow> (Inr s, c)
   | None \<Rightarrow> (case compute_snapshot cutoffs (oc_generation c) today d d d d d of
       Inl e \<Rightarrow> (Inl e, c)
     | Inr s \<Rightarrow> (Inr s, c\<lparr>oc_snapshot := Some s\<rparr>)))"

definition refresh_overview :: "calendar \<Rightarrow> int \<Rightarrow> disk \<Rightarrow> overview_cache
    \<Rightarrow> (string + overview_snapshot) \<times> overview_cache" where
  "refresh_overview cutoffs today d c = overview_snapshot_of cutoffs today d (invalidate_overview c)"

subsection \<open>Concurrent calls\<close>

text \<open>
  Time counts the writes to the disk; \<open>os_disk\<close> is its history and \<open>os_begun g\<close> the time at which
  generation \<open>g\<close> began. \<open>os_lock\<close> is the running computation: its generation, its day and the times
  of its reads so far. \<open>os_served\<close> is the last answer, with the generation at the start of the call.
\<close>

record overview_system =
  os_time :: nat
  os_disk :: "nat \<Rightarrow> disk"
  os_begun :: "nat \<Rightarrow> nat"
  os_cache :: overview_cache
  os_lock :: "(nat \<times> int \<times> nat list) option"
  os_served :: "(nat \<times> int \<times> overview_snapshot) option"

inductive overview_step :: "calendar \<Rightarrow> overview_system \<Rightarrow> overview_system \<Rightarrow> bool" for cutoffs where
  DiskWrite: "overview_step cutoffs s
    (s\<lparr>os_time := Suc (os_time s), os_disk := (os_disk s)(Suc (os_time s) := d)\<rparr>)"
| Invalidate: "overview_step cutoffs s (s\<lparr>os_cache := invalidate_overview (os_cache s),
    os_begun := (os_begun s)(Suc (oc_generation (os_cache s)) := os_time s)\<rparr>)"
| Hit: "os_lock s = None \<Longrightarrow> lookup_snapshot today (os_cache s) = Some snapshot
    \<Longrightarrow> overview_step cutoffs s (s\<lparr>os_served := Some (oc_generation (os_cache s), today, snapshot)\<rparr>)"
| Miss: "os_lock s = None \<Longrightarrow> lookup_snapshot today (os_cache s) = None
    \<Longrightarrow> overview_step cutoffs s (s\<lparr>os_lock := Some (oc_generation (os_cache s), today, [])\<rparr>)"
| Read: "os_lock s = Some (g, today, ts) \<Longrightarrow> length ts < 5
    \<Longrightarrow> overview_step cutoffs s (s\<lparr>os_lock := Some (g, today, ts @ [os_time s])\<rparr>)"
| ReadFails: "os_lock s = Some l \<Longrightarrow> overview_step cutoffs s (s\<lparr>os_lock := None\<rparr>)"
| Finish: "os_lock s = Some (g, today, ts) \<Longrightarrow> length ts = 5
    \<Longrightarrow> compute_at cutoffs g today (os_disk s) ts = Inr snapshot
    \<Longrightarrow> overview_step cutoffs s (s\<lparr>os_lock := None, os_cache := (os_cache s)\<lparr>oc_snapshot := Some snapshot\<rparr>,
          os_served := Some (g, today, snapshot)\<rparr>)"

inductive overview_reachable :: "calendar \<Rightarrow> overview_system \<Rightarrow> bool" for cutoffs where
  Boot: "overview_reachable cutoffs \<lparr>os_time = 0, os_disk = (\<lambda>_. d), os_begun = (\<lambda>_. 0),
    os_cache = overview_cache_default, os_lock = None, os_served = None\<rparr>"
| Next: "overview_reachable cutoffs s \<Longrightarrow> overview_step cutoffs s t \<Longrightarrow> overview_reachable cutoffs t"

subsection \<open>A served snapshot is no older than the last invalidation before the call\<close>

text \<open>\<open>snapshot\<close> shows the disk as it was at times not before generation \<open>g\<close> began.\<close>

definition reflects :: "calendar \<Rightarrow> overview_system \<Rightarrow> nat \<Rightarrow> overview_snapshot \<Rightarrow> bool" where
  "reflects cutoffs s g snapshot \<longleftrightarrow> sn_generation snapshot = g \<and> (\<exists>ts. length ts = 5
     \<and> (\<forall>t \<in> set ts. os_begun s g \<le> t \<and> t \<le> os_time s)
     \<and> compute_at cutoffs g (sn_date snapshot) (os_disk s) ts = Inr snapshot)"

definition overview_ok :: "calendar \<Rightarrow> overview_system \<Rightarrow> bool" where
  "overview_ok cutoffs s \<longleftrightarrow> (\<forall>g \<le> oc_generation (os_cache s). os_begun s g \<le> os_time s)
     \<and> (\<forall>snapshot. oc_snapshot (os_cache s) = Some snapshot
         \<longrightarrow> sn_generation snapshot \<le> oc_generation (os_cache s) \<and> reflects cutoffs s (sn_generation snapshot) snapshot)
     \<and> (\<forall>g today ts. os_lock s = Some (g, today, ts) \<longrightarrow> g \<le> oc_generation (os_cache s)
         \<and> (\<forall>t \<in> set ts. os_begun s g \<le> t \<and> t \<le> os_time s))
     \<and> (\<forall>g today snapshot. os_served s = Some (g, today, snapshot) \<longrightarrow> g \<le> oc_generation (os_cache s)
         \<and> sn_date snapshot = today \<and> reflects cutoffs s g snapshot)"

text \<open>Time goes on, generations begin, and what was shown stays shown.\<close>

lemma reflects_later:
  assumes "reflects cutoffs s g snapshot" "os_begun t g = os_begun s g" "os_time s \<le> os_time t"
    "\<And>i. i \<le> os_time s \<Longrightarrow> os_disk t i = os_disk s i"
  shows "reflects cutoffs t g snapshot"
proof -
  obtain ts where r: "length ts = 5" "\<forall>i \<in> set ts. os_begun s g \<le> i \<and> i \<le> os_time s"
    "compute_at cutoffs g (sn_date snapshot) (os_disk s) ts = Inr snapshot"
    using assms(1) unfolding reflects_def by blast
  have "compute_at cutoffs g (sn_date snapshot) (os_disk t) ts = compute_at cutoffs g (sn_date snapshot) (os_disk s) ts"
    by (rule compute_at_cong [OF r(1)]) (use r(2) assms(4) in blast)
  moreover have "sn_generation snapshot = g" using assms(1) by (simp add: reflects_def)
  moreover have "\<forall>i \<in> set ts. os_begun t g \<le> i \<and> i \<le> os_time t" using r(2) assms(2,3) by auto
  ultimately show ?thesis using r unfolding reflects_def by auto
qed

lemma ok_parts:
  assumes "overview_ok cutoffs s"
  shows "g \<le> oc_generation (os_cache s) \<Longrightarrow> os_begun s g \<le> os_time s"
    "oc_snapshot (os_cache s) = Some snapshot \<Longrightarrow> sn_generation snapshot \<le> oc_generation (os_cache s)"
    "oc_snapshot (os_cache s) = Some snapshot \<Longrightarrow> reflects cutoffs s (sn_generation snapshot) snapshot"
    "os_lock s = Some (g, today, ts) \<Longrightarrow> g \<le> oc_generation (os_cache s)"
    "os_lock s = Some (g, today, ts) \<Longrightarrow> i \<in> set ts \<Longrightarrow> os_begun s g \<le> i \<and> i \<le> os_time s"
    "os_served s = Some (g, today, snapshot) \<Longrightarrow> g \<le> oc_generation (os_cache s)"
    "os_served s = Some (g, today, snapshot) \<Longrightarrow> sn_date snapshot = today"
    "os_served s = Some (g, today, snapshot) \<Longrightarrow> reflects cutoffs s g snapshot"
  using assms unfolding overview_ok_def by blast+

text \<open>A step under which nothing that was shown changes.\<close>

lemma ok_later:
  assumes ok: "overview_ok cutoffs s"
    and past: "os_time s \<le> os_time t" "\<And>i. i \<le> os_time s \<Longrightarrow> os_disk t i = os_disk s i"
      "\<And>g. g \<le> oc_generation (os_cache s) \<Longrightarrow> os_begun t g = os_begun s g"
    and gen: "oc_generation (os_cache s) \<le> oc_generation (os_cache t)"
      "\<And>g. g \<le> oc_generation (os_cache t) \<Longrightarrow> oc_generation (os_cache s) < g \<Longrightarrow> os_begun t g \<le> os_time t"
    and cached: "\<And>snapshot. oc_snapshot (os_cache t) = Some snapshot \<Longrightarrow> oc_snapshot (os_cache s) = Some snapshot
        \<or> sn_generation snapshot \<le> oc_generation (os_cache s) \<and> reflects cutoffs s (sn_generation snapshot) snapshot"
    and lock: "\<And>g today ts. os_lock t = Some (g, today, ts) \<Longrightarrow> os_lock s = Some (g, today, ts)
        \<or> g \<le> oc_generation (os_cache s) \<and> (\<forall>i \<in> set ts. os_begun s g \<le> i \<and> i \<le> os_time s)"
    and served: "\<And>g today snapshot. os_served t = Some (g, today, snapshot) \<Longrightarrow> os_served s = Some (g, today, snapshot)
        \<or> g \<le> oc_generation (os_cache s) \<and> sn_date snapshot = today \<and> reflects cutoffs s g snapshot"
  shows "overview_ok cutoffs t"
  unfolding overview_ok_def
proof (intro conjI allI impI)
  note later = reflects_later [OF _ past(3) past(1) past(2)]
  show "os_begun t g \<le> os_time t" if "g \<le> oc_generation (os_cache t)" for g
  proof (cases "g \<le> oc_generation (os_cache s)")
    case True
    then show ?thesis using ok_parts(1) [OF ok True] past(1) past(3) [OF True] by simp
  qed (use gen(2) that in simp)
  show "sn_generation snapshot \<le> oc_generation (os_cache t)" "reflects cutoffs t (sn_generation snapshot) snapshot"
    if c: "oc_snapshot (os_cache t) = Some snapshot" for snapshot
  proof -
    have "sn_generation snapshot \<le> oc_generation (os_cache s) \<and> reflects cutoffs s (sn_generation snapshot) snapshot"
      using cached [OF c] ok_parts(2,3) [OF ok] by blast
    then show "sn_generation snapshot \<le> oc_generation (os_cache t)" "reflects cutoffs t (sn_generation snapshot) snapshot"
      using gen(1) later by auto
  qed
  show "g \<le> oc_generation (os_cache t)" "\<forall>i \<in> set ts. os_begun t g \<le> i \<and> i \<le> os_time t"
    if l: "os_lock t = Some (g, today, ts)" for g today ts
  proof -
    have "g \<le> oc_generation (os_cache s) \<and> (\<forall>i \<in> set ts. os_begun s g \<le> i \<and> i \<le> os_time s)"
      using lock [OF l] ok_parts(4,5) [OF ok] by blast
    then show "g \<le> oc_generation (os_cache t)" "\<forall>i \<in> set ts. os_begun t g \<le> i \<and> i \<le> os_time t"
      using gen(1) past(1) past(3) [of g] by auto
  qed
  show "g \<le> oc_generation (os_cache t)" "sn_date snapshot = today" "reflects cutoffs t g snapshot"
    if v: "os_served t = Some (g, today, snapshot)" for g today snapshot
  proof -
    have "g \<le> oc_generation (os_cache s) \<and> sn_date snapshot = today \<and> reflects cutoffs s g snapshot"
      using served [OF v] ok_parts(6-8) [OF ok] by blast
    then show "g \<le> oc_generation (os_cache t)" "sn_date snapshot = today" "reflects cutoffs t g snapshot"
      using gen(1) later by auto
  qed
qed

lemma overview_ok_step:
  assumes "overview_step cutoffs s t" "overview_ok cutoffs s"
  shows "overview_ok cutoffs t"
  using assms(1)
proof cases
  case (DiskWrite d)
  show ?thesis unfolding DiskWrite by (rule ok_later [OF assms(2)]) simp_all
next
  case Invalidate
  show ?thesis unfolding Invalidate
    by (rule ok_later [OF assms(2)]) (auto simp: invalidate_overview_def le_Suc_eq)
next
  case (Hit today snapshot)
  then have c: "oc_snapshot (os_cache s) = Some snapshot" "sn_generation snapshot = oc_generation (os_cache s)" "sn_date snapshot = today"
    by (auto simp: lookup_snapshot_def split: option.splits if_splits)
  show ?thesis unfolding Hit(1)
    by (rule ok_later [OF assms(2)]) (use c ok_parts(3) [OF assms(2) c(1)] in auto)
next
  case (Miss today)
  show ?thesis unfolding Miss(1) by (rule ok_later [OF assms(2)]) auto
next
  case (Read g today ts)
  show ?thesis unfolding Read(1)
    by (rule ok_later [OF assms(2)])
      (use ok_parts(4,5) [OF assms(2) Read(2)] ok_parts(1) [OF assms(2), of g] in auto)
next
  case (ReadFails l)
  show ?thesis unfolding ReadFails(1) by (rule ok_later [OF assms(2)]) auto
next
  case (Finish g today ts snapshot)
  have d: "sn_date snapshot = today" "sn_generation snapshot = g"
    using Finish(4) by (auto simp: compute_at_def compute_snapshot_def split: sum.splits)
  have "reflects cutoffs s g snapshot"
    unfolding reflects_def d using Finish(3,4) ok_parts(5) [OF assms(2) Finish(2)] by blast
  then show ?thesis unfolding Finish(1)
    by (intro ok_later [OF assms(2)]) (use d ok_parts(4) [OF assms(2) Finish(2)] in auto)
qed

lemma overview_ok_reachable: "overview_reachable cutoffs s \<Longrightarrow> overview_ok cutoffs s"
proof (induction rule: overview_reachable.induct)
  case (Boot d)
  show ?case by (simp add: overview_ok_def overview_cache_default_def)
qed (rule overview_ok_step)

text \<open>
  C27. The overview never lags behind an invalidation. Every snapshot it serves is of the requested
  day and was measured at times not before the last invalidation that preceded the call, however
  jobs write and invalidate while it is computed; in particular, if nothing was written since that
  invalidation, the answer is the one a fresh computation gives.
\<close>

theorem overview_served_fresh:
  assumes "overview_reachable cutoffs s" and "os_served s = Some (g, today, snapshot)"
  shows "sn_date snapshot = today \<and> g \<le> oc_generation (os_cache s)
    \<and> (\<exists>ts. length ts = 5 \<and> (\<forall>t \<in> set ts. os_begun s g \<le> t \<and> t \<le> os_time s)
        \<and> compute_at cutoffs g today (os_disk s) ts = Inr snapshot)
    \<and> (os_begun s g = os_time s \<longrightarrow> (let d = os_disk s (os_time s) in
        compute_snapshot cutoffs g today d d d d d = Inr snapshot))"
proof -
  note parts = ok_parts(6-8) [OF overview_ok_reachable [OF assms(1)] assms(2)]
  obtain ts where r: "length ts = 5" "\<forall>t \<in> set ts. os_begun s g \<le> t \<and> t \<le> os_time s"
    "compute_at cutoffs g today (os_disk s) ts = Inr snapshot"
    using parts(3) unfolding reflects_def parts(2) by blast
  have "ts ! i = os_time s" if "os_begun s g = os_time s" "i < 5" for i
    using r(1,2) that nth_mem [of i ts] by (metis le_antisym)
  then show ?thesis
    using r parts(1,2) by (intro conjI) (auto simp: compute_at_def Let_def)
qed

text \<open>A request after a finished job; a file appears while the snapshot is computed.\<close>

definition sample_disk :: "nat \<Rightarrow> disk" where
  "sample_disk n = \<lparr>dk_repos = [FileOf (FileLength n)], dk_results = [], dk_state = [], dk_metrics = [], dk_series = []\<rparr>"

definition sample_call :: overview_system where
  "sample_call = \<lparr>os_time = 1, os_disk = (\<lambda>_. sample_disk 7)(1 := sample_disk 9), os_begun = (\<lambda>_. 0)(1 := 0),
     os_cache = invalidate_overview overview_cache_default, os_lock = Some (1, 3, [0, 1, 1, 1, 1]), os_served = None\<rparr>"

lemma sample_call_reachable: "overview_reachable (\<lambda>_ _. None) sample_call"
proof -
  let ?c = "\<lambda>_ _. None" and ?d = "\<lambda>_. sample_disk 7" and ?g = "(\<lambda>_. 0 :: nat)(1 := 0)"
  let ?later = "(\<lambda>_. sample_disk 7)(1 := sample_disk 9)"
  let ?s = "\<lambda>time disk lock. \<lparr>os_time = time, os_disk = disk, os_begun = ?g,
    os_cache = invalidate_overview overview_cache_default, os_lock = lock, os_served = None\<rparr>"
  have read: "overview_reachable ?c (?s time disk (Some (1, 3, ts @ [time])))"
    if "overview_reachable ?c (?s time disk (Some (1, 3, ts)))" "length ts < 5" for time disk ts
    using Next [OF that(1) Read [of _ 1 3 ts]] that(2) by simp
  have "overview_reachable ?c \<lparr>os_time = 0, os_disk = ?d, os_begun = (\<lambda>_. 0),
    os_cache = overview_cache_default, os_lock = None, os_served = None\<rparr>" by (rule Boot)
  from Next [OF this Invalidate] have "overview_reachable ?c (?s 0 ?d None)" by (simp add: overview_cache_default_def)
  from Next [OF this Miss [of _ 3]] have "overview_reachable ?c (?s 0 ?d (Some (1, 3, [])))"
    by (simp add: invalidate_overview_def overview_cache_default_def lookup_snapshot_def)
  from Next [OF read [OF this] DiskWrite [where d = "sample_disk 9"]]
  have "overview_reachable ?c (?s 1 ?later (Some (1, 3, [0])))" by simp
  from read [OF read [OF read [OF read [OF this]]]] show ?thesis by (simp add: sample_call_def)
qed

definition sample_snapshot :: overview_snapshot where
  "sample_snapshot = \<lparr>sn_generation = 1, sn_date = 3,
     sn_storage = \<lparr>su_repositories = 7, su_results = 0, su_state = 0, su_metrics = 0\<rparr>, sn_baselines = Map.empty\<rparr>"

definition sample_served :: overview_system where
  "sample_served = sample_call\<lparr>os_lock := None, os_cache := (os_cache sample_call)\<lparr>oc_snapshot := Some sample_snapshot\<rparr>,
     os_served := Some (1, 3, sample_snapshot)\<rparr>"

theorem overview_served_fresh_witness:
  "\<exists>ts. length ts = 5 \<and> compute_at (\<lambda>_ _. None) 1 3 (os_disk sample_served) ts = Inr sample_snapshot"
proof -
  have "compute_at (\<lambda>_ _. None) 1 3 (os_disk sample_call) [0, 1, 1, 1, 1] = Inr sample_snapshot"
    by (simp add: compute_at_def compute_snapshot_def sample_call_def sample_disk_def sample_snapshot_def
        storage_usage_of_def directory_size_def add_entry_def load_baselines_def List.map_filter_simps)
  moreover have "os_lock sample_call = Some (1, 3, [0, 1, 1, 1, 1])" by (simp add: sample_call_def)
  ultimately have "overview_step (\<lambda>_ _. None) sample_call sample_served"
    using Finish [of sample_call 1 3 "[0, 1, 1, 1, 1]"] by (simp add: sample_served_def)
  then have "overview_reachable (\<lambda>_ _. None) sample_served" by (rule Next [OF sample_call_reachable])
  moreover have "os_served sample_served = Some (1, 3, sample_snapshot)" by (simp add: sample_served_def)
  ultimately show ?thesis using overview_served_fresh [of "\<lambda>_ _. None" sample_served] by blast
qed

end
