(* ===== verification/Source_Config.thy ===== *)
theory Source_Config
  imports Provider_Sources Advisory_Paths "HOL-Library.AList"
begin

section \<open>The configured sources\<close>

text \<open>
  \<open>server/src/config_sync.rs\<close> and the loading of sources in \<open>server/src/main.rs\<close> and
  \<open>server/src/startup.rs\<close>. Directories are lists of file names and contents in directory order with
  distinct names; \<open>None\<close> is a missing directory. The map of sources is an association list in an
  iteration order. Each operation on a file may fail: \<open>se_remove\<close>, \<open>se_copy\<close> and \<open>se_read\<close> give the
  error. \<open>se_clone\<close> and \<open>se_update\<close> are libgit2: they give an error, if any, and the \<open>sources\<close>
  directory of the checkout afterwards; \<open>se_parse\<close> is the TOML parser.
\<close>

type_synonym source_files = "(string \<times> string) list"

record source_env =
  se_remove :: "string \<Rightarrow> string option"
  se_copy :: "string \<Rightarrow> string option"
  se_read :: "string \<Rightarrow> string option"
  se_parse :: "string \<Rightarrow> source option"
  se_clone :: "string option \<times> source_files option"
  se_update :: "source_files option \<Rightarrow> string option \<times> source_files option"

record config_state =
  cf_checkout :: "source_files option option"
  cf_files :: "source_files option"
  cf_sources :: "(string \<times> source) list"
  cf_wake :: bool

subsection \<open>Copying\<close>

definition is_toml :: "string \<Rightarrow> bool" where
  "is_toml name \<longleftrightarrow> extension name = Some ''toml''"

fun remove_tomls :: "source_env \<Rightarrow> string list \<Rightarrow> source_files \<Rightarrow> string option \<times> source_files" where
  "remove_tomls env [] dest = (None, dest)"
| "remove_tomls env (name # names) dest =
     (if is_toml name then (case se_remove env name of
        Some e \<Rightarrow> (Some e, dest)
      | None \<Rightarrow> remove_tomls env names (AList.delete name dest))
      else remove_tomls env names dest)"

fun copy_tomls :: "source_env \<Rightarrow> source_files \<Rightarrow> source_files option \<Rightarrow> string option \<times> source_files option" where
  "copy_tomls env [] dest = (None, dest)"
| "copy_tomls env ((name, content) # src) dest =
     (if is_toml name then (case dest of
        None \<Rightarrow> (Some ''No such file or directory'', None)
      | Some files \<Rightarrow> (case se_copy env name of
          Some e \<Rightarrow> (Some e, dest)
        | None \<Rightarrow> copy_tomls env src (Some (AList.update name content files))))
      else copy_tomls env src dest)"

definition copy_sources :: "source_env \<Rightarrow> source_files option \<Rightarrow> source_files option
    \<Rightarrow> string option \<times> source_files option" where
  "copy_sources env src dest = (case src of
     None \<Rightarrow> (None, dest)
   | Some files \<Rightarrow> (case dest of
       None \<Rightarrow> copy_tomls env files None
     | Some old \<Rightarrow> (case remove_tomls env (map fst old) old of
         (Some e, rest) \<Rightarrow> (Some e, Some rest)
       | (None, rest) \<Rightarrow> copy_tomls env files (Some rest))))"

text \<open>\<open>config_sync::sync\<close>: clone or update, then copy.\<close>

definition sync_config :: "source_env \<Rightarrow> config_state \<Rightarrow> string option \<times> config_state" where
  "sync_config env st = (case (case cf_checkout st of
       Some tree \<Rightarrow> se_update env tree | None \<Rightarrow> se_clone env) of
     (Some e, tree) \<Rightarrow> (Some e, if cf_checkout st = None then st else st\<lparr>cf_checkout := Some tree\<rparr>)
   | (None, tree) \<Rightarrow> (case copy_sources env tree (cf_files st) of
       (r, files) \<Rightarrow> (r, st\<lparr>cf_checkout := Some tree, cf_files := files\<rparr>)))"

subsection \<open>Loading\<close>

definition load_source :: "source_env \<Rightarrow> string \<times> string \<Rightarrow> (string \<times> source) list \<Rightarrow> string + (string \<times> source) list" where
  "load_source env file sources = (case file of (name, content) \<Rightarrow>
     if is_toml name then (case se_read env name of
       Some e \<Rightarrow> Inl e
     | None \<Rightarrow> Inr (case se_parse env content of
         Some source \<Rightarrow> AList.update (src_domain source) source sources
       | None \<Rightarrow> sources))
     else Inr sources)"

definition load_sources_from_dir :: "source_env \<Rightarrow> source_files option \<Rightarrow> string + (string \<times> source) list" where
  "load_sources_from_dir env dir = (case dir of
     None \<Rightarrow> Inr [] | Some files \<Rightarrow> fold_res (load_source env) files [])"

text \<open>At startup the sources of the configuration file are added.\<close>

definition load_sources :: "source_env \<Rightarrow> source list \<Rightarrow> config_state \<Rightarrow> config_state" where
  "load_sources env inline st = st\<lparr>cf_sources := fold (\<lambda>s. AList.update (src_domain s) s) inline
     (case load_sources_from_dir env (cf_files st) of Inr sources \<Rightarrow> sources | Inl e \<Rightarrow> [])\<rparr>"

definition domains_changed :: "(string \<times> source) list \<Rightarrow> (string \<times> source) list \<Rightarrow> bool" where
  "domains_changed current sources \<longleftrightarrow> length current \<noteq> length sources
     \<or> (\<exists>k \<in> set (map fst current). k \<notin> set (map fst sources))"

definition reload_sources :: "source_env \<Rightarrow> config_state \<Rightarrow> config_state" where
  "reload_sources env st = (case load_sources_from_dir env (cf_files st) of
     Inr sources \<Rightarrow> st\<lparr>cf_sources := sources, cf_wake := (cf_wake st \<or> domains_changed (cf_sources st) sources)\<rparr>
   | Inl e \<Rightarrow> st)"

definition sync_and_reload_sources :: "source_env \<Rightarrow> bool \<Rightarrow> config_state \<Rightarrow> config_state" where
  "sync_and_reload_sources env github st =
     reload_sources env (if github then snd (sync_config env st) else st)"

subsection \<open>Facts\<close>

lemma removed_tomls:
  assumes "remove_tomls env names dest = (None, rest)" "distinct (map fst dest)"
  shows "map_of rest n = (if is_toml n \<and> n \<in> set names then None else map_of dest n)" "distinct (map fst rest)"
  using assms by (induction names arbitrary: dest)
    (auto simp: AList.delete_conv' AList.distinct_delete split: if_splits option.splits)

lemma copied_tomls:
  assumes "copy_tomls env src (Some dest) = (None, r)" "distinct (map fst dest)" "distinct (map fst src)"
  shows "\<exists>files. r = Some files \<and> distinct (map fst files)
    \<and> (\<forall>n. map_of files n = (if is_toml n \<and> n \<in> fst ` set src then map_of src n else map_of dest n))"
  using assms
proof (induction src arbitrary: dest)
  case (Cons f src)
  obtain n c where f: "f = (n, c)" by force
  show ?case
  proof (cases "is_toml n")
    case True
    have "copy_tomls env src (Some (AList.update n c dest)) = (None, r)"
      using Cons.prems(1) True by (simp add: f split: option.splits)
    from Cons.IH [OF this] Cons.prems(2,3) True show ?thesis
      by (auto simp: f distinct_update update_conv' image_iff)
  next
    case False
    then have "copy_tomls env src (Some dest) = (None, r)" using Cons.prems(1) by (simp add: f)
    from Cons.IH [OF this] Cons.prems(2,3) False show ?thesis by (auto simp: f)
  qed
qed auto

lemma copied_sources:
  assumes "copy_sources env (Some src) (Some dest) = (None, r)" "distinct (map fst dest)" "distinct (map fst src)"
  shows "\<exists>files. r = Some files \<and> distinct (map fst files)
    \<and> (\<forall>n. map_of files n = (if is_toml n then map_of src n else map_of dest n))"
proof -
  obtain rest where rest: "remove_tomls env (map fst dest) dest = (None, rest)" "copy_tomls env src (Some rest) = (None, r)"
    using assms(1) by (auto simp: copy_sources_def split: prod.splits option.splits)
  note removed = removed_tomls [OF rest(1) assms(2)]
  obtain files where files: "r = Some files" "distinct (map fst files)"
    "\<And>n. map_of files n = (if is_toml n \<and> n \<in> fst ` set src then map_of src n else map_of rest n)"
    using copied_tomls [OF rest(2) removed(2) assms(3)] by blast
  have "map_of files n = (if is_toml n then map_of src n else map_of dest n)" for n
    using files(3) [of n] removed(1) [of n] map_of_eq_None_iff [of src n] map_of_eq_None_iff [of dest n]
    by (cases "is_toml n"; cases "n \<in> fst ` set src"; cases "n \<in> fst ` set dest") simp_all
  then show ?thesis using files(1,2) by blast
qed

text \<open>The sources a directory describes: those of its TOML files that parse.\<close>

definition described :: "source_env \<Rightarrow> source_files \<Rightarrow> source set" where
  "described env files = {s. \<exists>n c. (n, c) \<in> set files \<and> is_toml n \<and> se_parse env c = Some s}"

lemma described_map:
  assumes "distinct (map fst files)" "distinct (map fst src)"
    and "\<And>n. is_toml n \<Longrightarrow> map_of files n = map_of src n"
  shows "described env files = described env src"
proof -
  have "(n, c) \<in> set files \<longleftrightarrow> (n, c) \<in> set src" if "is_toml n" for n c
    using assms(3) [OF that] map_of_eq_Some_iff [OF assms(1), of n c] map_of_eq_Some_iff [OF assms(2), of n c] by simp
  then show ?thesis unfolding described_def by blast
qed

lemma loaded_sources:
  assumes "fold_res (load_source env) files m = Inr sources"
    and "distinct (map fst m)" "\<And>d s. map_of m d = Some s \<Longrightarrow> src_domain s = d"
  shows "distinct (map fst sources)" "map_of sources d = Some s \<Longrightarrow> src_domain s = d \<and> (s \<in> described env files \<or> map_of m d = Some s)"
    "fst ` set sources = src_domain ` described env files \<union> fst ` set m"
proof -
  have "distinct (map fst sources)
    \<and> (\<forall>d s. map_of sources d = Some s \<longrightarrow> src_domain s = d \<and> (s \<in> described env files \<or> map_of m d = Some s))
    \<and> fst ` set sources = src_domain ` described env files \<union> fst ` set m"
    using assms
  proof (induction files arbitrary: m)
    case (Cons f files)
    obtain n c where f: "f = (n, c)" by force
    show ?case
    proof (cases "is_toml n \<and> se_parse env c \<noteq> None")
      case False
      then have "load_source env f m = Inr m"
        using Cons.prems(1) by (auto simp: f load_source_def split: option.splits if_splits)
      moreover have "described env (f # files) = described env files" using False by (auto simp: described_def f)
      ultimately show ?thesis using Cons.IH [of m] Cons.prems by simp
    next
      case True
      then obtain x where x: "is_toml n" "se_parse env c = Some x" by blast
      let ?m = "AList.update (src_domain x) x m"
      have step: "load_source env f m = Inr ?m"
        using Cons.prems(1) x by (auto simp: f load_source_def split: option.splits)
      have files: "described env (f # files) = insert x (described env files)"
        using x by (auto simp: described_def f)
      have upd: "map_of ?m d = (if d = src_domain x then Some x else map_of m d)" for d by (simp add: update_conv')
      then have dom: "map_of ?m d = Some s \<Longrightarrow> src_domain s = d" for d s
        using Cons.prems(3) [of d s] by (auto split: if_splits)
      have keys: "fst ` set ?m = insert (src_domain x) (fst ` set m)"
        using dom_update [of "src_domain x" x m] by (simp add: dom_map_of_conv_image_fst)
      have "fold_res (load_source env) files ?m = Inr sources" using Cons.prems(1) by (simp add: step)
      note IH = Cons.IH [OF this distinct_update [OF Cons.prems(2)] dom]
      have "src_domain s = d \<and> (s \<in> described env (f # files) \<or> map_of m d = Some s)" if "map_of sources d = Some s" for d s
      proof -
        have "src_domain s = d" "s \<in> described env files \<or> map_of ?m d = Some s" using IH that by blast+
        then show ?thesis unfolding files upd by (auto split: if_splits)
      qed
      moreover have "fst ` set sources = src_domain ` described env (f # files) \<union> fst ` set m"
        using IH unfolding files keys by simp
      ultimately show ?thesis using IH by blast
    qed
  qed (simp add: described_def)
  then show "distinct (map fst sources)" "map_of sources d = Some s \<Longrightarrow> src_domain s = d \<and> (s \<in> described env files \<or> map_of m d = Some s)"
    "fst ` set sources = src_domain ` described env files \<union> fst ` set m" by blast+
qed

text \<open>The comparison of sizes and of one direction of membership decides equality of the domains.\<close>

lemma domains_changed_iff:
  assumes "distinct (map fst current)" "distinct (map fst sources)"
  shows "domains_changed current sources \<longleftrightarrow> fst ` set current \<noteq> fst ` set sources"
proof -
  have n: "card (fst ` set m) = length m" if "distinct (map fst m)" for m :: "(string \<times> source) list"
    using distinct_card [OF that] by simp
  show ?thesis
  proof (cases "fst ` set current \<subseteq> fst ` set sources")
    case True
    then have "fst ` set current = fst ` set sources \<longleftrightarrow> length current = length sources"
      using card_subset_eq [OF _ True] n [OF assms(1)] n [OF assms(2)] by auto
    then show ?thesis using True by (auto simp: domains_changed_def)
  qed (auto simp: domains_changed_def)
qed

text \<open>
  C28. The sources follow the configuration repository. After a synchronization that succeeds, the
  configuration directory has exactly the TOML files of the checkout beside its other files, the
  loaded sources are, by domain, those the checkout describes, and the scheduler is woken exactly if
  the set of domains changed.
\<close>

theorem sources_follow_repository:
  assumes "sync_config env st = (None, st1)" and "cf_checkout st1 = Some (Some tree)"
    and "cf_files st = Some old" and "distinct (map fst old)" and "distinct (map fst tree)"
    and "distinct (map fst (cf_sources st))"
    and "load_sources_from_dir env (cf_files st1) = Inr sources"
    and "st' = sync_and_reload_sources env True st"
  shows "(\<exists>files. cf_files st' = Some files
        \<and> (\<forall>n. map_of files n = (if is_toml n then map_of tree n else map_of old n)))
    \<and> dom (map_of (cf_sources st')) = src_domain ` described env tree
    \<and> (\<forall>d s. map_of (cf_sources st') d = Some s \<longrightarrow> src_domain s = d \<and> s \<in> described env tree)
    \<and> (cf_wake st' \<longleftrightarrow> cf_wake st \<or> fst ` set (cf_sources st) \<noteq> src_domain ` described env tree)"
proof -
  obtain r where r: "copy_sources env (Some tree) (Some old) = (None, r)" "cf_files st1 = r"
    "cf_sources st1 = cf_sources st" "cf_wake st1 = cf_wake st"
    using assms(1-3) by (auto simp: sync_config_def split: prod.splits option.splits if_splits)
  obtain files where files: "r = Some files" "distinct (map fst files)"
    "\<And>n. map_of files n = (if is_toml n then map_of tree n else map_of old n)"
    using copied_sources [OF r(1) assms(4,5)] by blast
  have "fold_res (load_source env) files [] = Inr sources"
    using assms(7) by (simp add: load_sources_from_dir_def r(2) files(1))
  note loaded = loaded_sources [OF this]
  have same: "described env files = described env tree"
    by (rule described_map [OF files(2) assms(5)]) (simp add: files(3))
  have st': "cf_files st' = Some files" "cf_sources st' = sources"
    "cf_wake st' \<longleftrightarrow> cf_wake st \<or> domains_changed (cf_sources st) sources"
    using assms(1,7,8) r files(1) by (auto simp: sync_and_reload_sources_def reload_sources_def)
  have "distinct (map fst sources)" by (rule loaded(1)) simp_all
  note changed = domains_changed_iff [OF assms(6) this]
  have keys: "fst ` set sources = src_domain ` described env tree" using loaded(3) same by simp
  have entries: "src_domain s = d \<and> s \<in> described env tree" if "map_of sources d = Some s" for d s
    using loaded(2) [OF _ _ that] same by simp
  show ?thesis
    using files(3) keys entries by (simp add: st' changed keys dom_map_of_conv_image_fst)
qed

text \<open>
  The sources given in the configuration file are loaded at startup only: a reload replaces them.
\<close>

lemma inline_sources_lost:
  assumes "load_sources_from_dir env (cf_files st) = Inr sources" "src_domain s \<notin> fst ` set sources"
  shows "map_of (cf_sources (load_sources env [s] st)) (src_domain s) = Some s"
    "map_of (cf_sources (reload_sources env (load_sources env [s] st))) (src_domain s) = None"
  using assms by (simp_all add: load_sources_def reload_sources_def update_conv' map_of_eq_None_iff)

definition example_source :: "string \<Rightarrow> source" where
  "example_source domain = \<lparr>src_domain = domain, src_enabled = True, src_accept_v3_signatures = False, src_retries = None,
     src_aggregator_include = None, src_skip_directories = [], src_note = None, src_user_agent = None\<rparr>"

definition config_sample_env :: source_env where
  "config_sample_env = \<lparr>se_remove = (\<lambda>_. None), se_copy = (\<lambda>_. None), se_read = (\<lambda>_. None),
     se_parse = (\<lambda>c. if c = [] then None else Some (example_source c)),
     se_clone = (None, Some [(''a.toml'', ''x''), (''b.toml'', [])]), se_update = (\<lambda>tree. (None, tree))\<rparr>"

definition config_sample :: config_state where
  "config_sample = \<lparr>cf_checkout = None, cf_files = Some [(''c.toml'', ''z''), (''note'', ''n'')],
     cf_sources = [(''z'', example_source ''z'')], cf_wake = False\<rparr>"

theorem sources_follow_repository_witness:
  "dom (map_of (cf_sources (sync_and_reload_sources config_sample_env True config_sample))) = {''x''}
   \<and> cf_wake (sync_and_reload_sources config_sample_env True config_sample)"
proof -
  have toml: "is_toml ''a.toml''" "is_toml ''b.toml''" "is_toml ''c.toml''" "\<not> is_toml ''note''"
    by (simp_all add: is_toml_def extension_def file_name_def after_last_def Let_def)
  let ?st1 = "config_sample\<lparr>cf_checkout := Some (Some [(''a.toml'', ''x''), (''b.toml'', [])]),
    cf_files := Some [(''note'', ''n''), (''a.toml'', ''x''), (''b.toml'', [])]\<rparr>"
  have s: "sync_config config_sample_env config_sample = (None, ?st1)"
    by (simp add: sync_config_def config_sample_def config_sample_env_def copy_sources_def toml AList.delete_eq)
  have l: "load_sources_from_dir config_sample_env (cf_files ?st1) = Inr [(''x'', example_source ''x'')]"
    by (simp add: load_sources_from_dir_def load_source_def toml config_sample_env_def example_source_def)
  have d: "described config_sample_env [(''a.toml'', ''x''), (''b.toml'', [])] = {example_source ''x''}"
    using toml by (auto simp: described_def config_sample_env_def split: if_splits)
  show ?thesis
    using sources_follow_repository [OF s _ _ _ _ _ l refl, of "[(''a.toml'', ''x''), (''b.toml'', [])]" "[(''c.toml'', ''z''), (''note'', ''n'')]"]
    unfolding d by (simp add: config_sample_def example_source_def)
qed

end
