(* ===== verification/Server_Startup.thy ===== *)
theory Server_Startup
  imports Instance_Store Instance_Overview Source_Config
begin

section \<open>Server state and startup\<close>

text \<open>
  \<open>AppState\<close> of \<open>server/src/main.rs\<close> and \<open>server/src/startup.rs\<close>: the tasks that run before the data
  endpoints answer, their reported progress, the restored jobs and sync points, and the refresh of
  outdated summaries. Times are nanoseconds.
\<close>

subsection \<open>Progress\<close>

record startup_status =
  ss_ready :: bool
  ss_task :: "string option"
  ss_current :: nat
  ss_all :: nat
  ss_completed :: "string list"

definition status_default :: startup_status where
  "status_default = \<lparr>ss_ready = False, ss_task = None, ss_current = 0, ss_all = 0, ss_completed = []\<rparr>"

definition complete_task :: "startup_status \<Rightarrow> startup_status" where
  "complete_task s = s\<lparr>ss_completed := ss_completed s @ (case ss_task s of Some t \<Rightarrow> [t] | None \<Rightarrow> []), ss_task := None,
     ss_current := 0, ss_all := 0\<rparr>"

definition startup_begin :: "string \<Rightarrow> startup_status \<Rightarrow> startup_status" where
  "startup_begin task s = (complete_task s)\<lparr>ss_task := Some task\<rparr>"

definition startup_progress :: "nat \<Rightarrow> nat \<Rightarrow> startup_status \<Rightarrow> startup_status" where
  "startup_progress current all s = s\<lparr>ss_current := current, ss_all := all\<rparr>"

definition startup_finish :: "startup_status \<Rightarrow> startup_status" where
  "startup_finish s = (complete_task s)\<lparr>ss_ready := True\<rparr>"

subsection \<open>State\<close>

record server =
  sr_config :: config_state
  sr_storage :: storage
  sr_jobs :: jobs
  sr_points :: "string \<rightharpoonup> sync_point list"
  sr_status :: startup_status
  sr_api_token :: "string option"
  sr_webhook_secret :: "string option"
  sr_spawned :: "(job_kind \<times> source) list"

definition report_progress :: "nat \<Rightarrow> nat \<Rightarrow> server \<Rightarrow> server" where
  "report_progress current all sv = sv\<lparr>sr_status := startup_progress current all (sr_status sv)\<rparr>"

definition begin_task :: "string \<Rightarrow> server \<Rightarrow> server" where
  "begin_task task sv = sv\<lparr>sr_status := startup_begin task (sr_status sv)\<rparr>"

subsection \<open>Restoring jobs\<close>

text \<open>\<open>last_sync_duration\<close>; the stored milliseconds are nanoseconds here.\<close>

definition last_sync_duration :: "storage \<Rightarrow> string \<Rightarrow> int option" where
  "last_sync_duration sg domain = (case database_of sg domain of None \<Rightarrow> None
     | Some db \<Rightarrow> map_option (\<lambda>ms. ms * 1000000) (load_last_sync_duration db))"

definition restored_job :: "sync_state \<Rightarrow> int \<Rightarrow> int \<Rightarrow> job_status" where
  "restored_job ss last_sync duration = (new_job JCompleted (last_sync - duration))\<lparr>
     jb_completed_at := Some last_sync, jb_documents_synced := sy_documents_synced ss,
     jb_documents_validated := sy_documents_validated ss, jb_documents_missing := sy_documents_missing ss,
     jb_documents_total := sy_documents_total ss, jb_last_completed_at := Some last_sync\<rparr>"

definition restore_job :: "storage \<Rightarrow> sync_state \<Rightarrow> (string \<times> job_status) option" where
  "restore_job sg ss = (case sy_last_sync ss of None \<Rightarrow> None
     | Some last_sync \<Rightarrow> Some (sy_domain ss, restored_job ss last_sync
         (case last_sync_duration sg (sy_domain ss) of Some d \<Rightarrow> d | None \<Rightarrow> 0)))"

definition restore_jobs :: "server \<Rightarrow> server" where
  "restore_jobs sv = (let states = list_sync_states (sr_storage sv); all = length states;
       restored = List.map_filter (restore_job (sr_storage sv)) states in
     (report_progress all all sv)\<lparr>sr_jobs := fold (\<lambda>(domain, job). update_job domain job) restored (sr_jobs sv)\<rparr>)"

definition recent_sync_points :: "storage \<Rightarrow> string \<Rightarrow> nat \<Rightarrow> sync_point list option" where
  "recent_sync_points sg domain limit = (case database_of sg domain of None \<Rightarrow> None
     | Some db \<Rightarrow> (let points = load_recent_sync_points db limit in if points = [] then None else Some points))"

definition load_sync_points :: "server \<Rightarrow> server" where
  "load_sync_points sv = (let domains = map fst (cf_sources (sr_config sv)); all = length domains;
       loaded = List.map_filter (\<lambda>d. map_option (Pair d) (recent_sync_points (sr_storage sv) d 30)) domains in
     (report_progress all all sv)\<lparr>sr_points := sr_points sv ++ map_of (rev loaded)\<rparr>)"

subsection \<open>Startup\<close>

definition run_startup :: "source_env \<Rightarrow> bool \<Rightarrow> source list \<Rightarrow> server \<Rightarrow> server" where
  "run_startup env github inline sv =
     (let sv1 = (if github
            then (begin_task ''Synchronizing configuration'' sv)\<lparr>sr_config := snd (sync_config env (sr_config sv))\<rparr>
            else sv);
          sv2 = begin_task ''Loading provider sources'' sv1;
          sv3 = sv2\<lparr>sr_config := load_sources env inline (sr_config sv2)\<rparr>;
          sv4 = restore_jobs (begin_task ''Restoring job statuses'' sv3);
          sv5 = load_sync_points (begin_task ''Loading sync history'' sv4) in
      sv5\<lparr>sr_status := startup_finish (sr_status sv5)\<rparr>)"

subsection \<open>Outdated summaries\<close>

text \<open>
  \<open>refresh_summaries\<close>: the summaries listed at the start, one after the other under the lock of the
  provider; a failure is logged. The flag tells that the overview was invalidated.
\<close>

definition refresh_one :: "(string \<Rightarrow> int) \<Rightarrow> provider_summary \<Rightarrow> storage \<times> bool \<Rightarrow> storage \<times> bool" where
  "refresh_one clock summary st = (case st of (sg, invalidated) \<Rightarrow>
     if SUMMARY_REVISION \<le> sm_summary_revision summary then (sg, invalidated)
     else (let domain = sm_provider summary in case load_summary domain sg of
       Some s \<Rightarrow> if sm_summary_revision s < SUMMARY_REVISION
         then (case refresh_stored_summary domain (clock domain) sg of
           (Inl e, sg') \<Rightarrow> (sg', invalidated)
         | (Inr _, sg') \<Rightarrow> (sg', True))
         else (sg, invalidated)
     | None \<Rightarrow> (sg, invalidated)))"

definition refresh_summaries :: "(string \<Rightarrow> int) \<Rightarrow> storage \<Rightarrow> storage \<times> bool" where
  "refresh_summaries clock sg = (case list_summaries sg of (summaries, sg') \<Rightarrow>
     fold (refresh_one clock) summaries (sg', False))"

end
