(* ===== verification/Startup_Facts.thy ===== *)
theory Startup_Facts
  imports Server_Startup Instance_Facts Pipeline_Facts
begin

section \<open>What startup restores\<close>

text \<open>
  A server that was stopped after a job and started again shows the job as it ended; startup reports
  its tasks in order; the refresh of summaries upgrades them without touching a document.
\<close>

subsection \<open>The state a synchronization leaves\<close>

lemma sync_state_after:
  assumes "run_pipeline pn s = Some (Inr ((), t))"
  shows "\<exists>since. st_sync t = Some ((load_sync_state (sn_domain (pn_snapshot pn)) s)
    \<lparr>sy_last_sync := Some (pn_now pn), sy_since_token := Some since\<rparr>)"
proof -
  let ?env = "pn_snapshot pn" and ?E = "\<lambda>_ :: provider_store. True"
  let ?same = "\<lambda>u. st_sync u = st_sync s"
  note keep = before_keeps [of "\<lambda>c y r. y = st_sync s", unfolded keeps_def]
  have fetch: "triple ?same (fetch_snapshot pn) (\<lambda>_. ?same) ?E"
    by (rule triple_weaken [OF fetch_keeps [of "\<lambda>c y. y = st_sync s" pn, unfolded keeps_def]]) simp_all
  have pass: "triple ?same (process_snapshot ?env dl False es) (\<lambda>_. ?same) ?E" for dl es
  proof (rule tripleI)
    fix u y v
    assume b: "?same u" and r: "process_snapshot ?env dl False es u = Some (Inr (y, v))"
    have "st_sync v = st_sync u" using keepsD(1) [OF snapshot_files _ r] by simp
    then show "?same v" using b by simp
  qed simp
  have meta: "triple ?same (persist_provider_metadata ?env parse files) (\<lambda>_. ?same) ?E" for parse files
    by (rule triple_weaken [OF keep(3)]) simp_all
  have errs: "triple ?same (step ?env st (updating (save_distribution_errors es))) (\<lambda>_. ?same) ?E" for st es
    by (rule triple_weaken [OF keeps_step [OF before_keeps(4) [of "\<lambda>c y r. y = st_sync s"], unfolded keeps_def]]) simp_all
  have members: "triple ?same (save_members ?env ms) (\<lambda>_. ?same) ?E" for ms by (rule triple_weaken [OF keep(5)]) simp_all
  have health: "triple ?same (refresh_health ?env menv) (\<lambda>_. ?same) ?E" for menv by (rule triple_weaken [OF keep(6)]) simp_all
  have last: "triple ?same (advance_sync_state ?env now result) (\<lambda>_ u. \<exists>since. st_sync u = Some ((load_sync_state (sn_domain ?env) s)
    \<lparr>sy_last_sync := Some now, sy_since_token := Some since\<rparr>)) ?E" for now result
    by (rule tripleI) (auto simp: advance_sync_state_def prog_Inr save_sync_state_def load_sync_state_def)
  have "triple ?same (run_pipeline pn) (\<lambda>_ u. \<exists>since. st_sync u = Some ((load_sync_state (sn_domain ?env) s)
    \<lparr>sy_last_sync := Some (pn_now pn), sy_since_token := Some since\<rparr>)) ?E"
    unfolding run_pipeline_def Let_def case_prod_beta
    by (intro triple_then [OF fetch] triple_then [OF meta] triple_then [OF errs] triple_then [OF pass] triple_then [OF members]
        triple_then [OF health] last)
  from tripleD(1) [OF this refl assms] show ?thesis .
qed

text \<open>The persisted state of a completed synchronization.\<close>

lemma completed_sync_state:
  assumes "run_job pn KSync begin finish s = Some (Inr ((), t))"
    and "sn_fault (pn_snapshot pn) AtPersistCounts = None" "sn_fault (pn_snapshot pn) AtSaveSyncRun = None"
  shows "\<exists>job since. st_jobs t (sn_domain (pn_snapshot pn)) = Some job \<and> jb_completed_at job = Some finish
    \<and> st_sync t = Some (with_job_counts job ((load_sync_state (sn_domain (pn_snapshot pn)) s)
        \<lparr>sy_last_sync := Some (pn_now pn), sy_since_token := Some since\<rparr>))
    \<and> load_last_sync_duration (st_db t) = Some (whole_milliseconds (finish - jb_started_at job))"
proof -
  let ?d = "sn_domain (pn_snapshot pn)"
  let ?s0 = "s\<lparr>st_jobs := update_job ?d (started_job KSync begin (st_jobs s ?d)) (st_jobs s)\<rparr>"
  obtain t1 where r: "run_pipeline pn ?s0 = Some (Inr ((), t1))"
    and t: "t = persist_job_counts (pn_snapshot pn) finish (completed_job finish (st_jobs t1 ?d))
      (t1\<lparr>st_jobs := update_job ?d (completed_job finish (st_jobs t1 ?d)) (st_jobs t1)\<rparr>)"
    using assms(1) by (auto simp: run_job_def Let_def split: option.splits sum.splits)
  let ?job = "completed_job finish (st_jobs t1 ?d)"
  obtain since where since: "st_sync t1 = Some ((load_sync_state ?d ?s0)
    \<lparr>sy_last_sync := Some (pn_now pn), sy_since_token := Some since\<rparr>)"
    using sync_state_after [OF r] by blast
  have at: "jb_completed_at ?job = Some finish" by (simp add: completed_job_def Let_def)
  show ?thesis
    by (intro exI [of _ ?job] exI [of _ since])
      (simp add: t persist_job_counts_def assms(2,3) Let_def at since load_sync_state_def save_sync_state_def
        update_job_def load_last_sync_duration_def save_sync_run_def)
qed

subsection \<open>Restoring\<close>

lemma restored_jobs:
  assumes "distinct (map sy_domain states)" "ss \<in> set states" "sy_last_sync ss = Some last_sync"
  shows "fold (\<lambda>(domain, job). update_job domain job) (List.map_filter (restore_job sg) states) jobs (sy_domain ss)
    = map_option snd (restore_job sg ss)"
  using assms
proof (induction states arbitrary: jobs)
  case (Cons x states)
  have other: "fold (\<lambda>(domain, job). update_job domain job) (List.map_filter (restore_job sg) xs) jobs d = jobs d"
    if "d \<notin> sy_domain ` set xs" for xs jobs d
    using that by (induction xs arbitrary: jobs)
      (auto simp: List.map_filter_simps restore_job_def update_job_def split: option.split)
  show ?case
  proof (cases "x = ss")
    case True
    then have "sy_domain ss \<notin> sy_domain ` set states" using Cons.prems(1) by simp
    note other = other [OF this]
    obtain r where "restore_job sg ss = Some (sy_domain ss, r)" using Cons.prems(3) by (simp add: restore_job_def)
    then show ?thesis
      by (simp only: True List.map_filter_simps option.case fold_simps prod.case other) (simp add: update_job_def)
  next
    case False
    then show ?thesis using Cons.IH Cons.prems by (auto simp: List.map_filter_simps split: option.split)
  qed
qed simp

lemma startup_parts:
  "sr_storage (run_startup env github inline sv) = sr_storage sv"
  "sr_jobs (run_startup env github inline sv) = fold (\<lambda>(domain, job). update_job domain job)
     (List.map_filter (restore_job (sr_storage sv)) (list_sync_states (sr_storage sv))) (sr_jobs sv)"
  by (simp_all add: run_startup_def Let_def load_sync_points_def restore_jobs_def begin_task_def report_progress_def)

text \<open>
  C29. A restart does not forget a job. After a synchronization that ended successfully, a server
  started on the same files shows the provider as completed at the time of its last sync, with the
  numbers of synced, validated, missing and all documents the job had when it ended and without an
  error, and started as many whole milliseconds earlier as the job took.
\<close>

theorem restart_restores_job:
  assumes "run_job pn KSync begin finish s = Some (Inr ((), t))"
    and "sn_fault (pn_snapshot pn) AtPersistCounts = None" "sn_fault (pn_snapshot pn) AtSaveSyncRun = None"
    and "domain = sn_domain (pn_snapshot pn)" and "sy_domain (load_sync_state domain s) = domain"
    and "st_sync t = Some state" "state \<in> set (list_sync_states (sr_storage sv))"
      "distinct (map sy_domain (list_sync_states (sr_storage sv)))"
    and "database_of (sr_storage sv) domain = Some (st_db t)"
  shows "\<exists>job restored. st_jobs t domain = Some job
    \<and> sr_jobs (run_startup env github inline sv) domain = Some restored
    \<and> jb_status restored = JCompleted \<and> jb_error restored = None
    \<and> jb_documents_synced restored = jb_documents_synced job
    \<and> jb_documents_validated restored = jb_documents_validated job
    \<and> jb_documents_missing restored = jb_documents_missing job
    \<and> jb_documents_total restored = jb_documents_total job
    \<and> jb_completed_at restored = Some (pn_now pn) \<and> jb_last_completed_at restored = Some (pn_now pn)
    \<and> jb_started_at restored = pn_now pn - whole_milliseconds (finish - jb_started_at job) * 1000000"
proof -
  obtain job since where job: "st_jobs t domain = Some job"
    and state: "state = with_job_counts job ((load_sync_state domain s)\<lparr>sy_last_sync := Some (pn_now pn), sy_since_token := Some since\<rparr>)"
    and last: "load_last_sync_duration (st_db t) = Some (whole_milliseconds (finish - jb_started_at job))"
    using completed_sync_state [OF assms(1-3)] assms(6) unfolding assms(4) [symmetric] by auto
  have d: "sy_domain state = domain" and l: "sy_last_sync state = Some (pn_now pn)"
    using assms(5) by (simp_all add: state with_job_counts_def)
  have "sr_jobs (run_startup env github inline sv) domain = map_option snd (restore_job (sr_storage sv) state)"
    using restored_jobs [OF assms(8,7) l] unfolding startup_parts d .
  then have "sr_jobs (run_startup env github inline sv) domain
      = Some (restored_job state (pn_now pn) (whole_milliseconds (finish - jb_started_at job) * 1000000))"
    by (simp add: restore_job_def l d last_sync_duration_def assms(9) last)
  then show ?thesis using job by (simp add: restored_job_def new_job_def state with_job_counts_def)
qed

text \<open>A synchronization that finds nothing new.\<close>

definition idle_pipeline :: pipeline_env where
  "idle_pipeline = sample_pipeline\<lparr>pn_walk := sample_walk_env\<lparr>wv_walk := (\<lambda>_. ([], None))\<rparr>,
     pn_lib := sample_lib\<lparr>gl_write_tree := (\<lambda>_. cm_tree commit_b)\<rparr>\<rparr>"

lemma idle_head: "resolve_branch sample_repo = Inr ((''refs/heads/main'', Some commit_b), sample_repo)"
  by (simp add: resolve_branch_def sample_repo_def is_local_branch_def starts_with_def)

lemma idle_fetch:
  assumes "st_repo s = Some sample_repo" "st_sync s = None"
  shows "\<exists>result wt t. fetch_snapshot idle_pipeline s = Some (Inr ((result, wt), t))
    \<and> wt_files wt = [] \<and> wt_dirs wt = [] \<and> sn_retrieval_errors result = [] \<and> sn_membership result = []
    \<and> st_db t = st_db s \<and> st_repo t = Some sample_repo \<and> st_summary t = st_summary s"
proof -
  have ok: "step sample_snapshot st p = p" for st and p :: "'a provider_prog"
    by (simp add: step_def unless_def sample_snapshot_def)
  have pn: "pn_snapshot idle_pipeline = sample_snapshot"
    "pn_walk idle_pipeline = sample_walk_env\<lparr>wv_walk := (\<lambda>_. ([], None))\<rparr>"
    "pn_lib idle_pipeline = sample_lib\<lparr>gl_write_tree := (\<lambda>_. cm_tree commit_b)\<rparr>" "pn_interfere idle_pipeline = id"
    by (simp_all add: idle_pipeline_def sample_pipeline_def)
  have head: "map_of (rp_refs sample_repo) ''refs/heads/main'' = Some commit_b" "head_commit sample_repo = Some commit_b"
    by (simp_all add: sample_repo_def head_commit_def)
  have blobs: "add_blobs [] sample_repo = sample_repo" by (simp add: add_blobs_def)
  show ?thesis
    unfolding fetch_snapshot_def Let_def
    by (simp add: pn ok prog_Inr enter_def update_jobs_def sync_provider_def load_sync_state_def sync_state_new_def assms
        walk_provider_def run_walk_def walk_start_def open_worktree_def prepare_worktree_def init_bare_def idle_head
        commit_worktree_def commit_snapshot_with_progress_def commit_all_with_progress_def head stage_all_def
        flush_mempack_def Let_def blobs)
qed

lemma idle_run:
  assumes "st_repo s = Some sample_repo" "st_sync s = None" "st_db s = st_db idle_store" "st_summary s = None"
  shows "\<exists>t. run_pipeline idle_pipeline s = Some (Inr ((), t))"
proof -
  have ok: "step sample_snapshot st p = p" for st and p :: "'a provider_prog"
    by (simp add: step_def unless_def sample_snapshot_def)
  have pn: "pn_snapshot idle_pipeline = sample_snapshot" by (simp add: idle_pipeline_def sample_pipeline_def)
  obtain result wt t where f: "fetch_snapshot idle_pipeline s = Some (Inr ((result, wt), t))" "wt_files wt = []" "wt_dirs wt = []"
    "sn_retrieval_errors result = []" "sn_membership result = []"
    "st_db t = st_db s" "st_repo t = Some sample_repo" "st_summary t = st_summary s"
    using idle_fetch [OF assms(1,2)] by blast
  have none: "in_scratch wt = (\<lambda>_. False)" by (simp add: in_scratch_def fun_eq_iff f)
  let ?t = "save_distribution_errors (sn_distribution_errors result) t"
  have "st_db ?t = st_db idle_store" "st_repo ?t = Some sample_repo" "st_summary ?t = None"
    using f assms by (simp_all add: save_distribution_errors_def)
  from idle_pass [OF this] obtain u where u: "process_snapshot sample_snapshot (\<lambda>_. False) False [] ?t = Some (Inr ((), u))"
    by blast
  have repo: "st_repo u = Some sample_repo"
    using keepsD(1) [OF snapshot_files _ u, of "st_sync ?t" "st_dist_errors ?t" "st_health ?t" "st_repo ?t"] f(7)
    by (simp add: save_distribution_errors_def)
  have "get_path (cm_tree commit_b) ''metadata/provider-metadata.json'' = None"
    by (simp add: commit_b_def root_b_def get_path_def get_name_def entries_of_def subtree_def)
  then have "with_head_blob sample_repo ''metadata/provider-metadata.json'' g = Inr None" for g :: "string \<Rightarrow> json option"
    by (simp add: with_head_blob_def head_commit_def sample_repo_def blob_oid_at_path_def)
  then have health: "refresh_distribution_health menv u = Inr ([], u\<lparr>st_health := Some []\<rparr>)" for menv
    by (simp add: refresh_distribution_health_def compute_distribution_health_def repo)
  have "save_members sample_snapshot [] u = Some (Inr ((), u))"
    by (simp add: save_members_def ok and_then_def computing_def save_distribution_membership_def update_db_def updating_def)
  moreover have "refresh_health sample_snapshot menv u = Some (Inr ((), u\<lparr>st_health := Some []\<rparr>))" for menv
    by (simp add: refresh_health_def ok health)
  moreover have "persist_provider_metadata sample_snapshot parse [] t = Some (Inr ((), t))" for parse
    by (simp add: persist_provider_metadata_def returning_def)
  moreover have "updating (save_distribution_errors es) t = Some (Inr ((), save_distribution_errors es t))" for es
    by (simp add: updating_def)
  moreover have "\<exists>v. advance_sync_state sample_snapshot now result x = Some (Inr ((), v))" for now x
    by (simp add: advance_sync_state_def ok and_then_def reading_def updating_def)
  ultimately show ?thesis
    unfolding run_pipeline_def Let_def pn ok
    by (simp add: and_then_run f(1,2,4,5) none u)
qed

definition stopped_server :: "provider_store \<Rightarrow> server" where
  "stopped_server t = \<lparr>sr_config = \<lparr>cf_checkout = None, cf_files = None, cf_sources = [], cf_wake = False\<rparr>,
     sr_storage = fresh_storage\<lparr>sg_state := [(provider_key ''p'', \<lparr>xd_sync = st_sync t, xd_dist_errors = None\<rparr>)],
       sg_results := [(provider_key ''p'', \<lparr>rd_summary = None, rd_health = None, rd_database = Some 0\<rparr>)],
       sg_databases := (\<lambda>_. st_db t)\<rparr>,
     sr_jobs = Map.empty, sr_points = Map.empty, sr_status = status_default, sr_api_token = None,
     sr_webhook_secret = None, sr_spawned = []\<rparr>"

theorem restart_restores_job_witness:
  "\<exists>t restored. run_job idle_pipeline KSync 3 4 idle_store = Some (Inr ((), t))
     \<and> sr_jobs (run_startup config_sample_env False [] (stopped_server t)) ''p'' = Some restored
     \<and> jb_completed_at restored = Some 9"
proof -
  have pn: "pn_snapshot idle_pipeline = sample_snapshot" "pn_now idle_pipeline = 9" "sn_domain sample_snapshot = ''p''"
    by (simp_all add: idle_pipeline_def sample_pipeline_def sample_snapshot_def)
  have s: "st_sync idle_store = None" by (simp add: idle_store_def sample_store_state_def)
  let ?s0 = "idle_store\<lparr>st_jobs := update_job ''p'' (started_job KSync 3 (st_jobs idle_store ''p'')) (st_jobs idle_store)\<rparr>"
  obtain u where "run_pipeline idle_pipeline ?s0 = Some (Inr ((), u))"
    using idle_run [of ?s0] by (auto simp: idle_store_def sample_store_state_def)
  then obtain t where t: "run_job idle_pipeline KSync 3 4 idle_store = Some (Inr ((), t))"
    by (simp add: run_job_def Let_def pn)
  have faults: "sn_fault (pn_snapshot idle_pipeline) x = None" for x by (simp add: pn sample_snapshot_def)
  obtain state where state: "st_sync t = Some state" "sy_domain state = ''p''"
    using completed_sync_state [OF t faults faults] by (auto simp: pn load_sync_state_def s sync_state_new_def with_job_counts_def)
  have files: "list_sync_states (sr_storage (stopped_server t)) = [state]"
    "database_of (sr_storage (stopped_server t)) ''p'' = Some (st_db t)"
    by (simp_all add: stopped_server_def list_sync_states_def List.map_filter_simps state(1) database_of_def
        pool_get_if_exists_def Let_def fresh_storage_def results_of_key_def)
  have d: "sy_domain (load_sync_state ''p'' idle_store) = ''p''" by (simp add: load_sync_state_def s sync_state_new_def)
  have p: "''p'' = sn_domain (pn_snapshot idle_pipeline)" by (simp add: pn)
  have "state \<in> set (list_sync_states (sr_storage (stopped_server t)))"
    "distinct (map sy_domain (list_sync_states (sr_storage (stopped_server t))))" by (simp_all add: files)
  from restart_restores_job [OF t faults faults p d state(1) this files(2), of config_sample_env False "[]"]
  show ?thesis using t by (auto simp: pn)
qed

subsection \<open>Refreshing summaries\<close>

text \<open>What the refresh makes of the summary of a provider.\<close>

definition refreshed :: "(string \<Rightarrow> int) \<Rightarrow> storage \<Rightarrow> string \<Rightarrow> provider_summary option" where
  "refreshed clock sg d = (case (load_summary d sg, database_of sg d) of
     (Some s, Some db) \<Rightarrow> Some (if SUMMARY_REVISION \<le> sm_summary_revision s then s
       else (build_summary_from_db db d (clock d))\<lparr>sm_validated_at := sm_validated_at s, sm_note := sm_note s\<rparr>)
   | (s, _) \<Rightarrow> s)"

lemma probe_same:
  "sg_results (snd (pool_get_if_exists d sg)) = sg_results sg" "sg_databases (snd (pool_get_if_exists d sg)) = sg_databases sg"
  "sg_next_database (snd (pool_get_if_exists d sg)) = sg_next_database sg"
  by (simp_all add: pool_get_if_exists_def Let_def split: option.split)

lemma write_database:
  "database_of (save_summary d s sg) e = database_of sg e"
  using results_of_update [of "provider_key d" "\<lambda>r. r\<lparr>rd_summary := Some s\<rparr>" sg "provider_key e"]
  by (simp add: database_of_def pool_get_if_exists_def Let_def save_summary_def write_summary_def index_update_def
      results_of_key_def update_results_def split: option.split)

lemma load_save: "load_summary e (save_summary d s sg) = (if provider_key e = provider_key d then Some s else load_summary e sg)"
  using load_write [of e d s sg] by (simp add: save_summary_def index_update_def load_summary_def results_of_key_def)

lemma load_probe: "load_summary e (snd (pool_get_if_exists d sg)) = load_summary e sg"
  by (simp add: load_summary_def results_of_key_def probe_same)

lemma database_SomeD: "pool_get_if_exists d sg = (Some i, sg') \<Longrightarrow> database_of sg d = Some (sg_databases sg' i)"
  using probe_same(2) [of d sg] by (simp add: database_of_def)

lemma database_NoneD: "pool_get_if_exists d sg = (None, sg') \<Longrightarrow> database_of sg d = None"
  by (simp add: database_of_def)

text \<open>One provider of the list.\<close>

lemma refresh_one_ok:
  assumes r: "index_reachable domains (Map.empty, sg)" and d: "sm_provider x \<in> domains"
    and x: "load_summary (sm_provider x) sg = Some x" and f: "refresh_one clock x (sg, b) = (sg', b')"
  shows "index_reachable domains (Map.empty, sg')" "sg_databases sg' = sg_databases sg" "database_of sg' e = database_of sg e"
    "load_summary e sg' = (if provider_key e = provider_key (sm_provider x) then refreshed clock sg (sm_provider x) else load_summary e sg)"
    "b' = (b \<or> sm_summary_revision x < SUMMARY_REVISION \<and> database_of sg (sm_provider x) \<noteq> None)"
proof -
  let ?d = "sm_provider x"
  have own: "load_summary e sg = Some x" if "provider_key e = provider_key ?d"
    using x that by (simp add: load_summary_def)
  have "index_reachable domains (Map.empty, sg') \<and> sg_databases sg' = sg_databases sg \<and> database_of sg' e = database_of sg e
    \<and> load_summary e sg' = (if provider_key e = provider_key ?d then refreshed clock sg ?d else load_summary e sg)
    \<and> b' = (b \<or> sm_summary_revision x < SUMMARY_REVISION \<and> database_of sg ?d \<noteq> None)"
  proof (cases "SUMMARY_REVISION \<le> sm_summary_revision x")
    case True
    then have "refreshed clock sg ?d = Some x" by (simp add: refreshed_def x split: option.split)
    then show ?thesis using True f r own by (simp add: refresh_one_def)
  next
    case False
    obtain i sg1 where p: "pool_get_if_exists ?d sg = (i, sg1)" by force
    have r1: "index_reachable domains (Map.empty, sg1)" using Step [OF r Probe [of domains Map.empty sg ?d]] by (simp add: p)
    have same: "sg_databases sg1 = sg_databases sg" "database_of sg1 e = database_of sg e" "load_summary e sg1 = load_summary e sg" for e
      using probe_same [of ?d sg] open_database [of ?d sg] load_probe [of e ?d sg] by (simp_all add: p)
    show ?thesis
    proof (cases i)
      case None
      have "refresh_stored_summary ?d (clock ?d) sg = (Inl (''No stored validation results for '' @ ?d), sg1)"
        using p None by (simp add: refresh_stored_summary_def x)
      then have "sg' = sg1" "b' = b" using f False by (simp_all add: refresh_one_def Let_def x)
      moreover have "database_of sg ?d = None" by (rule database_NoneD) (use p None in simp)
      ultimately show ?thesis using r1 same own by (simp add: refreshed_def x)
    next
      case (Some n)
      let ?s = "(build_summary_from_db (sg_databases sg1 n) ?d (clock ?d))\<lparr>sm_validated_at := sm_validated_at x, sm_note := sm_note x\<rparr>"
      have "refresh_stored_summary ?d (clock ?d) sg = (Inr (), save_summary ?d ?s sg1)"
        using p Some by (simp add: refresh_stored_summary_def x)
      then have sg': "sg' = save_summary ?d ?s sg1" "b' = True" using f False by (simp_all add: refresh_one_def Let_def x)
      have db: "database_of sg ?d = Some (sg_databases sg1 n)" by (rule database_SomeD) (use p Some in simp)
      have "sm_provider ?s = ?d" by (simp add: build_summary_from_db_def Let_def)
      from Step [OF Step [OF r1 Write [OF d _ this]] Publish [of _ ?d ?s]]
      have "index_reachable domains (Map.empty, sg')" by (simp add: sg'(1) save_summary_def)
      moreover have "sg_databases sg' = sg_databases sg"
        using same(1) by (simp add: sg'(1) save_summary_def index_update_def write_summary_def update_results_def)
      ultimately show ?thesis
        using False same db by (simp add: sg' write_database load_save refreshed_def x)
    qed
  qed
  then show "index_reachable domains (Map.empty, sg')" "sg_databases sg' = sg_databases sg" "database_of sg' e = database_of sg e"
    "load_summary e sg' = (if provider_key e = provider_key ?d then refreshed clock sg ?d else load_summary e sg)"
    "b' = (b \<or> sm_summary_revision x < SUMMARY_REVISION \<and> database_of sg ?d \<noteq> None)"
    by blast+
qed

lemma refresh_list:
  assumes "index_reachable domains (Map.empty, sg)" "inj_on provider_key domains"
    and "\<And>x. x \<in> set xs \<Longrightarrow> sm_provider x \<in> domains \<and> load_summary (sm_provider x) sg = Some x" "distinct (map sm_provider xs)"
    and "fold (refresh_one clock) xs (sg, b) = (sg', b')"
  shows "index_reachable domains (Map.empty, sg') \<and> sg_databases sg' = sg_databases sg
    \<and> (\<forall>e \<in> domains. load_summary e sg' = (if e \<in> sm_provider ` set xs then refreshed clock sg e else load_summary e sg))
    \<and> b' = (b \<or> (\<exists>x \<in> set xs. sm_summary_revision x < SUMMARY_REVISION \<and> database_of sg (sm_provider x) \<noteq> None))"
  using assms
proof (induction xs arbitrary: sg b)
  case (Cons x xs)
  have x: "sm_provider x \<in> domains" "load_summary (sm_provider x) sg = Some x" using Cons.prems(3) [of x] by simp_all
  obtain sg1 b1 where f: "refresh_one clock x (sg, b) = (sg1, b1)" by force
  note one = refresh_one_ok [OF Cons.prems(1) x f]
  have keys: "provider_key e = provider_key (sm_provider x) \<longleftrightarrow> e = sm_provider x" if "e \<in> domains" for e
    using that x(1) Cons.prems(2) by (auto dest: inj_onD)
  have load: "load_summary e sg1 = (if e = sm_provider x then refreshed clock sg e else load_summary e sg)" if "e \<in> domains" for e
    using one(4) [of e] keys [OF that] by simp
  have new: "sm_provider x \<notin> sm_provider ` set xs" using Cons.prems(4) by simp
  have rest: "sm_provider y \<in> domains \<and> load_summary (sm_provider y) sg1 = Some y" if "y \<in> set xs" for y
  proof -
    have "sm_provider y \<noteq> sm_provider x" using new that by (metis imageI)
    then show ?thesis using Cons.prems(3) [of y] that load [of "sm_provider y"] by simp
  qed
  have same: "refreshed clock sg1 e = refreshed clock sg e" if "e \<in> domains" "e \<noteq> sm_provider x" for e
    using load [OF that(1)] that(2) by (simp add: refreshed_def one(3))
  have "fold (refresh_one clock) xs (sg1, b1) = (sg', b')" using Cons.prems(5) by (simp add: f)
  note IH = Cons.IH [OF one(1) Cons.prems(2) rest _ this]
  have IH1: "index_reachable domains (Map.empty, sg')" "sg_databases sg' = sg_databases sg1"
    "e \<in> domains \<Longrightarrow> load_summary e sg' = (if e \<in> sm_provider ` set xs then refreshed clock sg1 e else load_summary e sg1)"
    "b' = (b1 \<or> (\<exists>y \<in> set xs. sm_summary_revision y < SUMMARY_REVISION \<and> database_of sg1 (sm_provider y) \<noteq> None))" for e
    using IH Cons.prems(4) by simp_all
  have "load_summary e sg' = (if e \<in> sm_provider ` set (x # xs) then refreshed clock sg e else load_summary e sg)" if e: "e \<in> domains" for e
  proof (cases "e = sm_provider x")
    case True
    then show ?thesis using IH1(3) [OF e] load [OF e] new by simp
  next
    case False
    then show ?thesis using IH1(3) [OF e] load [OF e] same [OF e False] by simp
  qed
  moreover have "b' = (b \<or> (\<exists>y \<in> set (x # xs). sm_summary_revision y < SUMMARY_REVISION \<and> database_of sg (sm_provider y) \<noteq> None))"
    unfolding IH1(4) one(5) one(3) by auto
  ultimately show ?case using IH1(1,2) one(2) by simp
qed simp

text \<open>
  The refresh after startup upgrades exactly the outdated summaries. Afterwards every provider
  whose summary has an older revision and whose database exists has the summary freshly built from
  it, with its time of validation and note kept; every other summary and all databases are
  unchanged, the index still agrees with the files, and the overview is invalidated exactly if a
  summary was rebuilt.
\<close>

theorem refresh_upgrades_summaries:
  assumes "index_reachable domains (Map.empty, sg)" and "inj_on provider_key domains"
    and "refresh_summaries clock sg = (sg', invalidated)"
  shows "(\<forall>d \<in> domains. load_summary d sg' = refreshed clock sg d) \<and> sg_databases sg' = sg_databases sg
    \<and> index_reachable domains (Map.empty, sg')
    \<and> (invalidated \<longleftrightarrow> (\<exists>d \<in> domains. \<exists>s. load_summary d sg = Some s
        \<and> sm_summary_revision s < SUMMARY_REVISION \<and> database_of sg d \<noteq> None))"
proof -
  have ok: "index_ok domains Map.empty sg" using index_ok_reachable [OF assms(1,2)] by simp
  obtain entries where e: "btree_ok entries" "fst (list_summaries sg) = map snd entries"
    "\<And>d s. map_of entries d = Some s \<Longrightarrow> sm_provider s = d" "\<And>d. map_of entries d = on_disk domains sg d"
    using listed_summaries [OF ok assms(2)] by auto
  obtain sg1 where l: "list_summaries sg = (map snd entries, sg1)" using e(2) by (cases "list_summaries sg") simp
  have r1: "index_reachable domains (Map.empty, sg1)" using Step [OF assms(1) List] by (simp add: l)
  have same: "load_summary d sg1 = load_summary d sg" "database_of sg1 d = database_of sg d" "sg_databases sg1 = sg_databases sg" for d
    using l by (auto simp: list_summaries_def index_all_def Let_def load_summary_def results_of_key_def database_of_def
        pool_get_if_exists_def split: option.splits)
  have entry: "(d, s) \<in> set entries \<longleftrightarrow> d \<in> domains \<and> load_summary d sg = Some s" for d s
    using map_of_eq_Some_iff [OF btree_distinct [OF e(1)], of d s] e(4) [of d] by (simp add: on_disk_def split: if_splits)
  have prov: "sm_provider s = d" if "(d, s) \<in> set entries" for d s
    using map_of_eq_Some_iff [OF btree_distinct [OF e(1)], of d s] e(3) [of d s] that by simp
  have names: "map sm_provider (map snd entries) = map fst entries" using prov by auto
  have mem: "x \<in> set (map snd entries) \<Longrightarrow> sm_provider x \<in> domains \<and> load_summary (sm_provider x) sg1 = Some x" for x
    using entry prov same(1) by fastforce
  have dist: "distinct (map sm_provider (map snd entries))" unfolding names by (rule btree_distinct [OF e(1)])
  have f: "fold (refresh_one clock) (map snd entries) (sg1, False) = (sg', invalidated)"
    using assms(3) by (simp add: refresh_summaries_def l)
  note fin = refresh_list [OF r1 assms(2) mem dist f]
  have r: "refreshed clock sg1 d = refreshed clock sg d" for d by (simp add: refreshed_def same)
  have keys: "sm_provider ` set (map snd entries) = fst ` set entries"
    using arg_cong [OF names, of set] by (simp add: image_image)
  have "load_summary d sg' = refreshed clock sg d" if d: "d \<in> domains" for d
  proof (cases "load_summary d sg")
    case None
    then have "d \<notin> fst ` set entries" using entry by force
    then show ?thesis using fin d None by (simp only: keys same) (simp add: refreshed_def same(1))
  next
    case (Some s)
    then have "d \<in> fst ` set entries" using entry [of d s] d by force
    then show ?thesis using fin d by (simp only: keys r) simp
  qed
  moreover have "invalidated \<longleftrightarrow> (\<exists>d \<in> domains. \<exists>s. load_summary d sg = Some s
        \<and> sm_summary_revision s < SUMMARY_REVISION \<and> database_of sg d \<noteq> None)"
  proof -
    have "invalidated \<longleftrightarrow> (\<exists>x \<in> set (map snd entries). sm_summary_revision x < SUMMARY_REVISION \<and> database_of sg (sm_provider x) \<noteq> None)"
      using fin by (simp add: same(2))
    also have "\<dots> \<longleftrightarrow> (\<exists>(d, x) \<in> set entries. sm_summary_revision x < SUMMARY_REVISION \<and> database_of sg d \<noteq> None)"
      using prov by force
    finally show ?thesis using entry by blast
  qed
  ultimately show ?thesis using fin same(3) by simp
qed

definition outdated_storage :: storage where
  "outdated_storage = fresh_storage\<lparr>sg_results := [(provider_key ''a'', \<lparr>rd_summary = Some (first_summary\<lparr>sm_summary_revision := 0\<rparr>),
     rd_health = None, rd_database = Some 0\<rparr>)]\<rparr>"

theorem refresh_upgrades_summaries_witness:
  "\<exists>s sg'. refresh_summaries (\<lambda>_. 5) outdated_storage = (sg', True) \<and> load_summary ''a'' sg' = Some s
     \<and> sm_summary_revision s = SUMMARY_REVISION"
proof -
  obtain sg' b where r: "refresh_summaries (\<lambda>_. 5) outdated_storage = (sg', b)" by force
  have p: "sm_provider first_summary = ''a''" by (simp add: first_summary_def build_summary_from_db_def Let_def)
  have reach: "index_reachable {''a'', ''b''} (Map.empty, outdated_storage)"
    by (rule index_reachable.Start) (simp_all add: files_ok_def outdated_storage_def fresh_storage_def p)
  have l: "load_summary ''a'' outdated_storage = Some (first_summary\<lparr>sm_summary_revision := 0\<rparr>)"
    by (simp add: load_summary_def results_of_key_def outdated_storage_def)
  have db: "database_of outdated_storage ''a'' = Some db_empty"
    by (simp add: database_of_def pool_get_if_exists_def Let_def results_of_key_def outdated_storage_def fresh_storage_def)
  have n: "refreshed (\<lambda>_. 5) outdated_storage ''a'' = Some ((build_summary_from_db db_empty ''a'' 5)
      \<lparr>sm_validated_at := sm_validated_at first_summary, sm_note := sm_note first_summary\<rparr>)"
    by (simp add: refreshed_def l db SUMMARY_REVISION_def)
  note t = refresh_upgrades_summaries [OF reach sample_keys r]
  have "b" using t l db by (auto simp: SUMMARY_REVISION_def)
  moreover have "load_summary ''a'' sg' = refreshed (\<lambda>_. 5) outdated_storage ''a''" using conjunct1 [OF t] by simp
  ultimately show ?thesis using r n by (auto simp: build_summary_from_db_def Let_def)
qed

subsection \<open>The course of startup\<close>

lemma startup_course:
  assumes "sr_status sv = status_default"
  shows "ss_ready (sr_status (run_startup env github inline sv))"
    "ss_task (sr_status (run_startup env github inline sv)) = None"
    "ss_completed (sr_status (run_startup env github inline sv)) =
      (if github then [''Synchronizing configuration''] else [])
        @ [''Loading provider sources'', ''Restoring job statuses'', ''Loading sync history'']"
  using assms by (simp_all add: run_startup_def Let_def begin_task_def restore_jobs_def load_sync_points_def
      report_progress_def startup_begin_def startup_progress_def startup_finish_def complete_task_def status_default_def)

end
