(* ===== verification/Request_Handling.thy ===== *)
theory Request_Handling
  imports Server_Startup "HOL-Library.Word"
begin

section \<open>Gating, limiting and authorizing requests\<close>

text \<open>
  \<open>server/src/rate_limit.rs\<close>, \<open>server/src/api/auth.rs\<close>, \<open>server/src/api/error.rs\<close>, the startup gate
  of \<open>server/src/startup.rs\<close>, and the handlers that change state: \<open>trigger\<close> and \<open>revalidate\<close> of
  \<open>server/src/api/sync.rs\<close>, \<open>delete\<close> of \<open>server/src/api/providers.rs\<close> and \<open>github\<close> of
  \<open>server/src/api/webhook.rs\<close>. A request has its path, the address of its peer, its headers as text by
  lower-case name (the first of a name, if it is text) and its body.
\<close>

unbundle bit_operations_syntax

subsection \<open>Clients\<close>

datatype ip_addr = V4 "32 word" | V6 "128 word"

record request =
  rq_path :: string
  rq_peer :: "ip_addr option"
  rq_header :: "string \<Rightarrow> string option"
  rq_body :: string

definition is_loopback :: "ip_addr \<Rightarrow> bool" where
  "is_loopback ip = (case ip of V4 a \<Rightarrow> drop_bit 24 a = 127 | V6 a \<Rightarrow> a = 1)"

text \<open>\<open>Ipv6Addr::segments\<close> and \<open>From<[u16; 8]>\<close>.\<close>

definition segments :: "128 word \<Rightarrow> 16 word list" where
  "segments a = map (\<lambda>i. ucast (drop_bit (16 * (7 - i)) a)) [0..<8]"

definition from_segments :: "16 word list \<Rightarrow> 128 word" where
  "from_segments ss = foldl (\<lambda>a s. push_bit 16 a OR ucast s) 0 ss"

definition to_ipv4_mapped :: "128 word \<Rightarrow> 32 word option" where
  "to_ipv4_mapped a = (if take 5 (segments a) = [0, 0, 0, 0, 0] \<and> segments a ! 5 = 0xFFFF
     then Some (ucast a) else None)"

definition group_client :: "ip_addr \<Rightarrow> ip_addr" where
  "group_client client = (case client of
     V6 ip \<Rightarrow> (case to_ipv4_mapped ip of
       Some v4 \<Rightarrow> V4 v4
     | None \<Rightarrow> V6 (from_segments (take 4 (segments ip) @ replicate 4 0)))
   | V4 a \<Rightarrow> V4 a)"

text \<open>\<open>parse_ip\<close> is \<open>IpAddr::from_str\<close>.\<close>

definition client_key :: "(string \<Rightarrow> ip_addr option) \<Rightarrow> request \<Rightarrow> ip_addr" where
  "client_key parse_ip req =
     (let peer = (case rq_peer req of Some p \<Rightarrow> p | None \<Rightarrow> V6 0);
          client = (if is_loopback peer
            then (case Option.bind (rq_header req ''x-forwarded-for'') (\<lambda>v. parse_ip (trim (after_last (CHR '','') v))) of
              Some ip \<Rightarrow> ip | None \<Rightarrow> peer)
            else peer) in
      group_client client)"

subsection \<open>Paths\<close>

definition LIMITED_PREFIXES :: "string list" where
  "LIMITED_PREFIXES = [''/api/'', ''/mcp'', ''/.well-known/'']"

definition EXEMPT_PREFIXES :: "string list" where
  "EXEMPT_PREFIXES = [''/api/webhook/'', ''/api/startup'']"

definition is_limited :: "string \<Rightarrow> bool" where
  "is_limited path \<longleftrightarrow> list_ex (starts_with path) LIMITED_PREFIXES \<and> \<not> list_ex (starts_with path) EXEMPT_PREFIXES"

definition GATED_PREFIXES :: "string list" where
  "GATED_PREFIXES = [''/api/'', ''/mcp'', ''/.well-known/'']"

definition is_gated :: "string \<Rightarrow> bool" where
  "is_gated path \<longleftrightarrow> path \<noteq> ''/api/startup'' \<and> list_ex (starts_with path) GATED_PREFIXES"

subsection \<open>Middleware\<close>

definition verify_bearer_token :: "request \<Rightarrow> string \<Rightarrow> bool" where
  "verify_bearer_token req expected \<longleftrightarrow>
     Option.bind (rq_header req ''authorization'') (strip_prefix ''Bearer '') = Some expected"

text \<open>
  The keyed limiter of \<open>governor\<close> over its budgets: \<open>gv_check\<close> takes from the budget of a client, or
  gives the time to wait; \<open>gv_ready\<close> waits for the budget at most as long as allowed. Durations are
  nanoseconds.
\<close>

record 'b governor =
  gv_check :: "ip_addr \<Rightarrow> 'b \<Rightarrow> nat option \<times> 'b"
  gv_ready :: "nat \<Rightarrow> ip_addr \<Rightarrow> 'b \<Rightarrow> bool \<times> 'b"

record rate_limit_config =
  rl_enabled :: bool
  rl_requests_per_minute :: nat
  rl_burst :: nat
  rl_max_wait :: nat

definition rate_limit_default :: rate_limit_config where
  "rate_limit_default = \<lparr>rl_enabled = True, rl_requests_per_minute = 60, rl_burst = 60, rl_max_wait = 10000000000\<rparr>"

text \<open>\<open>keyed\<close> builds the limiter for a rate and a burst, both positive.\<close>

definition new_limiter :: "(nat \<Rightarrow> nat \<Rightarrow> 'b governor) \<Rightarrow> rate_limit_config
    \<Rightarrow> string + ('b governor \<times> nat) option" where
  "new_limiter keyed c = (if \<not> rl_enabled c then Inr None
     else if rl_requests_per_minute c = 0 then Inl ''rate_limit.requests_per_minute must be greater than zero''
     else if rl_burst c = 0 then Inl ''rate_limit.burst must be greater than zero''
     else Inr (Some (keyed (rl_requests_per_minute c) (rl_burst c), rl_max_wait c)))"

definition acquire :: "'b governor \<Rightarrow> nat \<Rightarrow> ip_addr \<Rightarrow> 'b \<Rightarrow> (nat + unit) \<times> 'b" where
  "acquire gv max_wait client b = (case gv_check gv client b of
     (None, b') \<Rightarrow> (Inr (), b')
   | (Some wait, b') \<Rightarrow> if max_wait < wait then (Inl wait, b')
       else (case gv_ready gv max_wait client b' of
         (True, b'') \<Rightarrow> (Inr (), b'') | (False, b'') \<Rightarrow> (Inl max_wait, b'')))"

datatype 'r answer = Answered 'r | ServiceUnavailable nat | TooManyRequests nat

definition rate_limited :: "('b governor \<times> nat) option \<Rightarrow> (string \<Rightarrow> ip_addr option) \<Rightarrow> string option
    \<Rightarrow> request \<Rightarrow> ('s \<Rightarrow> 'r \<times> 's) \<Rightarrow> 'b \<times> 's \<Rightarrow> 'r answer \<times> 'b \<times> 's" where
  "rate_limited limiter parse_ip api_token req handler st = (case st of (b, s) \<Rightarrow>
     (case limiter of
        None \<Rightarrow> (case handler s of (r, s') \<Rightarrow> (Answered r, b, s'))
      | Some (gv, max_wait) \<Rightarrow>
          if \<not> is_limited (rq_path req) \<or> (case api_token of Some t \<Rightarrow> verify_bearer_token req t | None \<Rightarrow> False)
          then (case handler s of (r, s') \<Rightarrow> (Answered r, b, s'))
          else (case acquire gv max_wait (client_key parse_ip req) b of
              (Inl retry_after, b') \<Rightarrow> (TooManyRequests (max (retry_after div 1000000000) 1), b', s)
            | (Inr _, b') \<Rightarrow> (case handler s of (r, s') \<Rightarrow> (Answered r, b', s')))))"

text \<open>The gate is wrapped around the limiter.\<close>

definition serve :: "bool \<Rightarrow> ('b governor \<times> nat) option \<Rightarrow> (string \<Rightarrow> ip_addr option) \<Rightarrow> string option
    \<Rightarrow> request \<Rightarrow> ('s \<Rightarrow> 'r \<times> 's) \<Rightarrow> 'b \<times> 's \<Rightarrow> 'r answer \<times> 'b \<times> 's" where
  "serve ready limiter parse_ip api_token req handler st =
     (if \<not> ready \<and> is_gated (rq_path req) then (ServiceUnavailable 5, st)
      else rate_limited limiter parse_ip api_token req handler st)"

subsection \<open>Errors and authorization\<close>

datatype api_error = NotFound | Unauthorized | Forbidden | Conflict string | Internal string

fun status_code :: "api_error \<Rightarrow> nat" where
  "status_code NotFound = 404"
| "status_code Unauthorized = 401"
| "status_code Forbidden = 403"
| "status_code (Conflict _) = 409"
| "status_code (Internal _) = 500"

fun error_message :: "api_error \<Rightarrow> string" where
  "error_message NotFound = ''resource not found''"
| "error_message Unauthorized = ''unauthorized''"
| "error_message Forbidden = ''forbidden''"
| "error_message (Conflict m) = m"
| "error_message (Internal _) = ''internal server error''"

fun error_slug :: "api_error \<Rightarrow> string" where
  "error_slug NotFound = ''not-found''"
| "error_slug Unauthorized = ''unauthorized''"
| "error_slug Forbidden = ''forbidden''"
| "error_slug (Conflict _) = ''conflict''"
| "error_slug (Internal _) = ''internal-error''"

definition check_token :: "string option \<Rightarrow> request \<Rightarrow> api_error + unit" where
  "check_token api_token req = (case api_token of None \<Rightarrow> Inl Forbidden
     | Some t \<Rightarrow> if verify_bearer_token req t then Inr () else Inl Unauthorized)"

text \<open>\<open>re_hex\<close> and \<open>re_hmac\<close> are \<open>hex::decode\<close> and HMAC-SHA256 of a key and a message.\<close>

record request_env =
  re_hex :: "string \<Rightarrow> string option"
  re_hmac :: "string \<Rightarrow> string \<Rightarrow> string"
  re_sources :: source_env
  re_github :: bool

definition verify_signature :: "request_env \<Rightarrow> request \<Rightarrow> string \<Rightarrow> bool" where
  "verify_signature env req secret =
     (case Option.bind (rq_header req ''x-hub-signature-256'') (strip_prefix ''sha256='') of
        None \<Rightarrow> False
      | Some signature \<Rightarrow> (case re_hex env signature of
          None \<Rightarrow> False | Some bytes \<Rightarrow> bytes = re_hmac env secret (rq_body req)))"

subsection \<open>Handlers that change state\<close>

datatype api_ok = Started | RevalidationAccepted | NoContent | Reloaded

definition stored_sync_state :: "string \<Rightarrow> storage \<Rightarrow> sync_state" where
  "stored_sync_state domain sg = (case Option.bind (map_of (sg_state sg) (provider_key domain)) xd_sync of
     Some s \<Rightarrow> s | None \<Rightarrow> sync_state_new domain)"

definition store_sync_state :: "sync_state \<Rightarrow> storage \<Rightarrow> storage" where
  "store_sync_state s sg = (let key = provider_key (sy_domain s);
       d = (case map_of (sg_state sg) key of Some d \<Rightarrow> d | None \<Rightarrow> \<lparr>xd_sync = None, xd_dist_errors = None\<rparr>) in
     sg\<lparr>sg_state := AList.update key (d\<lparr>xd_sync := Some s\<rparr>) (sg_state sg)\<rparr>)"

definition spawn_job :: "job_kind \<Rightarrow> source \<Rightarrow> server \<Rightarrow> server" where
  "spawn_job kind source sv = sv\<lparr>sr_spawned := sr_spawned sv @ [(kind, source)]\<rparr>"

definition trigger :: "request \<Rightarrow> string \<Rightarrow> bool \<Rightarrow> server \<Rightarrow> (api_error + api_ok) \<times> server" where
  "trigger req domain full sv = (case check_token (sr_api_token sv) req of
     Inl e \<Rightarrow> (Inl e, sv)
   | Inr _ \<Rightarrow> (case map_of (cf_sources (sr_config sv)) domain of
       None \<Rightarrow> (Inl NotFound, sv)
     | Some source \<Rightarrow>
         (let sv1 = (if full then sv\<lparr>sr_storage := store_sync_state
                ((stored_sync_state domain (sr_storage sv))\<lparr>sy_since_token := None\<rparr>) (sr_storage sv)\<rparr> else sv) in
          (Inr Started, spawn_job KSync source sv1))))"

definition revalidate :: "request \<Rightarrow> string \<Rightarrow> server \<Rightarrow> (api_error + api_ok) \<times> server" where
  "revalidate req domain sv = (case check_token (sr_api_token sv) req of
     Inl e \<Rightarrow> (Inl e, sv)
   | Inr _ \<Rightarrow> (case map_of (cf_sources (sr_config sv)) domain of
       None \<Rightarrow> (Inl NotFound, sv)
     | Some source \<Rightarrow> (Inr RevalidationAccepted, spawn_job KRevalidate source sv)))"

definition delete_handler :: "request \<Rightarrow> string \<Rightarrow> server \<Rightarrow> (api_error + api_ok) \<times> server" where
  "delete_handler req domain sv = (case check_token (sr_api_token sv) req of
     Inl e \<Rightarrow> (Inl e, sv)
   | Inr _ \<Rightarrow>
       if (case sr_jobs sv domain of Some job \<Rightarrow> jb_status job = JRunning | None \<Rightarrow> False)
       then (Inl (Conflict ''sync is running for this provider''), sv)
       else if map_of (cf_sources (sr_config sv)) domain = None \<and> \<not> has_provider_data (sr_storage sv) domain
       then (Inl NotFound, sv)
       else (Inr NoContent, sv\<lparr>sr_storage := delete_provider domain (sr_storage sv),
         sr_config := (sr_config sv)\<lparr>cf_sources := AList.delete domain (cf_sources (sr_config sv))\<rparr>,
         sr_jobs := (sr_jobs sv)(domain := None)\<rparr>))"

definition github_push :: "request_env \<Rightarrow> request \<Rightarrow> server \<Rightarrow> (api_error + api_ok) \<times> server" where
  "github_push env req sv = (case sr_webhook_secret sv of
     None \<Rightarrow> (Inl Forbidden, sv)
   | Some secret \<Rightarrow> if verify_signature env req secret
       then (Inr Reloaded, sv\<lparr>sr_config := sync_and_reload_sources (re_sources env) (re_github env) (sr_config sv)\<rparr>)
       else (Inl Unauthorized, sv))"

text \<open>The routes of \<open>api/mod.rs\<close> that change state.\<close>

datatype api_call = Trigger string bool | Revalidate string | DeleteProvider string | GithubPush

definition handle :: "request_env \<Rightarrow> api_call \<Rightarrow> request \<Rightarrow> server \<Rightarrow> (api_error + api_ok) \<times> server" where
  "handle env call req sv = (case call of
     Trigger domain full \<Rightarrow> trigger req domain full sv
   | Revalidate domain \<Rightarrow> revalidate req domain sv
   | DeleteProvider domain \<Rightarrow> delete_handler req domain sv
   | GithubPush \<Rightarrow> github_push env req sv)"

subsection \<open>Pages\<close>

definition rest_page :: "nat option \<Rightarrow> nat option \<Rightarrow> nat \<times> nat" where
  "rest_page offset limit = (case offset of Some n \<Rightarrow> n | None \<Rightarrow> 0, min (case limit of Some n \<Rightarrow> n | None \<Rightarrow> 50) 200)"

end
