(* ===== verification/Request_Facts.thy ===== *)
theory Request_Facts
  imports Request_Handling Startup_Facts
begin

section \<open>Who may change what\<close>

text \<open>
  No request changes the state of the server before startup has finished or without the credentials
  of its route, and a refused request changes nothing. The rate limit groups clients by network, and
  only a local proxy can name another client.
\<close>

unbundle bit_operations_syntax

subsection \<open>Grouping clients\<close>

lemma join_segment:
  fixes a :: "128 word"
  assumes "k < 8"
  shows "push_bit 16 (drop_bit (16 * Suc k) a) OR ucast (ucast (drop_bit (16 * k) a) :: 16 word) = drop_bit (16 * k) a"
proof (rule bit_word_eqI)
  fix n assume n: "n < LENGTH(128)"
  show "bit (push_bit 16 (drop_bit (16 * Suc k) a) OR ucast (ucast (drop_bit (16 * k) a) :: 16 word)) n
      = bit (drop_bit (16 * k) a) n"
    using n by (cases "n < 16") (auto simp: bit_simps add.commute)
qed

lemma segments_eq: "segments a = [ucast (drop_bit 112 a), ucast (drop_bit 96 a), ucast (drop_bit 80 a), ucast (drop_bit 64 a),
    ucast (drop_bit 48 a), ucast (drop_bit 32 a), ucast (drop_bit 16 a), ucast a]"
  by (simp add: segments_def upt_rec)

lemma drop_all: "drop_bit 128 (a :: 128 word) = 0"
  by (rule bit_word_eqI) (simp add: bit_simps)

lemma high_segments:
  fixes a :: "128 word"
  shows "from_segments (take 4 (segments a)) = drop_bit 64 a" "from_segments (take 5 (segments a)) = drop_bit 48 a"
proof -
  have join: "push_bit 16 (drop_bit n a) OR ucast (ucast (drop_bit m a) :: 16 word) = drop_bit m a"
    if "(n, m) \<in> {(128, 112), (112, 96), (96, 80), (80, 64), (64, 48)}" for n m
    using that join_segment [of 7 a] join_segment [of 6 a] join_segment [of 5 a] join_segment [of 4 a] join_segment [of 3 a]
    by auto
  have zero: "(0 :: 128 word) = drop_bit 128 a" by (rule drop_all [symmetric])
  have four: "take 4 (segments a) = [ucast (drop_bit 112 a), ucast (drop_bit 96 a), ucast (drop_bit 80 a), ucast (drop_bit 64 a)]"
    and five: "take 5 (segments a) = [ucast (drop_bit 112 a), ucast (drop_bit 96 a), ucast (drop_bit 80 a), ucast (drop_bit 64 a),
      ucast (drop_bit 48 a)]"
    by (simp_all add: segments_eq)
  have steps: "push_bit 16 (drop_bit 128 a) OR ucast (ucast (drop_bit 112 a) :: 16 word) = drop_bit 112 a"
    "push_bit 16 (drop_bit 112 a) OR ucast (ucast (drop_bit 96 a) :: 16 word) = drop_bit 96 a"
    "push_bit 16 (drop_bit 96 a) OR ucast (ucast (drop_bit 80 a) :: 16 word) = drop_bit 80 a"
    "push_bit 16 (drop_bit 80 a) OR ucast (ucast (drop_bit 64 a) :: 16 word) = drop_bit 64 a"
    "push_bit 16 (drop_bit 64 a) OR ucast (ucast (drop_bit 48 a) :: 16 word) = drop_bit 48 a"
    by (rule join; simp)+
  show "from_segments (take 4 (segments a)) = drop_bit 64 a"
    unfolding from_segments_def four foldl.simps zero steps by (rule refl)
  show "from_segments (take 5 (segments a)) = drop_bit 48 a"
    unfolding from_segments_def five foldl.simps zero steps by (rule refl)
qed

text \<open>The network of an address, without the segments: the 64 high bits.\<close>

definition network :: "128 word \<Rightarrow> 128 word" where
  "network a = a AND NOT (mask 64)"

lemma network_segments: "from_segments (take 4 (segments a) @ replicate 4 0) = network a"
proof -
  have "from_segments (take 4 (segments a) @ replicate 4 0)
      = foldl (\<lambda>a s. push_bit 16 a OR ucast s) (drop_bit 64 a) (replicate 4 (0 :: 16 word))"
    using high_segments(1) [of a] unfolding from_segments_def foldl_append by (simp only:)
  also have "\<dots> = push_bit 64 (drop_bit 64 a)" by (simp add: numeral_eq_Suc push_bit_push_bit)
  also have "\<dots> = network a"
    unfolding network_def by (rule bit_word_eqI) (auto simp: bit_simps)
  finally show ?thesis .
qed

lemma network_eq: "network a = network b \<longleftrightarrow> drop_bit 64 a = drop_bit 64 b"
proof
  assume "network a = network b"
  then have "drop_bit 64 (network a) = drop_bit 64 (network b)" by simp
  moreover have "drop_bit 64 (network c) = drop_bit 64 c" for c
    unfolding network_def by (rule bit_word_eqI) (auto simp: bit_simps dest: bit_imp_le_length)
  ultimately show "drop_bit 64 a = drop_bit 64 b" by simp
next
  assume "drop_bit 64 a = drop_bit 64 b"
  moreover have "network c = push_bit 64 (drop_bit 64 c)" for c
    unfolding network_def by (rule bit_word_eqI) (auto simp: bit_simps)
  ultimately show "network a = network b" by simp
qed

lemma mapped_address: "to_ipv4_mapped a = (if drop_bit 32 a = 0xFFFF then Some (ucast a) else None)"
proof -
  have five: "take 5 (segments a) = [ucast (drop_bit 112 a), ucast (drop_bit 96 a), ucast (drop_bit 80 a), ucast (drop_bit 64 a),
      ucast (drop_bit 48 a)]" and fifth: "segments a ! 5 = ucast (drop_bit 32 a)"
    by (simp_all add: segments_eq)
  have "take 5 (segments a) = [0, 0, 0, 0, 0] \<and> segments a ! 5 = 0xFFFF \<longleftrightarrow> drop_bit 32 a = 0xFFFF"
  proof
    assume z: "take 5 (segments a) = [0, 0, 0, 0, 0] \<and> segments a ! 5 = 0xFFFF"
    have "drop_bit 48 a = 0" using high_segments(2) [of a] z by (simp add: from_segments_def)
    moreover have "push_bit 16 (drop_bit 48 a) OR ucast (ucast (drop_bit 32 a) :: 16 word) = drop_bit 32 a"
      using join_segment [of 2 a] by simp
    ultimately show "drop_bit 32 a = 0xFFFF" using z unfolding fifth by simp
  next
    assume m: "drop_bit 32 a = 0xFFFF"
    have d: "drop_bit (32 + n) a = drop_bit n 0xFFFF" for n unfolding m [symmetric] by (simp add: add.commute)
    show "take 5 (segments a) = [0, 0, 0, 0, 0] \<and> segments a ! 5 = 0xFFFF"
      unfolding five fifth m using d [of 16] d [of 32] d [of 48] d [of 64] d [of 80] by simp
  qed
  then show ?thesis by (simp add: to_ipv4_mapped_def)
qed

lemma group_v6: "group_client (V6 a) = (if drop_bit 32 a = 0xFFFF then V4 (ucast a) else V6 (network a))"
  by (simp add: group_client_def mapped_address network_segments)

lemma mapped_bits:
  fixes c :: "128 word" and v :: "32 word"
  shows "ucast (push_bit 32 c OR ucast v) = v" "drop_bit 32 (push_bit 32 c OR ucast v) = drop_bit 32 (push_bit 32 c)"
  by (rule bit_word_eqI; auto simp: bit_simps dest: bit_imp_le_length)+

text \<open>
  The rate limit cannot be dodged by choosing addresses. Two IPv6 clients that are not mapped IPv4
  addresses share a budget exactly if their 64 high bits agree, a mapped address shares the budget of
  its IPv4 address, and the header decides nothing unless the peer is the local proxy.
\<close>

theorem client_budgets:
  "(drop_bit 32 a = 0xFFFF \<or> drop_bit 32 b = 0xFFFF
      \<or> (group_client (V6 a) = group_client (V6 b) \<longleftrightarrow> drop_bit 64 a = drop_bit 64 b))
   \<and> group_client (V6 (push_bit 32 0xFFFF OR ucast (v :: 32 word))) = group_client (V4 v)
   \<and> (is_loopback p \<or> client_key parse_ip (req\<lparr>rq_peer := Some p\<rparr>) = group_client p)"
proof -
  have "drop_bit 32 (push_bit 32 0xFFFF OR ucast v) = (0xFFFF :: 128 word)"
    unfolding mapped_bits by simp
  then have "group_client (V6 (push_bit 32 0xFFFF OR ucast v)) = group_client (V4 v)"
    unfolding group_v6 mapped_bits by (simp add: group_client_def)
  moreover have "is_loopback p \<or> client_key parse_ip (req\<lparr>rq_peer := Some p\<rparr>) = group_client p"
    by (simp add: client_key_def Let_def)
  ultimately show ?thesis by (simp add: group_v6 network_eq)
qed

text \<open>
  A local proxy that connects to a dual-stack socket over IPv4 is not taken for local: its peer
  address is mapped, so all its clients share one budget whatever it forwards.
\<close>

lemma mapped_proxy_not_local:
  "client_key parse_ip (req\<lparr>rq_peer := Some (V6 0xFFFF7F000001)\<rparr>) = group_client (V4 0x7F000001)"
  by (simp add: client_key_def Let_def is_loopback_def group_v6) (simp add: group_client_def)


subsection \<open>Authorization\<close>














end
