(* ===== verification/Read_Api.thy ===== *)
theory Read_Api
  imports Request_Handling Version_Facts
begin

section \<open>Reading over REST and MCP\<close>

text \<open>
  The read operations of \<open>Storage\<close> (\<open>server/src/storage/mod.rs\<close>) behind the REST handlers
  (\<open>server/src/api/providers.rs\<close>, \<open>server/src/api/vulnerabilities.rs\<close>, \<open>server/src/api/sync.rs\<close>) and
  behind the tools and resources of the MCP endpoint (\<open>server/src/mcp/tools.rs\<close>,
  \<open>server/src/mcp/resources.rs\<close>). A handler gives the value it serializes. The overview and the
  detail view, which both endpoints take from the same functions, are modelled in
  \<open>Instance_Overview\<close>.
\<close>

subsection \<open>What can be read\<close>

record diff_output =
  do_inserted :: nat
  do_deleted :: nat
  do_diff :: string
  do_truncated :: bool

datatype body = DocumentsBody "document_validation paginated" | DocumentBody document_validation
  | ContentBody document_content | VersionsBody "document_version_info paginated"
  | HistoricalBody historical_document | DiffBody "diff_line list" | RenderedBody diff_output
  | RunsBody "commit_info paginated" | SearchBody cve_search_result
  | SummariesBody "provider_summary list" | StatusBody "string \<rightharpoonup> sync_status_entry"

datatype read_call = Documents string "string option" "nat option" "nat option"
  | Document string string | Content string string | Versions string string "nat option" "nat option"
  | Historical string string string | DocumentDiff string string string
  | Runs string "nat option" "nat option" | SearchCve string bool | Providers | SyncStatus

text \<open>
  The repositories by domain as the readers see them, upper-casing, the order in which the queries of
  a search are answered, and the time.
\<close>

record view_env =
  ve_read :: "string \<Rightarrow> read_env"
  ve_upper :: "string \<Rightarrow> string"
  ve_arrival :: "string list \<Rightarrow> string list"
  ve_now :: int

definition with_db :: "string \<Rightarrow> (provider_db option \<Rightarrow> 'a) \<Rightarrow> server \<Rightarrow> 'a \<times> server" where
  "with_db domain f sv = (f (database_of (sr_storage sv) domain),
     sv\<lparr>sr_storage := snd (pool_get_if_exists domain (sr_storage sv))\<rparr>)"

definition provider_history_paginated :: "nat \<Rightarrow> nat \<Rightarrow> provider_db option \<Rightarrow> commit_info paginated option" where
  "provider_history_paginated offset limit db = (case db of
     None \<Rightarrow> Some \<lparr>pg_items = [], pg_total = 0, pg_offset = offset, pg_limit = limit\<rparr>
   | Some db \<Rightarrow> Some (load_sync_runs_paginated db offset limit))"

definition documents_paginated :: "nat \<Rightarrow> nat \<Rightarrow> string option \<Rightarrow> provider_db option
    \<Rightarrow> document_validation paginated option" where
  "documents_paginated offset limit status db = (case db of
     None \<Rightarrow> Some \<lparr>pg_items = [], pg_total = 0, pg_offset = offset, pg_limit = limit\<rparr>
   | Some db \<Rightarrow> Some (load_documents_paginated db offset limit status))"

definition stored_document :: "string \<Rightarrow> provider_db option \<Rightarrow> document_validation option" where
  "stored_document tracking_id db = Option.bind db (\<lambda>db. load_document db tracking_id)"

text \<open>Both endpoints read the same; \<open>page\<close> is how the endpoint makes a page of its parameters.\<close>

definition read_view :: "view_env \<Rightarrow> (nat option \<Rightarrow> nat option \<Rightarrow> nat \<times> nat) \<Rightarrow> read_call
    \<Rightarrow> server \<Rightarrow> (string + body option) \<times> server" where
  "read_view env page call sv = (case call of
     Documents d status offset limit \<Rightarrow> (case page offset limit of (o', l) \<Rightarrow>
       with_db d (\<lambda>db. Inr (map_option DocumentsBody (documents_paginated o' l status db))) sv)
   | Document d t \<Rightarrow> with_db d (\<lambda>db. Inr (map_option DocumentBody (stored_document t db))) sv
   | Content d t \<Rightarrow> with_db d (\<lambda>db. map_sum id (map_option ContentBody)
       (read_document_content (ve_read env d) db t)) sv
   | Versions d t offset limit \<Rightarrow> (case page offset limit of (o', l) \<Rightarrow>
       with_db d (\<lambda>db. Inr (map_option VersionsBody (document_versions db t o' l))) sv)
   | Historical d t c \<Rightarrow> with_db d (\<lambda>db. map_sum id (map_option HistoricalBody)
       (read_historical_document (ve_read env d) db t c)) sv
   | DocumentDiff d t c \<Rightarrow> with_db d (\<lambda>db. map_sum id (map_option DiffBody)
       (diff_document_versions (ve_read env d) db t c)) sv
   | Runs d offset limit \<Rightarrow> (case page offset limit of (o', l) \<Rightarrow>
       with_db d (\<lambda>db. Inr (map_option RunsBody (provider_history_paginated o' l db))) sv)
   | SearchCve cve prefix_mode \<Rightarrow> (case find_cve (ve_upper env) (ve_arrival env) cve prefix_mode (sr_storage sv) of
       (r, sg) \<Rightarrow> (Inr (Some (SearchBody r)), sv\<lparr>sr_storage := sg\<rparr>))
   | Providers \<Rightarrow> (case list_summaries (sr_storage sv) of (stored, sg) \<Rightarrow>
       (Inr (Some (SummariesBody (list_providers (ve_now env) (cf_sources (sr_config sv)) stored))),
        sv\<lparr>sr_storage := sg\<rparr>))
   | SyncStatus \<Rightarrow> (Inr (Some (StatusBody (build_status_entries (ve_now env)
       (\<lambda>d. case map_of (cf_sources (sr_config sv)) d of Some s \<Rightarrow> src_enabled s | None \<Rightarrow> False) (sr_jobs sv)))), sv))"

subsection \<open>REST\<close>

definition or_not_found :: "string + 'a option \<Rightarrow> api_error + 'a" where
  "or_not_found r = (case r of Inl e \<Rightarrow> Inl (Internal e) | Inr None \<Rightarrow> Inl NotFound | Inr (Some x) \<Rightarrow> Inr x)"

definition rest_read :: "view_env \<Rightarrow> read_call \<Rightarrow> server \<Rightarrow> (api_error + body) \<times> server" where
  "rest_read env call sv = map_prod or_not_found id (read_view env rest_page call sv)"

text \<open>\<open>document_source\<close> asks for the text whatever its size.\<close>

datatype source_answer = SourceText string | PayloadTooLarge

definition document_source :: "view_env \<Rightarrow> nat \<Rightarrow> string \<Rightarrow> string \<Rightarrow> server \<Rightarrow> (api_error + source_answer) \<times> server" where
  "document_source env usize_max d t sv = map_prod (\<lambda>r. map_sum id
       (\<lambda>raw. case raw of RawJson s \<Rightarrow> SourceText s | TooLarge _ \<Rightarrow> PayloadTooLarge) (or_not_found r)) id
     (with_db d (\<lambda>db. read_document_raw (ve_read env d) db t None usize_max) sv)"

subsection \<open>Tools\<close>

definition DEFAULT_LIMIT :: nat where "DEFAULT_LIMIT = 50"

definition MAX_LIMIT :: nat where "MAX_LIMIT = 200"

definition MAX_DIFF_LINES :: nat where "MAX_DIFF_LINES = 1000"

definition tool_page :: "nat option \<Rightarrow> nat option \<Rightarrow> nat \<times> nat" where
  "tool_page offset limit = (case offset of Some n \<Rightarrow> n | None \<Rightarrow> 0,
     min (max 1 (case limit of Some n \<Rightarrow> n | None \<Rightarrow> DEFAULT_LIMIT)) MAX_LIMIT)"

text \<open>The loop of \<open>render_diff\<close>, with the number of unchanged lines passed since the last change.\<close>

fun render_lines :: "nat \<Rightarrow> diff_line list \<Rightarrow> string list" where
  "render_lines unchanged [] = []"
| "render_lines unchanged (l # ls) = (if dl_tag l = TagEqual then render_lines (Suc unchanged) ls
     else (if 0 < unchanged then [''  ('' @ digits unchanged @ '' unchanged lines)''] else [])
       @ ((if dl_tag l = TagInsert then ''+ '' else ''- '') @ dl_content l) # render_lines 0 ls)"

definition render_diff :: "diff_line list \<Rightarrow> diff_output" where
  "render_diff ls = (let rendered = render_lines 0 ls in
     \<lparr>do_inserted = length (filter (\<lambda>l. dl_tag l = TagInsert) ls),
      do_deleted = length (filter (\<lambda>l. dl_tag l = TagDelete) ls),
      do_diff = join_on (CHR 0x0A) (take MAX_DIFF_LINES rendered),
      do_truncated = (length rendered > MAX_DIFF_LINES)\<rparr>)"

datatype 'a tool_result = JsonResult 'a | ToolError string

datatype mcp_error = InvalidParams string | InvalidRequest string | ResourceNotFound string | InternalError string

definition unknown :: "read_call \<Rightarrow> string" where
  "unknown call = (case call of
     Documents d _ _ _ \<Rightarrow> ''Unknown provider: '' @ d
   | Document d t \<Rightarrow> ''Unknown document '' @ t @ '' at '' @ d
   | Content d t \<Rightarrow> ''Unknown document '' @ t @ '' at '' @ d
   | Versions d t _ _ \<Rightarrow> ''Unknown document '' @ t @ '' at '' @ d
   | Historical d t c \<Rightarrow> ''Unknown version '' @ c @ '' of '' @ t @ '' at '' @ d
   | DocumentDiff d t c \<Rightarrow> ''No newer version to compare '' @ c @ '' of '' @ t @ '' at '' @ d @ '' with''
   | Runs d _ _ \<Rightarrow> ''Unknown provider: '' @ d
   | _ \<Rightarrow> [])"

definition tool_body :: "body \<Rightarrow> body" where
  "tool_body b = (case b of DiffBody ls \<Rightarrow> RenderedBody (render_diff ls) | _ \<Rightarrow> b)"

definition call_tool :: "view_env \<Rightarrow> read_call \<Rightarrow> server \<Rightarrow> (mcp_error + body tool_result) \<times> server" where
  "call_tool env call sv =
     (if (case call of SearchCve cve _ \<Rightarrow> trim cve = [] | _ \<Rightarrow> False)
      then (Inr (ToolError ''`cve` must not be empty''), sv)
      else (case read_view env tool_page call sv of
          (Inl e, sv') \<Rightarrow> (Inl (InternalError e), sv')
        | (Inr None, sv') \<Rightarrow> (Inr (ToolError (unknown call)), sv')
        | (Inr (Some b), sv') \<Rightarrow> (Inr (JsonResult (tool_body b)), sv')))"

subsection \<open>Resources\<close>

definition MAX_RAW_BYTES :: nat where "MAX_RAW_BYTES = 4 * 1024 * 1024"

record advisory_ref =
  ar_domain :: string
  ar_tracking_id :: string
  ar_commit_id :: "string option"

text \<open>\<open>s.rsplit_once(c)\<close>.\<close>

definition rsplit_once :: "'a \<Rightarrow> 'a list \<Rightarrow> ('a list \<times> 'a list) option" where
  "rsplit_once c s = map_option (\<lambda>(b, a). (rev a, rev b)) (split_once c (rev s))"

text \<open>\<open>decode\<close> is percent-decoding to UTF-8.\<close>

definition parse_uri :: "(string \<Rightarrow> string option) \<Rightarrow> string \<Rightarrow> advisory_ref option" where
  "parse_uri decode uri =
     Option.bind (strip_prefix ''csaf://'' uri) (\<lambda>r. Option.bind (split_once (CHR ''/'') r) (\<lambda>(domain, rest).
       let (tracking_id, commit_id) = (case rsplit_once (CHR ''@'') rest of
             Some (t, c) \<Rightarrow> (t, Some c) | None \<Rightarrow> (rest, None)) in
       Option.bind (decode domain) (\<lambda>domain. Option.bind (decode tracking_id) (\<lambda>tracking_id.
         if domain \<noteq> [] \<and> tracking_id \<noteq> [] then Some \<lparr>ar_domain = domain, ar_tracking_id = tracking_id,
           ar_commit_id = (case commit_id of Some c \<Rightarrow> if c \<noteq> [] then Some c else None | None \<Rightarrow> None)\<rparr>
         else None))))"

definition read_resource :: "(string \<Rightarrow> string option) \<Rightarrow> (nat \<Rightarrow> string) \<Rightarrow> view_env \<Rightarrow> string \<Rightarrow> server
    \<Rightarrow> (mcp_error + string) \<times> server" where
  "read_resource decode byte_size env uri sv = (case parse_uri decode uri of
     None \<Rightarrow> (Inl (InvalidParams (''Expected csaf://{domain}/{tracking_id}[@'' @ ''{commit_id}], got '' @ uri)), sv)
   | Some r \<Rightarrow> (case with_db (ar_domain r) (\<lambda>db. read_document_raw (ve_read env (ar_domain r)) db
         (ar_tracking_id r) (ar_commit_id r) MAX_RAW_BYTES) sv of
       (Inl e, sv') \<Rightarrow> (Inl (InternalError e), sv')
     | (Inr (Some (RawJson s)), sv') \<Rightarrow> (Inr s, sv')
     | (Inr (Some (TooLarge n)), sv') \<Rightarrow> (Inl (InvalidRequest (''Advisory is '' @ byte_size n @ '' (limit ''
         @ byte_size MAX_RAW_BYTES @ ''); use get_document_content instead'')), sv')
     | (Inr None, sv') \<Rightarrow> (Inl (ResourceNotFound (''No advisory at '' @ uri)), sv')))"

end
