(* ===== verification/Read_Facts.thy ===== *)
theory Read_Facts
  imports Read_Api Request_Facts
begin

section \<open>What the read operations promise\<close>

text \<open>
  Readers do not influence each other, the tools of the MCP endpoint show what the REST API shows, and
  the resource URIs name documents exactly.
\<close>

subsection \<open>Readers do not interfere\<close>
























subsection \<open>Reading changes nothing\<close>

lemma with_db_cases: "with_db d f sv = (f (database_of (sr_storage sv) d), sv\<lparr>sr_storage := snd (pool_get_if_exists d (sr_storage sv))\<rparr>)"
  by (rule with_db_def)










subsection \<open>Tools show what REST shows\<close>

lemma tool_page_bounds: "1 \<le> snd (tool_page offset limit) \<and> snd (tool_page offset limit) \<le> 200"
  by (simp add: tool_page_def MAX_LIMIT_def)




text \<open>
  Documents and runs of a provider that does not exist are an empty page: the answer for an unknown
  provider, which both endpoints have, is never given.
\<close>

lemma unknown_provider_not_reported:
  "fst (rest_read env (Documents d status offset limit) sv) \<noteq> Inl api_error.NotFound"
  "fst (call_tool env (Runs d offset limit) sv) \<noteq> Inr (ToolError (''Unknown provider: '' @ d))"
  by (simp_all add: rest_read_def call_tool_def read_view_def with_db_def or_not_found_def documents_paginated_def
      provider_history_paginated_def prod.case_eq_if split: option.split)



subsection \<open>Resource URIs\<close>

lemma split_once_iff: "split_once c s = Some (a, b) \<longleftrightarrow> s = a @ c # b \<and> c \<notin> set a"
proof
  assume "s = a @ c # b \<and> c \<notin> set a"
  then have "takeWhile (\<lambda>x. x \<noteq> c) s = a" by (auto intro: takeWhile_append2 [THEN trans])
  then show "split_once c s = Some (a, b)" using \<open>s = a @ c # b \<and> c \<notin> set a\<close> by (simp add: split_once_def Let_def)
qed (rule split_once_Some)

lemma split_once_none: "split_once c s = None \<longleftrightarrow> c \<notin> set s"
proof -
  have "length (takeWhile (\<lambda>x. x \<noteq> c) s) = length s \<longleftrightarrow> c \<notin> set s"
    using length_takeWhile_le [of "\<lambda>x. x \<noteq> c" s] takeWhile_eq_all_conv [of "\<lambda>x. x \<noteq> c" s]
    by (metis takeWhile_eq_take take_all_iff order_refl)
  then show ?thesis using length_takeWhile_le [of "\<lambda>x. x \<noteq> c" s] by (auto simp: split_once_def Let_def)
qed

lemma rsplit_once_iff: "rsplit_once c s = Some (a, b) \<longleftrightarrow> s = a @ c # b \<and> c \<notin> set b"
proof -
  have "rsplit_once c s = Some (a, b) \<longleftrightarrow> split_once c (rev s) = Some (rev b, rev a)"
    unfolding rsplit_once_def by force
  also have "\<dots> \<longleftrightarrow> rev s = rev (a @ c # b) \<and> c \<notin> set b" by (simp add: split_once_iff)
  finally show ?thesis by (simp only: rev_is_rev_conv)
qed

lemma rsplit_once_none: "rsplit_once c s = None \<longleftrightarrow> c \<notin> set s"
  by (simp add: rsplit_once_def split_once_none)

text \<open>
  The resource URIs that are understood are exactly the advertised ones, and each one names one
  document: the parts before and after the first slash, the latter without the commit after its last at
  sign, decode to a domain and a tracking id that are not empty; a trailing at sign means the current
  version.
\<close>

theorem resource_uris_exact:
  "parse_uri decode uri = Some r \<longleftrightarrow>
     (\<exists>domain tracking_id. CHR ''/'' \<notin> set domain
        \<and> decode domain = Some (ar_domain r) \<and> decode tracking_id = Some (ar_tracking_id r)
        \<and> ar_domain r \<noteq> [] \<and> ar_tracking_id r \<noteq> []
        \<and> (case ar_commit_id r of
            Some c \<Rightarrow> c \<noteq> [] \<and> CHR ''@'' \<notin> set c \<and> uri = ''csaf://'' @ domain @ ''/'' @ tracking_id @ ''@'' @ c
          | None \<Rightarrow> uri = ''csaf://'' @ domain @ ''/'' @ tracking_id @ ''@''
              \<or> uri = ''csaf://'' @ domain @ ''/'' @ tracking_id \<and> CHR ''@'' \<notin> set tracking_id))"
    (is "_ \<longleftrightarrow> (\<exists>domain tracking_id. ?P domain tracking_id)")
proof
  assume p: "parse_uri decode uri = Some r"
  then obtain rest where s: "uri = ''csaf://'' @ rest"
    by (cases "strip_prefix ''csaf://'' uri") (simp_all add: parse_uri_def)
  then have sp: "strip_prefix ''csaf://'' uri = Some rest" by simp
  obtain d u where du: "split_once (CHR ''/'') rest = Some (d, u)"
    using p sp by (cases "split_once (CHR ''/'') rest") (auto simp: parse_uri_def)
  then have rest: "rest = d @ ''/'' @ u" "CHR ''/'' \<notin> set d" by (simp_all add: split_once_iff)
  obtain t c where tc: "(case rsplit_once (CHR ''@'') u of Some (t, c) \<Rightarrow> (t, Some c) | None \<Rightarrow> (u, None)) = (t, c)" by force
  obtain d' where d': "decode d = Some d'"
    using p by (cases "decode d") (simp_all add: parse_uri_def sp du tc)
  obtain t' where t': "decode t = Some t'"
    using p by (cases "decode t") (simp_all add: parse_uri_def sp du tc d')
  have r: "d' \<noteq> []" "t' \<noteq> []" "r = \<lparr>ar_domain = d', ar_tracking_id = t',
      ar_commit_id = (case c of Some c \<Rightarrow> if c \<noteq> [] then Some c else None | None \<Rightarrow> None)\<rparr>"
    using p by (simp_all add: parse_uri_def sp du tc d' t' split: if_splits)
  have "?P d t"
  proof (cases "rsplit_once (CHR ''@'') u")
    case None
    then have "t = u" "c = None" using tc by simp_all
    moreover have "CHR ''@'' \<notin> set u" using None by (simp add: rsplit_once_none)
    ultimately show ?thesis using r d' t' rest s by simp
  next
    case (Some tc')
    obtain t0 c0 where "tc' = (t0, c0)" by force
    then have c: "c = Some c0" and "rsplit_once (CHR ''@'') u = Some (t, c0)" using Some tc by simp_all
    then have "u = t @ ''@'' @ c0" "CHR ''@'' \<notin> set c0" by (simp_all add: rsplit_once_iff)
    then show ?thesis using r d' t' rest s c by (cases "c0 = []") simp_all
  qed
  then show "\<exists>domain tracking_id. ?P domain tracking_id" by blast
next
  assume "\<exists>domain tracking_id. ?P domain tracking_id"
  then obtain d t where h: "?P d t" by blast
  obtain u c where u: "uri = ''csaf://'' @ (d @ CHR ''/'' # u)"
    and sp: "(case rsplit_once (CHR ''@'') u of Some (t, c) \<Rightarrow> (t, Some c) | None \<Rightarrow> (u, None)) = (t, c)"
    and c: "(case c of Some c \<Rightarrow> if c \<noteq> [] then Some c else None | None \<Rightarrow> None) = ar_commit_id r"
  proof (cases "ar_commit_id r")
    case None
    show ?thesis
    proof (cases "uri = ''csaf://'' @ d @ ''/'' @ t @ ''@''")
      case True
      have "rsplit_once (CHR ''@'') (t @ ''@'') = Some (t, [])" by (simp add: rsplit_once_iff)
      then show ?thesis using that [of "t @ ''@''" "Some []"] True None by simp
    next
      case False
      then have "uri = ''csaf://'' @ d @ ''/'' @ t" "rsplit_once (CHR ''@'') t = None" using h None by (simp_all add: rsplit_once_none)
      then show ?thesis using that [of t None] None by simp
    qed
  next
    case (Some c)
    then have "rsplit_once (CHR ''@'') (t @ ''@'' @ c) = Some (t, c)" "c \<noteq> []" "uri = ''csaf://'' @ d @ ''/'' @ t @ ''@'' @ c"
      using h by (simp_all add: rsplit_once_iff)
    then show ?thesis using that [of "t @ ''@'' @ c" "Some c"] Some by simp
  qed
  have parts: "strip_prefix ''csaf://'' uri = Some (d @ CHR ''/'' # u)" "split_once (CHR ''/'') (d @ CHR ''/'' # u) = Some (d, u)"
    using u h by (simp_all add: split_once_iff)
  from h have dec: "decode d = Some (ar_domain r)" "decode t = Some (ar_tracking_id r)"
    and ne: "ar_domain r \<noteq> [] \<and> ar_tracking_id r \<noteq> []" by blast+
  show "parse_uri decode uri = Some r"
    unfolding parse_uri_def parts bind.bind_lunit prod.case sp Let_def dec if_P [OF ne] c by simp
qed

end
