(* ===== verification/Diff_Views.thy ===== *)
theory Diff_Views
  imports Read_Api
begin

section \<open>Differences, pages and numbers on the screen\<close>

text \<open>
  What the dashboard makes of the values of the API: the collapsible diff of
  \<open>dashboard/src/components/diff_view.rs\<close>, the page buttons of
  \<open>dashboard/src/components/pagination.rs\<close> and the grouped numbers of \<open>dashboard/src/format.rs\<close>; and
  what the diff tool (\<open>render_diff\<close> in \<open>Read_Api\<close>) shows of the same lines.
\<close>

subsection \<open>Line numbers\<close>

record numbered_line =
  nl_old_num :: "nat option"
  nl_new_num :: "nat option"
  nl_tag :: diff_tag
  nl_content :: string

text \<open>The mapping closure of \<open>assign_line_numbers\<close> with its two counters.\<close>

fun number_from :: "nat \<Rightarrow> nat \<Rightarrow> diff_line list \<Rightarrow> numbered_line list" where
  "number_from old_num new_num [] = []"
| "number_from old_num new_num (line # lines) = (case dl_tag line of
     TagEqual \<Rightarrow> \<lparr>nl_old_num = Some (Suc old_num), nl_new_num = Some (Suc new_num), nl_tag = TagEqual,
       nl_content = dl_content line\<rparr> # number_from (Suc old_num) (Suc new_num) lines
   | TagDelete \<Rightarrow> \<lparr>nl_old_num = Some (Suc old_num), nl_new_num = None, nl_tag = TagDelete,
       nl_content = dl_content line\<rparr> # number_from (Suc old_num) new_num lines
   | TagInsert \<Rightarrow> \<lparr>nl_old_num = None, nl_new_num = Some (Suc new_num), nl_tag = TagInsert,
       nl_content = dl_content line\<rparr> # number_from old_num (Suc new_num) lines)"

definition assign_line_numbers :: "diff_line list \<Rightarrow> numbered_line list" where
  "assign_line_numbers lines = number_from 0 0 lines"

subsection \<open>Sections\<close>

definition CONTEXT_LINES :: nat where "CONTEXT_LINES = 3"

definition mark_range :: "nat \<Rightarrow> nat \<Rightarrow> bool list \<Rightarrow> bool list" where
  "mark_range start finish visible = fold (\<lambda>j v. v[j := True]) [start..<finish] visible"

definition visible_lines :: "numbered_line list \<Rightarrow> nat \<Rightarrow> bool list" where
  "visible_lines lines n = fold (\<lambda>i visible. if nl_tag (lines ! i) \<noteq> TagEqual
       then mark_range (i - n) (min (i + n + 1) (length lines)) visible else visible)
     [0..<length lines] (replicate (length lines) False)"

fun split_sections :: "(numbered_line \<times> bool) list \<Rightarrow> bool \<Rightarrow> numbered_line list
    \<Rightarrow> (bool \<times> numbered_line list) list \<Rightarrow> (bool \<times> numbered_line list) list" where
  "split_sections [] current_visible current_lines sections =
     (if current_lines \<noteq> [] then sections @ [(current_visible, current_lines)] else sections)"
| "split_sections ((line, vis) # ps) current_visible current_lines sections =
     (if vis \<noteq> current_visible \<and> current_lines \<noteq> []
      then split_sections ps vis [line] (sections @ [(current_visible, current_lines)])
      else split_sections ps current_visible (current_lines @ [line]) sections)"

definition compute_sections :: "numbered_line list \<Rightarrow> nat \<Rightarrow> (bool \<times> numbered_line list) list" where
  "compute_sections lines n = (if lines = [] then []
     else (let visible = visible_lines lines n in
       if list_all id visible then [(True, lines)]
       else split_sections (zip lines visible) (visible ! 0) [] []))"

subsection \<open>Page buttons\<close>

definition page_window :: "nat \<Rightarrow> nat \<Rightarrow> nat list" where
  "page_window current count = (if count \<le> 7 then [1..<Suc count]
     else (let pages = [1] @ (if 3 < current then [0] else [])
             @ [max (current - 1) 2..<Suc (min (current + 1) (count - 1))]
             @ (if current < count - 2 then [0] else []) in
       if last pages \<noteq> count then pages @ [count] else pages))"

definition total_pages :: "nat \<Rightarrow> nat \<Rightarrow> nat" where
  "total_pages count limit = (if count = 0 then 1 else (count + limit - 1) div limit)"

definition page_offset :: "nat \<Rightarrow> nat \<Rightarrow> nat" where
  "page_offset p limit = (p - 1) * limit"

subsection \<open>Numbers\<close>

definition format_number :: "nat \<Rightarrow> string" where
  "format_number value = (let ds = digits value in
     concat (map (\<lambda>(index, digit). if 0 < index \<and> (length ds - index) mod 3 = 0 then [CHR '','', digit] else [digit])
       (enumerate 0 ds)))"

end
