(* ===== verification/View_Facts.thy ===== *)
theory View_Facts
  imports Diff_Views
begin

section \<open>What the screen shows\<close>

text \<open>
  The collapsible diff shows every line once, in order, with its numbers, and hides exactly the lines
  far from any change; the page buttons lead to the pages there are; grouping keeps the digits.
\<close>

subsection \<open>Line numbers\<close>

lemma number_from_lines:
  "map nl_content (number_from a b ls) = map dl_content ls" "map nl_tag (number_from a b ls) = map dl_tag ls"
  by (induction a b ls rule: number_from.induct) (auto split: diff_tag.splits)

lemma number_from_old:
  "map nl_old_num (filter (\<lambda>l. nl_tag l \<noteq> TagInsert) (number_from a b ls))
     = map Some [Suc a..<Suc a + length (filter (\<lambda>l. dl_tag l \<noteq> TagInsert) ls)]"
  by (induction a b ls rule: number_from.induct) (simp_all add: upt_conv_Cons del: upt_Suc split: diff_tag.split)

lemma number_from_new:
  "map nl_new_num (filter (\<lambda>l. nl_tag l \<noteq> TagDelete) (number_from a b ls))
     = map Some [Suc b..<Suc b + length (filter (\<lambda>l. dl_tag l \<noteq> TagDelete) ls)]"
  by (induction a b ls rule: number_from.induct) (simp_all add: upt_conv_Cons del: upt_Suc split: diff_tag.split)

lemma number_from_none:
  "list_all (\<lambda>l. (nl_old_num l = None) = (nl_tag l = TagInsert) \<and> (nl_new_num l = None) = (nl_tag l = TagDelete))
     (number_from a b ls)"
  by (induction a b ls rule: number_from.induct) (auto split: diff_tag.splits)

lemma number_from_length [simp]: "length (number_from a b ls) = length ls"
  using arg_cong [OF number_from_lines(1), of length a b ls] by simp

subsection \<open>Visible lines\<close>

lemma mark_range_length [simp]: "length (mark_range s f v) = length v"
proof -
  have "length (fold (\<lambda>j v. v[j := True]) js v) = length v" for js
    by (induction js arbitrary: v) simp_all
  then show ?thesis by (simp add: mark_range_def)
qed

lemma mark_range_nth: "i < length v \<Longrightarrow> mark_range s f v ! i \<longleftrightarrow> v ! i \<or> s \<le> i \<and> i < f"
proof (induction f)
  case 0
  show ?case by (simp add: mark_range_def)
next
  case (Suc f)
  show ?case
  proof (cases "s \<le> f")
    case True
    then have "mark_range s (Suc f) v = (mark_range s f v)[f := True]" by (simp add: mark_range_def)
    moreover have "(mark_range s f v)[f := True] ! i \<longleftrightarrow> i = f \<or> mark_range s f v ! i"
      using Suc.prems nth_list_update [of f "mark_range s f v" True i]
      by (cases "f < length v") (auto simp: list_update_beyond)
    ultimately show ?thesis using Suc True by (simp add: less_Suc_eq) blast
  next
    case False
    then show ?thesis by (auto simp: mark_range_def)
  qed
qed

lemma visible_prefix:
  fixes n :: nat and ls :: "numbered_line list"
  assumes "k \<le> length ls"
  defines "step \<equiv> \<lambda>i visible. if nl_tag (ls ! i) \<noteq> TagEqual
       then mark_range (i - n) (min (i + n + 1) (length ls)) visible else visible"
  shows "length (fold step [0..<k] (replicate (length ls) False)) = length ls
    \<and> (\<forall>i < length ls. fold step [0..<k] (replicate (length ls) False) ! i
        \<longleftrightarrow> (\<exists>j < k. nl_tag (ls ! j) \<noteq> TagEqual \<and> i \<le> j + n \<and> j \<le> i + n))"
  using assms(1)
proof (induction k)
  case 0
  show ?case by simp
next
  case (Suc k)
  let ?v = "fold step [0..<k] (replicate (length ls) False)"
  have v: "length ?v = length ls" "\<And>i. i < length ls \<Longrightarrow>
      ?v ! i \<longleftrightarrow> (\<exists>j < k. nl_tag (ls ! j) \<noteq> TagEqual \<and> i \<le> j + n \<and> j \<le> i + n)"
    using Suc by auto
  have s: "fold step [0..<Suc k] (replicate (length ls) False) = step k ?v" by simp
  show ?case
    unfolding s using v by (auto simp: step_def mark_range_nth less_Suc_eq)
qed

lemma visible_lines_eq:
  "visible_lines ls n = map (\<lambda>i. list_ex (\<lambda>j. nl_tag (ls ! j) \<noteq> TagEqual \<and> i \<le> j + n \<and> j \<le> i + n) [0..<length ls])
     [0..<length ls]"
proof (rule nth_equalityI)
  note v = visible_prefix [of "length ls" ls n, folded visible_lines_def]
  show "length (visible_lines ls n) = length (map (\<lambda>i. list_ex (\<lambda>j. nl_tag (ls ! j) \<noteq> TagEqual \<and> i \<le> j + n \<and> j \<le> i + n)
      [0..<length ls]) [0..<length ls])"
    using v by simp
  fix i assume "i < length (visible_lines ls n)"
  then have i: "i < length ls" using v by simp
  then have "visible_lines ls n ! i \<longleftrightarrow> (\<exists>j < length ls. nl_tag (ls ! j) \<noteq> TagEqual \<and> i \<le> j + n \<and> j \<le> i + n)"
    using v by simp
  then show "visible_lines ls n ! i = map (\<lambda>i. list_ex (\<lambda>j. nl_tag (ls ! j) \<noteq> TagEqual \<and> i \<le> j + n \<and> j \<le> i + n)
      [0..<length ls]) [0..<length ls] ! i"
    using i by (simp add: list_ex_iff Bex_def)
qed

subsection \<open>Sections\<close>

definition section_flags :: "(bool \<times> numbered_line list) list \<Rightarrow> bool list" where
  "section_flags S = concat (map (\<lambda>(v, xs). replicate (length xs) v) S)"

lemma split_sections_exact:
  assumes "acc \<noteq> []" "distinct_adj (map fst secs @ [cur])" "list_all (\<lambda>(_, xs). xs \<noteq> []) secs"
  shows "concat (map snd (split_sections ps cur acc secs)) = concat (map snd secs) @ acc @ map fst ps
    \<and> section_flags (split_sections ps cur acc secs) = section_flags secs @ replicate (length acc) cur @ map snd ps
    \<and> distinct_adj (map fst (split_sections ps cur acc secs))
    \<and> list_all (\<lambda>(_, xs). xs \<noteq> []) (split_sections ps cur acc secs)"
  using assms
proof (induction ps cur acc secs rule: split_sections.induct)
  case (1 cur acc secs)
  then show ?case by (simp add: section_flags_def)
next
  case (2 l vis ps cur acc secs)
  show ?case
  proof (cases "vis = cur")
    case True
    then show ?thesis using 2 by (simp add: section_flags_def replicate_append_same)
  next
    case False
    then have "distinct_adj (map fst (secs @ [(cur, acc)]) @ [vis])"
      using 2(4) by (simp add: distinct_adj_append_iff)
    then show ?thesis using 2 False by (simp add: section_flags_def)
  qed
qed

lemma zip_flags: "length vs = length ls \<Longrightarrow> map fst (zip ls vs) = ls \<and> map snd (zip ls vs) = vs"
  by simp

lemma compute_sections_exact:
  "concat (map snd (compute_sections ls n)) = ls \<and> section_flags (compute_sections ls n) = visible_lines ls n
   \<and> distinct_adj (map fst (compute_sections ls n)) \<and> list_all (\<lambda>(_, xs). xs \<noteq> []) (compute_sections ls n)"
proof (cases "ls = [] \<or> list_all id (visible_lines ls n)")
  case True
  have len: "length (visible_lines ls n) = length ls" by (simp add: visible_lines_eq)
  show ?thesis
  proof (cases ls)
    case Nil
    then show ?thesis by (simp add: compute_sections_def section_flags_def visible_lines_eq)
  next
    case (Cons l ls')
    then have "visible_lines ls n = replicate (length ls) True"
      using True len by (intro replicate_eqI) (auto simp: list_all_iff)
    then show ?thesis using True Cons by (simp add: compute_sections_def section_flags_def Let_def)
  qed
next
  case False
  then obtain l ls' where ls: "ls = l # ls'" by (cases ls) auto
  have len: "length (visible_lines ls n) = length ls" by (simp add: visible_lines_eq)
  then obtain v vs where vs: "visible_lines ls n = v # vs" "length vs = length ls'"
    using ls by (cases "visible_lines ls n") auto
  have "compute_sections ls n = split_sections (zip ls' vs) v [l] []"
    using False vs(1) unfolding ls compute_sections_def Let_def by auto
  then show ?thesis
    using split_sections_exact [of "[l]" "[]" v "zip ls' vs"] vs by (simp add: ls section_flags_def)
qed

text \<open>
  C33. The diff view shows a comparison faithfully. Its sections are the lines in order, each with its
  number in the old and in the new version; a section is shown or collapsed as a whole, neighbours
  differ, none is empty, and a line is shown exactly if at most three lines separate it from a change.
\<close>

theorem diff_view_exact:
  fixes ls :: "diff_line list"
  defines "numbered \<equiv> assign_line_numbers ls"
  defines "sections \<equiv> compute_sections numbered CONTEXT_LINES"
  shows "concat (map snd sections) = numbered
    \<and> map nl_content numbered = map dl_content ls \<and> map nl_tag numbered = map dl_tag ls
    \<and> map nl_old_num (filter (\<lambda>l. nl_tag l \<noteq> TagInsert) numbered)
        = map Some [1..<Suc (length (filter (\<lambda>l. dl_tag l \<noteq> TagInsert) ls))]
    \<and> map nl_new_num (filter (\<lambda>l. nl_tag l \<noteq> TagDelete) numbered)
        = map Some [1..<Suc (length (filter (\<lambda>l. dl_tag l \<noteq> TagDelete) ls))]
    \<and> section_flags sections = map (\<lambda>i. list_ex (\<lambda>j. dl_tag (ls ! j) \<noteq> TagEqual \<and> i \<le> j + 3 \<and> j \<le> i + 3)
        [0..<length ls]) [0..<length ls]
    \<and> distinct_adj (map fst sections) \<and> list_all (\<lambda>(_, xs). xs \<noteq> []) sections"
proof -
  have tag: "nl_tag (numbered ! j) = dl_tag (ls ! j)" if "j < length ls" for j
    using number_from_lines(2) [of 0 0 ls] that unfolding numbered_def assign_line_numbers_def
    by (metis length_map nth_map)
  have len: "length numbered = length ls" by (simp add: numbered_def assign_line_numbers_def)
  have "visible_lines numbered CONTEXT_LINES = map (\<lambda>i. list_ex (\<lambda>j. dl_tag (ls ! j) \<noteq> TagEqual \<and> i \<le> j + 3 \<and> j \<le> i + 3)
        [0..<length ls]) [0..<length ls]"
    unfolding visible_lines_eq len CONTEXT_LINES_def by (auto simp: list_ex_iff tag)
  then show ?thesis
    using compute_sections_exact [of numbered CONTEXT_LINES] number_from_lines [of 0 0 ls]
      number_from_old [of 0 0 ls] number_from_new [of 0 0 ls]
    unfolding sections_def by (simp add: numbered_def assign_line_numbers_def)
qed


subsection \<open>The rendered diff\<close>

definition shown_line :: "diff_line \<Rightarrow> string" where
  "shown_line l = (if dl_tag l = TagInsert then ''+ '' else ''- '') @ dl_content l"

lemma render_lines_changes:
  "filter (\<lambda>s. take 1 s \<noteq> '' '') (render_lines n ls) = map shown_line (filter (\<lambda>l. dl_tag l \<noteq> TagEqual) ls)"
  by (induction n ls rule: render_lines.induct) (simp_all add: shown_line_def)

lemma render_lines_length:
  "length (render_lines n ls) \<le> 2 * length (filter (\<lambda>l. dl_tag l \<noteq> TagEqual) ls)"
  by (induction n ls rule: render_lines.induct) auto

text \<open>
  The diff tool shows the changed lines in order, and everything of a diff with at most 500 of them.
\<close>

lemma render_diff_exact:
  "do_inserted (render_diff ls) + do_deleted (render_diff ls) = length (filter (\<lambda>l. dl_tag l \<noteq> TagEqual) ls)"
  "\<not> do_truncated (render_diff ls) \<Longrightarrow> do_diff (render_diff ls) = join_on (CHR 0x0A) (render_lines 0 ls)"
  "length (filter (\<lambda>l. dl_tag l \<noteq> TagEqual) ls) \<le> 500 \<Longrightarrow> \<not> do_truncated (render_diff ls)"
proof -
  have "length (filter (\<lambda>l. dl_tag l = TagInsert) ls) + length (filter (\<lambda>l. dl_tag l = TagDelete) ls)
      = length (filter (\<lambda>l. dl_tag l \<noteq> TagEqual) ls)"
  proof (induction ls)
    case (Cons l ls)
    then show ?case by (cases "dl_tag l") simp_all
  qed simp
  then show "do_inserted (render_diff ls) + do_deleted (render_diff ls) = length (filter (\<lambda>l. dl_tag l \<noteq> TagEqual) ls)"
    by (simp add: render_diff_def Let_def)
  show "\<not> do_truncated (render_diff ls) \<Longrightarrow> do_diff (render_diff ls) = join_on (CHR 0x0A) (render_lines 0 ls)"
    by (simp add: render_diff_def Let_def)
  show "length (filter (\<lambda>l. dl_tag l \<noteq> TagEqual) ls) \<le> 500 \<Longrightarrow> \<not> do_truncated (render_diff ls)"
    using render_lines_length [of 0 ls] by (simp add: render_diff_def Let_def MAX_DIFF_LINES_def)
qed

subsection \<open>Page buttons\<close>

text \<open>A zero stands for pages left out between its neighbours; other neighbours are consecutive.\<close>

fun gaps_ok :: "nat list \<Rightarrow> bool" where
  "gaps_ok (p # q # ps) = (if q = 0 then (case ps of [] \<Rightarrow> False | r # _ \<Rightarrow> Suc p < r \<and> gaps_ok ps)
     else q = Suc p \<and> gaps_ok (q # ps))"
| "gaps_ok _ = True"

lemma gaps_upt: "0 < a \<Longrightarrow> gaps_ok [a..<b]"
proof (induction "b - a" arbitrary: a)
  case (Suc n)
  then have "[a..<b] = a # [Suc a..<b]" by (simp add: upt_conv_Cons)
  moreover have "gaps_ok [Suc a..<b]" using Suc by simp
  moreover have "[Suc a..<b] = (if Suc a < b then Suc a # [Suc (Suc a)..<b] else [])" by (simp add: upt_conv_Cons)
  ultimately show ?case by (simp split: if_splits)
qed simp

lemma window_range:
  assumes "1 \<le> current" "current \<le> count" "7 < count"
  shows "[max (current - 1) 2..<Suc (min (current + 1) (count - 1))] =
    (if current = 1 then [2] else if current = 2 then [2, 3] else if current = count then [count - 1]
     else if current = count - 1 then [count - 2, count - 1] else [current - 1, current, Suc current])"
proof -
  have one: "[a..<Suc a] = [a]" and two: "[a..<Suc (Suc a)] = [a, Suc a]"
    and three: "[a..<Suc (Suc (Suc a))] = [a, Suc a, Suc (Suc a)]" for a :: nat
    by (simp_all add: upt_conv_Cons)
  consider "current = 1" | "current = 2" | "2 < current" "current = count" | "2 < current" "Suc current = count"
    | "2 < current" "Suc current < count"
    using assms by linarith
  then show ?thesis
  proof cases
    case 1
    then have "max (current - 1) 2 = 2" "Suc (min (current + 1) (count - 1)) = Suc 2" using assms by simp_all
    then show ?thesis using 1 one [of 2] by simp
  next
    case 2
    then have r: "[max (current - 1) 2..<Suc (min (current + 1) (count - 1))] = [2, 3]" using assms by (simp add: upt_rec)
    then show ?thesis using 2 by simp
  next
    case 3
    then have "max (current - 1) 2 = count - 1" "Suc (min (current + 1) (count - 1)) = Suc (count - 1)" using assms by simp_all
    then show ?thesis using 3 one [of "count - 1"] by simp
  next
    case 4
    then have "max (current - 1) 2 = count - 2" "Suc (min (current + 1) (count - 1)) = Suc (Suc (count - 2))"
      "Suc (count - 2) = count - 1" "current = count - 1" "current \<noteq> count" using assms by auto
    then show ?thesis using 4 two [of "count - 2"] by simp
  next
    case 5
    then have "max (current - 1) 2 = current - 1" "Suc (min (current + 1) (count - 1)) = Suc (Suc (Suc (current - 1)))"
      "Suc (current - 1) = current" "current \<noteq> count" "current \<noteq> count - 1" using assms by auto
    then show ?thesis using 5 three [of "current - 1"] by simp
  qed
qed

lemma page_window_cases:
  assumes "1 \<le> current" "current \<le> count" "7 < count"
  shows "page_window current count = (if current = 1 then [1, 2, 0, count]
    else if current = 2 then [1, 2, 3, 0, count]
    else if current = 3 then [1, 2, 3, 4, 0, count]
    else if current = count then [1, 0, count - 1, count]
    else if current = count - 1 then [1, 0, count - 2, count - 1, count]
    else if current = count - 2 then [1, 0, count - 3, count - 2, count - 1, count]
    else [1, 0, current - 1, current, Suc current, 0, count])"
proof -
  consider "current = 1" | "current = 2" | "current = 3" | "3 < current" "current = count"
    | "3 < current" "current = count - 1" | "3 < current" "current = count - 2" | "3 < current" "current < count - 2"
    using assms by linarith
  then show ?thesis
    unfolding page_window_def Let_def window_range [OF assms]
    using assms by cases auto
qed

lemma long_window:
  assumes "1 \<le> current" "current \<le> count" "7 < count"
  shows "gaps_ok (page_window current count) \<and> hd (page_window current count) = 1 \<and> last (page_window current count) = count
    \<and> current \<in> set (page_window current count) \<and> length (page_window current count) \<le> 7
    \<and> list_all (\<lambda>p. p \<le> count) (page_window current count)"
proof -
  note w = page_window_cases [OF assms]
  consider "current = 1" | "current = 2" | "current = 3" | "3 < current" "current = count"
    | "3 < current" "current = count - 1" | "3 < current" "current = count - 2" | "3 < current" "current < count - 2"
    using assms by linarith
  then show ?thesis
  proof cases
    case 1
    then have "page_window current count = [1, 2, 0, count]" using w by simp
    then show ?thesis using 1 assms by simp
  next
    case 2
    then have "page_window current count = [1, 2, 3, 0, count]" using w by simp
    then show ?thesis using 2 assms by simp
  next
    case 3
    then have "page_window current count = [1, 2, 3, 4, 0, count]" using w by simp
    then show ?thesis using 3 assms by simp
  next
    case 4
    then have "page_window current count = [1, 0, count - 1, count]" using w by simp
    then show ?thesis using 4 assms by simp
  next
    case 5
    then have "current \<noteq> count" using assms by simp
    then have "page_window current count = [1, 0, count - 2, count - 1, count]" using w 5 by simp
    moreover have "count - 1 = Suc (count - 2)" "Suc 1 < count - 2" using 5 by simp_all
    ultimately show ?thesis using 5 assms by simp
  next
    case 6
    then have "current \<noteq> count" "current \<noteq> count - 1" using assms by simp_all
    then have "page_window current count = [1, 0, count - 3, count - 2, count - 1, count]" using w 6 by simp
    moreover have "count = Suc (Suc (Suc (count - 3)))" "count - 1 = Suc (count - 2)" "count - 2 = Suc (count - 3)" "Suc 1 < count - 3" using 6 by simp_all
    ultimately show ?thesis using 6 assms by simp
  next
    case 7
    then have "current \<noteq> count" "current \<noteq> count - 1" "current \<noteq> count - 2" using assms by simp_all
    then have "page_window current count = [1, 0, current - 1, current, Suc current, 0, count]" using w 7 by simp
    moreover have "Suc (Suc 0) < current - 1" "Suc (Suc current) < count" using 7 by simp_all
    ultimately show ?thesis using 7 assms by simp
  qed
qed

text \<open>
  The page buttons lead somewhere. For a current page that exists the window starts with the first
  and ends with the last page and contains the current one, a gap is marked exactly where pages are
  left out, and every button leads to a page with at least one record.
\<close>

theorem page_window_exact:
  assumes "1 \<le> current" "current \<le> total_pages records limit" "0 < limit"
  defines "window \<equiv> page_window current (total_pages records limit)"
  shows "gaps_ok window \<and> hd window = 1 \<and> last window = total_pages records limit \<and> current \<in> set window"
    and "p \<in> set window \<Longrightarrow> 0 < p \<Longrightarrow> 0 < records \<Longrightarrow> page_offset p limit < records"
    and "length window \<le> 7"
proof -
  let ?n = "total_pages records limit"
  show "gaps_ok window \<and> hd window = 1 \<and> last window = total_pages records limit \<and> current \<in> set window"
  proof (cases "?n \<le> 7")
    case True
    then have "window = [1..<Suc ?n]" by (simp add: window_def page_window_def)
    moreover have "hd [1..<Suc ?n] = 1" "last [1..<Suc ?n] = ?n" using assms(1,2) hd_upt [of 1 "Suc ?n"] by simp_all
    moreover have "current \<in> set [1..<Suc ?n]" using assms(1,2) by auto
    ultimately show ?thesis using gaps_upt [of 1 "Suc ?n"] by simp
  next
    case False
    then show ?thesis unfolding window_def using long_window [OF assms(1,2)] by simp
  qed
  show "length window \<le> 7"
  proof (cases "?n \<le> 7")
    case True
    then show ?thesis by (simp add: window_def page_window_def)
  next
    case False
    then show ?thesis unfolding window_def using long_window [OF assms(1,2)] by simp
  qed
  assume p: "p \<in> set window" "0 < p" "0 < records"
  have "p \<le> ?n"
  proof (cases "?n \<le> 7")
    case True
    then show ?thesis using p by (auto simp: window_def page_window_def)
  next
    case False
    then show ?thesis using p(1) long_window [OF assms(1,2)] unfolding window_def by (auto simp: list_all_iff)
  qed
  then have "(p - 1) * limit \<le> (?n - 1) * limit" by (simp add: diff_le_mono)
  also have "\<dots> < records"
  proof -
    have "?n * limit \<le> records + limit - 1" using p(3) by (simp add: total_pages_def)
    then have "?n * limit < records + limit" using assms(3) by simp
    then have "?n * limit - limit < records" using p(3) by linarith
    then show ?thesis by (simp add: diff_mult_distrib)
  qed
  finally show "page_offset p limit < records" by (simp add: page_offset_def)
qed

theorem page_window_exact_witness:
  "page_window 4 (total_pages 180 20) = [1, 0, 3, 4, 5, 0, 9] \<and> page_offset 9 20 < 180 \<and> 4 \<in> set (page_window 4 (total_pages 180 20))"
proof -
  have n: "total_pages 180 20 = 9" by (simp add: total_pages_def)
  have w: "page_window 4 (total_pages 180 20) = [1, 0, 3, 4, 5, 0, 9]"
    using page_window_cases [of 4 9] by (simp add: n)
  show ?thesis using page_window_exact(1,2) [of 4 180 20] w by (simp add: n)
qed

subsection \<open>Numbers\<close>

fun with_commas :: "string \<Rightarrow> string" where
  "with_commas [] = []"
| "with_commas (d # ds) = (if Suc (length ds) mod 3 = 0 then [CHR '','', d] else [d]) @ with_commas ds"

lemma format_tail:
  "0 < k \<Longrightarrow> concat (map (\<lambda>(index, digit). if 0 < index \<and> (k + length ds - index) mod 3 = 0 then [CHR '','', digit] else [digit])
     (enumerate k ds)) = with_commas ds"
proof (induction ds arbitrary: k)
  case (Cons d ds)
  have "(k + length (d # ds) - k) = Suc (length ds)" "Suc k + length ds = k + length (d # ds)" by simp_all
  then show ?case using Cons.IH [of "Suc k"] Cons.prems by simp
qed simp

lemma format_number_commas: "digits n = d # ds \<Longrightarrow> format_number n = d # with_commas ds"
  using format_tail [of 1 ds] by (simp add: format_number_def Let_def)

lemma digits_nonempty: "digits n \<noteq> []"
  by (subst digits.simps) simp

lemma digits_no_comma: "CHR '','' \<notin> set (digits n)"
proof (induction n rule: digits.induct)
  case (1 n)
  have "char_of (48 + k) \<noteq> CHR '',''" if "k < 10" for k :: nat
  proof
    assume "char_of (48 + k) = CHR '',''"
    then have "of_char (char_of (48 + k) :: char) = (of_char (CHR '','') :: nat)" by simp
    then show False using that by simp
  qed
  then have d: "CHR '','' \<noteq> char_of (48 + n)" if "n < 10" using that by metis
  have m: "CHR '','' \<noteq> char_of (48 + n mod 10)" using \<open>\<And>k. k < 10 \<Longrightarrow> char_of (48 + k) \<noteq> CHR '',''\<close> [of "n mod 10"] by simp
  show ?case
  proof (cases "n < 10")
    case True
    then show ?thesis using d by (subst digits.simps) simp
  next
    case False
    then show ?thesis using m 1 by (subst digits.simps) simp
  qed
qed

lemma commas_removed: "CHR '','' \<notin> set ds \<Longrightarrow> filter (\<lambda>c. c \<noteq> CHR '','') (with_commas ds) = ds"
  by (induction ds) auto

lemma comma_groups:
  "CHR '','' \<notin> set ds \<Longrightarrow> map length (split_on (CHR '','') (with_commas ds)) = length ds mod 3 # replicate (length ds div 3) 3"
proof (induction ds)
  case (Cons d ds)
  then have ih: "map length (split_on (CHR '','') (with_commas ds)) = length ds mod 3 # replicate (length ds div 3) 3"
    and d: "d \<noteq> CHR '',''" by auto
  obtain g gs where g: "split_on (CHR '','') (with_commas ds) = g # gs" by (cases "split_on (CHR '','') (with_commas ds)") auto
  show ?case
  proof (cases "Suc (length ds) mod 3 = 0")
    case True
    then have "length ds mod 3 = 2" "Suc (length ds) div 3 = Suc (length ds div 3)" by presburger+
    then show ?thesis using True ih g d by simp
  next
    case False
    then have "Suc (length ds) mod 3 = Suc (length ds mod 3)" "Suc (length ds) div 3 = length ds div 3" by presburger+
    then show ?thesis using False ih g d by simp
  qed
qed simp

text \<open>The digits of a grouped number are those of the number, in groups of three but for the first.\<close>

lemma format_number_exact:
  "filter (\<lambda>c. c \<noteq> CHR '','') (format_number n) = digits n"
  "\<exists>first. map length (split_on (CHR '','') (format_number n)) = first # replicate ((length (digits n) - 1) div 3) 3
     \<and> 1 \<le> first \<and> first \<le> 3"
proof -
  obtain d ds where d: "digits n = d # ds" using digits_nonempty by (cases "digits n") auto
  have c: "d \<noteq> CHR '',''" "CHR '','' \<notin> set ds" using digits_no_comma [of n] d by auto
  show "filter (\<lambda>c. c \<noteq> CHR '','') (format_number n) = digits n"
    using format_number_commas [OF d] commas_removed [OF c(2)] c(1) d by simp
  obtain g gs where g: "split_on (CHR '','') (with_commas ds) = g # gs" by (cases "split_on (CHR '','') (with_commas ds)") auto
  have "map length (split_on (CHR '','') (format_number n)) = Suc (length ds mod 3) # replicate (length ds div 3) 3"
    using comma_groups [OF c(2)] g c(1) by (simp add: format_number_commas [OF d])
  then show "\<exists>first. map length (split_on (CHR '','') (format_number n)) = first # replicate ((length (digits n) - 1) div 3) 3
     \<and> 1 \<le> first \<and> first \<le> 3"
    by (simp add: d)
qed

end
