(* ===== verification/Table_Views.thy ===== *)
theory Table_Views
  imports Instance_Overview Document_Facts
begin

section \<open>Tables of the dashboard\<close>

text \<open>
  The sortable provider table and its badges (\<open>dashboard/src/pages/home.rs\<close>), the order of the failing
  tests of a document (\<open>dashboard/src/pages/document.rs\<close>) and the badges of the document checks
  (\<open>dashboard/src/components/document_checks.rs\<close>), over the summaries and rows the server sends.
\<close>

subsection \<open>Comparing\<close>

datatype ordering = Less | Equal | Greater

fun reverse_ordering :: "ordering \<Rightarrow> ordering" where
  "reverse_ordering Less = Greater"
| "reverse_ordering Equal = Equal"
| "reverse_ordering Greater = Less"

definition then_with :: "ordering \<Rightarrow> ordering \<Rightarrow> ordering" where
  "then_with a b = (if a = Equal then b else a)"

definition compare :: "'a::linorder \<Rightarrow> 'a \<Rightarrow> ordering" where
  "compare a b = (if a < b then Less else if a = b then Equal else Greater)"

text \<open>\<open>slice::sort_by\<close>: a stable sort, for a comparison that is a total order.\<close>

fun insert_by :: "('a \<Rightarrow> 'a \<Rightarrow> ordering) \<Rightarrow> 'a \<Rightarrow> 'a list \<Rightarrow> 'a list" where
  "insert_by cmp x [] = [x]"
| "insert_by cmp x (y # ys) = (if cmp x y \<noteq> Greater then x # y # ys else y # insert_by cmp x ys)"

definition sort_by :: "('a \<Rightarrow> 'a \<Rightarrow> ordering) \<Rightarrow> 'a list \<Rightarrow> 'a list" where
  "sort_by cmp xs = foldr (insert_by cmp) xs []"

subsection \<open>The provider table\<close>

datatype provider_sort = ByName | ByDocuments | ByBasic | ByExtended | ByFull

definition sort_rate :: "provider_sort \<Rightarrow> provider_summary \<Rightarrow> real option" where
  "sort_rate profile p = map_option psum_pass_rate ((case profile of ByBasic \<Rightarrow> pr_basic
     | ByExtended \<Rightarrow> pr_extended | _ \<Rightarrow> pr_full) (sm_profiles p))"

definition directed :: "bool \<Rightarrow> ordering \<Rightarrow> provider_summary \<Rightarrow> provider_summary \<Rightarrow> ordering" where
  "directed descending order l r = then_with (if descending then reverse_ordering order else order)
     (compare (sm_provider l) (sm_provider r))"

definition compare_providers :: "provider_sort \<Rightarrow> bool \<Rightarrow> provider_summary \<Rightarrow> provider_summary \<Rightarrow> ordering" where
  "compare_providers column descending l r = (case column of
     ByName \<Rightarrow> directed descending (compare (sm_provider l) (sm_provider r)) l r
   | ByDocuments \<Rightarrow> directed descending (compare (sm_document_count l) (sm_document_count r)) l r
   | profile \<Rightarrow> (case (sort_rate profile l, sort_rate profile r) of
       (Some a, Some b) \<Rightarrow> directed descending (compare a b) l r
     | (Some _, None) \<Rightarrow> Less
     | (None, Some _) \<Rightarrow> Greater
     | (None, None) \<Rightarrow> directed descending Equal l r))"

definition sorted_providers :: "provider_sort \<Rightarrow> bool \<Rightarrow> provider_summary list \<Rightarrow> provider_summary list" where
  "sorted_providers column descending rows = sort_by (compare_providers column descending) rows"

text \<open>A click on a heading.\<close>

definition click_heading :: "provider_sort \<Rightarrow> provider_sort \<times> bool \<Rightarrow> provider_sort \<times> bool" where
  "click_heading column s = (case s of (active, descending) \<Rightarrow>
     (column, if active = column then \<not> descending else column \<noteq> ByName))"

subsection \<open>Failing tests\<close>

text \<open>\<open>str::parse::<u64>\<close>\<close>

definition is_digit :: "char \<Rightarrow> bool" where
  "is_digit c \<longleftrightarrow> CHR ''0'' \<le> c \<and> c \<le> CHR ''9''"

definition parse_u64 :: "string \<Rightarrow> nat option" where
  "parse_u64 s = (let ds = (case s of c # r \<Rightarrow> if c = CHR ''+'' then r else s | [] \<Rightarrow> s);
       n = foldl (\<lambda>n c. 10 * n + (of_char c - 48)) 0 ds in
     if ds \<noteq> [] \<and> list_all is_digit ds \<and> n < 2 ^ 64 then Some n else None)"

fun compare_segments :: "string list \<Rightarrow> string list \<Rightarrow> ordering" where
  "compare_segments [] [] = Equal"
| "compare_segments (_ # _) [] = Greater"
| "compare_segments [] (_ # _) = Less"
| "compare_segments (a # as) (b # bs) =
     (let order = (case (parse_u64 a, parse_u64 b) of (Some m, Some n) \<Rightarrow> compare m n | _ \<Rightarrow> compare a b) in
      if order \<noteq> Equal then order else compare_segments as bs)"

definition numeric_test_id_cmp :: "string \<Rightarrow> string \<Rightarrow> ordering" where
  "numeric_test_id_cmp a b = compare_segments (split_on (CHR ''.'') a) (split_on (CHR ''.'') b)"

subsection \<open>Badges\<close>

datatype badge_variant = VSuccess | VDanger | VWarning | VInfo | VNeutral

fun presentation :: "check_status \<Rightarrow> string \<times> badge_variant" where
  "presentation Passed = (''Passed'', VSuccess)"
| "presentation Failed = (''Failed'', VDanger)"
| "presentation Warning = (''Warning'', VWarning)"
| "presentation Missing = (''Missing'', VWarning)"
| "presentation NotEvaluated = (''Not evaluated'', VNeutral)"

definition document_issues_badge :: "check_outcome document_checks \<Rightarrow> string \<times> badge_variant" where
  "document_issues_badge checks =
     (let outcomes = [dc_retrieval checks, dc_parsing checks, dc_signature checks, dc_digest checks] in
      if list_ex (\<lambda>outcome. co_status outcome \<in> {Failed, Warning, Missing}) outcomes then (''Issues'', VDanger)
      else if list_ex (\<lambda>outcome. co_status outcome = Passed) outcomes then (''0'', VSuccess)
      else (''-'', VNeutral))"

text \<open>The links of \<open>CheckSummaryView\<close>: the filter of the provider page and the count shown, none for \<open>-\<close>.\<close>

definition check_summary_links :: "check_counts option \<Rightarrow> string \<Rightarrow> (string \<times> nat) list" where
  "check_summary_links counts stage = (case counts of
     None \<Rightarrow> []
   | Some c \<Rightarrow> if cc_passed c + cc_failed c + cc_warning c + cc_missing c + cc_not_evaluated c = 0 then []
       else map (\<lambda>(key, n). (stage @ ''-'' @ key, n)) (filter (\<lambda>(_, n). 0 < n)
         [(''passed'', cc_passed c), (''failed'', cc_failed c), (''warning'', cc_warning c),
          (''missing'', cc_missing c), (''not_evaluated'', cc_not_evaluated c)]))"

definition provider_checks_badge :: "check_summary option \<Rightarrow> nat option \<times> badge_variant" where
  "provider_checks_badge checks = (case checks of
     None \<Rightarrow> (None, VNeutral)
   | Some c \<Rightarrow> (Some (total_issues c), if 0 < total_issues c then VDanger else VSuccess))"

end
