(* ===== verification/Job_Scheduling.thy ===== *)
theory Job_Scheduling
  imports Instance_Facts Job_Tracking "HOL-Library.Multiset"
begin

section \<open>Scheduled passes and the hooks of finished jobs\<close>

text \<open>
  \<open>server/src/scheduler/mod.rs\<close>: one pass over all enabled providers with a bounded number of jobs at a
  time; \<open>server/src/hooks.rs\<close>: the tasks that react to finished jobs.
\<close>

subsection \<open>Hooks\<close>

record job_finished =
  jf_domain :: string
  jf_kind :: job_kind
  jf_success :: bool

text \<open>
  What the channel of a hook hands out next: an event, or the number of events that were overwritten
  because the hook was too slow. An empty queue makes a receiver wait, unless the channel is closed.
\<close>

datatype receipt = Received job_finished | LaggedBy nat

text \<open>The first loop of \<open>next_batch\<close>; None while it waits, \<open>Some None\<close> for a closed channel.\<close>

fun first_event :: "bool \<Rightarrow> receipt list \<Rightarrow> job_finished option option \<times> receipt list" where
  "first_event shut [] = (if shut then Some None else None, [])"
| "first_event shut (Received e # q) = (Some (Some e), q)"
| "first_event shut (LaggedBy n # q) = first_event shut q"

text \<open>The second loop: everything queued up to the first error, which is consumed.\<close>

fun queued_events :: "receipt list \<Rightarrow> job_finished list \<times> receipt list" where
  "queued_events [] = ([], [])"
| "queued_events (Received e # q) = (case queued_events q of (es, q') \<Rightarrow> (e # es, q'))"
| "queued_events (LaggedBy n # q) = ([], q)"

definition next_batch :: "bool \<Rightarrow> receipt list \<Rightarrow> job_finished list option option \<times> receipt list" where
  "next_batch shut q = (case first_event shut q of
     (None, q') \<Rightarrow> (None, q')
   | (Some None, q') \<Rightarrow> (Some None, q')
   | (Some (Some e), q') \<Rightarrow> (case queued_events q' of (es, q'') \<Rightarrow> (Some (Some (e # es)), q'')))"

lemma first_event_length: "length (snd (first_event shut q)) \<le> length q"
  by (induction shut q rule: first_event.induct) auto

lemma first_event_some: "first_event shut q = (Some (Some e), q') \<Longrightarrow> length q' < length q"
  by (induction shut q rule: first_event.induct) (auto split: if_splits)

lemma queued_events_length: "length (snd (queued_events q)) \<le> length q"
  by (induction q rule: queued_events.induct) (auto split: prod.split)

lemma next_batch_length: "next_batch shut q = (Some (Some es), q') \<Longrightarrow> length q' < length q"
  using queued_events_length
  by (auto simp: next_batch_def split: prod.splits option.splits dest!: first_event_some)
    (metis le_less_trans snd_conv)

text \<open>
  \<open>spawn_hook\<close>: \<open>arrivals\<close> are the receipts that come in before each wait; after the last of them the
  channel is closed. The handler works on the state; its error is logged and dropped. The result is
  the batches it was called with and the state at the end.
\<close>

function hook_loop :: "(job_finished list \<Rightarrow> 's \<Rightarrow> 's) \<Rightarrow> receipt list list \<Rightarrow> receipt list \<Rightarrow> 's
    \<Rightarrow> job_finished list list \<times> 's" where
  "hook_loop handler [] q s = (case next_batch True q of
     (Some (Some es), q') \<Rightarrow> (case hook_loop handler [] q' (handler es s) of (bs, s') \<Rightarrow> (es # bs, s'))
   | _ \<Rightarrow> ([], s))"
| "hook_loop handler (a # arrivals) q s = (case next_batch False (q @ a) of
     (Some (Some es), q') \<Rightarrow> (case hook_loop handler arrivals q' (handler es s) of (bs, s') \<Rightarrow> (es # bs, s'))
   | (_, q') \<Rightarrow> hook_loop handler arrivals q' s)"
  by pat_completeness auto
termination
  by (relation "measures [\<lambda>(h, as, q, s). length as, \<lambda>(h, as, q, s). length q]") (auto dest: next_batch_length [OF sym])

declare hook_loop.simps [simp del]

text \<open>The handler of \<open>provider_caches\<close>: \<open>sort\<close> and \<open>dedup\<close> of the domains.\<close>

fun dedup :: "'a list \<Rightarrow> 'a list" where
  "dedup (x # y # xs) = (if x = y then dedup (y # xs) else x # dedup (y # xs))"
| "dedup xs = xs"

definition provider_caches :: "job_finished list \<Rightarrow> storage \<Rightarrow> storage" where
  "provider_caches events = invalidate_provider_caches (dedup (sort (map jf_domain events)))"

subsection \<open>A pass over all providers\<close>

text \<open>
  Every enabled source has a task that waits for a permit, runs its job and gives the permit back;
  the pass waits for all of them.
\<close>

record sync_pass =
  py_waiting :: "source list"
  py_running :: "source list"
  py_finished :: "source list"

definition start_sync_pass :: "(string \<times> source) list \<Rightarrow> sync_pass" where
  "start_sync_pass sources = \<lparr>py_waiting = filter src_enabled (map snd sources), py_running = [], py_finished = []\<rparr>"

inductive sync_pass_step :: "nat \<Rightarrow> sync_pass \<Rightarrow> sync_pass \<Rightarrow> bool" for max_concurrent where
  permit: "source \<in> set (py_waiting p) \<Longrightarrow> length (py_running p) < max_concurrent
    \<Longrightarrow> sync_pass_step max_concurrent p (p\<lparr>py_waiting := remove1 source (py_waiting p), py_running := source # py_running p\<rparr>)"
| finished: "source \<in> set (py_running p)
    \<Longrightarrow> sync_pass_step max_concurrent p (p\<lparr>py_running := remove1 source (py_running p), py_finished := source # py_finished p\<rparr>)"

inductive_cases pass_stepE: "sync_pass_step max_concurrent p q"

inductive pass_run :: "nat \<Rightarrow> sync_pass \<Rightarrow> sync_pass list \<Rightarrow> sync_pass \<Rightarrow> bool" for max_concurrent where
  stop: "pass_run max_concurrent p [] p"
| more: "sync_pass_step max_concurrent p q \<Longrightarrow> pass_run max_concurrent q ps r \<Longrightarrow> pass_run max_concurrent p (q # ps) r"

end
