(* ===== verification/Validation_Identity.thy ===== *)
theory Validation_Identity
  imports Trove_Prelude
begin

section \<open>The identity of the validator\<close>

text \<open>
  \<open>server/src/scheduler/runner/validation_identity.rs\<close> and \<open>validator_identity\<close> of
  \<open>server/src/scheduler/runner.rs\<close>: what must not change for stored validation results to stay valid.
  A different identity makes \<open>select_processing\<close> (\<open>Git_Selection\<close>) choose a full pass.
\<close>

definition VALIDATION_CRATES :: "string list" where
  "VALIDATION_CRATES = [''csaf-rs'', ''csaf-walker'', ''walker-common'', ''sequoia-openpgp'']"

definition VALIDATION_REVISION :: nat where
  "VALIDATION_REVISION = 5"

datatype fingerprint_error = LockfileError string | DependencyError string | EncodingError string

record package =
  pa_name :: string
  pa_version :: string
  pa_source :: "string option"
  pa_checksum :: "string option"

text \<open>
  The TOML parser for lockfiles, the JSON encoder for packages and the hexadecimal SHA-256.
\<close>

record identity_env =
  ie_lockfile :: "string \<Rightarrow> string + package list"
  ie_to_vec :: "package list \<Rightarrow> string + string"
  ie_sha_hex :: "string \<Rightarrow> string"

definition resolve_package :: "package list \<Rightarrow> string \<Rightarrow> fingerprint_error + package" where
  "resolve_package packages name = (case filter (\<lambda>p. pa_name p = name) packages of
     [p] \<Rightarrow> Inr p | _ \<Rightarrow> Inl (DependencyError name))"

text \<open>\<open>collect\<close> into a \<open>Result\<close>: the first error, or all values.\<close>

fun collect_packages :: "package list \<Rightarrow> string list \<Rightarrow> fingerprint_error + package list" where
  "collect_packages packages [] = Inr []"
| "collect_packages packages (name # names) = (case resolve_package packages name of
     Inl e \<Rightarrow> Inl e
   | Inr p \<Rightarrow> (case collect_packages packages names of Inl e \<Rightarrow> Inl e | Inr ps \<Rightarrow> Inr (p # ps)))"

definition dependency_fingerprint :: "identity_env \<Rightarrow> string \<Rightarrow> fingerprint_error + string" where
  "dependency_fingerprint env lockfile = (case ie_lockfile env lockfile of
     Inl e \<Rightarrow> Inl (LockfileError e)
   | Inr packages \<Rightarrow> (case collect_packages packages VALIDATION_CRATES of
       Inl e \<Rightarrow> Inl e
     | Inr selected \<Rightarrow> (case ie_to_vec env selected of
         Inl e \<Rightarrow> Inl (EncodingError e)
       | Inr b \<Rightarrow> Inr (ie_sha_hex env b))))"

definition u32_le_bytes :: "nat \<Rightarrow> string" where
  "u32_le_bytes n = map (\<lambda>i. char_of (n div 256 ^ i mod 256)) [0..<4]"

definition validator_identity :: "identity_env \<Rightarrow> string \<Rightarrow> bool \<Rightarrow> fingerprint_error + string" where
  "validator_identity env lockfile accept_v3_signatures = (case dependency_fingerprint env lockfile of
     Inl e \<Rightarrow> Inl e
   | Inr fingerprint \<Rightarrow> Inr (ie_sha_hex env (u32_le_bytes VALIDATION_REVISION @ fingerprint
       @ [if accept_v3_signatures then char_of (1 :: nat) else char_of (0 :: nat)])))"

subsection \<open>What it depends on\<close>

lemma resolve_package_cong:
  assumes "filter (\<lambda>p. pa_name p = name) ps = filter (\<lambda>p. pa_name p = name) qs"
  shows "resolve_package ps name = resolve_package qs name"
  unfolding resolve_package_def assms by (rule refl)

text \<open>
  Only the packages of the validation crates matter, and the order of a lockfile does not: reordered
  packages and changes to any other package leave the identity as it is.
\<close>

lemma collect_packages_cong:
  assumes "\<And>name. name \<in> set names \<Longrightarrow> filter (\<lambda>p. pa_name p = name) ps = filter (\<lambda>p. pa_name p = name) qs"
  shows "collect_packages ps names = collect_packages qs names"
  using assms
proof (induction names)
  case (Cons name names)
  then have "resolve_package ps name = resolve_package qs name" "collect_packages ps names = collect_packages qs names"
    using resolve_package_cong [of name ps qs] by simp_all
  then show ?case by (simp only: collect_packages.simps)
qed simp

lemma validator_identity_depends:
  assumes "ie_lockfile env lockfile = Inr ps" "ie_lockfile env lockfile' = Inr qs"
    and "\<And>name. name \<in> set VALIDATION_CRATES \<Longrightarrow> filter (\<lambda>p. pa_name p = name) ps = filter (\<lambda>p. pa_name p = name) qs"
  shows "validator_identity env lockfile v3 = validator_identity env lockfile' v3"
  unfolding validator_identity_def dependency_fingerprint_def assms(1,2)
  using collect_packages_cong [OF assms(3)] by simp

lemma resolve_package_result:
  "(\<exists>p. resolve_package ps name = Inr p) \<longleftrightarrow> length (filter (\<lambda>p. pa_name p = name) ps) = 1"
  by (auto simp: resolve_package_def length_Suc_conv split: list.splits)

text \<open>
  A validator has an identity exactly if every validation crate is locked exactly once (a lockfile
  that cannot be read or encoded apart), and the first crate that is not is the one reported.
\<close>

theorem validator_identity_resolves:
  assumes "ie_lockfile env lockfile = Inr ps" "\<And>qs. \<exists>b. ie_to_vec env qs = Inr b"
  shows "(case validator_identity env lockfile v3 of
      Inr _ \<Rightarrow> list_all (\<lambda>name. length (filter (\<lambda>p. pa_name p = name) ps) = 1) VALIDATION_CRATES
    | Inl e \<Rightarrow> (\<exists>before name after. VALIDATION_CRATES = before @ name # after \<and> e = DependencyError name
        \<and> list_all (\<lambda>name. length (filter (\<lambda>p. pa_name p = name) ps) = 1) before
        \<and> length (filter (\<lambda>p. pa_name p = name) ps) \<noteq> 1))"
proof -
  have c: "(case collect_packages ps names of
      Inr _ \<Rightarrow> list_all (\<lambda>name. length (filter (\<lambda>p. pa_name p = name) ps) = 1) names
    | Inl e \<Rightarrow> (\<exists>before name after. names = before @ name # after \<and> e = DependencyError name
        \<and> list_all (\<lambda>name. length (filter (\<lambda>p. pa_name p = name) ps) = 1) before
        \<and> length (filter (\<lambda>p. pa_name p = name) ps) \<noteq> 1))" for names
  proof (induction names)
    case Nil
    show ?case by simp
  next
    case (Cons n names)
    show ?case
    proof (cases "resolve_package ps n")
      case (Inl e)
      then have e: "e = DependencyError n" by (auto simp: resolve_package_def split: list.splits)
      have "length (filter (\<lambda>p. pa_name p = n) ps) \<noteq> 1" using resolve_package_result [of ps n] Inl by auto
      then have "n # names = [] @ n # names \<and> e = DependencyError n
        \<and> list_all (\<lambda>name. length (filter (\<lambda>p. pa_name p = name) ps) = 1) []
        \<and> length (filter (\<lambda>p. pa_name p = n) ps) \<noteq> 1" using e by simp
      then show ?thesis unfolding collect_packages.simps Inl sum.case by blast
    next
      case (Inr p)
      then have one: "length (filter (\<lambda>p. pa_name p = n) ps) = 1" using resolve_package_result [of ps n] by auto
      show ?thesis
      proof (cases "collect_packages ps names")
        case r: (Inl e)
        then obtain b m a where "names = b @ m # a" "e = DependencyError m"
          "list_all (\<lambda>name. length (filter (\<lambda>p. pa_name p = name) ps) = 1) b" "length (filter (\<lambda>p. pa_name p = m) ps) \<noteq> 1"
          using Cons by auto
        then have "n # names = (n # b) @ m # a \<and> e = DependencyError m
          \<and> list_all (\<lambda>name. length (filter (\<lambda>p. pa_name p = name) ps) = 1) (n # b)
          \<and> length (filter (\<lambda>p. pa_name p = m) ps) \<noteq> 1" using one by simp
        then show ?thesis unfolding collect_packages.simps Inr r sum.case by blast
      next
        case (Inr qs)
        then show ?thesis using Cons one \<open>resolve_package ps n = Inr p\<close> by simp
      qed
    qed
  qed
  obtain enc where "\<And>qs. ie_to_vec env qs = Inr (enc qs)" using assms(2) by metis
  then show ?thesis
    using c [of VALIDATION_CRATES]
    by (cases "collect_packages ps VALIDATION_CRATES") (simp_all add: validator_identity_def dependency_fingerprint_def assms(1))
qed

end
