(* ===== verification/Schema_Sql.thy ===== *)
theory Schema_Sql
  imports Document_Store "HOL-Library.AList"
begin

section \<open>Tables, columns and the statements of the migrations\<close>

text \<open>
  What \<open>migration/src\<close> uses of SQL: the schema statements, \<open>UPDATE\<close> of whole tables, \<open>LIKE\<close>,
  \<open>CASE\<close> and the three-valued logic of \<open>NULL\<close>. A row gives every column its value and \<open>NULL\<close> to
  every name that is not a column. Statements fail where SQLite refuses them: a missing or existing
  table, column or index, a \<open>NOT NULL\<close> column added without a default, and a column that is dropped
  although a key, an index (or its condition), a foreign key or a generated column uses it. The
  text of \<open>document_checks\<close> is the value it encodes, as in \<open>Provider_Db\<close>; unique indexes are only
  ever created on tables without rows, so no statement checks rows for duplicates.
\<close>

subsection \<open>Values and rows\<close>

datatype sql = SNull | SInt int | SText string | SReal real | SChecks doc_checks

type_synonym sql_row = "string \<Rightarrow> sql"

text \<open>Truth is \<open>Some True\<close>, \<open>Some False\<close> or \<open>None\<close> for \<open>NULL\<close>; \<open>CASE WHEN\<close> takes only truth.\<close>

definition holds :: "bool option \<Rightarrow> bool" where
  "holds t \<longleftrightarrow> t = Some True"

definition and3 :: "bool option \<Rightarrow> bool option \<Rightarrow> bool option" where
  "and3 a b = (if a = Some False \<or> b = Some False then Some False
     else if a = None \<or> b = None then None else Some True)"

definition not3 :: "bool option \<Rightarrow> bool option" where
  "not3 a = map_option Not a"

definition or3 :: "bool option \<Rightarrow> bool option \<Rightarrow> bool option" where
  "or3 a b = not3 (and3 (not3 a) (not3 b))"

definition is_null :: "sql \<Rightarrow> bool option" where
  "is_null v = Some (v = SNull)"

definition equals :: "sql \<Rightarrow> int \<Rightarrow> bool option" where
  "equals v n = (case v of SNull \<Rightarrow> None | SInt i \<Rightarrow> Some (i = n) | _ \<Rightarrow> Some False)"

text \<open>\<open>text LIKE pattern\<close> of SQLite: letters match without case, \<open>%\<close> any text, \<open>_\<close> any character.\<close>

fun like :: "string \<Rightarrow> string \<Rightarrow> bool" where
  "like [] xs = (xs = [])"
| "like (p # ps) [] = (p = CHR ''%'' \<and> like ps [])"
| "like (p # ps) (x # xs) = (if p = CHR ''%'' then like ps (x # xs) \<or> like (p # ps) xs
     else (p = CHR ''_'' \<or> ascii_lower [p] = ascii_lower [x]) \<and> like ps xs)"

definition sql_like :: "sql \<Rightarrow> string \<Rightarrow> bool option" where
  "sql_like v pattern = (case v of SText s \<Rightarrow> Some (like pattern s) | _ \<Rightarrow> None)"

definition text_of :: "sql \<Rightarrow> string option" where
  "text_of v = (case v of SText s \<Rightarrow> Some s | _ \<Rightarrow> None)"

subsection \<open>Schemas\<close>

text \<open>\<open>cl_reads\<close> holds the columns from which a virtual column is computed; it is not stored.\<close>

datatype column_type = TBig | TInteger | TText | TReal

record column =
  cl_name :: string
  cl_type :: column_type
  cl_not_null :: bool
  cl_key :: bool
  cl_default :: sql
  cl_reads :: "string list option"

record foreign_key =
  fk_column :: string
  fk_table :: string
  fk_target :: string

record index =
  ix_name :: string
  ix_table :: string
  ix_columns :: "string list"
  ix_unique :: bool
  ix_where :: "string list"

record sql_table =
  tb_columns :: "column list"
  tb_foreign :: "foreign_key list"
  tb_rows :: "sql_row list"

record sql_db =
  sq_tables :: "(string \<times> sql_table) list"
  sq_indexes :: "index list"

definition sql_empty :: sql_db where
  "sql_empty = \<lparr>sq_tables = [], sq_indexes = []\<rparr>"

definition has_table :: "string \<Rightarrow> sql_db \<Rightarrow> bool" where
  "has_table name db \<longleftrightarrow> map_of (sq_tables db) name \<noteq> None"

definition column_names :: "sql_table \<Rightarrow> string list" where
  "column_names t = map cl_name (tb_columns t)"

text \<open>The columns of a table that something else in the database depends on.\<close>

definition used_columns :: "string \<Rightarrow> sql_table \<Rightarrow> index list \<Rightarrow> string list" where
  "used_columns name t ixs =
     map cl_name (filter cl_key (tb_columns t)) @ map fk_column (tb_foreign t)
     @ concat (List.map_filter cl_reads (tb_columns t))
     @ concat (map (\<lambda>i. ix_columns i @ ix_where i) (filter (\<lambda>i. ix_table i = name) ixs))"

subsection \<open>Statements\<close>

datatype statement =
    CreateTable bool string "column list" "foreign_key list"
  | DropTable string
  | RenameTable string string
  | AddColumn string column
  | DropColumn string string
  | CreateIndex bool index
  | DropIndex string
  | UpdateRows string "sql_row \<Rightarrow> sql_row"

definition on_table :: "string \<Rightarrow> sql_db \<Rightarrow> (sql_table \<Rightarrow> string + sql_table) \<Rightarrow> string + sql_db" where
  "on_table name db f = (case map_of (sq_tables db) name of
     None \<Rightarrow> Inl (''no such table: '' @ name)
   | Some t \<Rightarrow> map_sum id (\<lambda>t'. db\<lparr>sq_tables := AList.update name t' (sq_tables db)\<rparr>) (f t))"

definition add_column :: "column \<Rightarrow> sql_table \<Rightarrow> string + sql_table" where
  "add_column c t = (if cl_name c \<in> set (column_names t) then Inl (''duplicate column name: '' @ cl_name c)
     else if cl_key c \<or> cl_reads c = None \<and> cl_not_null c \<and> cl_default c = SNull
     then Inl ''Cannot add a NOT NULL column with default value NULL''
     else Inr (t\<lparr>tb_columns := tb_columns t @ [c], tb_rows := map (\<lambda>r. r(cl_name c := cl_default c)) (tb_rows t)\<rparr>))"

definition drop_column :: "string list \<Rightarrow> string \<Rightarrow> sql_table \<Rightarrow> string + sql_table" where
  "drop_column used n t = (if n \<notin> set (column_names t) then Inl (''no such column: '' @ n)
     else if n \<in> set used then Inl (''cannot drop column: '' @ n)
     else Inr (t\<lparr>tb_columns := filter (\<lambda>c. cl_name c \<noteq> n) (tb_columns t),
       tb_rows := map (\<lambda>r. r(n := SNull)) (tb_rows t)\<rparr>))"

fun exec :: "statement \<Rightarrow> sql_db \<Rightarrow> string + sql_db" where
  "exec (CreateTable if_not_exists name cs fks) db =
     (if has_table name db then if if_not_exists then Inr db else Inl (''table already exists: '' @ name)
      else Inr (db\<lparr>sq_tables := sq_tables db @ [(name, \<lparr>tb_columns = cs, tb_foreign = fks, tb_rows = []\<rparr>)]\<rparr>))"
| "exec (DropTable name) db =
     (if has_table name db
      then Inr \<lparr>sq_tables = AList.delete name (sq_tables db), sq_indexes = filter (\<lambda>i. ix_table i \<noteq> name) (sq_indexes db)\<rparr>
      else Inl (''no such table: '' @ name))"
| "exec (RenameTable a b) db =
     (if \<not> has_table a db then Inl (''no such table: '' @ a)
      else if has_table b db then Inl (''there is already another table: '' @ b)
      else Inr \<lparr>sq_tables = map (\<lambda>(n, t). (if n = a then b else n, t\<lparr>tb_foreign :=
          map (\<lambda>k. if fk_table k = a then k\<lparr>fk_table := b\<rparr> else k) (tb_foreign t)\<rparr>)) (sq_tables db),
        sq_indexes = map (\<lambda>i. if ix_table i = a then i\<lparr>ix_table := b\<rparr> else i) (sq_indexes db)\<rparr>)"
| "exec (AddColumn name c) db = on_table name db (add_column c)"
| "exec (DropColumn name n) db = on_table name db (\<lambda>t. drop_column (used_columns name t (sq_indexes db)) n t)"
| "exec (CreateIndex if_not_exists i) db =
     (if ix_name i \<in> ix_name ` set (sq_indexes db) then if if_not_exists then Inr db
        else Inl (''index already exists: '' @ ix_name i)
      else (case map_of (sq_tables db) (ix_table i) of
         None \<Rightarrow> Inl (''no such table: '' @ ix_table i)
       | Some t \<Rightarrow> if list_all (\<lambda>c. c \<in> set (column_names t)) (ix_columns i @ ix_where i)
           then Inr (db\<lparr>sq_indexes := sq_indexes db @ [i]\<rparr>) else Inl ''no such column''))"
| "exec (DropIndex n) db =
     (if n \<in> ix_name ` set (sq_indexes db)
      then Inr (db\<lparr>sq_indexes := filter (\<lambda>i. ix_name i \<noteq> n) (sq_indexes db)\<rparr>)
      else Inl (''no such index: '' @ n))"
| "exec (UpdateRows name f) db = on_table name db (\<lambda>t. Inr (t\<lparr>tb_rows := map f (tb_rows t)\<rparr>))"

end
