(* ===== verification/Schema_Migrations.thy ===== *)
theory Schema_Migrations
  imports Schema_Sql
begin

section \<open>The migrations of a provider's database\<close>

text \<open>
  The fourteen migrations of \<open>migration/src\<close>, each with its \<open>up\<close> and \<open>down\<close>, and the columns the
  entities of \<open>entity/src\<close> expect. A column definition of sea-query is a \<open>column\<close>: \<open>col\<close> a nullable
  one, \<open>required\<close> one with \<open>not_null()\<close>, \<open>primary_key\<close> the key. Migration 11 converts the results of
  the legacy pipeline, migration 13 reclassifies documents that were not found, and migration 14
  exposes the outcomes as virtual columns.
\<close>

type_synonym db_step = "sql_db \<Rightarrow> string + sql_db"

definition run :: "statement list \<Rightarrow> db_step" where
  "run = fold_res exec"

record migration =
  mg_name :: string
  mg_up :: db_step
  mg_down :: db_step

definition col :: "string \<Rightarrow> column_type \<Rightarrow> column" where
  "col n ty = \<lparr>cl_name = n, cl_type = ty, cl_not_null = False, cl_key = False, cl_default = SNull, cl_reads = None\<rparr>"

definition required :: "string \<Rightarrow> column_type \<Rightarrow> column" where
  "required n ty = (col n ty)\<lparr>cl_not_null := True\<rparr>"

definition with_default :: "string \<Rightarrow> column_type \<Rightarrow> sql \<Rightarrow> column" where
  "with_default n ty d = (required n ty)\<lparr>cl_default := d\<rparr>"

definition primary_key :: "string \<Rightarrow> column_type \<Rightarrow> column" where
  "primary_key n ty = (required n ty)\<lparr>cl_key := True\<rparr>"

definition plain_index :: "string \<Rightarrow> string \<Rightarrow> string list \<Rightarrow> index" where
  "plain_index n t cs = \<lparr>ix_name = n, ix_table = t, ix_columns = cs, ix_unique = False, ix_where = []\<rparr>"

subsection \<open>Migration 1: the initial schema\<close>

definition document_columns :: "column list" where
  "document_columns = [
     primary_key ''id'' TBig, required ''tracking_id'' TText, required ''title'' TText, required ''url'' TText,
     col ''basic_passed'' TInteger, col ''basic_error_count'' TBig, col ''basic_warning_count'' TBig,
     col ''basic_info_count'' TBig,
     col ''extended_passed'' TInteger, col ''extended_error_count'' TBig, col ''extended_warning_count'' TBig,
     col ''extended_info_count'' TBig,
     col ''full_passed'' TInteger, col ''full_error_count'' TBig, col ''full_warning_count'' TBig,
     col ''full_info_count'' TBig,
     required ''signature_present'' TInteger, col ''signature_error'' TText, col ''category'' TText,
     col ''publisher_name'' TText, col ''initial_release_date'' TText, col ''current_release_date'' TText,
     col ''status'' TText, col ''revision'' TText, col ''aggregate_severity'' TText, col ''csaf_version'' TText]"

definition to_document :: "foreign_key list" where
  "to_document = [\<lparr>fk_column = ''document_id'', fk_table = ''documents'', fk_target = ''id''\<rparr>]"

definition initial_up :: db_step where
  "initial_up = run [
     CreateTable True ''documents'' document_columns [],
     CreateTable True ''check_failures'' [primary_key ''id'' TBig, required ''document_id'' TBig,
       required ''profile'' TText, required ''test_id'' TText, required ''message'' TText,
       with_default ''severity'' TText (SText ''error'')] to_document,
     CreateTable True ''revision_history'' [primary_key ''id'' TBig, required ''document_id'' TBig,
       required ''version'' TText, required ''date'' TText, required ''summary'' TText] to_document,
     CreateTable True ''sync_runs'' [primary_key ''id'' TBig, required ''timestamp'' TText,
       required ''documents_changed'' TBig] [],
     CreateTable True ''provider_info_table'' [primary_key ''id'' TBig, required ''canonical_url'' TText,
       required ''publisher_name'' TText, required ''publisher_category'' TText,
       required ''publisher_namespace'' TText, col ''role'' TText,
       with_default ''list_on_aggregators'' TInteger (SInt 1),
       with_default ''mirror_on_aggregators'' TInteger (SInt 1), required ''last_updated'' TText] [],
     CreateIndex True (plain_index ''idx_documents_tracking_id'' ''documents'' [''tracking_id'']),
     CreateIndex True (plain_index ''idx_check_failures_document_id'' ''check_failures'' [''document_id'']),
     CreateIndex True (plain_index ''idx_revision_history_document_id'' ''revision_history'' [''document_id''])]"

definition initial_down :: db_step where
  "initial_down = run [DropTable ''check_failures'', DropTable ''revision_history'', DropTable ''sync_runs'',
     DropTable ''provider_info_table'', DropTable ''documents'']"

subsection \<open>Migrations 2 to 10\<close>

definition retrieval_error_up :: db_step where
  "retrieval_error_up = run [AddColumn ''documents'' (col ''retrieval_error'' TText)]"

definition retrieval_error_down :: db_step where
  "retrieval_error_down = run [DropColumn ''documents'' ''retrieval_error'']"

definition version_count_up :: db_step where
  "version_count_up = run [AddColumn ''documents'' (with_default ''version_count'' TInteger (SInt 1))]"

definition version_count_down :: db_step where
  "version_count_down = run [DropColumn ''documents'' ''version_count'']"

definition test_count_columns :: "string list" where
  "test_count_columns = [''basic_test_count'', ''basic_failing_test_count'', ''extended_test_count'',
     ''extended_failing_test_count'', ''full_test_count'', ''full_failing_test_count'']"

definition test_counts_up :: db_step where
  "test_counts_up = run (map (\<lambda>n. AddColumn ''documents'' (col n TBig)) test_count_columns)"

definition test_counts_down :: db_step where
  "test_counts_down = run (map (DropColumn ''documents'') test_count_columns)"

text \<open>Migration 5 repairs the table name that the derived identifier of migration 1 gave.\<close>

definition provider_info_up :: db_step where
  "provider_info_up db = (if has_table ''provider_info'' db then Inr db
     else run [RenameTable ''provider_info_table'' ''provider_info''] db)"

definition provider_info_down :: db_step where
  "provider_info_down db = (if has_table ''provider_info_table'' db then Inr db
     else run [RenameTable ''provider_info'' ''provider_info_table''] db)"

definition signature_warning_up :: db_step where
  "signature_warning_up = run [AddColumn ''documents'' (col ''signature_warning'' TText)]"

definition signature_warning_down :: db_step where
  "signature_warning_down = run [DropColumn ''documents'' ''signature_warning'']"

definition checkpoint_up :: db_step where
  "checkpoint_up = run [
     CreateTable False ''processing_checkpoint'' [primary_key ''id'' TInteger, required ''commit_id'' TText,
       required ''fingerprint'' TText, with_default ''summary_dirty'' TInteger (SInt 0)] [],
     CreateIndex False (plain_index ''idx_documents_url'' ''documents'' [''url'']),
     CreateIndex False ((plain_index ''idx_documents_retrieval_errors'' ''documents'' [''url''])
       \<lparr>ix_where := [''retrieval_error'']\<rparr>)]"

definition checkpoint_down :: db_step where
  "checkpoint_down = run [DropIndex ''idx_documents_retrieval_errors'', DropIndex ''idx_documents_url'',
     DropTable ''processing_checkpoint'']"

definition run_duration_up :: db_step where
  "run_duration_up = run [AddColumn ''sync_runs'' (col ''duration_ms'' TBig)]"

definition run_duration_down :: db_step where
  "run_duration_down = run [DropColumn ''sync_runs'' ''duration_ms'']"

definition versions_up :: db_step where
  "versions_up = run [
     CreateTable False ''document_versions'' [primary_key ''id'' TInteger, required ''url'' TText,
       required ''commit_id'' TText, required ''timestamp'' TBig, required ''message'' TText,
       required ''blob_id'' TText, col ''status'' TText, col ''version'' TText,
       col ''current_release_date'' TText] [],
     CreateIndex False ((plain_index ''idx_document_versions_url_commit'' ''document_versions'' [''url'', ''commit_id''])
       \<lparr>ix_unique := True\<rparr>),
     CreateIndex False (plain_index ''idx_document_versions_url_id'' ''document_versions'' [''url'', ''id''])]"

definition versions_down :: db_step where
  "versions_down = run [DropIndex ''idx_document_versions_url_id'', DropIndex ''idx_document_versions_url_commit'',
     DropTable ''document_versions'']"

definition membership_up :: db_step where
  "membership_up = run [CreateTable False ''distribution_membership''
     [primary_key ''distribution_url'' TText, primary_key ''document_url'' TText] []]"

definition membership_down :: db_step where
  "membership_down = run [DropTable ''distribution_membership'']"

subsection \<open>Migration 11: independent outcomes from legacy results\<close>

text \<open>\<open>json_object('status', s, 'message', m)\<close>, the text of an outcome without details.\<close>

definition json_outcome :: "check_status \<Rightarrow> sql \<Rightarrow> check_outcome" where
  "json_outcome status message = \<lparr>co_status = status, co_message = text_of message, co_details = []\<rparr>"

definition legacy_retrieval :: "sql_row \<Rightarrow> check_outcome" where
  "legacy_retrieval r = json_outcome
     (if holds (not3 (is_null (r ''retrieval_error''))) then Failed else Passed) (r ''retrieval_error'')"

definition legacy_parsing :: "sql_row \<Rightarrow> check_outcome" where
  "legacy_parsing r = (let failed = not3 (is_null (r ''retrieval_error'')); error = r ''signature_error'' in json_outcome
     (if holds failed then NotEvaluated
      else if holds (sql_like error ''Document error: document parsing error:%'') then Failed
      else if holds (sql_like error ''Document error: %'') then NotEvaluated
      else if holds (or3 (not3 (is_null (r ''basic_passed''))) (not3 (is_null (r ''csaf_version'')))) then Passed
      else NotEvaluated)
     (if holds (and3 (is_null (r ''retrieval_error'')) (sql_like error ''Document error: %'')) then error else SNull))"

definition legacy_signature :: "sql_row \<Rightarrow> check_outcome" where
  "legacy_signature r = (let error = r ''signature_error'';
       unread = or3 (not3 (is_null (r ''retrieval_error''))) (sql_like error ''Document error: %'') in json_outcome
     (if holds unread then NotEvaluated
      else if holds (sql_like error ''Invalid signature: %'') then Failed
      else if holds (equals (r ''signature_present'') 0) then Missing
      else NotEvaluated)
     (if holds unread then SNull
      else if holds (sql_like error ''Invalid signature: %'') then error
      else if holds (equals (r ''signature_present'') 1) then SText
        (''Revalidate to determine the signature outcome. Previous combined result: ''
         @ (case text_of error of Some e \<Rightarrow> e | None \<Rightarrow> ''no error recorded''))
      else SNull))"

definition legacy_digest :: "sql_row \<Rightarrow> check_outcome" where
  "legacy_digest r = (let error = r ''signature_error''; read = is_null (r ''retrieval_error'');
       mismatch = or3 (sql_like error ''%SHA-256 mismatch:%'') (sql_like error ''%SHA-512 mismatch:%'') in json_outcome
     (if holds (or3 (not3 read) (sql_like error ''Document error: %'')) then NotEvaluated
      else if holds mismatch then Failed
      else if holds (not3 (is_null (r ''signature_warning''))) then Warning
      else if holds (equals (r ''signature_present'') 0) then Missing
      else NotEvaluated)
     (if holds (and3 (and3 read (not3 (sql_like error ''Document error: %''))) mismatch) then error
      else if holds read then r ''signature_warning''
      else SNull))"

definition legacy_checks :: "sql_row \<Rightarrow> doc_checks" where
  "legacy_checks r = \<lparr>dc_retrieval = legacy_retrieval r, dc_parsing = legacy_parsing r,
     dc_signature = legacy_signature r, dc_digest = legacy_digest r\<rparr>"

definition checks_up :: db_step where
  "checks_up = run [
     AddColumn ''documents'' (with_default ''document_checks'' TText (SChecks checks_default)),
     UpdateRows ''documents'' (\<lambda>r. r(''document_checks'' := SChecks (legacy_checks r))),
     UpdateRows ''processing_checkpoint'' (\<lambda>r. if holds (equals (r ''id'') 1) then r(''summary_dirty'' := SInt 1) else r)]"

definition checks_down :: db_step where
  "checks_down = run [DropColumn ''documents'' ''document_checks'']"

subsection \<open>Migration 12\<close>

definition vulnerabilities_up :: db_step where
  "vulnerabilities_up = run [
     CreateTable False ''document_vulnerabilities'' [primary_key ''id'' TInteger, required ''document_id'' TInteger,
       col ''cve'' TText, with_default ''ids'' TText (SText ''[]''), col ''title'' TText, col ''score'' TReal,
       col ''severity'' TText] [],
     CreateIndex False (plain_index ''idx_document_vulnerabilities_cve'' ''document_vulnerabilities'' [''cve'']),
     CreateIndex False (plain_index ''idx_document_vulnerabilities_document'' ''document_vulnerabilities'' [''document_id''])]"

definition vulnerabilities_down :: db_step where
  "vulnerabilities_down = run [DropIndex ''idx_document_vulnerabilities_document'',
     DropIndex ''idx_document_vulnerabilities_cve'', DropTable ''document_vulnerabilities'']"

subsection \<open>Migration 13: documents that were not found\<close>

text \<open>\<open>json_extract(document_checks, '$.retrieval.status')\<close> and \<open>json_set\<close> at the same path.\<close>

definition retrieval_is :: "check_status \<Rightarrow> sql \<Rightarrow> bool option" where
  "retrieval_is status v = (case v of SChecks c \<Rightarrow> Some (co_status (dc_retrieval c) = status) | _ \<Rightarrow> None)"

definition set_retrieval :: "check_status \<Rightarrow> sql \<Rightarrow> sql" where
  "set_retrieval status v = (case v of
     SChecks c \<Rightarrow> SChecks (c\<lparr>dc_retrieval := (dc_retrieval c)\<lparr>co_status := status\<rparr>\<rparr>) | _ \<Rightarrow> v)"

definition mark_missing :: "sql_row \<Rightarrow> sql_row" where
  "mark_missing r = (if holds (and3 (retrieval_is Failed (r ''document_checks''))
       (sql_like (r ''retrieval_error'') ''%Client error: 404%''))
     then r(''document_checks'' := set_retrieval Missing (r ''document_checks'')) else r)"

definition unmark_missing :: "sql_row \<Rightarrow> sql_row" where
  "unmark_missing r = (if holds (retrieval_is Missing (r ''document_checks''))
     then r(''document_checks'' := set_retrieval Failed (r ''document_checks'')) else r)"

definition missing_up :: db_step where
  "missing_up = run [AddColumn ''sync_runs'' (col ''documents_missing'' TBig), UpdateRows ''documents'' mark_missing]"

definition missing_down :: db_step where
  "missing_down = run [UpdateRows ''documents'' unmark_missing, DropColumn ''sync_runs'' ''documents_missing'']"

subsection \<open>Migration 14: virtual columns\<close>

definition check_stages :: "string list" where
  "check_stages = [''retrieval'', ''parsing'', ''signature'', ''digest'']"

definition virtual :: "string \<Rightarrow> string list \<Rightarrow> column" where
  "virtual n reads = (col n TText)\<lparr>cl_reads := Some reads\<rparr>"

definition check_indexes_up :: db_step where
  "check_indexes_up = run (concat (map (\<lambda>stage. [
       AddColumn ''documents'' (virtual (stage @ ''_status'') [''document_checks'']),
       CreateIndex False (plain_index (''idx_documents_'' @ stage @ ''_status'') ''documents''
         [stage @ ''_status'', ''tracking_id''])]) check_stages)
     @ [AddColumn ''documents'' (virtual ''overall_status'' [''retrieval_status'', ''parsing_status'',
         ''signature_status'', ''digest_status'', ''basic_error_count'', ''extended_error_count'', ''full_error_count'',
         ''basic_warning_count'', ''extended_warning_count'', ''full_warning_count'']),
       CreateIndex False (plain_index ''idx_documents_overall_status'' ''documents'' [''overall_status'', ''tracking_id''])])"

definition check_indexes_down :: db_step where
  "check_indexes_down = run ([DropIndex ''idx_documents_overall_status'', DropColumn ''documents'' ''overall_status'']
     @ concat (map (\<lambda>stage. [DropIndex (''idx_documents_'' @ stage @ ''_status''),
         DropColumn ''documents'' (stage @ ''_status'')]) check_stages))"

subsection \<open>The migrator\<close>

definition migrations :: "migration list" where
  "migrations = [
     \<lparr>mg_name = ''m20240101_000001_create_initial_schema'', mg_up = initial_up, mg_down = initial_down\<rparr>,
     \<lparr>mg_name = ''m20240102_000002_add_retrieval_error'', mg_up = retrieval_error_up, mg_down = retrieval_error_down\<rparr>,
     \<lparr>mg_name = ''m20240103_000003_add_version_count'', mg_up = version_count_up, mg_down = version_count_down\<rparr>,
     \<lparr>mg_name = ''m20240104_000004_add_test_counts'', mg_up = test_counts_up, mg_down = test_counts_down\<rparr>,
     \<lparr>mg_name = ''m20240105_000005_fix_provider_info_table'', mg_up = provider_info_up, mg_down = provider_info_down\<rparr>,
     \<lparr>mg_name = ''m20240106_000006_add_signature_warning'', mg_up = signature_warning_up, mg_down = signature_warning_down\<rparr>,
     \<lparr>mg_name = ''m20240107_000007_processing_checkpoint'', mg_up = checkpoint_up, mg_down = checkpoint_down\<rparr>,
     \<lparr>mg_name = ''m20240108_000008_add_sync_run_duration'', mg_up = run_duration_up, mg_down = run_duration_down\<rparr>,
     \<lparr>mg_name = ''m20240109_000009_document_versions'', mg_up = versions_up, mg_down = versions_down\<rparr>,
     \<lparr>mg_name = ''m20240110_000010_distribution_membership'', mg_up = membership_up, mg_down = membership_down\<rparr>,
     \<lparr>mg_name = ''m20240111_000011_document_checks'', mg_up = checks_up, mg_down = checks_down\<rparr>,
     \<lparr>mg_name = ''m20240112_000012_document_vulnerabilities'', mg_up = vulnerabilities_up, mg_down = vulnerabilities_down\<rparr>,
     \<lparr>mg_name = ''m20240113_000013_missing_documents'', mg_up = missing_up, mg_down = missing_down\<rparr>,
     \<lparr>mg_name = ''m20240114_000014_document_check_indexes'', mg_up = check_indexes_up, mg_down = check_indexes_down\<rparr>]"

text \<open>
  The migrator applies the migrations that a database does not have yet in their order; \<open>upgrade n\<close>
  applies those after the first \<open>n\<close>, and \<open>downgrade n\<close> reverts these from the last to the first.
\<close>

definition upgrade :: "nat \<Rightarrow> db_step" where
  "upgrade n = fold_res mg_up (drop n migrations)"

definition downgrade :: "nat \<Rightarrow> db_step" where
  "downgrade n = fold_res mg_down (rev (drop n migrations))"

subsection \<open>What the entities expect\<close>

text \<open>The types of the fields of \<open>entity/src\<close>; \<open>ef_optional\<close> marks an \<open>Option\<close>.\<close>

datatype field_type = I64 | I32 | Str | F64 | Timestamp

record entity_field =
  ef_name :: string
  ef_type :: field_type
  ef_optional :: bool

definition must :: "string \<Rightarrow> field_type \<Rightarrow> entity_field" where
  "must n ty = \<lparr>ef_name = n, ef_type = ty, ef_optional = False\<rparr>"

definition opt :: "string \<Rightarrow> field_type \<Rightarrow> entity_field" where
  "opt n ty = \<lparr>ef_name = n, ef_type = ty, ef_optional = True\<rparr>"

definition document_entity :: "entity_field list" where
  "document_entity = [must ''id'' I64, must ''tracking_id'' Str, must ''title'' Str, must ''url'' Str,
     opt ''basic_passed'' I32, opt ''basic_error_count'' I64, opt ''basic_warning_count'' I64, opt ''basic_info_count'' I64,
     opt ''extended_passed'' I32, opt ''extended_error_count'' I64, opt ''extended_warning_count'' I64,
     opt ''extended_info_count'' I64,
     opt ''full_passed'' I32, opt ''full_error_count'' I64, opt ''full_warning_count'' I64, opt ''full_info_count'' I64,
     opt ''basic_test_count'' I64, opt ''basic_failing_test_count'' I64, opt ''extended_test_count'' I64,
     opt ''extended_failing_test_count'' I64, opt ''full_test_count'' I64, opt ''full_failing_test_count'' I64,
     must ''document_checks'' Str, must ''signature_present'' I32, opt ''signature_error'' Str,
     opt ''signature_warning'' Str, opt ''category'' Str, opt ''publisher_name'' Str, opt ''initial_release_date'' Str,
     opt ''current_release_date'' Str, opt ''status'' Str, opt ''revision'' Str, opt ''aggregate_severity'' Str,
     opt ''csaf_version'' Str, opt ''retrieval_error'' Str, must ''version_count'' I32]"

definition check_failure_entity :: "entity_field list" where
  "check_failure_entity = [must ''id'' I64, must ''document_id'' I64, must ''profile'' Str, must ''test_id'' Str,
     must ''message'' Str, must ''severity'' Str]"

definition revision_history_entity :: "entity_field list" where
  "revision_history_entity = [must ''id'' I64, must ''document_id'' I64, must ''version'' Str, must ''date'' Str,
     must ''summary'' Str]"

definition vulnerability_entity :: "entity_field list" where
  "vulnerability_entity = [must ''id'' I64, must ''document_id'' I64, opt ''cve'' Str, must ''ids'' Str,
     opt ''title'' Str, opt ''score'' F64, opt ''severity'' Str]"

definition document_version_entity :: "entity_field list" where
  "document_version_entity = [must ''id'' I64, must ''url'' Str, must ''commit_id'' Str, must ''timestamp'' I64,
     must ''message'' Str, must ''blob_id'' Str, opt ''status'' Str, opt ''version'' Str,
     opt ''current_release_date'' Str]"

definition provider_info_entity :: "entity_field list" where
  "provider_info_entity = [must ''id'' I64, must ''canonical_url'' Str, must ''publisher_name'' Str,
     must ''publisher_category'' Str, must ''publisher_namespace'' Str, opt ''role'' Str,
     must ''list_on_aggregators'' I32, must ''mirror_on_aggregators'' I32, must ''last_updated'' Str]"

definition sync_run_entity :: "entity_field list" where
  "sync_run_entity = [must ''id'' I64, must ''timestamp'' Timestamp, must ''documents_changed'' I64,
     opt ''duration_ms'' I64, opt ''documents_missing'' I64]"

definition entities :: "(string \<times> entity_field list) list" where
  "entities = [(''documents'', document_entity), (''check_failures'', check_failure_entity),
     (''revision_history'', revision_history_entity), (''document_vulnerabilities'', vulnerability_entity),
     (''document_versions'', document_version_entity), (''provider_info'', provider_info_entity),
     (''sync_runs'', sync_run_entity)]"

text \<open>SQLite keeps integers of 64 bits whatever their declared type; timestamps are text.\<close>

fun decodes :: "column_type \<Rightarrow> field_type \<Rightarrow> bool" where
  "decodes TBig ty = (ty = I64)"
| "decodes TInteger ty = (ty = I32 \<or> ty = I64)"
| "decodes TText ty = (ty = Str \<or> ty = Timestamp)"
| "decodes TReal ty = (ty = F64)"

definition field_matches :: "column list \<Rightarrow> entity_field \<Rightarrow> bool" where
  "field_matches cs f = (case filter (\<lambda>c. cl_name c = ef_name f) cs of
     [c] \<Rightarrow> cl_reads c = None \<and> decodes (cl_type c) (ef_type f) \<and> cl_not_null c = (\<not> ef_optional f)
   | _ \<Rightarrow> False)"

text \<open>Every field is a column of its own and every column that is stored is a field.\<close>

definition entity_matches :: "sql_db \<Rightarrow> string \<times> entity_field list \<Rightarrow> bool" where
  "entity_matches db = (\<lambda>(name, fields). case map_of (sq_tables db) name of
     None \<Rightarrow> False
   | Some t \<Rightarrow> list_all (field_matches (tb_columns t)) fields
       \<and> length (filter (\<lambda>c. cl_reads c = None) (tb_columns t)) = length fields
       \<and> list_ex (\<lambda>c. cl_name c = ''id'' \<and> cl_key c) (tb_columns t))"

subsection \<open>Rows of documents and their virtual columns\<close>

definition int_value :: "int option \<Rightarrow> sql" where
  "int_value v = (case v of Some i \<Rightarrow> SInt i | None \<Rightarrow> SNull)"

definition text_value :: "string option \<Rightarrow> sql" where
  "text_value v = (case v of Some s \<Rightarrow> SText s | None \<Rightarrow> SNull)"

definition profile_values :: "string \<Rightarrow> profile_columns \<Rightarrow> (string \<times> sql) list" where
  "profile_values p c = [(p @ ''_passed'', int_value (pc_passed c)), (p @ ''_error_count'', int_value (pc_error_count c)),
     (p @ ''_warning_count'', int_value (pc_warning_count c)), (p @ ''_info_count'', int_value (pc_info_count c)),
     (p @ ''_test_count'', int_value (pc_test_count c)),
     (p @ ''_failing_test_count'', int_value (pc_failing_test_count c))]"

definition document_values :: "document_row \<Rightarrow> (string \<times> sql) list" where
  "document_values d =
     [(''id'', SInt (int (dr_id d))), (''document_checks'', SChecks (dr_checks d)),
      (''tracking_id'', SText (dr_tracking_id d)), (''title'', SText (dr_title d)), (''url'', SText (dr_url d))]
     @ profile_values ''basic'' (dr_basic d) @ profile_values ''extended'' (dr_extended d)
     @ profile_values ''full'' (dr_full d)
     @ [(''signature_present'', SInt (dr_signature_present d)), (''signature_error'', text_value (dr_signature_error d)),
      (''signature_warning'', text_value (dr_signature_warning d)), (''category'', text_value (dr_category d)),
      (''publisher_name'', text_value (dr_publisher_name d)),
      (''initial_release_date'', text_value (dr_initial_release_date d)),
      (''current_release_date'', text_value (dr_current_release_date d)), (''status'', text_value (dr_status d)),
      (''revision'', text_value (dr_revision d)), (''aggregate_severity'', text_value (dr_aggregate_severity d)),
      (''csaf_version'', text_value (dr_csaf_version d)), (''retrieval_error'', text_value (dr_retrieval_error d)),
      (''version_count'', SInt (dr_version_count d))]"

definition row_of_document :: "document_row \<Rightarrow> sql_row" where
  "row_of_document d n = (case map_of (document_values d) n of Some v \<Rightarrow> v | None \<Rightarrow> SNull)"

text \<open>\<open>COALESCE(json_extract(document_checks, '$.stage.status'), 'not_evaluated')\<close>.\<close>

definition virtual_status :: "string \<Rightarrow> sql_row \<Rightarrow> string option" where
  "virtual_status stage r = (case r ''document_checks'' of
     SChecks c \<Rightarrow> map_option (\<lambda>outcome. status_text (co_status outcome))
       (map_of [(''retrieval'', dc_retrieval c), (''parsing'', dc_parsing c), (''signature'', dc_signature c),
         (''digest'', dc_digest c)] stage)
   | _ \<Rightarrow> Some ''not_evaluated'')"

definition stage_in :: "sql_row \<Rightarrow> string \<Rightarrow> check_status list \<Rightarrow> bool option" where
  "stage_in r stage sts = Some (\<exists>st \<in> set sts. virtual_status stage r = Some (status_text st))"

definition greater_zero :: "sql \<Rightarrow> bool option" where
  "greater_zero v = (case v of SNull \<Rightarrow> None | SInt i \<Rightarrow> Some (0 < i) | SReal x \<Rightarrow> Some (0 < x) | _ \<Rightarrow> Some True)"

definition counts_above :: "sql_row \<Rightarrow> string \<Rightarrow> bool option" where
  "counts_above r suffix = or3 (greater_zero (r (''basic'' @ suffix)))
     (or3 (greater_zero (r (''extended'' @ suffix))) (greater_zero (r (''full'' @ suffix))))"

definition virtual_overall :: "sql_row \<Rightarrow> overall option" where
  "virtual_overall r = (let read = and3 (stage_in r ''retrieval'' [Passed]) (stage_in r ''parsing'' [Passed]) in
     if holds (or3 (stage_in r ''retrieval'' [Failed, Missing]) (or3 (stage_in r ''parsing'' [Failed])
          (or3 (stage_in r ''signature'' [Failed]) (or3 (stage_in r ''digest'' [Failed])
            (and3 read (counts_above r ''_error_count'')))))) then Some OFailing
     else if holds (or3 (stage_in r ''digest'' [Warning]) (and3 read (counts_above r ''_warning_count'')))
     then Some OWarning
     else if holds (and3 read (and3 (stage_in r ''signature'' [Passed, Missing]) (stage_in r ''digest'' [Passed, Missing])))
     then Some OPassing else None)"

text \<open>Whether a value may stand in a field: of its type, and \<open>NULL\<close> only in an optional one.\<close>

definition fits :: "sql \<Rightarrow> entity_field \<Rightarrow> bool" where
  "fits v f = (case v of SNull \<Rightarrow> ef_optional f | SInt _ \<Rightarrow> ef_type f \<in> {I64, I32}
     | SText _ \<Rightarrow> ef_type f \<in> {Str, Timestamp} | SReal _ \<Rightarrow> ef_type f = F64 | SChecks _ \<Rightarrow> ef_type f = Str)"

end
