(* ===== verification/Migration_Facts.thy ===== *)
theory Migration_Facts
  imports Schema_Migrations
begin

section \<open>What migrating keeps and gives\<close>

text \<open>
  A statement succeeds or fails for the schema alone, so migrating a database with rows goes as
  migrating an empty one of the same version, which is computed. The statements of the upgrades keep
  every table and the values of the columns that were there.
\<close>

subsection \<open>Schemas decide\<close>

definition schema_of :: "sql_db \<Rightarrow> (string \<times> column list \<times> foreign_key list) list \<times> index list" where
  "schema_of db = (map (\<lambda>(n, t). (n, tb_columns t, tb_foreign t)) (sq_tables db), sq_indexes db)"

definition blank_table :: "sql_table \<Rightarrow> sql_table" where
  "blank_table t = t\<lparr>tb_rows := []\<rparr>"

definition blank :: "sql_db \<Rightarrow> sql_db" where
  "blank db = db\<lparr>sq_tables := map (\<lambda>(n, t). (n, blank_table t)) (sq_tables db)\<rparr>"

lemma blank_table_simps [simp]:
  "column_names (blank_table t) = column_names t" "used_columns n (blank_table t) is = used_columns n t is"
  "tb_columns (blank_table t) = tb_columns t" "tb_foreign (blank_table t) = tb_foreign t"
  by (simp_all add: blank_table_def column_names_def used_columns_def)

lemma blank_simps [simp]:
  "sq_indexes (blank db) = sq_indexes db" "map_of (sq_tables (blank db)) n = map_option blank_table (map_of (sq_tables db) n)"
  "has_table n (blank db) = has_table n db"
  by (simp_all add: blank_def map_of_map has_table_def)

lemma schema_blank: "blank a = blank b \<longleftrightarrow> schema_of a = schema_of b"
proof
  have s: "schema_of (blank db) = schema_of db" for db
    by (simp add: schema_of_def blank_def blank_table_def split_beta comp_def)
  have b: "blank db = \<lparr>sq_tables = map (\<lambda>(n, cs, fs). (n, \<lparr>tb_columns = cs, tb_foreign = fs, tb_rows = []\<rparr>)) (fst (schema_of db)),
      sq_indexes = snd (schema_of db)\<rparr>" for db
    by (simp add: schema_of_def blank_def blank_table_def split_beta comp_def)
  show "blank a = blank b \<Longrightarrow> schema_of a = schema_of b" using s by metis
  show "schema_of a = schema_of b \<Longrightarrow> blank a = blank b" unfolding b by simp
qed

lemma update_map:
  "AList.update k (f v) (map (\<lambda>(n, t). (n, f t)) xs) = map (\<lambda>(n, t). (n, f t)) (AList.update k v xs)"
  by (induction xs) auto

lemma delete_map: "AList.delete k (map (\<lambda>(n, t). (n, f t)) xs) = map (\<lambda>(n, t). (n, f t)) (AList.delete k xs)"
  by (induction xs) (auto simp: AList.delete_eq)

lemma blank_set_table: "blank (db\<lparr>sq_tables := AList.update n t (sq_tables db)\<rparr>)
    = (blank db)\<lparr>sq_tables := AList.update n (blank_table t) (sq_tables (blank db))\<rparr>"
  by (simp add: blank_def update_map)

lemma on_table_blank:
  assumes "\<And>t. g (blank_table t) = map_sum id blank_table (f t)"
  shows "on_table name (blank db) g = map_sum id blank (on_table name db f)"
proof (cases "map_of (sq_tables db) name")
  case (Some t)
  then show ?thesis by (cases "f t") (simp_all add: on_table_def assms blank_set_table)
qed (simp add: on_table_def)

lemma exec_blank: "exec s (blank db) = map_sum id blank (exec s db)"
proof (cases s)
  case (AddColumn name c)
  have "add_column c (blank_table t) = map_sum id blank_table (add_column c t)" for t
    by (simp add: add_column_def blank_table_def column_names_def)
  then show ?thesis by (simp add: AddColumn on_table_blank)
next
  case (DropColumn name n)
  have "drop_column us n (blank_table t) = map_sum id blank_table (drop_column us n t)" for us t
    by (simp add: drop_column_def blank_table_def column_names_def)
  then show ?thesis
    unfolding DropColumn exec.simps by (intro on_table_blank) (simp add: blank_simps)
next
  case (UpdateRows name f)
  then show ?thesis by (simp add: on_table_blank blank_table_def)
qed (auto simp: blank_def blank_table_def delete_map split_beta comp_def list_all_iff has_table_def map_of_map column_names_def
    split: option.split)

definition by_schema :: "db_step \<Rightarrow> bool" where
  "by_schema f \<longleftrightarrow> (\<forall>db. f (blank db) = map_sum id blank (f db))"

lemma by_schema_fold: "(\<And>x. x \<in> set xs \<Longrightarrow> by_schema (f x)) \<Longrightarrow> by_schema (fold_res f xs)"
proof (induction xs)
  case (Cons x xs)
  then have "fold_res f (x # xs) (blank db) = map_sum id blank (fold_res f (x # xs) db)" for db
    by (cases "f x db") (simp_all add: by_schema_def)
  then show ?case by (simp add: by_schema_def)
qed (simp add: by_schema_def)

lemma by_schema_run [simp]: "by_schema (run ss)"
  unfolding run_def by (rule by_schema_fold) (simp add: by_schema_def exec_blank)

lemma by_schema_guarded [simp]: "by_schema (\<lambda>db. if has_table n db then Inr db else run ss db)"
  using by_schema_run [of ss] by (simp add: by_schema_def)

lemma migrations_by_schema: "m \<in> set migrations \<Longrightarrow> by_schema (mg_up m) \<and> by_schema (mg_down m)"
  using by_schema_guarded [of "''provider_info''"] by_schema_guarded [of "''provider_info_table''"]
  unfolding migrations_def
  by (auto simp: initial_up_def initial_down_def retrieval_error_up_def retrieval_error_down_def version_count_up_def
      version_count_down_def test_counts_up_def test_counts_down_def provider_info_up_def [abs_def]
      provider_info_down_def [abs_def] signature_warning_up_def signature_warning_down_def checkpoint_up_def
      checkpoint_down_def run_duration_up_def run_duration_down_def versions_up_def versions_down_def membership_up_def
      membership_down_def checks_up_def checks_down_def vulnerabilities_up_def vulnerabilities_down_def missing_up_def
      missing_down_def check_indexes_up_def check_indexes_down_def)

text \<open>A step that works for one database works for every one of the same schema.\<close>

lemma by_schema_transfer:
  assumes "by_schema f" "schema_of db = schema_of v" "f v = Inr v'"
  shows "\<exists>db'. f db = Inr db' \<and> schema_of db' = schema_of v'"
proof -
  have "map_sum id blank (f db) = map_sum id blank (f v)"
    using assms(1,2) by (metis by_schema_def schema_blank)
  then show ?thesis using assms(3) by (cases "f db") (simp_all add: schema_blank)
qed

subsection \<open>All versions\<close>

definition version :: "nat \<Rightarrow> string + sql_db" where
  "version n = fold_res mg_up (take n migrations) sql_empty"

fun reverting :: "(sql_db \<Rightarrow> bool) \<Rightarrow> migration list \<Rightarrow> sql_db \<Rightarrow> bool" where
  "reverting final [] db = final db"
| "reverting final (m # ms) db = (case mg_up m db of Inl e \<Rightarrow> False
     | Inr db' \<Rightarrow> (case mg_down m db' of Inl e \<Rightarrow> False
       | Inr db'' \<Rightarrow> schema_of db'' = schema_of db \<and> reverting final ms db'))"

lemma all_reverting: "reverting (\<lambda>db. list_all (entity_matches db) entities) migrations sql_empty"
  by code_simp

lemma reverting_drop:
  "reverting final ms db \<Longrightarrow> fold_res mg_up (take n ms) db = Inr v \<Longrightarrow> reverting final (drop n ms) v"
  by (induction final ms db arbitrary: n rule: reverting.induct)
    (auto simp: take_Cons' drop_Cons' split: sum.splits if_splits)

lemma reverting_exact:
  assumes "reverting final ms v" "\<And>m. m \<in> set ms \<Longrightarrow> by_schema (mg_up m) \<and> by_schema (mg_down m)"
    and "schema_of db = schema_of v"
  shows "\<exists>v' db'. fold_res mg_up ms db = Inr db' \<and> schema_of db' = schema_of v' \<and> final v'
    \<and> (\<forall>e. schema_of e = schema_of v' \<longrightarrow> (\<exists>e'. fold_res mg_down (rev ms) e = Inr e' \<and> schema_of e' = schema_of v))"
  using assms
proof (induction ms arbitrary: v db)
  case (Cons m ms)
  obtain v1 v0 where v: "mg_up m v = Inr v1" "mg_down m v1 = Inr v0" "schema_of v0 = schema_of v" "reverting final ms v1"
    using Cons.prems(1) by (auto split: sum.splits)
  obtain d1 where d1: "mg_up m db = Inr d1" "schema_of d1 = schema_of v1"
    using by_schema_transfer [of "mg_up m" db v v1] Cons.prems(2,3) v(1) by auto
  obtain v' db' where r: "fold_res mg_up ms d1 = Inr db'" "schema_of db' = schema_of v'" "final v'"
    "\<And>e. schema_of e = schema_of v' \<Longrightarrow> \<exists>e'. fold_res mg_down (rev ms) e = Inr e' \<and> schema_of e' = schema_of v1"
    using Cons.IH [OF v(4) _ d1(2)] Cons.prems(2) by auto
  have "\<exists>e'. fold_res mg_down (rev (m # ms)) e = Inr e' \<and> schema_of e' = schema_of v" if e: "schema_of e = schema_of v'" for e
  proof -
    obtain e1 where e1: "fold_res mg_down (rev ms) e = Inr e1" "schema_of e1 = schema_of v1" using r(4) [OF e] by blast
    then obtain e2 where "mg_down m e1 = Inr e2" "schema_of e2 = schema_of v0"
      using by_schema_transfer [of "mg_down m" e1 v1 v0] e1(2) v(2) Cons.prems(2) by auto
    then show ?thesis using e1 v(3) by (simp add: fold_res_append)
  qed
  then show ?case using d1 r by auto
qed auto

lemma upgrade_reverting:
  assumes "version n = Inr v" "schema_of db = schema_of v"
  shows "\<exists>v' db'. upgrade n db = Inr db' \<and> schema_of db' = schema_of v' \<and> list_all (entity_matches v') entities
    \<and> (\<forall>e. schema_of e = schema_of v' \<longrightarrow> (\<exists>e'. downgrade n e = Inr e' \<and> schema_of e' = schema_of v))"
  unfolding upgrade_def downgrade_def
proof (rule reverting_exact [OF reverting_drop [OF all_reverting] _ assms(2)])
  show "fold_res mg_up (take n migrations) sql_empty = Inr v" using assms(1) by (simp add: version_def)
  show "m \<in> set (drop n migrations) \<Longrightarrow> by_schema (mg_up m) \<and> by_schema (mg_down m)" for m
    by (rule migrations_by_schema) (rule in_set_dropD)
qed

subsection \<open>Data\<close>

text \<open>
  \<open>b\<close> is the table \<open>a\<close> after an upgrade: it has its columns and its rows in their order, and a row has
  its values but for the outcomes and the mark of the checkpoint, which migrations 11 and 13 write.
\<close>

definition rewritten :: "string list" where
  "rewritten = [''document_checks'', ''summary_dirty'']"

definition row_kept :: "string list \<Rightarrow> sql_row \<Rightarrow> sql_row \<Rightarrow> bool" where
  "row_kept ns r r' \<longleftrightarrow> (\<forall>n \<in> set ns - set rewritten. r' n = r n)"

definition table_kept :: "string \<times> sql_table \<Rightarrow> string \<times> sql_table \<Rightarrow> bool" where
  "table_kept a b \<longleftrightarrow> (fst b = fst a \<or> fst a = ''provider_info_table'' \<and> fst b = ''provider_info'')
     \<and> set (column_names (snd a)) \<subseteq> set (column_names (snd b))
     \<and> list_all2 (row_kept (column_names (snd a))) (tb_rows (snd a)) (tb_rows (snd b))"

definition data_kept :: "sql_db \<Rightarrow> sql_db \<Rightarrow> bool" where
  "data_kept db db' \<longleftrightarrow> (\<exists>ts us. sq_tables db' = ts @ us \<and> list_all2 table_kept (sq_tables db) ts)"

lemma row_kept_trans:
  "row_kept ns r r' \<Longrightarrow> row_kept ms r' r'' \<Longrightarrow> set ns \<subseteq> set ms \<Longrightarrow> row_kept ns r r''"
  unfolding row_kept_def by (metis DiffD1 DiffD2 DiffI subsetD)

lemma table_kept_refl [simp]: "table_kept a a"
  by (simp add: table_kept_def row_kept_def list.rel_refl)

lemma table_kept_trans: "table_kept a b \<Longrightarrow> table_kept b c \<Longrightarrow> table_kept a c"
proof -
  assume a: "table_kept a b" and b: "table_kept b c"
  have sub: "set (column_names (snd a)) \<subseteq> set (column_names (snd b))" using a by (simp add: table_kept_def)
  have rows: "list_all2 (row_kept (column_names (snd a))) (tb_rows (snd a)) (tb_rows (snd b))"
    "list_all2 (row_kept (column_names (snd b))) (tb_rows (snd b)) (tb_rows (snd c))"
    using a b by (simp_all add: table_kept_def)
  have "list_all2 (row_kept (column_names (snd a))) (tb_rows (snd a)) (tb_rows (snd c))"
    using list_all2_trans [OF _ rows] row_kept_trans [OF _ _ sub] by blast
  then show ?thesis using a b sub unfolding table_kept_def by auto
qed

lemma data_kept_refl [simp]: "data_kept db db"
  unfolding data_kept_def by (rule exI [of _ "sq_tables db"]) (simp add: list.rel_refl)

lemma data_kept_trans: "data_kept a b \<Longrightarrow> data_kept b c \<Longrightarrow> data_kept a c"
proof -
  assume "data_kept a b" "data_kept b c"
  then obtain ts us vs ws where b: "sq_tables b = ts @ us" "list_all2 table_kept (sq_tables a) ts"
    and c: "sq_tables c = vs @ ws" "list_all2 table_kept (ts @ us) vs"
    unfolding data_kept_def by metis
  obtain v1 v2 where v: "vs = v1 @ v2" "list_all2 table_kept ts v1"
    using c(2) by (metis list_all2_append1)
  have "list_all2 table_kept (sq_tables a) v1"
    by (rule list_all2_trans [OF table_kept_trans b(2) v(2)])
  then show ?thesis using c(1) v(1) unfolding data_kept_def by (metis append_assoc)
qed

text \<open>The statements of the upgrades.\<close>

fun gentle :: "statement \<Rightarrow> bool" where
  "gentle (RenameTable a b) \<longleftrightarrow> a = ''provider_info_table'' \<and> b = ''provider_info''"
| "gentle (UpdateRows _ f) \<longleftrightarrow> (\<forall>ns r. row_kept ns r (f r))"
| "gentle (DropTable _) \<longleftrightarrow> False"
| "gentle (DropColumn _ _) \<longleftrightarrow> False"
| "gentle _ \<longleftrightarrow> True"

lemma update_kept:
  assumes "map_of ts n = Some t" "table_kept (n, t) (n, t')"
  shows "list_all2 table_kept ts (AList.update n t' ts)"
  using assms by (induction ts) (auto simp: list.rel_refl split: if_splits)

lemma data_keptI: "sq_tables db' = ts \<Longrightarrow> list_all2 table_kept (sq_tables db) ts \<Longrightarrow> data_kept db db'"
  by (auto simp: data_kept_def)

lemma data_kept_append: "sq_tables db' = sq_tables db @ us \<Longrightarrow> data_kept db db'"
  unfolding data_kept_def by (rule exI [of _ "sq_tables db"]) (simp add: list.rel_refl)

lemma data_kept_same: "sq_tables db' = sq_tables db \<Longrightarrow> data_kept db db'"
  by (rule data_kept_append [of _ _ "[]"]) simp

lemma on_table_kept:
  assumes "on_table n db f = Inr db'" "\<And>t t'. f t = Inr t' \<Longrightarrow> table_kept (n, t) (n, t')"
  shows "data_kept db db'"
proof (cases "map_of (sq_tables db) n")
  case (Some t)
  with assms(1) obtain t' where t': "f t = Inr t'" "sq_tables db' = AList.update n t' (sq_tables db)"
    by (cases "f t") (auto simp: on_table_def)
  show ?thesis by (rule data_keptI [OF t'(2)]) (rule update_kept [OF Some assms(2) [OF t'(1)]])
qed (use assms(1) in \<open>simp add: on_table_def\<close>)

lemma exec_kept:
  assumes "gentle s" "exec s db = Inr db'"
  shows "data_kept db db'"
proof (cases s)
  case (AddColumn name c)
  show ?thesis
  proof (rule on_table_kept)
    show "on_table name db (add_column c) = Inr db'" using assms(2) by (simp add: AddColumn)
    show "table_kept (name, t) (name, t')" if "add_column c t = Inr t'" for t t'
      using that by (auto simp: add_column_def table_kept_def row_kept_def column_names_def list.rel_map list.rel_refl
          split: if_splits)
  qed
next
  case (UpdateRows name f)
  have "table_kept (name, t) (name, t\<lparr>tb_rows := map f (tb_rows t)\<rparr>)" for t
    using assms(1) by (simp add: UpdateRows table_kept_def list.rel_map list.rel_refl column_names_def)
  then show ?thesis using assms(2) by (auto simp: UpdateRows intro: on_table_kept)
next
  case (RenameTable a b)
  let ?f = "\<lambda>(n, t). (if n = a then b else n, t\<lparr>tb_foreign :=
      map (\<lambda>k. if fk_table k = a then k\<lparr>fk_table := b\<rparr> else k) (tb_foreign t)\<rparr>)"
  have k: "table_kept x (?f x)" for x
    using assms(1) by (simp add: RenameTable table_kept_def column_names_def row_kept_def split_beta list.rel_refl)
  have "sq_tables db' = map ?f (sq_tables db)" using assms(2) by (auto simp: RenameTable split: if_splits)
  moreover have "list_all2 table_kept (sq_tables db) (map ?f (sq_tables db))"
    unfolding list.rel_map by (rule list.rel_refl) (rule k)
  ultimately show ?thesis by (rule data_keptI)
qed (use assms in \<open>auto split: if_splits option.splits intro: data_kept_append data_kept_same\<close>)

lemma run_kept: "list_all gentle ss \<Longrightarrow> run ss db = Inr db' \<Longrightarrow> data_kept db db'"
proof (induction ss arbitrary: db)
  case (Cons s ss)
  then obtain d where "exec s db = Inr d" "run ss d = Inr db'" by (auto simp: run_def split: sum.splits)
  then show ?case using Cons exec_kept data_kept_trans by (metis list.pred_inject(2))
qed (simp add: run_def)

lemma written_kept: "n \<in> set rewritten \<Longrightarrow> row_kept ns r (r(n := v))"
  by (auto simp: row_kept_def)

lemma mark_missing_kept: "row_kept ns r (mark_missing r)"
  using written_kept [of "''document_checks''"] by (simp add: mark_missing_def rewritten_def) (simp add: row_kept_def)

lemma migrations_gentle: "m \<in> set migrations \<Longrightarrow> mg_up m db = Inr db' \<Longrightarrow> data_kept db db'"
proof -
  have g: "list_all gentle (map (\<lambda>n. AddColumn ''documents'' (col n TBig)) ns)" for ns by (simp add: list_all_iff)
  have c: "row_kept ns r (r(''document_checks'' := v))" "row_kept ns r (r(''summary_dirty'' := v))" "row_kept ns r r" for ns r v
    by (simp_all add: row_kept_def rewritten_def)
  have p: "data_kept db db'" if "run [RenameTable ''provider_info_table'' ''provider_info''] db = Inr db'"
    using that by (rule run_kept [rotated]) simp
  assume "m \<in> set migrations" "mg_up m db = Inr db'"
  then show ?thesis
    unfolding migrations_def
    by (auto simp: initial_up_def retrieval_error_up_def version_count_up_def test_counts_up_def provider_info_up_def
        signature_warning_up_def checkpoint_up_def run_duration_up_def versions_up_def membership_up_def checks_up_def
        vulnerabilities_up_def missing_up_def check_indexes_up_def g c mark_missing_kept check_stages_def
        split: if_splits intro: p run_kept [rotated])
qed

lemma upgrade_kept: "upgrade n db = Inr db' \<Longrightarrow> data_kept db db'"
proof -
  have "fold_res mg_up ms db = Inr db' \<Longrightarrow> set ms \<subseteq> set migrations \<Longrightarrow> data_kept db db'" for ms
  proof (induction ms arbitrary: db)
    case (Cons m ms)
    then obtain d where d: "mg_up m db = Inr d" "fold_res mg_up ms d = Inr db'" by (auto split: sum.splits)
    show ?case using data_kept_trans [OF migrations_gentle [OF _ d(1)] Cons.IH [OF d(2)]] Cons.prems(2) by simp
  qed simp
  from this [of "drop n migrations"] show "upgrade n db = Inr db' \<Longrightarrow> data_kept db db'"
    by (simp add: upgrade_def set_drop_subset)
qed

subsection \<open>Upgrades and downgrades\<close>

lemma entity_matches_schema: "schema_of a = schema_of b \<Longrightarrow> entity_matches a e = entity_matches b e"
proof -
  have "entity_matches (blank db) e = entity_matches db e" for db
    by (cases e; cases "map_of (sq_tables db) (fst e)") (simp_all add: entity_matches_def)
  then show "schema_of a = schema_of b \<Longrightarrow> entity_matches a e = entity_matches b e" by (metis schema_blank)
qed

lemma version_exists: "\<exists>v. version n = Inr v"
proof -
  have "fold_res mg_up ms db \<noteq> Inl e" if "reverting final ms db" for final ms db e
    using that by (induction final ms db rule: reverting.induct) (auto split: sum.splits)
  from this [OF all_reverting] have "fold_res mg_up (take n migrations @ drop n migrations) sql_empty \<noteq> Inl e" for e by simp
  then show ?thesis unfolding version_def fold_res_append by (cases "fold_res mg_up (take n migrations) sql_empty") auto
qed

text \<open>
  C37. From every version of the schema and whatever rows it holds, a database can be brought to the current
  version. Then the stored columns of its tables are exactly the fields of the entities with their
  types and optionality, and every table that was there keeps its rows in their order and their
  values, the results of checks and the mark of the checkpoint excepted.
\<close>

theorem upgrade_exact:
  assumes "version n = Inr v" "schema_of db = schema_of v"
  shows "\<exists>db'. upgrade n db = Inr db' \<and> list_all (entity_matches db') entities \<and> data_kept db db'"
proof -
  obtain v' db' where u: "upgrade n db = Inr db'" "schema_of db' = schema_of v'" "list_all (entity_matches v') entities"
    using upgrade_reverting [OF assms] by blast
  have "list_all (entity_matches db') entities" using u(3) entity_matches_schema [OF u(2)] by (simp add: list_all_iff)
  then show ?thesis using u(1) upgrade_kept [OF u(1)] by blast
qed

text \<open>A database of version \<open>n\<close> with the given documents.\<close>

definition stocked :: "nat \<Rightarrow> sql_row list \<Rightarrow> sql_db" where
  "stocked n rs = (case version n of Inl e \<Rightarrow> sql_empty | Inr v \<Rightarrow> v\<lparr>sq_tables :=
     map (\<lambda>(name, t). (name, if name = ''documents'' then t\<lparr>tb_rows := rs\<rparr> else t)) (sq_tables v)\<rparr>)"

lemma stocked_schema: "version n = Inr v \<Longrightarrow> schema_of (stocked n rs) = schema_of v"
  by (simp add: stocked_def schema_of_def split_beta)

definition sample_legacy_row :: sql_row where
  "sample_legacy_row = (\<lambda>_. SNull)(''id'' := SInt 1, ''tracking_id'' := SText ''A'', ''title'' := SText ''T'',
     ''url'' := SText ''u'', ''signature_present'' := SInt 0, ''csaf_version'' := SText ''2.0'', ''version_count'' := SInt 1)"

theorem upgrade_exact_witness:
  "\<exists>db'. upgrade 10 (stocked 10 [sample_legacy_row]) = Inr db' \<and> list_all (entity_matches db') entities
     \<and> data_kept (stocked 10 [sample_legacy_row]) db'"
proof -
  obtain v where v: "version 10 = Inr v" using version_exists by blast
  show ?thesis by (rule upgrade_exact [OF v stocked_schema [OF v]])
qed

text \<open>
  C38. Reverting the migrations of an upgrade works on every database of the upgraded schema, whatever was
  written to it since, and leaves exactly the schema from before the upgrade.
\<close>

theorem downgrade_restores:
  assumes "version n = Inr v" "schema_of db = schema_of v"
    and "upgrade n db = Inr db'" "schema_of later = schema_of db'"
  shows "\<exists>db''. downgrade n later = Inr db'' \<and> schema_of db'' = schema_of db"
proof -
  obtain v' where v': "schema_of db' = schema_of v'"
    "\<And>e. schema_of e = schema_of v' \<Longrightarrow> \<exists>e'. downgrade n e = Inr e' \<and> schema_of e' = schema_of v"
    using upgrade_reverting [OF assms(1,2)] assms(3) by auto
  show ?thesis using v'(2) [of later] v'(1) assms(2,4) by simp
qed

theorem downgrade_restores_witness:
  "\<exists>db' db''. upgrade 10 (stocked 10 [sample_legacy_row]) = Inr db' \<and> downgrade 10 db' = Inr db''
     \<and> schema_of db'' = schema_of (stocked 10 [sample_legacy_row])"
proof -
  obtain v where v: "version 10 = Inr v" using version_exists by blast
  note s = stocked_schema [OF v, of "[sample_legacy_row]"]
  obtain db' where u: "upgrade 10 (stocked 10 [sample_legacy_row]) = Inr db'"
    using upgrade_reverting [OF v s] by blast
  show ?thesis using downgrade_restores [OF v s u refl] u by blast
qed

end
