(* ===== verification/Migration_Data.thy ===== *)
theory Migration_Data
  imports Migration_Facts
begin

section \<open>What migrating makes of the stored results\<close>

subsection \<open>Three-valued conditions and patterns\<close>

lemma holds_simps [simp]:
  "holds (or3 a b) \<longleftrightarrow> holds a \<or> holds b" "holds (and3 a b) \<longleftrightarrow> holds a \<and> holds b" "holds (Some t) \<longleftrightarrow> t"
  "holds (not3 (is_null v)) \<longleftrightarrow> v \<noteq> SNull" "holds (is_null v) \<longleftrightarrow> v = SNull" "holds (equals v n) \<longleftrightarrow> v = SInt n"
  "\<not> holds None"
  by (cases a; cases b; auto simp: holds_def or3_def and3_def not3_def is_null_def equals_def split: sql.split; fail)+














subsection \<open>Legacy results\<close>





lemma stage_in_simps:
  assumes "r ''document_checks'' = SChecks c"
  shows "holds (stage_in r ''retrieval'' sts) \<longleftrightarrow> co_status (dc_retrieval c) \<in> set sts"
    "holds (stage_in r ''parsing'' sts) \<longleftrightarrow> co_status (dc_parsing c) \<in> set sts"
    "holds (stage_in r ''signature'' sts) \<longleftrightarrow> co_status (dc_signature c) \<in> set sts"
    "holds (stage_in r ''digest'' sts) \<longleftrightarrow> co_status (dc_digest c) \<in> set sts"
  by (auto simp: stage_in_def virtual_status_def assms)

text \<open>The overall outcome in terms of the outcomes of a row.\<close>

lemma virtual_overall_checks:
  assumes "r ''document_checks'' = SChecks c"
  shows "virtual_overall r = (
     let ret = co_status (dc_retrieval c); par = co_status (dc_parsing c);
         sig = co_status (dc_signature c); dig = co_status (dc_digest c) in
     if ret \<in> {Failed, Missing} \<or> par = Failed \<or> sig = Failed \<or> dig = Failed
       \<or> ret = Passed \<and> par = Passed \<and> holds (counts_above r ''_error_count'') then Some OFailing
     else if dig = Warning \<or> ret = Passed \<and> par = Passed \<and> holds (counts_above r ''_warning_count'') then Some OWarning
     else if ret = Passed \<and> par = Passed \<and> sig \<in> {Passed, Missing} \<and> dig \<in> {Passed, Missing} then Some OPassing
     else None)"
  unfolding virtual_overall_def Let_def holds_simps stage_in_simps [of r c, OF assms] by (simp cong: if_cong)




lemma counts_above_other:
  "counts_above (r(''document_checks'' := v)) ''_error_count'' = counts_above r ''_error_count''"
  "counts_above (r(''document_checks'' := v)) ''_warning_count'' = counts_above r ''_warning_count''"
  by (simp_all add: counts_above_def)


subsection \<open>Rows through an upgrade\<close>


fun row_effect :: "string \<Rightarrow> statement \<Rightarrow> sql_row \<Rightarrow> sql_row" where
  "row_effect n (AddColumn name c) r = (if name = n then r(cl_name c := cl_default c) else r)"
| "row_effect n (UpdateRows name f) r = (if name = n then f r else r)"
| "row_effect n _ r = r"

lemma no_effect [simp]:
  "row_effect n (CreateTable ine name cs fks) = (\<lambda>r. r)" "row_effect n (CreateIndex ine i) = (\<lambda>r. r)"
  "row_effect n (DropIndex name) = (\<lambda>r. r)"
  "row_effect n (AddColumn name c) = (if name = n then (\<lambda>r. r(cl_name c := cl_default c)) else (\<lambda>r. r))"
  "row_effect n (UpdateRows name f) = (if name = n then f else (\<lambda>r. r))"
  by (simp_all add: fun_eq_iff)





lemma fold_res_run: "fold_res (\<lambda>m. run (f m)) ms = run (concat (map f ms))"
proof (intro ext)
  show "fold_res (\<lambda>m. run (f m)) ms db = run (concat (map f ms)) db" for db
    by (induction ms arbitrary: db) (auto simp: run_def fold_res_append split: sum.split)
qed









lemma fits_simps:
  "ef_name (must n ty) = n" "ef_name (opt n ty) = n"
  "fits (SInt i) (must n ty) \<longleftrightarrow> ty \<in> {I64, I32}" "fits (SText t) (must n ty) \<longleftrightarrow> ty \<in> {Str, Timestamp}"
  "fits (SChecks c) (must n ty) \<longleftrightarrow> ty = Str"
  "fits (int_value v) (opt n I64)" "fits (int_value v) (opt n I32)" "fits (text_value w) (opt n Str)"
  by (simp_all add: fits_def must_def opt_def int_value_def text_value_def split: option.split)

text \<open>
  C40. The rows in which the rest of the development keeps documents are rows of the migrated table: each
  value fits its field, the virtual columns of the stages are the statuses of its outcomes, and the
  overall column, evaluated with the three-valued logic of SQL, is the overall outcome that filters
  and summaries use.
\<close>

theorem document_rows_exact:
  "list_all (\<lambda>f. fits (row_of_document d (ef_name f)) f) document_entity
   \<and> virtual_overall (row_of_document d) = overall_status d
   \<and> virtual_status stage (row_of_document d) = stage_status stage d"
proof -
  have c: "row_of_document d ''document_checks'' = SChecks (dr_checks d)"
    by (simp add: row_of_document_def document_values_def)
  have g: "holds (greater_zero (int_value n)) \<longleftrightarrow> positive n" for n
    by (cases n) (simp_all add: greater_zero_def int_value_def positive_def)
  have n: "row_of_document d (''basic'' @ s) = int_value (f (dr_basic d))
      \<and> row_of_document d (''extended'' @ s) = int_value (f (dr_extended d))
      \<and> row_of_document d (''full'' @ s) = int_value (f (dr_full d))"
    if "(s, f) \<in> {(''_error_count'', pc_error_count), (''_warning_count'', pc_warning_count)}" for s f
    using that by (auto simp: row_of_document_def document_values_def profile_values_def)
  have counts: "holds (counts_above (row_of_document d) ''_error_count'') \<longleftrightarrow> positive (pc_error_count (dr_basic d))
      \<or> positive (pc_error_count (dr_extended d)) \<or> positive (pc_error_count (dr_full d))"
    "holds (counts_above (row_of_document d) ''_warning_count'') \<longleftrightarrow> positive (pc_warning_count (dr_basic d))
      \<or> positive (pc_warning_count (dr_extended d)) \<or> positive (pc_warning_count (dr_full d))"
    using n [of "''_error_count''" pc_error_count] n [of "''_warning_count''" pc_warning_count]
    unfolding counts_above_def holds_simps by (simp_all add: g)
  have "virtual_overall (row_of_document d) = overall_status d"
    unfolding virtual_overall_checks [of "row_of_document d", OF c] overall_status_def counts Let_def by (rule refl)
  moreover have "virtual_status stage (row_of_document d) = stage_status stage d"
    by (simp add: virtual_status_def c)
  moreover have "list_all (\<lambda>f. fits (row_of_document d (ef_name f)) f) document_entity"
    unfolding document_entity_def by (simp add: fits_simps row_of_document_def document_values_def profile_values_def)
  ultimately show ?thesis by blast
qed

end
