(* ===== verification/Spec2Isabelle.thy ===== *)
theory Spec2Isabelle
  imports Check_Outcomes Provider_Sources Path_Set Document_Facts Git_Materialize Version_Facts Git_Readback Distribution_Membership Validation_Facts Job_Facts Snapshot_Facts Pipeline_Facts Download_Facts Overview_Facts Search_Facts Overview_Cache Startup_Facts Request_Facts Read_Facts View_Facts Table_Facts Scheduling_Facts Validation_Identity Migration_Data
begin

text \<open>
  csaf-trove mirrors CSAF security advisories. For every configured provider it downloads the
  advisories that changed, commits them to a bare Git repository, validates the ones whose inputs
  changed, keeps the results in a SQLite database and publishes summaries, metrics, versions and
  searches over HTTP. This development models the server (\<open>src/server/src\<close>) with the types it shares
  with its clients (\<open>src/common\<close>), its tables (\<open>src/entity\<close>) and their schema (\<open>src/migration\<close>), and
  the computations of the dashboard (\<open>src/dashboard/src\<close>). Paths below that start with neither \<open>common\<close>
  nor \<open>dashboard\<close> are under \<open>src/server/src\<close>.

  Parts and their theories, bottom up:

  \<^item> \<open>Trove_Prelude\<close>: Rust string functions on UTF-8 byte strings, integer casts, fallible folds
    (\<open>fold_res\<close>), chunks, and the keyset-paging loop \<open>page_loop\<close> with its interface
    \<open>keyset_pages\<close>.
  \<^item> \<open>Check_Outcomes\<close> (\<open>common/src/document_checks.rs\<close>), \<open>Provider_Sources\<close>
    (\<open>models/source.rs\<close>, \<open>storage/provider.rs\<close>, \<open>pipeline/aggregator.rs\<close>), \<open>Path_Set\<close>
    (\<open>storage/path_set.rs\<close>).
  \<^item> The database of a provider: \<open>Provider_Db\<close> (tables and their invariant), \<open>Document_Store\<close>
    (writes), \<open>Document_Queries\<close> (reads), \<open>Document_Summary\<close> (aggregates) for
    \<open>storage/documents.rs\<close> and \<open>storage/processing.rs\<close>; facts in \<open>Document_Invariants\<close> and
    \<open>Document_Facts\<close>; \<open>Distribution_Membership\<close> (\<open>storage/membership.rs\<close>,
    \<open>pipeline/membership.rs\<close>); \<open>Version_Records\<close> with \<open>Version_Facts\<close> (\<open>storage/versions.rs\<close>).
  \<^item> The schema of that database: \<open>Schema_Sql\<close> (statements on tables with rows, \<open>NULL\<close> and \<open>LIKE\<close>),
    \<open>Schema_Migrations\<close> (\<open>migration/src\<close> up and down, the fields of \<open>entity/src\<close>) with
    \<open>Migration_Facts\<close> (versions) and \<open>Migration_Data\<close> (converted results, virtual columns).
  \<^item> The repository of a provider: \<open>Git_Objects\<close> and \<open>Git_Diff_Cache\<close> (\<open>storage/git_changes.rs\<close>),
    \<open>Git_History\<close>, \<open>Git_Selection\<close>, \<open>Git_Materialize\<close> (\<open>storage/git_processing.rs\<close>),
    \<open>Advisory_Paths\<close>, \<open>Json_Content\<close> (\<open>storage/content.rs\<close> and the JSON readers of
    \<open>storage/git_repo.rs\<close> and \<open>storage/mod.rs\<close>), \<open>Git_Worktree\<close> with \<open>Git_Publish\<close> and
    \<open>Git_Readback\<close> (\<open>storage/git_repo.rs\<close>). Trees and commits are modelled by value.
  \<^item> Validation: \<open>Document_Validation\<close> with \<open>Validation_Facts\<close> (\<open>pipeline/validate.rs\<close>,
    \<open>pipeline/source.rs\<close>).
  \<^item> Jobs: \<open>Job_Tracking\<close> with \<open>Job_Facts\<close> (\<open>models/state.rs\<close>, \<open>main.rs\<close>, \<open>api/sync.rs\<close> and the
    progress bridge of \<open>scheduler/runner.rs\<close>), a step relation for the scheduler.
  \<^item> The download: \<open>Download_Store\<close> with \<open>Download_Facts\<close> (\<open>pipeline/store.rs\<close>, the visitors and
    callbacks of \<open>pipeline/sync.rs\<close>): the worktree as a directory tree, the walk as the sequence of
    calls the walker makes.
  \<^item> The pipeline: \<open>Provider_Metrics\<close> (\<open>models/metrics.rs\<close>, \<open>pipeline/report.rs\<close>),
    \<open>Provider_Store\<close> (\<open>storage/mod.rs\<close>: one provider's database, repository and files),
    \<open>Provider_Programs\<close> (fallible programs and their triples), \<open>Snapshot_Processing\<close>
    (\<open>scheduler/runner.rs\<close>, \<open>sync_provider\<close>) with \<open>Snapshot_Facts\<close> and \<open>Pipeline_Facts\<close>;
    \<open>Validation_Identity\<close> (\<open>scheduler/runner/validation_identity.rs\<close>, \<open>validator_identity\<close>).
  \<^item> All providers: \<open>Instance_Store\<close> (\<open>storage/mod.rs\<close>, \<open>storage/db.rs\<close>, \<open>storage/cache.rs\<close>,
    \<open>storage/results.rs\<close>, \<open>storage/state.rs\<close>: directories, connections, the summary index, the search
    cache, deletion) with \<open>Instance_Facts\<close> and \<open>Search_Facts\<close>; \<open>Instance_Overview\<close>
    (\<open>api/overview.rs\<close>, \<open>api/providers.rs\<close>, \<open>storage/usage.rs\<close>) with \<open>Overview_Facts\<close>;
    \<open>Overview_Cache\<close> (\<open>storage/overview.rs\<close>).
  \<^item> The server: \<open>Source_Config\<close> (\<open>config_sync.rs\<close>, the sources in \<open>main.rs\<close>), \<open>Server_Startup\<close> with
    \<open>Startup_Facts\<close> (\<open>startup.rs\<close>), \<open>Job_Scheduling\<close> with \<open>Scheduling_Facts\<close>
    (\<open>scheduler/mod.rs\<close>, \<open>hooks.rs\<close>).
  \<^item> Requests: \<open>Request_Handling\<close> with \<open>Request_Facts\<close> (\<open>rate_limit.rs\<close>, the gate of \<open>startup.rs\<close>,
    \<open>api/auth.rs\<close>, \<open>api/error.rs\<close> and the handlers that change state); \<open>Read_Api\<close> with
    \<open>Read_Facts\<close> (the handlers and MCP tools and resources that read: \<open>api/providers.rs\<close>,
    \<open>api/vulnerabilities.rs\<close>, \<open>mcp/tools.rs\<close>, \<open>mcp/resources.rs\<close>).
  \<^item> The dashboard: \<open>Diff_Views\<close> with \<open>View_Facts\<close> (\<open>components/diff_view.rs\<close>,
    \<open>components/pagination.rs\<close>, \<open>format.rs\<close>); \<open>Table_Views\<close> with \<open>Table_Facts\<close> (\<open>pages/home.rs\<close>,
    the test order of \<open>pages/document.rs\<close>, \<open>components/document_checks.rs\<close>).

  How they interact. A job (\<open>run_job\<close>) prepares a worktree over the repository, lets the walker
  fill it, commits it, and processes the new head: selection compares the head with the checkpoint
  of the last pass through the bounded diff cache and path sets, extraction writes the selected
  advisories, validation stores one row for each, versions are recorded from the history, and the
  summary and the metrics are rebuilt from the database. The checkpoint and the token of the next
  download are published last. Jobs are started by a scheduled pass over the configured sources or by
  an authorized request; when one ends its event reaches the hooks, which reload the provider in the
  index of summaries and drop cached searches and the overview. Requests pass the startup gate and the
  rate limiter; readers see databases through the connection pool, the index and the caches.

  What the lemmas show. The store theorems give every write as an update of the map from URLs to
  rows and keep \<open>db_inv\<close>; the migration theorems give every version of the schema its way to the
  current one and back and tie the migrated table to the rows of the model; the read theorems relate filters, pages, counters and summaries. The
  repository theorems relate the pruned, cached comparison to the difference of the files, the
  selection to the history, the extraction to the committed contents and a commit to the overlay of
  the downloaded files. The pipeline theorems compose these: nothing is lost by an incremental
  pass, progress is published last, summaries follow the results, and every job ends. The theorems
  about all providers say that caches cannot be told from what they cache: the index agrees with the
  files under every interleaving of its operations (\<open>index_step\<close>), the overview is never older than
  its last invalidation, searches merge bounded answers into the best ones, readers do not influence
  each other. The theorems about the server say that a restart restores what a finished job left,
  sources follow the repository, a pass runs every provider once within its limit, hooks lose no
  event, and only authorized requests change anything. The theorems about the dashboard say that diffs
  are shown completely and numbers agree with the lists they link to. Interfaces are locales:
  \<open>keyset_pages\<close> (interpreted for path sets), \<open>pass_results\<close> and \<open>pass_invariant\<close> (what each database
  write of a pass keeps, the pass keeps), \<open>commuting_fold\<close> (aggregates that do not depend on the order
  of providers), \<open>best_of\<close> (the best elements of lists merged from their best), \<open>comparator\<close> (what a
  comparison needs for sorting with it).

  Bounds. Integers are kept at their width where the code wraps or casts (\<open>Job_Tracking\<close>,
  \<open>Trove_Prelude\<close>), else they are \<open>nat\<close> or \<open>int\<close>; floating point rates are reals. Loops over cursor
  pages are \<open>partial_function (option)\<close>; that they end is proved (\<open>keyset_pages\<close>,
  \<open>page_loop_ends\<close>). No fuel is used.

  Parameters. libgit2, SHA-256, zstd, serde_json, the URL parser, the CSAF validator with its
  OpenPGP library, the HTTP walker and the clock are arguments of the definitions, in records
  (\<open>git_env\<close>, \<open>git_lib\<close>, \<open>validator_lib\<close>, \<open>snapshot_env\<close>, \<open>pipeline_env\<close>, \<open>source_env\<close>,
  \<open>request_env\<close>, \<open>view_env\<close>, \<open>identity_env\<close>), as are the keyed rate limiter (\<open>governor\<close>), the IP
  address parser, percent-decoding and the order in which concurrent queries answer. What the code relies on
  is stated as named hypotheses (\<open>libgit2_diff\<close>, \<open>object_store\<close>, \<open>index_add_ok\<close>, \<open>commits_ok\<close>),
  each with an instance in a witness.

  Not modelled: markup, signals, browser requests and floating-point formatting of the dashboard; HTTP
  routing, serialization and the schemas of the MCP tools; WebSocket notification; logging and memory
  sampling; Git maintenance (repacking by the \<open>git\<close> binary); timers, eviction by time or capacity and
  the cleanup of idle rate-limit budgets, which only drop what is recomputed; and the record of applied
  migrations, kept by the migration library. SQLite is modelled by its tables; disk errors appear as
  the fault of a step.
\<close>

end
